(* ===== verification/Prelude.thy ===== *)
theory Prelude
  imports Main "HOL-Library.Word" "HOL-Library.Char_ord" "HOL-Library.List_Lexorder"
    "HOL-Library.Sublist"
begin

text \<open>
  Shared vocabulary of the development: the types the components use for Rust values, the
  fallible-result combinators (\<open>Result\<close> with \<open>?\<close>, \<open>map_err\<close>, \<open>ok_or_else\<close>), and the generic
  facts on lists, chunks and separators that the component proofs rest on.

  A Rust \<open>str\<close>, \<open>String\<close> or byte slice is a HOL \<open>string\<close>: HOL characters are exactly the 256
  bytes, so a \<open>string\<close> is the byte sequence of the Rust value and the lexicographic order of
  \<open>List_Lexorder\<close> over \<open>Char_ord\<close> is Rust's order on byte strings.  A \<open>u64\<close> is a \<open>64 word\<close>.
\<close>

type_synonym u8 = "8 word"
type_synonym u32 = "32 word"
type_synonym u64 = "64 word"
type_synonym bytes = string

named_theorems rust_std \<open>defining equations of the modelled standard-library operations\<close>
named_theorems key_defs \<open>defining equations of the storage-key builders\<close>
named_theorems codec_defs \<open>defining equations of the record encoders and decoders\<close>

subsection \<open>Results\<close>

text \<open>\<open>Result<T, E>\<close> is \<open>'e + 'a\<close>; the question-mark operator is \<open>and_then\<close>.\<close>

definition and_then :: "'e + 'a \<Rightarrow> ('a \<Rightarrow> 'e + 'b) \<Rightarrow> 'e + 'b" where
  "and_then r f = (case r of Inl e \<Rightarrow> Inl e | Inr x \<Rightarrow> f x)"

definition map_err :: "('e \<Rightarrow> 'f) \<Rightarrow> 'e + 'a \<Rightarrow> 'f + 'a" where
  "map_err g r = (case r of Inl e \<Rightarrow> Inl (g e) | Inr x \<Rightarrow> Inr x)"

definition map_ok :: "('a \<Rightarrow> 'b) \<Rightarrow> 'e + 'a \<Rightarrow> 'e + 'b" where
  "map_ok f r = (case r of Inl e \<Rightarrow> Inl e | Inr x \<Rightarrow> Inr (f x))"

definition ok_or :: "'e \<Rightarrow> 'a option \<Rightarrow> 'e + 'a" where
  "ok_or e m = (case m of None \<Rightarrow> Inl e | Some x \<Rightarrow> Inr x)"

definition is_ok :: "'e + 'a \<Rightarrow> bool" where
  "is_ok r = (case r of Inl _ \<Rightarrow> False | Inr _ \<Rightarrow> True)"

lemma and_then_simps [simp]:
  "and_then (Inl e) f = Inl e"
  "and_then (Inr x) f = f x"
  by (simp_all add: and_then_def)

lemma map_err_simps [simp]:
  "map_err g (Inl e) = Inl (g e)"
  "map_err g (Inr x) = Inr x"
  by (simp_all add: map_err_def)

lemma map_ok_simps [simp]:
  "map_ok f (Inl e) = Inl e"
  "map_ok f (Inr x) = Inr (f x)"
  by (simp_all add: map_ok_def)

lemma ok_or_simps [simp]:
  "ok_or e None = Inl e"
  "ok_or e (Some x) = Inr x"
  by (simp_all add: ok_or_def)

lemma is_ok_simps [simp]:
  "is_ok (Inl e) = False"
  "is_ok (Inr x) = True"
  by (simp_all add: is_ok_def)

lemma and_then_eq_Inr: "and_then r f = Inr y \<longleftrightarrow> (\<exists>x. r = Inr x \<and> f x = Inr y)"
  by (cases r) auto

lemma map_err_eq_Inr [simp]: "map_err g r = Inr y \<longleftrightarrow> r = Inr y"
  by (cases r) auto

lemma map_ok_eq_Inr: "map_ok f r = Inr y \<longleftrightarrow> (\<exists>x. r = Inr x \<and> y = f x)"
  by (cases r) auto

lemma ok_or_eq_Inr [simp]: "ok_or e m = Inr y \<longleftrightarrow> m = Some y"
  by (cases m) auto

text \<open>A loop with early return over a list: the fold that stops at the first error.\<close>

fun fold_res :: "('s \<Rightarrow> 'a \<Rightarrow> 'e + 's) \<Rightarrow> 's \<Rightarrow> 'a list \<Rightarrow> 'e + 's" where
  "fold_res f s [] = Inr s"
| "fold_res f s (x # xs) = and_then (f s x) (\<lambda>s'. fold_res f s' xs)"

lemma fold_res_append:
  "fold_res f s (xs @ ys) = and_then (fold_res f s xs) (\<lambda>s'. fold_res f s' ys)"
  by (induction xs arbitrary: s) (auto simp: and_then_def split: sum.splits)

lemma fold_res_all_ok:
  "(\<And>s x. x \<in> set xs \<Longrightarrow> f s x = Inr (g s x)) \<Longrightarrow> fold_res f s xs = Inr (foldl g s xs)"
  by (induction xs arbitrary: s) auto

text \<open>\<open>collect::<Result<Vec<_>, _>>()\<close> over a mapped iterator.\<close>

fun map_res :: "('a \<Rightarrow> 'e + 'b) \<Rightarrow> 'a list \<Rightarrow> 'e + 'b list" where
  "map_res f [] = Inr []"
| "map_res f (x # xs) = and_then (f x) (\<lambda>y. map_ok (\<lambda>ys. y # ys) (map_res f xs))"

lemma map_res_all_ok:
  "(\<And>x. x \<in> set xs \<Longrightarrow> f x = Inr (g x)) \<Longrightarrow> map_res f xs = Inr (map g xs)"
  by (induction xs) auto

lemma map_res_length: "map_res f xs = Inr ys \<Longrightarrow> length ys = length xs"
  by (induction xs arbitrary: ys) (auto simp: and_then_eq_Inr map_ok_eq_Inr)

subsection \<open>Separated text\<close>

text \<open>\<open>str::split(c)\<close>: always at least one part; a leading or trailing separator gives an empty one.\<close>

fun split_char :: "char \<Rightarrow> string \<Rightarrow> string list" where
  "split_char c [] = [[]]"
| "split_char c (x # xs) =
     (if x = c then [] # split_char c xs
      else (case split_char c xs of p # ps \<Rightarrow> (x # p) # ps | [] \<Rightarrow> [[x]]))"

text \<open>\<open>parts.join(c)\<close>.\<close>

fun join_char :: "char \<Rightarrow> string list \<Rightarrow> string" where
  "join_char c [] = []"
| "join_char c [p] = p"
| "join_char c (p # q # ps) = p @ c # join_char c (q # ps)"

lemma split_char_ne [simp]: "split_char c xs \<noteq> []"
  by (induction xs) (auto split: list.splits)

lemma split_char_free: "c \<notin> set xs \<Longrightarrow> split_char c xs = [xs]"
  by (induction xs) auto

lemma split_char_append:
  "c \<notin> set xs \<Longrightarrow> split_char c (xs @ c # ys) = xs # split_char c ys"
  by (induction xs) auto

lemma join_char_split [simp]: "join_char c (split_char c xs) = xs"
proof (induction xs)
  case (Cons x xs)
  obtain p ps where "split_char c xs = p # ps"
    by (cases "split_char c xs") auto
  with Cons show ?case by (cases ps) auto
qed simp

lemma split_join_char:
  "ps \<noteq> [] \<Longrightarrow> (\<forall>p \<in> set ps. c \<notin> set p) \<Longrightarrow> split_char c (join_char c ps) = ps"
  by (induction c ps rule: join_char.induct) (auto simp: split_char_free split_char_append)

lemma join_char_inj:
  assumes "join_char c ps = join_char c qs" "ps \<noteq> []" "qs \<noteq> []"
    and "\<forall>p \<in> set ps. c \<notin> set p" "\<forall>q \<in> set qs. c \<notin> set q"
  shows "ps = qs"
  by (metis assms split_join_char)

lemma split_char_parts_free: "p \<in> set (split_char c xs) \<Longrightarrow> c \<notin> set p"
  by (induction xs arbitrary: p) (force split: list.splits if_splits)+

lemma join_char_Cons: "ps \<noteq> [] \<Longrightarrow> join_char c (p # ps) = p @ c # join_char c ps"
  by (cases ps) auto

text \<open>A prefix that ends in the separator selects exactly the strings with those leading parts.\<close>

lemma prefix_join_char:
  assumes "\<forall>p \<in> set ps. c \<notin> set p" "\<forall>q \<in> set qs. c \<notin> set q" "qs \<noteq> []"
  shows "prefix (concat (map (\<lambda>p. p @ [c]) ps)) (join_char c qs)
           \<longleftrightarrow> length ps < length qs \<and> take (length ps) qs = ps"
  using assms
proof (induction ps arbitrary: qs)
  case (Cons p ps)
  obtain q rest where qs: "qs = q # rest" using Cons.prems by (cases qs) auto
  show ?case
  proof (cases rest)
    case Nil
    have "\<not> prefix (p @ c # concat (map (\<lambda>p. p @ [c]) ps)) q"
      using Cons.prems qs by (auto simp: prefix_def)
    then show ?thesis using Nil qs by simp
  next
    case (Cons r rs)
    have free: "c \<notin> set p" "c \<notin> set q" using Cons.prems qs by auto
    have eq: "prefix (p @ c # xs) (q @ c # ys) \<longleftrightarrow> p = q \<and> prefix xs ys" for xs ys
    proof
      assume "prefix (p @ c # xs) (q @ c # ys)"
      then obtain zs where z: "q @ c # ys = p @ c # (xs @ zs)" by (auto simp: prefix_def)
      then have "split_char c (q @ c # ys) = split_char c (p @ c # (xs @ zs))" by simp
      then have "p = q" using free by (simp add: split_char_append)
      with z show "p = q \<and> prefix xs ys" by (auto simp: prefix_def)
    qed (auto simp: prefix_def)
    have "join_char c qs = q @ c # join_char c rest"
      using qs Cons by simp
    then show ?thesis
      using eq Cons.IH [of rest] Cons.prems qs \<open>rest = r # rs\<close> by auto
  qed
qed simp

subsection \<open>Fixed-width chunks\<close>

text \<open>\<open>as_chunks::<N>().0\<close>: the complete chunks of width \<open>n\<close>, the remainder dropped.\<close>

function as_chunks :: "nat \<Rightarrow> 'a list \<Rightarrow> 'a list list" where
  "as_chunks n xs = (if n = 0 \<or> length xs < n then [] else take n xs # as_chunks n (drop n xs))"
  by pat_completeness auto
termination
  by (relation "measure (\<lambda>(n, xs). length xs)") auto

declare as_chunks.simps [simp del]

lemma as_chunks_short: "length xs < n \<Longrightarrow> as_chunks n xs = []"
  by (simp add: as_chunks.simps)

lemma as_chunks_append:
  "0 < n \<Longrightarrow> length xs = n \<Longrightarrow> as_chunks n (xs @ ys) = xs # as_chunks n ys"
  by (subst as_chunks.simps) simp

lemma as_chunks_concat:
  "0 < n \<Longrightarrow> (\<forall>x \<in> set xs. length (f x) = n) \<Longrightarrow> as_chunks n (concat (map f xs)) = map f xs"
  by (induction xs) (auto simp: as_chunks_short as_chunks_append)

lemma length_as_chunks: "0 < n \<Longrightarrow> length (as_chunks n xs) = length xs div n"
proof (induction n xs rule: as_chunks.induct)
  case (1 n xs)
  show ?case
  proof (cases "length xs < n")
    case True
    then show ?thesis by (simp add: as_chunks_short)
  next
    case False
    then have "length (as_chunks n (drop n xs)) = length (drop n xs) div n"
      using 1 by simp
    then show ?thesis
      using False "1.prems" by (subst as_chunks.simps) (simp add: le_div_geq)
  qed
qed

lemma as_chunks_width: "ys \<in> set (as_chunks n xs) \<Longrightarrow> length ys = n"
proof (induction n xs rule: as_chunks.induct)
  case (1 n xs)
  then show ?case
    by (auto simp: as_chunks.simps [of n xs] split: if_splits)
qed

subsection \<open>Lexicographic order on strings of equal shape\<close>

lemma less_string_append_same [simp]: "(xs @ ys < xs @ zs) \<longleftrightarrow> (ys < (zs :: string))"
  by (induction xs) auto

lemma less_string_append:
  "length xs = length xs' \<Longrightarrow>
    (xs @ ys < xs' @ (ys' :: string)) \<longleftrightarrow> xs < xs' \<or> (xs = xs' \<and> ys < ys')"
  by (induction xs xs' rule: list_induct2) auto

lemma le_string_append_same [simp]: "(xs @ ys \<le> xs @ zs) \<longleftrightarrow> (ys \<le> (zs :: string))"
  by (induction xs) auto

end
