(* ===== verification/Rust_Std.thy ===== *)
theory Rust_Std
  imports Prelude
begin

unbundle bit_operations_syntax

text \<open>
  The parts of the Rust standard library the modelled code calls: checked, saturating and
  wrapping \<open>u64\<close> arithmetic, big- and little-endian bytes, decimal and hexadecimal formatting
  with zero padding, \<open>parse::<u64>\<close> / \<open>from_str_radix\<close> with their error messages,
  \<open>str::from_utf8\<close>, \<open>lines\<close>, \<open>split_once\<close>, \<open>strip_prefix\<close> and \<open>trim_end_matches\<close>.
  Each comes with the fact its callers need: printing and parsing are inverse, padded numbers
  are ordered as numbers, byte encodings are inverse.
\<close>

subsection \<open>Arithmetic on u64\<close>

definition u64_max :: u64 where
  "u64_max = 18446744073709551615"

definition checked_add_u64 :: "u64 \<Rightarrow> u64 \<Rightarrow> u64 option" where
  "checked_add_u64 a b = (if unat a + unat b < 2 ^ 64 then Some (a + b) else None)"

definition saturating_add_u64 :: "u64 \<Rightarrow> u64 \<Rightarrow> u64" where
  "saturating_add_u64 a b = (if unat a + unat b < 2 ^ 64 then a + b else u64_max)"

definition saturating_sub_u64 :: "u64 \<Rightarrow> u64 \<Rightarrow> u64" where
  "saturating_sub_u64 a b = (if b \<le> a then a - b else 0)"

lemma unat_u64_bound: "unat (a :: u64) < 2 ^ 64"
  using unsigned_less [of a] by simp

lemma unat_u64_less: "unat (a :: u64) < 18446744073709551616"
  using unat_u64_bound [of a] by simp

lemma unat_u64_max [simp]: "unat u64_max = 2 ^ 64 - 1"
  by (simp add: u64_max_def)

lemma le_u64_max [simp]: "(a :: u64) \<le> u64_max"
  using unat_u64_less [of a] by (simp add: word_le_nat_alt)

lemma unat_of_nat_u64: "n < 2 ^ 64 \<Longrightarrow> unat (of_nat n :: u64) = n"
  by (simp add: unat_of_nat)

lemma unat_saturating_add_u64:
  "unat (saturating_add_u64 a b) = min (unat a + unat b) (2 ^ 64 - 1)"
  using unat_add_lem [of a b] by (auto simp: saturating_add_u64_def)

lemma unat_saturating_sub_u64: "unat (saturating_sub_u64 a b) = unat a - unat b"
  by (auto simp: saturating_sub_u64_def unat_sub word_le_nat_alt)

lemma checked_add_u64_Some: "checked_add_u64 a b = Some c \<Longrightarrow> unat c = unat a + unat b"
  using unat_add_lem [of a b] by (auto simp: checked_add_u64_def split: if_splits)

subsection \<open>Integers as bytes\<close>

definition byte_of_nat :: "nat \<Rightarrow> char" where
  "byte_of_nat n = char_of n"

definition nat_of_byte :: "char \<Rightarrow> nat" where
  "nat_of_byte c = of_char c"

lemma nat_of_byte_less: "nat_of_byte c < 256"
  by (simp add: nat_of_byte_def)

lemma nat_of_byte_mod [simp]: "nat_of_byte c mod 256 = nat_of_byte c"
  by (simp add: nat_of_byte_less)

lemma nat_of_byte_div [simp]: "nat_of_byte c div 256 = 0"
  by (simp add: nat_of_byte_less)

lemma nat_of_byte_inject [simp]: "nat_of_byte c = nat_of_byte d \<longleftrightarrow> c = d"
  by (simp add: nat_of_byte_def)

lemma nat_byte_inverse [simp]: "n < 256 \<Longrightarrow> nat_of_byte (byte_of_nat n) = n"
  by (simp add: nat_of_byte_def byte_of_nat_def)

lemma byte_nat_inverse [simp]: "byte_of_nat (nat_of_byte c) = c"
  by (simp add: nat_of_byte_def byte_of_nat_def)

fun be_bytes :: "nat \<Rightarrow> nat \<Rightarrow> bytes" where
  "be_bytes 0 n = []"
| "be_bytes (Suc k) n = byte_of_nat (n div 256 ^ k mod 256) # be_bytes k n"

fun le_bytes :: "nat \<Rightarrow> nat \<Rightarrow> bytes" where
  "le_bytes 0 n = []"
| "le_bytes (Suc k) n = byte_of_nat (n mod 256) # le_bytes k (n div 256)"

fun of_be_bytes :: "nat \<Rightarrow> bytes \<Rightarrow> nat" where
  "of_be_bytes acc [] = acc"
| "of_be_bytes acc (c # cs) = of_be_bytes (acc * 256 + nat_of_byte c) cs"

fun of_le_bytes :: "bytes \<Rightarrow> nat" where
  "of_le_bytes [] = 0"
| "of_le_bytes (c # cs) = nat_of_byte c + 256 * of_le_bytes cs"

definition to_be_bytes :: "u64 \<Rightarrow> bytes" where
  "to_be_bytes w = be_bytes 8 (unat w)"

definition to_le_bytes :: "u64 \<Rightarrow> bytes" where
  "to_le_bytes w = le_bytes 8 (unat w)"

definition from_be_bytes :: "bytes \<Rightarrow> u64" where
  "from_be_bytes bs = of_nat (of_be_bytes 0 bs)"

definition from_le_bytes :: "bytes \<Rightarrow> u64" where
  "from_le_bytes bs = of_nat (of_le_bytes bs)"

lemma length_be_bytes [simp]: "length (be_bytes k n) = k"
  by (induction k) auto

lemma length_le_bytes [simp]: "length (le_bytes k n) = k"
  by (induction k arbitrary: n) auto

lemma length_to_be_bytes [simp]: "length (to_be_bytes w) = 8"
  by (simp add: to_be_bytes_def)

lemma length_to_le_bytes [simp]: "length (to_le_bytes w) = 8"
  by (simp add: to_le_bytes_def)

lemma of_be_be_bytes: "of_be_bytes acc (be_bytes k n) = acc * 256 ^ k + n mod 256 ^ k"
proof (induction k arbitrary: acc)
  case (Suc k)
  have "n mod 256 ^ Suc k = (n div 256 ^ k mod 256) * 256 ^ k + n mod 256 ^ k"
    using mod_mult2_eq [of n "256 ^ k" 256] by (simp add: mult.commute)
  then show ?case by (simp add: Suc algebra_simps)
qed simp

lemma of_le_le_bytes: "of_le_bytes (le_bytes k n) = n mod 256 ^ k"
  by (induction k arbitrary: n) (auto simp: mod_mult2_eq)

lemma from_to_be_bytes [simp]: "from_be_bytes (to_be_bytes w) = w"
  using unat_u64_less [of w] by (simp add: from_be_bytes_def to_be_bytes_def of_be_be_bytes)

lemma from_to_le_bytes [simp]: "from_le_bytes (to_le_bytes w) = w"
  using unat_u64_less [of w] by (simp add: from_le_bytes_def to_le_bytes_def of_le_le_bytes)

lemma of_be_bytes_less: "of_be_bytes acc bs < (acc + 1) * 256 ^ length bs"
proof (induction bs arbitrary: acc)
  case (Cons c cs)
  have "of_be_bytes acc (c # cs) < (acc * 256 + nat_of_byte c + 1) * 256 ^ length cs"
    using Cons by simp
  also have "\<dots> \<le> ((acc + 1) * 256) * 256 ^ length cs"
    using nat_of_byte_less [of c] by (intro mult_right_mono) auto
  finally show ?case by (simp add: algebra_simps)
qed simp

lemma be_of_be_bytes: "be_bytes (length bs) (of_be_bytes acc bs) = bs"
proof (induction bs arbitrary: acc)
  case (Cons c cs)
  have lt: "of_be_bytes 0 cs < 256 ^ length cs"
    using of_be_bytes_less [of 0 cs] by simp
  have split: "of_be_bytes a cs = a * 256 ^ length cs + of_be_bytes 0 cs" for a
  proof (induction cs arbitrary: a)
    case (Cons d ds)
    show ?case
      using Cons [of "a * 256 + nat_of_byte d"] Cons [of "nat_of_byte d"]
      by (simp add: algebra_simps)
  qed simp
  have "of_be_bytes (acc * 256 + nat_of_byte c) cs div 256 ^ length cs
          = acc * 256 + nat_of_byte c"
    using lt by (simp add: split [of "acc * 256 + nat_of_byte c"])
  then show ?case
    using Cons.IH [of "acc * 256 + nat_of_byte c"] by (simp add: mod_mult_self3)
qed simp

lemma to_from_be_bytes: "length bs = 8 \<Longrightarrow> to_be_bytes (from_be_bytes bs) = bs"
  using of_be_bytes_less [of 0 bs] be_of_be_bytes [of bs 0]
  by (simp add: to_be_bytes_def from_be_bytes_def unat_of_nat_u64)

lemma le_of_le_bytes: "le_bytes (length bs) (of_le_bytes bs) = bs"
  by (induction bs) auto

lemma of_le_bytes_less: "of_le_bytes bs < 256 ^ length bs"
proof (induction bs)
  case (Cons c cs)
  then show ?case using nat_of_byte_less [of c] by simp
qed simp

lemma to_from_le_bytes: "length bs = 8 \<Longrightarrow> to_le_bytes (from_le_bytes bs) = bs"
  using of_le_bytes_less [of bs] le_of_le_bytes [of bs]
  by (simp add: to_le_bytes_def from_le_bytes_def unat_of_nat_u64)

lemma to_be_bytes_inject [simp]: "to_be_bytes a = to_be_bytes b \<longleftrightarrow> a = b"
  by (metis from_to_be_bytes)

lemma to_le_bytes_inject [simp]: "to_le_bytes a = to_le_bytes b \<longleftrightarrow> a = b"
  by (metis from_to_le_bytes)

subsection \<open>Formatting numbers\<close>

definition digit_char :: "nat \<Rightarrow> char" where
  "digit_char d = (if d < 10 then byte_of_nat (48 + d) else byte_of_nat (87 + d))"

fun show_radix :: "nat \<Rightarrow> nat \<Rightarrow> string" where
  "show_radix r n =
     (if n < r \<or> r < 2 then [digit_char n]
      else show_radix r (n div r) @ [digit_char (n mod r)])"

declare show_radix.simps [simp del]

text \<open>\<open>{n:0w}\<close>: pad on the left with zeros to width \<open>w\<close>; a longer number is not cut.\<close>

definition zero_pad :: "nat \<Rightarrow> string \<Rightarrow> string" where
  "zero_pad w s = replicate (w - length s) (CHR ''0'') @ s"

definition show_nat :: "nat \<Rightarrow> string" where
  "show_nat n = show_radix 10 n"

definition show_u64 :: "u64 \<Rightarrow> string" where
  "show_u64 w = show_nat (unat w)"

definition show_i64 :: "u64 \<Rightarrow> string" where
  "show_i64 w = (if sint w < 0 then CHR ''-'' # show_nat (nat (- sint w)) else show_nat (nat (sint w)))"

definition pad20 :: "u64 \<Rightarrow> string" where
  "pad20 w = zero_pad 20 (show_u64 w)"

definition hex16 :: "u64 \<Rightarrow> string" where
  "hex16 w = zero_pad 16 (show_radix 16 (unat w))"

subsection \<open>Parsing numbers\<close>

datatype parse_int_error = IntEmpty | InvalidDigit | PosOverflow | NegOverflow

fun show_parse_int_error :: "parse_int_error \<Rightarrow> string" where
  "show_parse_int_error IntEmpty = ''cannot parse integer from empty string''"
| "show_parse_int_error InvalidDigit = ''invalid digit found in string''"
| "show_parse_int_error PosOverflow = ''number too large to fit in target type''"
| "show_parse_int_error NegOverflow = ''number too small to fit in target type''"

definition to_digit :: "nat \<Rightarrow> char \<Rightarrow> nat option" where
  "to_digit r c =
     (let b = nat_of_byte c;
          d = (if 48 \<le> b \<and> b \<le> 57 then Some (b - 48)
               else if 97 \<le> b \<and> b \<le> 122 then Some (b - 87)
               else if 65 \<le> b \<and> b \<le> 90 then Some (b - 55) else None)
      in case d of None \<Rightarrow> None | Some v \<Rightarrow> if v < r then Some v else None)"

text \<open>
  The digit loop of \<open>from_str_radix\<close>: each digit is checked before the accumulator, so an
  invalid digit is reported unless an earlier digit already overflowed \<open>lim\<close>.
\<close>

fun parse_digits :: "parse_int_error \<Rightarrow> nat \<Rightarrow> nat \<Rightarrow> nat \<Rightarrow> string \<Rightarrow> parse_int_error + nat" where
  "parse_digits ov r lim acc [] = Inr acc"
| "parse_digits ov r lim acc (c # cs) =
     (case to_digit r c of
        None \<Rightarrow> Inl InvalidDigit
      | Some d \<Rightarrow> if acc * r + d \<le> lim then parse_digits ov r lim (acc * r + d) cs else Inl ov)"

definition from_str_radix_u64 :: "nat \<Rightarrow> string \<Rightarrow> parse_int_error + u64" where
  "from_str_radix_u64 r s =
     (case s of
        [] \<Rightarrow> Inl IntEmpty
      | c # cs \<Rightarrow>
          if cs = [] \<and> (c = CHR ''+'' \<or> c = CHR ''-'') then Inl InvalidDigit
          else map_ok of_nat
                 (parse_digits PosOverflow r (2 ^ 64 - 1) 0 (if c = CHR ''+'' then cs else s)))"

definition parse_str_u64 :: "string \<Rightarrow> parse_int_error + u64" where
  "parse_str_u64 s = from_str_radix_u64 10 s"

text \<open>\<open>parse::<i64>\<close>; the value is the two's-complement word.\<close>

definition parse_str_i64 :: "string \<Rightarrow> parse_int_error + u64" where
  "parse_str_i64 s =
     (case s of
        [] \<Rightarrow> Inl IntEmpty
      | c # cs \<Rightarrow>
          if cs = [] \<and> (c = CHR ''+'' \<or> c = CHR ''-'') then Inl InvalidDigit
          else if c = CHR ''-'' then
            map_ok (\<lambda>n. - of_nat n) (parse_digits NegOverflow 10 (2 ^ 63) 0 cs)
          else map_ok of_nat
                 (parse_digits PosOverflow 10 (2 ^ 63 - 1) 0 (if c = CHR ''+'' then cs else s)))"

subsubsection \<open>Printed numbers parse back\<close>

lemma digit_char_0: "digit_char 0 = CHR ''0''"
  by code_simp

lemma to_digit_char:
  assumes "d < r" "r \<le> 36"
  shows "to_digit r (digit_char d) = Some d"
proof (cases "d < 10")
  case True
  then have "nat_of_byte (digit_char d) = 48 + d" by (simp add: digit_char_def)
  then show ?thesis using True assms by (simp add: to_digit_def)
next
  case False
  then have "nat_of_byte (digit_char d) = 87 + d" using assms by (simp add: digit_char_def)
  then show ?thesis using False assms by (simp add: to_digit_def)
qed

lemma digit_char_inj:
  assumes "d < 36" "e < 36" "digit_char d = digit_char e"
  shows "d = e"
  by (metis assms option.inject order_refl to_digit_char)

lemma show_radix_ne [simp]: "show_radix r n \<noteq> []"
  by (subst show_radix.simps) simp

lemma parse_digits_append:
  "parse_digits ov r lim acc (xs @ ys) =
     and_then (parse_digits ov r lim acc xs) (\<lambda>a. parse_digits ov r lim a ys)"
  by (induction xs arbitrary: acc) (auto split: option.splits)

lemma parse_digits_zeros:
  "0 < r \<Longrightarrow> r \<le> 36 \<Longrightarrow>
    parse_digits ov r lim 0 (replicate k (CHR ''0'') @ s) = parse_digits ov r lim 0 s"
proof (induction k)
  case (Suc k)
  have "to_digit r (CHR ''0'') = Some 0"
    using to_digit_char [of 0 r] Suc.prems by (simp add: digit_char_0)
  with Suc show ?case by simp
qed simp

lemma parse_show_radix:
  "2 \<le> r \<Longrightarrow> r \<le> 36 \<Longrightarrow> n \<le> lim \<Longrightarrow> parse_digits ov r lim 0 (show_radix r n) = Inr n"
proof (induction r n rule: show_radix.induct)
  case (1 r n)
  show ?case
  proof (cases "n < r")
    case True
    then show ?thesis using 1 by (simp add: show_radix.simps [of r n] to_digit_char)
  next
    case False
    have "n div r \<le> lim" using "1.prems"(3) div_le_dividend le_trans by blast
    then have "parse_digits ov r lim 0 (show_radix r (n div r)) = Inr (n div r)"
      using 1 False by simp
    then show ?thesis
      using 1 False
      by (simp add: show_radix.simps [of r n] parse_digits_append to_digit_char)
  qed
qed

lemma show_radix_digits:
  "2 \<le> r \<Longrightarrow> r \<le> 36 \<Longrightarrow> c \<in> set (show_radix r n) \<Longrightarrow> \<exists>d < r. c = digit_char d"
proof (induction r n rule: show_radix.induct)
  case (1 r n)
  then show ?case
    by (cases "n < r") (auto simp: show_radix.simps [of r n] intro: exI [of _ "n mod r"])
qed

lemma length_show_radix: "2 \<le> r \<Longrightarrow> n < r ^ Suc k \<Longrightarrow> length (show_radix r n) \<le> Suc k"
proof (induction k arbitrary: n)
  case 0
  then show ?case by (simp add: show_radix.simps [of r n])
next
  case (Suc k)
  show ?case
  proof (cases "n < r")
    case True
    then show ?thesis by (simp add: show_radix.simps [of r n])
  next
    case False
    have "n div r < r ^ Suc k"
      using Suc.prems by (simp add: less_mult_imp_div_less mult.commute)
    then show ?thesis
      using Suc False by (simp add: show_radix.simps [of r n])
  qed
qed

subsubsection \<open>Padded numbers have a fixed width and are ordered as numbers\<close>

fun radix_digits :: "nat \<Rightarrow> nat \<Rightarrow> nat list" where
  "radix_digits r n = (if n < r \<or> r < 2 then [n] else radix_digits r (n div r) @ [n mod r])"

declare radix_digits.simps [simp del]

fun digits_value :: "nat \<Rightarrow> nat \<Rightarrow> nat list \<Rightarrow> nat" where
  "digits_value r acc [] = acc"
| "digits_value r acc (d # ds) = digits_value r (acc * r + d) ds"

lemma show_radix_map: "show_radix r n = map digit_char (radix_digits r n)"
proof (induction r n rule: show_radix.induct)
  case (1 r n)
  then show ?case
    by (cases "n < r \<or> r < 2") (simp_all add: show_radix.simps [of r n] radix_digits.simps [of r n])
qed

lemma digits_value_append: "digits_value r acc (xs @ ys) = digits_value r (digits_value r acc xs) ys"
  by (induction xs arbitrary: acc) auto

lemma digits_value_zeros: "digits_value r 0 (replicate k 0 @ ds) = digits_value r 0 ds"
  by (induction k) auto

lemma digits_value_radix: "2 \<le> r \<Longrightarrow> digits_value r 0 (radix_digits r n) = n"
proof (induction r n rule: radix_digits.induct)
  case (1 r n)
  then show ?case
    by (cases "n < r") (simp_all add: radix_digits.simps [of r n] digits_value_append)
qed

lemma radix_digits_less: "2 \<le> r \<Longrightarrow> d \<in> set (radix_digits r n) \<Longrightarrow> d < r"
proof (induction r n rule: radix_digits.induct)
  case (1 r n)
  then show ?case
    by (cases "n < r") (auto simp: radix_digits.simps [of r n])
qed

lemma digits_value_bounds:
  "\<forall>d \<in> set ds. d < r \<Longrightarrow>
    acc * r ^ length ds \<le> digits_value r acc ds \<and> digits_value r acc ds < (acc + 1) * r ^ length ds"
proof (induction ds arbitrary: acc)
  case (Cons d ds)
  have IH: "(acc * r + d) * r ^ length ds \<le> digits_value r (acc * r + d) ds"
      "digits_value r (acc * r + d) ds < (acc * r + d + 1) * r ^ length ds"
    using Cons by auto
  have "acc * r ^ length (d # ds) \<le> (acc * r + d) * r ^ length ds"
    by (simp add: algebra_simps)
  moreover have "(acc * r + d + 1) * r ^ length ds \<le> ((acc + 1) * r) * r ^ length ds"
    using Cons.prems by (intro mult_right_mono) auto
  ultimately show ?case using IH by (simp add: algebra_simps)
qed simp

lemma digit_char_less: "d < 36 \<Longrightarrow> e < 36 \<Longrightarrow> digit_char d < digit_char e \<longleftrightarrow> d < e"
  by (auto simp: digit_char_def byte_of_nat_def less_char_def)

lemma digit_string_less:
  "length ds = length es \<Longrightarrow> \<forall>d \<in> set ds. d < r \<Longrightarrow> \<forall>e \<in> set es. e < r \<Longrightarrow> r \<le> 36 \<Longrightarrow>
    map digit_char ds < map digit_char es \<longleftrightarrow> digits_value r acc ds < digits_value r acc es"
proof (induction ds es arbitrary: acc rule: list_induct2)
  case (Cons d ds e es)
  have step: "digits_value r (acc * r + a) xs < digits_value r (acc * r + b) ys"
    if "a < b" "length xs = length ys" "\<forall>d \<in> set xs. d < r" "\<forall>d \<in> set ys. d < r" for a b xs ys
  proof -
    have "digits_value r (acc * r + a) xs < (acc * r + a + 1) * r ^ length xs"
      using digits_value_bounds that by blast
    also have "\<dots> \<le> (acc * r + b) * r ^ length ys"
      unfolding that(2) by (rule mult_right_mono) (use that in auto)
    also have "\<dots> \<le> digits_value r (acc * r + b) ys"
      using digits_value_bounds that by blast
    finally show ?thesis .
  qed
  consider "d < e" | "d = e" | "e < d" by linarith
  then show ?case
  proof cases
    case 1
    then show ?thesis using Cons step [of d e ds es] by (simp add: digit_char_less)
  next
    case 2
    then show ?thesis using Cons by simp
  next
    case 3
    then have "\<not> digit_char d < digit_char e" "digit_char d \<noteq> digit_char e"
      using Cons.prems digit_char_less [of d e] digit_char_less [of e d] by auto
    then show ?thesis using 3 Cons step [of e d es ds] by simp
  qed
qed simp

definition pad_digits :: "nat \<Rightarrow> nat \<Rightarrow> nat \<Rightarrow> nat list" where
  "pad_digits w r n = replicate (w - length (radix_digits r n)) 0 @ radix_digits r n"

lemma zero_pad_map: "zero_pad w (show_radix r n) = map digit_char (pad_digits w r n)"
  by (simp add: zero_pad_def pad_digits_def show_radix_map digit_char_0)

lemma length_pad_digits: "2 \<le> r \<Longrightarrow> n < r ^ w \<Longrightarrow> 0 < w \<Longrightarrow> length (pad_digits w r n) = w"
  using length_show_radix [of r n "w - 1"] by (simp add: pad_digits_def show_radix_map)

lemma pad_digits_less: "2 \<le> r \<Longrightarrow> d \<in> set (pad_digits w r n) \<Longrightarrow> d < r"
  by (auto simp: pad_digits_def dest: radix_digits_less)

lemma zero_pad_less:
  assumes "2 \<le> r" "r \<le> 36" "m < r ^ w" "n < r ^ w" "0 < w"
  shows "zero_pad w (show_radix r m) < zero_pad w (show_radix r n) \<longleftrightarrow> m < n"
proof -
  have "digits_value r 0 (pad_digits w r k) = k" for k
    using assms by (simp add: pad_digits_def digits_value_zeros digits_value_radix)
  then show ?thesis
    unfolding zero_pad_map
    using digit_string_less [of "pad_digits w r m" "pad_digits w r n" r 0] assms
    by (simp add: length_pad_digits pad_digits_less)
qed

lemma length_zero_pad:
  "2 \<le> r \<Longrightarrow> n < r ^ w \<Longrightarrow> 0 < w \<Longrightarrow> length (zero_pad w (show_radix r n)) = w"
  by (simp add: zero_pad_map length_pad_digits)

lemma unat_less_pow20: "unat (a :: u64) < 10 ^ 20"
  using unat_u64_less [of a] by simp

lemma unat_less_hex16: "unat (a :: u64) < 16 ^ 16"
  using unat_u64_less [of a] by simp

lemma length_pad20 [simp]: "length (pad20 a) = 20"
  unfolding pad20_def show_u64_def show_nat_def
  by (rule length_zero_pad) (use unat_less_pow20 [of a] in auto)

lemma length_hex16 [simp]: "length (hex16 a) = 16"
  unfolding hex16_def by (rule length_zero_pad) (use unat_less_hex16 [of a] in auto)

lemma pad20_less [simp]: "pad20 a < pad20 b \<longleftrightarrow> a < b"
  unfolding pad20_def show_u64_def show_nat_def word_less_nat_alt
  by (rule zero_pad_less) (use unat_less_pow20 in auto)

lemma hex16_less [simp]: "hex16 a < hex16 b \<longleftrightarrow> a < b"
  unfolding hex16_def word_less_nat_alt
  by (rule zero_pad_less) (use unat_less_hex16 in auto)

lemma pad20_inject [simp]: "pad20 a = pad20 b \<longleftrightarrow> a = b"
  by (metis pad20_less less_irrefl neqE)

lemma hex16_inject [simp]: "hex16 a = hex16 b \<longleftrightarrow> a = b"
  by (metis hex16_less less_irrefl neqE)

subsubsection \<open>Digits are not signs or separators\<close>

definition digit_text :: "nat \<Rightarrow> string \<Rightarrow> bool" where
  "digit_text r s \<longleftrightarrow> s \<noteq> [] \<and> (\<forall>c \<in> set s. \<exists>d < r. c = digit_char d)"

lemma digit_char_range:
  "d < 36 \<Longrightarrow> nat_of_byte (digit_char d) \<in> {48..57} \<union> {97..122}"
  by (auto simp: digit_char_def)

lemma digit_char_neq:
  assumes "d < 36" "nat_of_byte c \<notin> {48..57} \<union> {97..122}"
  shows "digit_char d \<noteq> c"
  using digit_char_range [OF assms(1)] assms(2) by metis

lemma digit_text_notin:
  assumes "digit_text r s" "r \<le> 36" "nat_of_byte c \<notin> {48..57} \<union> {97..122}"
  shows "c \<notin> set s"
  using assms digit_char_neq by (metis digit_text_def order_less_le_trans)

lemma digit_text_show: "2 \<le> r \<Longrightarrow> r \<le> 36 \<Longrightarrow> digit_text r (show_radix r n)"
  using show_radix_digits by (auto simp: digit_text_def)

lemma digit_text_pad: "2 \<le> r \<Longrightarrow> r \<le> 36 \<Longrightarrow> digit_text r (zero_pad w (show_radix r n))"
  using show_radix_digits digit_char_0
  by (force simp: digit_text_def zero_pad_def)

lemma sign_bytes [simp]:
  "nat_of_byte (CHR ''+'') = 43" "nat_of_byte (CHR ''-'') = 45" "nat_of_byte (CHR ''/'') = 47"
  "nat_of_byte (CHR ''.'') = 46" "nat_of_byte (CHR '':'') = 58" "nat_of_byte (CHR ''_'') = 95"
  "nat_of_byte (CHR 0x09) = 9" "nat_of_byte (CHR 0x0A) = 10" "nat_of_byte (CHR 0x0D) = 13"
  by code_simp+

lemma from_str_radix_digits:
  assumes "digit_text r s" "r \<le> 36"
  shows "from_str_radix_u64 r s = map_ok of_nat (parse_digits PosOverflow r (2 ^ 64 - 1) 0 s)"
proof -
  have "CHR ''+'' \<notin> set s" "CHR ''-'' \<notin> set s"
    using digit_text_notin [OF assms] by simp_all
  then show ?thesis
    using assms(1) by (cases s) (auto simp: from_str_radix_u64_def digit_text_def)
qed

lemma parse_show_u64 [simp]: "parse_str_u64 (show_u64 w) = Inr w"
  using unat_u64_less [of w] digit_text_show [of 10 "unat w"]
  by (simp add: parse_str_u64_def show_u64_def show_nat_def from_str_radix_digits parse_show_radix)

lemma parse_show_small: "n < 2 ^ 64 \<Longrightarrow> parse_str_u64 (show_nat n) = Inr (of_nat n)"
  using digit_text_show [of 10 n]
  by (simp add: parse_str_u64_def show_nat_def from_str_radix_digits parse_show_radix)

lemma parse_pad20 [simp]: "parse_str_u64 (pad20 w) = Inr w"
  using unat_u64_less [of w] digit_text_pad [of 10 20 "unat w"]
  by (simp add: parse_str_u64_def pad20_def show_u64_def show_nat_def from_str_radix_digits)
    (simp add: zero_pad_def parse_digits_zeros parse_show_radix)

lemma parse_hex16 [simp]: "from_str_radix_u64 16 (hex16 w) = Inr w"
  using unat_u64_less [of w] digit_text_pad [of 16 16 "unat w"]
  by (simp add: hex16_def from_str_radix_digits)
    (simp add: zero_pad_def parse_digits_zeros parse_show_radix)

lemma parse_show_i64 [simp]: "parse_str_i64 (show_i64 w) = Inr w"
proof -
  have range: "- (2 ^ 63) \<le> sint w" "sint w < 2 ^ 63"
    using sint_greater_eq [of w] sint_less [of w] by simp_all
  show ?thesis
  proof (cases "sint w < 0")
    case True
    let ?n = "nat (- sint w)"
    have "?n \<le> 2 ^ 63" using range by simp
    then have p: "parse_digits NegOverflow 10 (2 ^ 63) 0 (show_nat ?n) = Inr ?n"
      unfolding show_nat_def by (intro parse_show_radix) auto
    have w: "- of_nat ?n = w" using True by simp
    have "show_nat ?n \<noteq> []" by (simp add: show_nat_def)
    with p w True show ?thesis by (simp add: parse_str_i64_def show_i64_def)
  next
    case False
    let ?n = "nat (sint w)"
    have "?n \<le> 2 ^ 63 - 1" using range by simp
    then have p: "parse_digits PosOverflow 10 (2 ^ 63 - 1) 0 (show_nat ?n) = Inr ?n"
      unfolding show_nat_def by (intro parse_show_radix) auto
    have t: "digit_text 10 (show_nat ?n)" unfolding show_nat_def by (rule digit_text_show) auto
    have "CHR ''+'' \<notin> set (show_nat ?n)" "CHR ''-'' \<notin> set (show_nat ?n)"
      using digit_text_notin [OF t] by simp_all
    moreover have "of_nat ?n = w" using False by simp
    moreover obtain c cs where "show_nat ?n = c # cs" using t by (cases "show_nat ?n") (auto simp: digit_text_def)
    ultimately show ?thesis using p False by (auto simp: parse_str_i64_def show_i64_def)
  qed
qed

lemma separators_notin_pad20 [simp]:
  "CHR ''/'' \<notin> set (pad20 w)" "CHR 0x09 \<notin> set (pad20 w)" "CHR 0x0A \<notin> set (pad20 w)"
  using digit_text_notin [OF digit_text_pad [of 10 20 "unat w"]]
  by (simp_all add: pad20_def show_u64_def show_nat_def)

lemma separators_notin_hex16 [simp]:
  "CHR ''/'' \<notin> set (hex16 w)" "CHR 0x09 \<notin> set (hex16 w)" "CHR 0x0A \<notin> set (hex16 w)"
  using digit_text_notin [OF digit_text_pad [of 16 16 "unat w"]]
  by (simp_all add: hex16_def)

lemma separators_notin_show_nat [simp]:
  "CHR ''/'' \<notin> set (show_nat n)" "CHR 0x09 \<notin> set (show_nat n)" "CHR 0x0A \<notin> set (show_nat n)"
  "CHR 0x0D \<notin> set (show_nat n)"
  using digit_text_notin [OF digit_text_show [of 10 n]]
  by (simp_all add: show_nat_def)

lemma separators_notin_show_u64 [simp]:
  "CHR ''/'' \<notin> set (show_u64 w)" "CHR 0x09 \<notin> set (show_u64 w)" "CHR 0x0A \<notin> set (show_u64 w)"
  "CHR 0x0D \<notin> set (show_u64 w)"
  by (simp_all add: show_u64_def)

lemma show_u64_ne [simp]: "show_u64 w \<noteq> []"
  by (simp add: show_u64_def show_nat_def)

lemma show_u64_inject [simp]: "show_u64 a = show_u64 b \<longleftrightarrow> a = b"
  by (metis Inr_inject parse_show_u64)

end
