(* ===== verification/Rust_Text.thy ===== *)
theory Rust_Text
  imports Rust_Std
begin

text \<open>
  Text operations of the Rust standard library: UTF-8 validation with the error it reports,
  \<open>lines\<close>, \<open>split_once\<close>, \<open>strip_prefix\<close>, \<open>split_at_checked\<close> and \<open>trim_end_matches\<close>, on the
  byte representation of strings.
\<close>

abbreviation tab :: char where "tab \<equiv> CHR 0x09"
abbreviation newline :: char where "newline \<equiv> CHR 0x0A"
abbreviation slash :: char where "slash \<equiv> CHR ''/''"

subsection \<open>UTF-8\<close>

datatype utf8_error = Utf8_Error nat "nat option"

fun show_utf8_error :: "utf8_error \<Rightarrow> string" where
  "show_utf8_error (Utf8_Error up_to (Some n)) =
     ''invalid utf-8 sequence of '' @ show_nat n @ '' bytes from index '' @ show_nat up_to"
| "show_utf8_error (Utf8_Error up_to None) =
     ''incomplete utf-8 byte sequence from index '' @ show_nat up_to"

definition utf8_cont :: "char \<Rightarrow> bool" where
  "utf8_cont c \<longleftrightarrow> 128 \<le> nat_of_byte c \<and> nat_of_byte c \<le> 191"

definition utf8_width :: "char \<Rightarrow> nat" where
  "utf8_width c =
     (let b = nat_of_byte c in
      if b < 128 then 1 else if b < 194 then 0 else if b < 224 then 2
      else if b < 240 then 3 else if b < 245 then 4 else 0)"

text \<open>Which second bytes may follow a three- or four-byte lead byte.\<close>

definition utf8_second :: "char \<Rightarrow> char \<Rightarrow> bool" where
  "utf8_second c d =
     (let a = nat_of_byte c; b = nat_of_byte d in
      if a = 224 then 160 \<le> b \<and> b \<le> 191
      else if a = 237 then 128 \<le> b \<and> b \<le> 159
      else if a = 240 then 144 \<le> b \<and> b \<le> 191
      else if a = 244 then 128 \<le> b \<and> b \<le> 143
      else 128 \<le> b \<and> b \<le> 191)"

fun utf8_check :: "nat \<Rightarrow> bytes \<Rightarrow> utf8_error option" where
  "utf8_check i [] = None"
| "utf8_check i (c # cs) =
     (if utf8_width c = 1 then utf8_check (i + 1) cs
      else if utf8_width c = 2 then
        (case cs of
           [] \<Rightarrow> Some (Utf8_Error i None)
         | c2 # cs2 \<Rightarrow> if utf8_cont c2 then utf8_check (i + 2) cs2 else Some (Utf8_Error i (Some 1)))
      else if utf8_width c = 3 then
        (case cs of
           [] \<Rightarrow> Some (Utf8_Error i None)
         | c2 # cs2 \<Rightarrow>
             if \<not> utf8_second c c2 then Some (Utf8_Error i (Some 1))
             else (case cs2 of
                     [] \<Rightarrow> Some (Utf8_Error i None)
                   | c3 # cs3 \<Rightarrow> if utf8_cont c3 then utf8_check (i + 3) cs3
                                 else Some (Utf8_Error i (Some 2))))
      else if utf8_width c = 4 then
        (case cs of
           [] \<Rightarrow> Some (Utf8_Error i None)
         | c2 # cs2 \<Rightarrow>
             if \<not> utf8_second c c2 then Some (Utf8_Error i (Some 1))
             else (case cs2 of
                     [] \<Rightarrow> Some (Utf8_Error i None)
                   | c3 # cs3 \<Rightarrow>
                       if \<not> utf8_cont c3 then Some (Utf8_Error i (Some 2))
                       else (case cs3 of
                               [] \<Rightarrow> Some (Utf8_Error i None)
                             | c4 # cs4 \<Rightarrow> if utf8_cont c4 then utf8_check (i + 4) cs4
                                           else Some (Utf8_Error i (Some 3)))))
      else Some (Utf8_Error i (Some 1)))"

definition from_utf8 :: "bytes \<Rightarrow> utf8_error + string" where
  "from_utf8 bs = (case utf8_check 0 bs of None \<Rightarrow> Inr bs | Some e \<Rightarrow> Inl e)"

definition utf8_valid :: "bytes \<Rightarrow> bool" where
  "utf8_valid bs \<longleftrightarrow> utf8_check 0 bs = None"

definition ascii :: "string \<Rightarrow> bool" where
  "ascii s \<longleftrightarrow> (\<forall>c \<in> set s. nat_of_byte c < 128)"

lemma utf8_width_ascii: "nat_of_byte c < 128 \<Longrightarrow> utf8_width c = 1"
  by (simp add: utf8_width_def)

lemma utf8_check_ascii: "ascii s \<Longrightarrow> utf8_check i s = None"
  by (induction s arbitrary: i) (simp_all add: ascii_def utf8_width_ascii)

lemma from_utf8_valid [simp]: "utf8_valid bs \<Longrightarrow> from_utf8 bs = Inr bs"
  by (simp add: from_utf8_def utf8_valid_def)

lemma from_utf8_eq_Inr: "from_utf8 bs = Inr s \<longleftrightarrow> utf8_valid bs \<and> s = bs"
  by (auto simp: from_utf8_def utf8_valid_def split: option.splits)

lemma utf8_valid_ascii: "ascii s \<Longrightarrow> utf8_valid s"
  by (simp add: utf8_valid_def utf8_check_ascii)

lemma from_utf8_ascii: "ascii s \<Longrightarrow> from_utf8 s = Inr s"
  by (simp add: utf8_valid_ascii)

lemma ascii_simps [simp]:
  "ascii []"
  "ascii (c # s) \<longleftrightarrow> nat_of_byte c < 128 \<and> ascii s"
  "ascii (s @ t) \<longleftrightarrow> ascii s \<and> ascii t"
  by (auto simp: ascii_def)

lemma ascii_concat: "(\<forall>s \<in> set ss. ascii s) \<Longrightarrow> ascii (concat ss)"
  by (induction ss) auto

lemma digit_char_ascii: "d < 36 \<Longrightarrow> nat_of_byte (digit_char d) < 128"
  by (simp add: digit_char_def)

lemma digit_text_ascii: "digit_text r s \<Longrightarrow> r \<le> 36 \<Longrightarrow> ascii s"
  unfolding ascii_def digit_text_def
  by (metis digit_char_ascii order_less_le_trans)

lemma ascii_show [simp]: "ascii (show_nat n)" "ascii (show_u64 w)" "ascii (pad20 w)" "ascii (hex16 w)"
  using digit_text_ascii [OF digit_text_show] digit_text_ascii [OF digit_text_pad]
  by (simp_all add: show_nat_def show_u64_def pad20_def hex16_def)

lemma ascii_show_i64 [simp]: "ascii (show_i64 w)"
  by (simp add: show_i64_def)

subsection \<open>Lines\<close>

text \<open>
  \<open>str::lines\<close>: pieces ended by a newline, the newline and one carriage return before it removed;
  a last piece with no newline is a line when it is not empty.
\<close>

definition strip_cr :: "string \<Rightarrow> string" where
  "strip_cr s = (if s \<noteq> [] \<and> last s = CHR 0x0D then butlast s else s)"

fun lines_acc :: "string \<Rightarrow> string \<Rightarrow> string list" where
  "lines_acc acc [] = (if acc = [] then [] else [acc])"
| "lines_acc acc (c # cs) =
     (if c = newline then strip_cr acc # lines_acc [] cs else lines_acc (acc @ [c]) cs)"

definition lines :: "string \<Rightarrow> string list" where
  "lines s = lines_acc [] s"

lemma lines_acc_free:
  "newline \<notin> set s \<Longrightarrow> lines_acc acc (s @ newline # t) = strip_cr (acc @ s) # lines_acc [] t"
  by (induction s arbitrary: acc) auto

lemma strip_cr_free: "CHR 0x0D \<notin> set s \<Longrightarrow> strip_cr s = s"
  unfolding strip_cr_def by (metis last_in_set)

definition line_text :: "string \<Rightarrow> bool" where
  "line_text s \<longleftrightarrow> newline \<notin> set s \<and> CHR 0x0D \<notin> set s"

lemma lines_Cons: "line_text s \<Longrightarrow> lines (s @ newline # t) = s # lines t"
  by (simp add: lines_def lines_acc_free strip_cr_free line_text_def)

lemma lines_Nil [simp]: "lines [] = []"
  by (simp add: lines_def)

lemma lines_concat:
  "(\<forall>s \<in> set ss. line_text s) \<Longrightarrow> lines (concat (map (\<lambda>s. s @ [newline]) ss)) = ss"
  by (induction ss) (auto simp: lines_Cons)

lemma line_text_simps [simp]:
  "line_text []"
  "line_text (c # s) \<longleftrightarrow> c \<noteq> newline \<and> c \<noteq> CHR 0x0D \<and> line_text s"
  "line_text (s @ t) \<longleftrightarrow> line_text s \<and> line_text t"
  by (auto simp: line_text_def)

lemma line_text_show [simp]: "line_text (show_nat n)" "line_text (show_u64 w)"
  by (simp_all add: line_text_def)

subsection \<open>Prefixes, suffixes and single splits\<close>

definition strip_prefix :: "string \<Rightarrow> string \<Rightarrow> string option" where
  "strip_prefix p s = (if prefix p s then Some (drop (length p) s) else None)"

lemma strip_prefix_append [simp]: "strip_prefix p (p @ s) = Some s"
  by (simp add: strip_prefix_def)

lemma strip_prefix_eq_Some: "strip_prefix p s = Some t \<longleftrightarrow> s = p @ t"
  by (auto simp: strip_prefix_def prefix_def)

fun split_once :: "char \<Rightarrow> string \<Rightarrow> (string \<times> string) option" where
  "split_once c [] = None"
| "split_once c (x # xs) =
     (if x = c then Some ([], xs)
      else map_option (\<lambda>(a, b). (x # a, b)) (split_once c xs))"

lemma split_once_append: "c \<notin> set xs \<Longrightarrow> split_once c (xs @ c # ys) = Some (xs, ys)"
  by (induction xs) auto

lemma split_once_eq_Some:
  "split_once c s = Some (a, b) \<longleftrightarrow> s = a @ c # b \<and> c \<notin> set a"
proof
  show "split_once c s = Some (a, b) \<Longrightarrow> s = a @ c # b \<and> c \<notin> set a"
    by (induction s arbitrary: a) (auto split: if_splits)
qed (auto simp: split_once_append)

text \<open>\<open>split_at_checked(1)\<close>: nothing when the text is empty or its first character is longer than a byte.\<close>

definition split_at_one :: "string \<Rightarrow> (string \<times> string) option" where
  "split_at_one s =
     (case s of
        [] \<Rightarrow> None
      | c # cs \<Rightarrow> if cs \<noteq> [] \<and> utf8_cont (hd cs) then None else Some ([c], cs))"

definition trim_end :: "char \<Rightarrow> string \<Rightarrow> string" where
  "trim_end c s = rev (dropWhile (\<lambda>x. x = c) (rev s))"

lemma trim_end_snoc [simp]: "trim_end c (s @ [c]) = trim_end c s"
  by (simp add: trim_end_def)

lemma trim_end_id: "s = [] \<or> last s \<noteq> c \<Longrightarrow> trim_end c s = s"
  by (cases s rule: rev_cases) (auto simp: trim_end_def)

lemma trim_end_free: "c \<notin> set s \<Longrightarrow> trim_end c s = s"
  by (rule trim_end_id) (auto dest: last_in_set)

definition ascii_digit :: "char \<Rightarrow> bool" where
  "ascii_digit c \<longleftrightarrow> 48 \<le> nat_of_byte c \<and> nat_of_byte c \<le> 57"

definition ascii_alphanumeric :: "char \<Rightarrow> bool" where
  "ascii_alphanumeric c =
     (let b = nat_of_byte c in
      (48 \<le> b \<and> b \<le> 57) \<or> (65 \<le> b \<and> b \<le> 90) \<or> (97 \<le> b \<and> b \<le> 122))"

definition ascii_hexdigit :: "char \<Rightarrow> bool" where
  "ascii_hexdigit c =
     (let b = nat_of_byte c in
      (48 \<le> b \<and> b \<le> 57) \<or> (65 \<le> b \<and> b \<le> 70) \<or> (97 \<le> b \<and> b \<le> 102))"

end
