(* ===== verification/Errors.thy ===== *)
theory Errors
  imports Rust_Text
begin

text \<open>
  \<open>GraphError\<close> of \<open>src/core/error.rs\<close>: every variant with its fields, the failure class that
  metrics count it under, and the reason and limit labels derived from it.  All fallible
  operations of the model return a \<open>graph_error\<close> on the left of the result type.
\<close>

type_synonym vertex_id = u64
type_synonym relationship_id = u64
type_synonym storage_sequence = u64

text \<open>
  The storage engine's and the object store's own error values are third-party.  The code looks
  at a SlateDB error only through its \<open>kind()\<close>, and at an object-store error only through its
  variant; the rest of the value is its message.
\<close>

datatype slate_kind =
    SK_Transaction
  | SK_Closed_Fenced
  | SK_Closed
  | SK_Invalid
  | SK_Other

datatype slate_error = Slate_Error (se_kind: slate_kind) (se_message: string)

definition se_fenced :: "slate_error \<Rightarrow> bool" where
  "se_fenced e \<longleftrightarrow> se_kind e = SK_Closed_Fenced"

datatype os_error =
    Os_Not_Found string
  | Os_Already_Exists string
  | Os_Precondition string
  | Os_Not_Implemented string
  | Os_Other string

datatype query_failure_reason =
    QF_ParseError | QF_UntypedStatement | QF_Pattern | QF_Where | QF_Return | QF_OrderWindow
  | QF_Union | QF_Unwind | QF_Mutation | QF_Parameter | QF_Procedure | QF_InvalidRequest
  | QF_Evaluation | QF_Other

datatype graph_error =
    Slate slate_error
  | ObjectStore os_error
  | ConditionalWriteConflict string string
  | UnsafeDurabilityConfig string string
  | RoutedWriterConfigMismatch string string nat nat
  | InvalidKeyComponent string string
  | CorruptValue string string
  | IdempotencyConflict string string string
  | ControlMetadataConflict string "u64 option" "u64 option"
  | RetryExhausted string nat
  | ControlWatermarkRegression string string u64 u64
  | SnapshotAhead string u64 u64
  | SnapshotUnavailable string u64 u64
  | UnknownShard string
  | GraphScopeMismatch string string
  | GraphScopeAccessDenied string string string
  | WriteRequiresWriter string string
  | NotCellWriter string "string option"
  | RoutingUnavailable string
  | ReadOnlyShardStorage
  | CellDropped string string
  | SnapshotExpired string string u64 u64
  | SnapshotChanged string string string u64 u64
  | QueryStatsSnapshotChanged string string u64 u64
  | AdmissionRejected string u64 u64
  | SparseKernel string string
  | QueryParse string string
  | MissingQueryParameter string string
  | QueryTimeout string u64 u64
  | QueryAllocation string string
  | UnsupportedQuery string string query_failure_reason
  | UnclassifiedQuery string string
  | RemoteInternal string string
  | BatchValueConflict string

type_synonym 'a result = "graph_error + 'a"

definition CLASSES :: "string list" where
  "CLASSES =
     [''contention'', ''fencing'', ''routing'', ''freshness'', ''admission'', ''timeout'',
      ''query'', ''authz'', ''corruption'', ''config'', ''storage'', ''kernel'']"

definition CLASS_COUNT :: nat where
  "CLASS_COUNT = length CLASSES"

abbreviation (input) CLASS_CONTENTION :: nat where "CLASS_CONTENTION \<equiv> 0"
abbreviation (input) CLASS_FENCING :: nat where "CLASS_FENCING \<equiv> 1"
abbreviation (input) CLASS_ROUTING :: nat where "CLASS_ROUTING \<equiv> 2"
abbreviation (input) CLASS_FRESHNESS :: nat where "CLASS_FRESHNESS \<equiv> 3"
abbreviation (input) CLASS_ADMISSION :: nat where "CLASS_ADMISSION \<equiv> 4"
abbreviation (input) CLASS_TIMEOUT :: nat where "CLASS_TIMEOUT \<equiv> 5"
abbreviation (input) CLASS_QUERY :: nat where "CLASS_QUERY \<equiv> 6"
abbreviation (input) CLASS_AUTHZ :: nat where "CLASS_AUTHZ \<equiv> 7"
abbreviation (input) CLASS_CORRUPTION :: nat where "CLASS_CORRUPTION \<equiv> 8"
abbreviation (input) CLASS_CONFIG :: nat where "CLASS_CONFIG \<equiv> 9"
abbreviation (input) CLASS_STORAGE :: nat where "CLASS_STORAGE \<equiv> 10"
abbreviation (input) CLASS_KERNEL :: nat where "CLASS_KERNEL \<equiv> 11"

text \<open>\<open>iter().position(..)\<close>\<close>

fun position :: "('a \<Rightarrow> bool) \<Rightarrow> 'a list \<Rightarrow> nat option" where
  "position p [] = None"
| "position p (x # xs) = (if p x then Some 0 else map_option Suc (position p xs))"

lemma position_Some:
  "position p xs = Some i \<Longrightarrow> i < length xs \<and> p (xs ! i)"
  by (induction xs arbitrary: i) (auto split: if_splits)

definition class_index :: "graph_error \<Rightarrow> nat" where
  "class_index e =
     (case e of
        ConditionalWriteConflict _ _ \<Rightarrow> CLASS_CONTENTION
      | IdempotencyConflict _ _ _ \<Rightarrow> CLASS_CONTENTION
      | ControlMetadataConflict _ _ _ \<Rightarrow> CLASS_CONTENTION
      | RetryExhausted _ _ \<Rightarrow> CLASS_CONTENTION
      | WriteRequiresWriter _ _ \<Rightarrow> CLASS_FENCING
      | CellDropped _ _ \<Rightarrow> CLASS_FENCING
      | NotCellWriter _ _ \<Rightarrow> CLASS_ROUTING
      | UnknownShard _ \<Rightarrow> CLASS_ROUTING
      | RoutingUnavailable _ \<Rightarrow> CLASS_ROUTING
      | SnapshotAhead _ _ _ \<Rightarrow> CLASS_FRESHNESS
      | SnapshotUnavailable _ _ _ \<Rightarrow> CLASS_FRESHNESS
      | SnapshotExpired _ _ _ _ \<Rightarrow> CLASS_FRESHNESS
      | SnapshotChanged _ _ _ _ _ \<Rightarrow> CLASS_FRESHNESS
      | QueryStatsSnapshotChanged _ _ _ _ \<Rightarrow> CLASS_FRESHNESS
      | ControlWatermarkRegression _ _ _ _ \<Rightarrow> CLASS_FRESHNESS
      | AdmissionRejected _ _ _ \<Rightarrow> CLASS_ADMISSION
      | QueryTimeout _ _ _ \<Rightarrow> CLASS_TIMEOUT
      | QueryParse _ _ \<Rightarrow> CLASS_QUERY
      | UnsupportedQuery _ _ _ \<Rightarrow> CLASS_QUERY
      | UnclassifiedQuery _ _ \<Rightarrow> CLASS_QUERY
      | QueryAllocation _ _ \<Rightarrow> CLASS_QUERY
      | MissingQueryParameter _ _ \<Rightarrow> CLASS_QUERY
      | BatchValueConflict _ \<Rightarrow> CLASS_QUERY
      | GraphScopeMismatch _ _ \<Rightarrow> CLASS_AUTHZ
      | GraphScopeAccessDenied _ _ _ \<Rightarrow> CLASS_AUTHZ
      | CorruptValue _ _ \<Rightarrow> CLASS_CORRUPTION
      | InvalidKeyComponent _ _ \<Rightarrow> CLASS_CORRUPTION
      | UnsafeDurabilityConfig _ _ \<Rightarrow> CLASS_CONFIG
      | RoutedWriterConfigMismatch _ _ _ _ \<Rightarrow> CLASS_CONFIG
      | ReadOnlyShardStorage \<Rightarrow> CLASS_CONFIG
      | Slate error \<Rightarrow> if se_fenced error then CLASS_FENCING else CLASS_STORAGE
      | ObjectStore _ \<Rightarrow> CLASS_STORAGE
      | SparseKernel _ _ \<Rightarrow> CLASS_KERNEL
      | RemoteInternal _ cls \<Rightarrow>
          (case position (\<lambda>known. known = cls) CLASSES of
             Some i \<Rightarrow> i
           | None \<Rightarrow> CLASS_STORAGE))"

definition error_class :: "graph_error \<Rightarrow> string" where
  "error_class e = CLASSES ! class_index e"

definition failure_reason :: "graph_error \<Rightarrow> query_failure_reason option" where
  "failure_reason e =
     (case e of
        UnsupportedQuery _ _ reason \<Rightarrow> Some reason
      | QueryParse _ _ \<Rightarrow> Some QF_ParseError
      | MissingQueryParameter _ _ \<Rightarrow> Some QF_Parameter
      | QueryAllocation _ _ \<Rightarrow> Some QF_Other
      | BatchValueConflict _ \<Rightarrow> Some QF_Mutation
      | _ \<Rightarrow> None)"

definition limit_operation :: "graph_error \<Rightarrow> string option" where
  "limit_operation e =
     (case e of
        AdmissionRejected operation _ _ \<Rightarrow> Some operation
      | QueryTimeout operation _ _ \<Rightarrow> Some operation
      | _ \<Rightarrow> None)"

lemma CLASS_COUNT_12: "CLASS_COUNT = 12"
  by (simp add: CLASS_COUNT_def CLASSES_def)

lemma class_index_bound: "class_index e < CLASS_COUNT"
proof (cases e)
  case (RemoteInternal k cls)
  then show ?thesis
    using position_Some [of "\<lambda>known. known = cls" CLASSES]
    by (auto simp: class_index_def CLASS_COUNT_12 CLASS_COUNT_def [symmetric] split: option.splits)
qed (auto simp: class_index_def CLASS_COUNT_12)

lemma class_index_query:
  "class_index e = CLASS_QUERY \<and> failure_reason e = None \<longleftrightarrow>
     (\<exists>d f. e = UnclassifiedQuery d f) \<or> (\<exists>k. e = RemoteInternal k ''query'')"
proof (cases e)
  case (RemoteInternal k cls)
  then show ?thesis
    by (auto simp: class_index_def failure_reason_def CLASSES_def)
qed (auto simp: class_index_def failure_reason_def)

lemma failure_reason_class: "failure_reason e \<noteq> None \<Longrightarrow> class_index e = CLASS_QUERY"
  by (cases e) (auto simp: class_index_def failure_reason_def)

lemma CLASSES_query: "i < CLASS_COUNT \<Longrightarrow> CLASSES ! i = ''query'' \<longleftrightarrow> i = CLASS_QUERY"
  unfolding CLASS_COUNT_12
  by (auto simp: CLASSES_def nth_Cons' less_Suc_eq numeral_eq_Suc)

subsection \<open>Properties\<close>

text \<open>
  Every error has a class: the index \<open>class_index\<close> computes is inside the class table, so the
  per-class counters are never indexed out of range.  An error carries a query-failure reason exactly
  when its class is \<open>query\<close> and it is neither an \<open>UnclassifiedQuery\<close> nor a \<open>RemoteInternal\<close>
  whose owner reported the class \<open>query\<close>.
\<close>

theorem error_taxonomy:
  "class_index e < CLASS_COUNT \<and> error_class e \<in> set CLASSES \<and>
   (failure_reason e \<noteq> None \<longleftrightarrow>
      error_class e = ''query'' \<and> (\<nexists>d f. e = UnclassifiedQuery d f) \<and>
      (\<nexists>k. e = RemoteInternal k ''query''))"
proof -
  have "error_class e = ''query'' \<longleftrightarrow> class_index e = CLASS_QUERY"
    using class_index_bound [of e] by (simp add: error_class_def CLASSES_query)
  moreover have "error_class e \<in> set CLASSES"
    using class_index_bound [of e] by (simp add: error_class_def CLASS_COUNT_def)
  ultimately show ?thesis
    using class_index_bound [of e] class_index_query [of e] failure_reason_class [of e]
    by (cases "failure_reason e = None"; cases "class_index e = CLASS_QUERY") simp_all
qed

end
