(* ===== verification/BTree.thy ===== *)
theory BTree
  imports Prelude
begin

text \<open>
  \<open>BTreeMap\<close> and \<open>BTreeSet\<close> as the code uses them: key-ordered association lists and ordered
  lists.  The operations keep the order, so iteration (\<open>iter\<close>, \<open>keys\<close>, \<open>into_values\<close>) is the
  list itself and no sort is hidden in the model.
\<close>

subsection \<open>Ordered association lists\<close>

type_synonym ('k, 'v) btree_map = "('k \<times> 'v) list"

fun bt_insert :: "'k::linorder \<Rightarrow> 'v \<Rightarrow> ('k, 'v) btree_map \<Rightarrow> ('k, 'v) btree_map" where
  "bt_insert k v [] = [(k, v)]"
| "bt_insert k v ((k', v') # m) =
     (if k < k' then (k, v) # (k', v') # m
      else if k = k' then (k, v) # m
      else (k', v') # bt_insert k v m)"

fun bt_get :: "('k::linorder, 'v) btree_map \<Rightarrow> 'k \<Rightarrow> 'v option" where
  "bt_get [] k = None"
| "bt_get ((k', v') # m) k = (if k = k' then Some v' else bt_get m k)"

fun bt_remove :: "'k::linorder \<Rightarrow> ('k, 'v) btree_map \<Rightarrow> ('k, 'v) btree_map" where
  "bt_remove k [] = []"
| "bt_remove k ((k', v') # m) = (if k = k' then m else (k', v') # bt_remove k m)"

definition bt_keys :: "('k, 'v) btree_map \<Rightarrow> 'k list" where
  "bt_keys m = map fst m"

definition bt_inv :: "('k::linorder, 'v) btree_map \<Rightarrow> bool" where
  "bt_inv m \<longleftrightarrow> sorted_wrt (<) (map fst m)"

definition bt_extend :: "('k::linorder, 'v) btree_map \<Rightarrow> ('k \<times> 'v) list \<Rightarrow> ('k, 'v) btree_map" where
  "bt_extend m kvs = foldl (\<lambda>acc (k, v). bt_insert k v acc) m kvs"

definition bt_retain :: "('k \<Rightarrow> 'v \<Rightarrow> bool) \<Rightarrow> ('k, 'v) btree_map \<Rightarrow> ('k, 'v) btree_map" where
  "bt_retain p m = filter (\<lambda>(k, v). p k v) m"

lemma bt_inv_simps [simp]:
  "bt_inv []"
  "bt_inv (kv # m) \<longleftrightarrow> (\<forall>kv' \<in> set m. fst kv < fst kv') \<and> bt_inv m"
  by (auto simp: bt_inv_def)

lemma set_bt_insert: "kv \<in> set (bt_insert k v m) \<Longrightarrow> kv = (k, v) \<or> kv \<in> set m"
  by (induction k v m rule: bt_insert.induct) (auto split: if_splits)

lemma bt_inv_insert [simp]: "bt_inv m \<Longrightarrow> bt_inv (bt_insert k v m)"
proof (induction k v m rule: bt_insert.induct)
  case (2 k v k' v' m)
  then show ?case
    by (force dest: set_bt_insert)
qed simp

lemma bt_get_None: "bt_get m k = None \<longleftrightarrow> k \<notin> fst ` set m"
  by (induction m k rule: bt_get.induct) auto

lemma bt_get_map_of: "bt_get m k = map_of m k"
  by (induction m k rule: bt_get.induct) auto

lemma bt_get_insert [simp]:
  "bt_inv m \<Longrightarrow> bt_get (bt_insert k v m) k' = (if k' = k then Some v else bt_get m k')"
proof (induction k v m rule: bt_insert.induct)
  case (2 k v k'' v'' m)
  then show ?case by (auto simp: bt_get_None)
qed auto

lemma set_bt_remove: "set (bt_remove k m) \<subseteq> set m"
  by (induction k m rule: bt_remove.induct) auto

lemma bt_inv_remove [simp]: "bt_inv m \<Longrightarrow> bt_inv (bt_remove k m)"
proof (induction k m rule: bt_remove.induct)
  case (2 k k' v' m)
  then show ?case using set_bt_remove [of k m] by auto
qed simp

lemma bt_get_remove [simp]:
  "bt_inv m \<Longrightarrow> bt_get (bt_remove k m) k' = (if k' = k then None else bt_get m k')"
proof (induction k m rule: bt_remove.induct)
  case (2 k k'' v'' m)
  then show ?case by (cases "bt_get m k''") (force simp: bt_get_None)+
qed auto

lemma bt_inv_filter: "bt_inv m \<Longrightarrow> bt_inv (filter p m)"
  by (induction m) auto

lemma bt_inv_retain [simp]: "bt_inv m \<Longrightarrow> bt_inv (bt_retain p m)"
  by (simp add: bt_retain_def bt_inv_filter)

lemma bt_inv_distinct: "bt_inv m \<Longrightarrow> distinct (map fst m)"
  by (simp add: bt_inv_def strict_sorted_iff)

lemma bt_get_Some_set: "bt_inv m \<Longrightarrow> bt_get m k = Some v \<longleftrightarrow> (k, v) \<in> set m"
  by (simp add: bt_get_map_of bt_inv_distinct)

lemma bt_get_retain:
  "bt_inv m \<Longrightarrow>
    bt_get (bt_retain p m) k =
      (case bt_get m k of None \<Rightarrow> None | Some v \<Rightarrow> if p k v then Some v else None)"
proof (induction m)
  case (Cons kv m)
  then show ?case
    by (cases kv) (auto simp: bt_retain_def bt_get_None split: option.splits)
qed (simp add: bt_retain_def)

text \<open>Two ordered maps with the same lookups are the same list.\<close>

lemma bt_ext:
  assumes "bt_inv m" "bt_inv m'" "\<And>k. bt_get m k = bt_get m' k"
  shows "m = m'"
proof -
  have "set m = set m'"
    using assms by (metis bt_get_Some_set subrelI subset_antisym)
  moreover have "sorted_wrt (<) (map fst m)" "sorted_wrt (<) (map fst m')"
    using assms by (auto simp: bt_inv_def)
  ultimately show ?thesis
  proof (induction m arbitrary: m')
    case (Cons kv m)
    obtain kv' n where m': "m' = kv' # n"
      using Cons.prems by (cases m') auto
    have "kv = kv'"
    proof (rule ccontr)
      assume "kv \<noteq> kv'"
      then have "kv \<in> set n" "kv' \<in> set m"
        using Cons.prems(1) m' by auto
      then have "fst kv < fst kv'" "fst kv' < fst kv"
        using Cons.prems m' by auto
      then show False by simp
    qed
    moreover have "kv \<notin> set m" "kv' \<notin> set n"
      using Cons.prems m' by auto
    ultimately have "set m = set n"
      using Cons.prems(1) m' by auto
    then show ?case using Cons m' \<open>kv = kv'\<close> by auto
  qed simp
qed

lemma bt_insert_above:
  "\<forall>kv \<in> set m. fst kv < k \<Longrightarrow> bt_insert k v m = m @ [(k, v)]"
  by (induction m) auto

lemma bt_extend_sorted: "bt_inv (m @ kvs) \<Longrightarrow> bt_extend m kvs = m @ kvs"
proof (induction kvs arbitrary: m)
  case (Cons kv kvs)
  obtain k v where kv: "kv = (k, v)" by (cases kv)
  have "\<forall>kv \<in> set m. fst kv < k"
    using Cons.prems kv by (auto simp: bt_inv_def sorted_wrt_append)
  then have "bt_insert k v m = m @ [(k, v)]"
    by (rule bt_insert_above)
  then show ?case
    using Cons kv by (simp add: bt_extend_def)
qed (simp add: bt_extend_def)

lemma bt_extend_from_sorted: "bt_inv kvs \<Longrightarrow> bt_extend [] kvs = kvs"
  using bt_extend_sorted [of "[]"] by simp

lemma bt_inv_extend [simp]: "bt_inv m \<Longrightarrow> bt_inv (bt_extend m kvs)"
  by (induction kvs arbitrary: m) (auto simp: bt_extend_def)

lemma bt_get_extend:
  "bt_inv m \<Longrightarrow>
    bt_get (bt_extend m kvs) k = (case map_of (rev kvs) k of Some v \<Rightarrow> Some v | None \<Rightarrow> bt_get m k)"
proof (induction kvs arbitrary: m)
  case (Cons kv kvs)
  obtain a b where kv: "kv = (a, b)" by (cases kv)
  have "bt_get (bt_extend (bt_insert a b m) kvs) k =
      (case map_of (rev kvs) k of Some v \<Rightarrow> Some v | None \<Rightarrow> bt_get (bt_insert a b m) k)"
    using Cons by simp
  then show ?case
    using Cons.prems kv by (auto simp: bt_extend_def map_add_def split: option.splits)
qed (simp add: bt_extend_def)

subsection \<open>Ordered sets\<close>

type_synonym 'a btree_set = "'a list"

fun bs_insert :: "'a::linorder \<Rightarrow> 'a btree_set \<Rightarrow> 'a btree_set" where
  "bs_insert x [] = [x]"
| "bs_insert x (y # ys) =
     (if x < y then x # y # ys else if x = y then y # ys else y # bs_insert x ys)"

fun bs_remove :: "'a::linorder \<Rightarrow> 'a btree_set \<Rightarrow> 'a btree_set" where
  "bs_remove x [] = []"
| "bs_remove x (y # ys) = (if x = y then ys else y # bs_remove x ys)"

definition bs_inv :: "'a::linorder btree_set \<Rightarrow> bool" where
  "bs_inv s \<longleftrightarrow> sorted_wrt (<) s"

definition bs_extend :: "'a::linorder btree_set \<Rightarrow> 'a list \<Rightarrow> 'a btree_set" where
  "bs_extend s xs = foldl (\<lambda>acc x. bs_insert x acc) s xs"

definition bs_of_list :: "'a::linorder list \<Rightarrow> 'a btree_set" where
  "bs_of_list xs = bs_extend [] xs"

lemma bs_inv_simps [simp]:
  "bs_inv []"
  "bs_inv (x # s) \<longleftrightarrow> (\<forall>y \<in> set s. x < y) \<and> bs_inv s"
  by (auto simp: bs_inv_def)

lemma set_bs_insert [simp]: "set (bs_insert x s) = insert x (set s)"
  by (induction s) auto

lemma bs_inv_insert [simp]: "bs_inv s \<Longrightarrow> bs_inv (bs_insert x s)"
  by (induction s) auto

lemma set_bs_remove [simp]: "bs_inv s \<Longrightarrow> set (bs_remove x s) = set s - {x}"
  by (induction s) auto

lemma bs_inv_remove [simp]: "bs_inv s \<Longrightarrow> bs_inv (bs_remove x s)"
proof (induction s)
  case (Cons y s)
  then show ?case by (auto dest: subsetD [rotated])
qed simp

lemma set_bs_extend [simp]: "set (bs_extend s xs) = set s \<union> set xs"
  by (induction xs arbitrary: s) (auto simp: bs_extend_def)

lemma bs_inv_extend [simp]: "bs_inv s \<Longrightarrow> bs_inv (bs_extend s xs)"
  by (induction xs arbitrary: s) (auto simp: bs_extend_def)

lemma set_bs_of_list [simp]: "set (bs_of_list xs) = set xs"
  by (simp add: bs_of_list_def)

lemma bs_inv_of_list [simp]: "bs_inv (bs_of_list xs)"
  by (simp add: bs_of_list_def)

lemma bs_inv_filter [simp]: "bs_inv s \<Longrightarrow> bs_inv (filter p s)"
  by (induction s) auto

lemma bs_inv_sorted: "bs_inv s \<longleftrightarrow> sorted s \<and> distinct s"
  by (auto simp: bs_inv_def strict_sorted_iff)

lemma bs_ext: "bs_inv s \<Longrightarrow> bs_inv t \<Longrightarrow> set s = set t \<Longrightarrow> s = t"
  by (simp add: bs_inv_sorted sorted_distinct_set_unique)

lemma bs_insert_above: "\<forall>y \<in> set s. y < x \<Longrightarrow> bs_insert x s = s @ [x]"
  by (induction s) auto

lemma bs_of_list_sorted: "bs_inv xs \<Longrightarrow> bs_of_list xs = xs"
  by (rule bs_ext) simp_all

lemma bs_keys_inv: "bt_inv m \<Longrightarrow> bs_inv (bt_keys m)"
  by (simp add: bt_inv_def bs_inv_def bt_keys_def)

end
