(* ===== verification/Model.thy ===== *)
theory Model
  imports Errors BTree "HOL-Library.Product_Lexorder"
begin

unbundle bit_operations_syntax

text \<open>
  The data model of the kernel, from \<open>src/core/model.rs\<close>: edges, relationships, vertices with
  labels and properties, property values with the total order the property indexes rely on, and
  the results the write paths return.
\<close>

type_synonym vertex_id = u64
type_synonym relationship_id = u64
type_synonym storage_sequence = u64

subsection \<open>Property values\<close>

text \<open>
  \<open>QueryFloat\<close> wraps an \<open>f64\<close> but is compared and stored by its bits, so a float is its 64-bit
  pattern.  \<open>f64::total_cmp\<close> flips the low 63 bits of a negative pattern and compares the results
  as signed integers.
\<close>

type_synonym query_float = u64

definition total_cmp_key :: "query_float \<Rightarrow> int" where
  "total_cmp_key w = sint (if bit w 63 then w XOR 0x7FFFFFFFFFFFFFFF else w)"

datatype vertex_property_value =
    V_Integer u64
  | V_SignedInteger u64
  | V_Bool bool
  | V_Float query_float
  | V_String string

definition from_i64 :: "u64 \<Rightarrow> vertex_property_value" where
  "from_i64 v = (if 0 \<le> sint v then V_Integer v else V_SignedInteger v)"

text \<open>
  The derived \<open>Ord\<close>: the variants in declaration order, then the payload -- unsigned, signed,
  \<open>false < true\<close>, \<open>total_cmp\<close>, and bytewise for strings.
\<close>

fun value_rank :: "vertex_property_value \<Rightarrow> nat \<times> int \<times> string" where
  "value_rank (V_Integer w) = (0, uint w, [])"
| "value_rank (V_SignedInteger w) = (1, sint w, [])"
| "value_rank (V_Bool b) = (2, of_bool b, [])"
| "value_rank (V_Float w) = (3, total_cmp_key w, [])"
| "value_rank (V_String s) = (4, 0, s)"

lemma flip_inj:
  fixes m :: "'a::len word"
  assumes m: "\<not> bit m n" and eq: "(if bit v n then v XOR m else v) = (if bit w n then w XOR m else w)"
  shows "v = w"
proof -
  have "bit (if bit u n then u XOR m else u) n = bit u n" for u
    using m by (simp add: bit_xor_iff)
  then have "bit v n = bit w n" using eq by metis
  moreover have "v = w" if "v XOR m = w XOR m"
  proof -
    have "(v XOR m) XOR m = (w XOR m) XOR m" by (simp only: that)
    then show ?thesis by (simp add: xor.assoc)
  qed
  ultimately show ?thesis using eq by (auto split: if_splits)
qed

lemma total_cmp_key_inject [simp]: "total_cmp_key v = total_cmp_key w \<longleftrightarrow> v = w"
proof
  assume "total_cmp_key v = total_cmp_key w"
  then have "(if bit v 63 then v XOR 0x7FFFFFFFFFFFFFFF else v) =
      (if bit w 63 then w XOR 0x7FFFFFFFFFFFFFFF else w)"
    unfolding total_cmp_key_def by (rule signed_word_eqI)
  moreover have "\<not> bit (0x7FFFFFFFFFFFFFFF :: u64) 63"
    by code_simp
  ultimately show "v = w"
    by (rule flip_inj [rotated])
qed simp

lemma value_rank_inject [simp]: "value_rank a = value_rank b \<longleftrightarrow> a = b"
  by (cases a; cases b) (auto intro: signed_word_eqI unsigned_word_eqI)

instantiation vertex_property_value :: linorder
begin

definition less_eq_vertex_property_value :: "vertex_property_value \<Rightarrow> vertex_property_value \<Rightarrow> bool" where
  "less_eq_vertex_property_value a b \<longleftrightarrow> value_rank a \<le> value_rank b"

definition less_vertex_property_value :: "vertex_property_value \<Rightarrow> vertex_property_value \<Rightarrow> bool" where
  "less_vertex_property_value a b \<longleftrightarrow> value_rank a < value_rank b"

instance
proof
  fix x y z :: vertex_property_value
  show "x < y \<longleftrightarrow> x \<le> y \<and> \<not> y \<le> x"
    by (simp add: less_eq_vertex_property_value_def less_vertex_property_value_def less_le_not_le)
  show "x \<le> x"
    by (simp add: less_eq_vertex_property_value_def)
  show "x \<le> y \<Longrightarrow> y \<le> z \<Longrightarrow> x \<le> z"
    unfolding less_eq_vertex_property_value_def by (rule order_trans)
  show "x \<le> y \<Longrightarrow> y \<le> x \<Longrightarrow> x = y"
    unfolding less_eq_vertex_property_value_def using antisym value_rank_inject by blast
  show "x \<le> y \<or> y \<le> x"
    unfolding less_eq_vertex_property_value_def by (rule linear)
qed

end

subsection \<open>Vertices, edges and relationships\<close>

record vertex_metadata =
  vm_labels :: "string btree_set"
  vm_properties :: "(string, vertex_property_value) btree_map"

record edge_metadata =
  em_properties :: "(string, vertex_property_value) btree_map"

record edge_mutation =
  mut_cell_id :: string
  mut_edge_type :: string
  mut_src :: vertex_id
  mut_dst :: vertex_id
  mut_idempotency_key :: string

record edge_record =
  er_cell_id :: string
  er_edge_type :: string
  er_src :: vertex_id
  er_dst :: vertex_id

record relationship_mutation =
  rm_cell_id :: string
  rm_edge_type :: string
  rm_src :: vertex_id
  rm_dst :: vertex_id
  rm_relationship_id :: relationship_id
  rm_metadata :: edge_metadata

record relationship_record =
  rr_cell_id :: string
  rr_edge_type :: string
  rr_src :: vertex_id
  rr_dst :: vertex_id
  rr_relationship_id :: relationship_id
  rr_metadata :: edge_metadata

record relationship_create_result =
  rcr_epoch :: storage_sequence
  rcr_relationship_id :: relationship_id
  rcr_structural_edge_inserted :: bool
  rcr_already_created :: bool

record out_edge_segment =
  oes_cell_id :: string
  oes_edge_type :: string
  oes_src :: vertex_id
  oes_storage_sequence :: storage_sequence
  oes_destinations :: "vertex_id list"

record commit_result =
  cr_epoch :: storage_sequence
  cr_already_existed :: bool

record delete_result =
  dr_epoch :: storage_sequence
  dr_deleted :: bool

record edge_delete_batch_result =
  edb_start_epoch :: storage_sequence
  edb_end_epoch :: storage_sequence
  edb_deleted :: u64
  edb_already_deleted :: u64
  edb_results :: "delete_result list"

record vertex_delete_result =
  vdr_epoch :: storage_sequence
  vdr_vertex_deleted :: bool
  vdr_incident_edges_deleted :: u64
  vdr_relationships_deleted :: u64

record graph_cell_drop_result =
  gcd_marker_epoch :: storage_sequence
  gcd_deleted_keys :: u64
  gcd_batches :: u64
  gcd_already_dropped :: bool

record bulk_import_result =
  bir_start_epoch :: storage_sequence
  bir_end_epoch :: storage_sequence
  bir_inserted :: u64
  bir_already_existed :: u64

record relationship_import_result =
  rir_start_epoch :: storage_sequence
  rir_end_epoch :: storage_sequence
  rir_relationships_inserted :: u64
  rir_relationships_already_existed :: u64
  rir_structural_edges_inserted :: u64
  rir_structural_edges_already_existed :: u64

definition default_vertex_metadata :: vertex_metadata where
  "default_vertex_metadata = \<lparr> vm_labels = [], vm_properties = [] \<rparr>"

definition default_edge_metadata :: edge_metadata where
  "default_edge_metadata = \<lparr> em_properties = [] \<rparr>"

definition vertex_with_label :: "vertex_metadata \<Rightarrow> string \<Rightarrow> vertex_metadata" where
  "vertex_with_label m label = m\<lparr> vm_labels := bs_insert label (vm_labels m) \<rparr>"

definition vertex_with_property ::
    "vertex_metadata \<Rightarrow> string \<Rightarrow> vertex_property_value \<Rightarrow> vertex_metadata" where
  "vertex_with_property m name v = m\<lparr> vm_properties := bt_insert name v (vm_properties m) \<rparr>"

definition edge_with_property ::
    "edge_metadata \<Rightarrow> string \<Rightarrow> vertex_property_value \<Rightarrow> edge_metadata" where
  "edge_with_property m name v = m\<lparr> em_properties := bt_insert name v (em_properties m) \<rparr>"

definition vertex_metadata_inv :: "vertex_metadata \<Rightarrow> bool" where
  "vertex_metadata_inv m \<longleftrightarrow> bs_inv (vm_labels m) \<and> bt_inv (vm_properties m)"

definition edge_metadata_inv :: "edge_metadata \<Rightarrow> bool" where
  "edge_metadata_inv m \<longleftrightarrow> bt_inv (em_properties m)"

lemma metadata_inv_builders [simp]:
  "vertex_metadata_inv default_vertex_metadata"
  "edge_metadata_inv default_edge_metadata"
  "vertex_metadata_inv m \<Longrightarrow> vertex_metadata_inv (vertex_with_label m l)"
  "vertex_metadata_inv m \<Longrightarrow> vertex_metadata_inv (vertex_with_property m p v)"
  "edge_metadata_inv e \<Longrightarrow> edge_metadata_inv (edge_with_property e p v)"
  by (simp_all add: vertex_metadata_inv_def edge_metadata_inv_def default_vertex_metadata_def
      default_edge_metadata_def vertex_with_label_def vertex_with_property_def
      edge_with_property_def)

end
