(* ===== verification/Keys.thy ===== *)
theory Keys
  imports Model
begin

text \<open>
  The storage-key builders of \<open>src/keys.rs\<close>, one definition per function, and the validator
  \<open>validate_component\<close> of \<open>src/codec.rs\<close> that guards every name placed in a key.  \<open>{x:020}\<close> is
  \<open>pad20\<close>.
\<close>

subsection \<open>Key components\<close>

definition component_byte :: "char \<Rightarrow> bool" where
  "component_byte b \<longleftrightarrow>
     ascii_alphanumeric b \<or> b = CHR ''_'' \<or> b = CHR ''-'' \<or> b = CHR ''.''"

definition validate_component :: "string \<Rightarrow> string \<Rightarrow> unit result" where
  "validate_component component v =
     (if v = [] \<or> \<not> list_all component_byte v then Inl (InvalidKeyComponent component v)
      else Inr ())"

definition valid_component :: "string \<Rightarrow> bool" where
  "valid_component v \<longleftrightarrow> v \<noteq> [] \<and> list_all component_byte v"

definition slash_free :: "string \<Rightarrow> bool" where
  "slash_free s \<longleftrightarrow> CHR ''/'' \<notin> set s"

lemma validate_component_Inr: "validate_component n v = Inr u \<longleftrightarrow> valid_component v"
  by (simp add: validate_component_def valid_component_def)

lemma validate_component_Inl:
  "validate_component n v = Inl e \<longleftrightarrow> \<not> valid_component v \<and> e = InvalidKeyComponent n v"
  by (auto simp: validate_component_def valid_component_def)

lemma component_byte_separators:
  "\<not> component_byte CHR ''/''" "\<not> component_byte CHR ''+''"
  "\<not> component_byte CHR 0x09" "\<not> component_byte CHR 0x0A" "\<not> component_byte CHR 0x0D"
  by code_simp+

lemma valid_component_notin:
  assumes "valid_component v"
  shows "CHR ''/'' \<notin> set v" "CHR ''+'' \<notin> set v" "CHR 0x09 \<notin> set v" "CHR 0x0A \<notin> set v"
    "CHR 0x0D \<notin> set v"
  using assms component_byte_separators by (auto simp: valid_component_def list_all_iff)

lemma valid_component_ne [simp]: "\<not> valid_component []"
  by (simp add: valid_component_def)

lemma valid_component_slash_free [simp]: "valid_component v \<Longrightarrow> slash_free v"
  by (simp add: slash_free_def valid_component_notin)

lemma component_byte_ascii: "component_byte b \<Longrightarrow> nat_of_byte b < 128"
  by (auto simp: component_byte_def ascii_alphanumeric_def Let_def)

lemma valid_component_ascii: "valid_component v \<Longrightarrow> ascii v"
  by (auto simp: valid_component_def ascii_def list_all_iff component_byte_ascii)

lemma slash_free_pad20 [simp]: "slash_free (pad20 w)"
  by (simp add: slash_free_def)

subsection \<open>Key builders\<close>

definition keys_cell_prefix :: "string \<Rightarrow> string" where [key_defs]:
  "keys_cell_prefix cell_id =
     ''cell/'' @ cell_id @ ''/''"

definition keys_cell_drop_marker :: "string \<Rightarrow> string" where [key_defs]:
  "keys_cell_drop_marker cell_id =
     ''graph/drop/cell/'' @ cell_id"

definition keys_cell_drop_pending_marker :: "string \<Rightarrow> string" where [key_defs]:
  "keys_cell_drop_pending_marker cell_id =
     ''graph/drop/pending/'' @ cell_id"

definition keys_cell_drop_idempotency ::
    "string \<Rightarrow> string \<Rightarrow> string" where [key_defs]:
  "keys_cell_drop_idempotency cell_id idempotency_key =
     ''graph/drop/idem/'' @ cell_id @ ''/'' @ idempotency_key"

definition keys_last_relationship_id :: "string \<Rightarrow> string" where [key_defs]:
  "keys_last_relationship_id cell_id =
     ''cell/'' @ cell_id @ ''/meta/last_relationship_id''"

definition keys_matrix_dirty_prefix :: "string \<Rightarrow> string" where [key_defs]:
  "keys_matrix_dirty_prefix cell_id =
     ''cell/'' @ cell_id @ ''/meta/matrix_dirty/''"

definition keys_matrix_dirty :: "string \<Rightarrow> string \<Rightarrow> string" where [key_defs]:
  "keys_matrix_dirty cell_id edge_type =
     keys_matrix_dirty_prefix cell_id @ edge_type"

definition keys_adjacency_generation ::
    "string \<Rightarrow> string \<Rightarrow> string" where [key_defs]:
  "keys_adjacency_generation cell_id edge_type =
     ''cell/'' @ cell_id @ ''/meta/adjacency_generation/'' @ edge_type"

definition keys_xlog_entry ::
    "string \<Rightarrow> string \<Rightarrow> storage_sequence \<Rightarrow> vertex_id \<Rightarrow> vertex_id \<Rightarrow> string" where [key_defs]:
  "keys_xlog_entry cell_id edge_type sequence src dst =
     ''cell/'' @ cell_id @ ''/xlog/'' @ edge_type @ ''/'' @ pad20 sequence @ ''/'' @ pad20 src @
     ''/'' @ pad20 dst"

definition keys_xlog_type_prefix ::
    "string \<Rightarrow> string \<Rightarrow> string" where [key_defs]:
  "keys_xlog_type_prefix cell_id edge_type =
     ''cell/'' @ cell_id @ ''/xlog/'' @ edge_type @ ''/''"

definition keys_xlog_low_water ::
    "string \<Rightarrow> string \<Rightarrow> string" where [key_defs]:
  "keys_xlog_low_water cell_id edge_type =
     ''cell/'' @ cell_id @ ''/meta/xlog_low/'' @ edge_type"

definition keys_idempotency ::
    "string \<Rightarrow> string \<Rightarrow> string \<Rightarrow> string" where [key_defs]:
  "keys_idempotency cell_id operation idempotency_key =
     ''cell/'' @ cell_id @ ''/idem/'' @ operation @ ''/'' @ idempotency_key"

definition keys_edge ::
    "string \<Rightarrow> string \<Rightarrow> vertex_id \<Rightarrow> vertex_id \<Rightarrow> string" where [key_defs]:
  "keys_edge cell_id edge_type src dst =
     ''cell/'' @ cell_id @ ''/edge/'' @ edge_type @ ''/'' @ pad20 src @ ''/'' @ pad20 dst"

definition keys_out_edge ::
    "string \<Rightarrow> string \<Rightarrow> vertex_id \<Rightarrow> vertex_id \<Rightarrow> string" where [key_defs]:
  "keys_out_edge cell_id edge_type src dst =
     ''cell/'' @ cell_id @ ''/e/out/'' @ edge_type @ ''/'' @ pad20 src @ ''/'' @ pad20 dst"

definition keys_in_edge ::
    "string \<Rightarrow> string \<Rightarrow> vertex_id \<Rightarrow> vertex_id \<Rightarrow> string" where [key_defs]:
  "keys_in_edge cell_id edge_type dst src =
     ''cell/'' @ cell_id @ ''/e/in/'' @ edge_type @ ''/'' @ pad20 dst @ ''/'' @ pad20 src"

definition keys_out_edge_type_prefix ::
    "string \<Rightarrow> string \<Rightarrow> string" where [key_defs]:
  "keys_out_edge_type_prefix cell_id edge_type =
     ''cell/'' @ cell_id @ ''/e/out/'' @ edge_type @ ''/''"

definition keys_out_edge_cell_prefix :: "string \<Rightarrow> string" where [key_defs]:
  "keys_out_edge_cell_prefix cell_id =
     ''cell/'' @ cell_id @ ''/e/out/''"

definition keys_in_edge_type_prefix ::
    "string \<Rightarrow> string \<Rightarrow> string" where [key_defs]:
  "keys_in_edge_type_prefix cell_id edge_type =
     ''cell/'' @ cell_id @ ''/e/in/'' @ edge_type @ ''/''"

definition keys_out_prefix ::
    "string \<Rightarrow> string \<Rightarrow> vertex_id \<Rightarrow> string" where [key_defs]:
  "keys_out_prefix cell_id edge_type src =
     ''cell/'' @ cell_id @ ''/e/out/'' @ edge_type @ ''/'' @ pad20 src @ ''/''"

definition keys_out_segment ::
    "string \<Rightarrow> string \<Rightarrow> vertex_id \<Rightarrow> storage_sequence \<Rightarrow> string \<Rightarrow> string" where [key_defs]:
  "keys_out_segment cell_id edge_type src storage_sequence segment_id =
     ''cell/'' @ cell_id @ ''/seg/out/'' @ edge_type @ ''/'' @ pad20 src @ ''/'' @
     pad20 storage_sequence @ ''/'' @ segment_id"

definition keys_out_segment_edge_type_prefix ::
    "string \<Rightarrow> string \<Rightarrow> string" where [key_defs]:
  "keys_out_segment_edge_type_prefix cell_id edge_type =
     ''cell/'' @ cell_id @ ''/seg/out/'' @ edge_type @ ''/''"

definition keys_out_segment_cell_prefix :: "string \<Rightarrow> string" where [key_defs]:
  "keys_out_segment_cell_prefix cell_id =
     ''cell/'' @ cell_id @ ''/seg/out/''"

definition keys_out_segment_src_prefix ::
    "string \<Rightarrow> string \<Rightarrow> vertex_id \<Rightarrow> string" where [key_defs]:
  "keys_out_segment_src_prefix cell_id edge_type src =
     ''cell/'' @ cell_id @ ''/seg/out/'' @ edge_type @ ''/'' @ pad20 src @ ''/''"

definition keys_out_segment_tombstone ::
    "string \<Rightarrow> string \<Rightarrow> vertex_id \<Rightarrow> vertex_id \<Rightarrow> string" where [key_defs]:
  "keys_out_segment_tombstone cell_id edge_type src dst =
     ''cell/'' @ cell_id @ ''/seg/tomb/out/'' @ edge_type @ ''/'' @ pad20 src @ ''/'' @ pad20 dst"

definition keys_out_segment_tombstone_edge_type_prefix ::
    "string \<Rightarrow> string \<Rightarrow> string" where [key_defs]:
  "keys_out_segment_tombstone_edge_type_prefix cell_id edge_type =
     ''cell/'' @ cell_id @ ''/seg/tomb/out/'' @ edge_type @ ''/''"

definition keys_out_segment_tombstone_src_prefix ::
    "string \<Rightarrow> string \<Rightarrow> vertex_id \<Rightarrow> string" where [key_defs]:
  "keys_out_segment_tombstone_src_prefix cell_id edge_type src =
     ''cell/'' @ cell_id @ ''/seg/tomb/out/'' @ edge_type @ ''/'' @ pad20 src @ ''/''"

definition keys_in_prefix ::
    "string \<Rightarrow> string \<Rightarrow> vertex_id \<Rightarrow> string" where [key_defs]:
  "keys_in_prefix cell_id edge_type dst =
     ''cell/'' @ cell_id @ ''/e/in/'' @ edge_type @ ''/'' @ pad20 dst @ ''/''"

definition keys_edge_metadata ::
    "string \<Rightarrow> string \<Rightarrow> vertex_id \<Rightarrow> vertex_id \<Rightarrow> string" where [key_defs]:
  "keys_edge_metadata cell_id edge_type src dst =
     ''cell/'' @ cell_id @ ''/emeta/'' @ edge_type @ ''/'' @ pad20 src @ ''/'' @ pad20 dst"

definition keys_relationship ::
    "string \<Rightarrow> string \<Rightarrow> vertex_id \<Rightarrow> vertex_id \<Rightarrow> relationship_id \<Rightarrow> string" where [key_defs]:
  "keys_relationship cell_id edge_type src dst relationship_id =
     ''cell/'' @ cell_id @ ''/rel/'' @ edge_type @ ''/'' @ pad20 src @ ''/'' @ pad20 dst @
     ''/'' @ pad20 relationship_id"

definition keys_relationship_edge_prefix ::
    "string \<Rightarrow> string \<Rightarrow> vertex_id \<Rightarrow> vertex_id \<Rightarrow> string" where [key_defs]:
  "keys_relationship_edge_prefix cell_id edge_type src dst =
     ''cell/'' @ cell_id @ ''/rel/'' @ edge_type @ ''/'' @ pad20 src @ ''/'' @ pad20 dst @ ''/''"

definition keys_relationship_cell_prefix :: "string \<Rightarrow> string" where [key_defs]:
  "keys_relationship_cell_prefix cell_id =
     ''cell/'' @ cell_id @ ''/rel/''"

definition keys_relationship_source_prefix ::
    "string \<Rightarrow> string \<Rightarrow> vertex_id \<Rightarrow> string" where [key_defs]:
  "keys_relationship_source_prefix cell_id edge_type src =
     ''cell/'' @ cell_id @ ''/rel/'' @ edge_type @ ''/'' @ pad20 src @ ''/''"

definition keys_relationship_id ::
    "string \<Rightarrow> relationship_id \<Rightarrow> string" where [key_defs]:
  "keys_relationship_id cell_id relationship_id =
     ''cell/'' @ cell_id @ ''/rel_id/'' @ pad20 relationship_id"

definition keys_relationship_count ::
    "string \<Rightarrow> string \<Rightarrow> vertex_id \<Rightarrow> vertex_id \<Rightarrow> string" where [key_defs]:
  "keys_relationship_count cell_id edge_type src dst =
     ''cell/'' @ cell_id @ ''/rel_count/'' @ edge_type @ ''/'' @ pad20 src @ ''/'' @ pad20 dst"

definition keys_relationship_count_edge_type_prefix ::
    "string \<Rightarrow> string \<Rightarrow> string" where [key_defs]:
  "keys_relationship_count_edge_type_prefix cell_id edge_type =
     ''cell/'' @ cell_id @ ''/rel_count/'' @ edge_type @ ''/''"

definition keys_degree_out_prefix ::
    "string \<Rightarrow> string \<Rightarrow> string" where [key_defs]:
  "keys_degree_out_prefix cell_id edge_type =
     ''cell/'' @ cell_id @ ''/cnt/out/'' @ edge_type @ ''/''"

definition keys_degree_in_prefix ::
    "string \<Rightarrow> string \<Rightarrow> string" where [key_defs]:
  "keys_degree_in_prefix cell_id edge_type =
     ''cell/'' @ cell_id @ ''/cnt/in/'' @ edge_type @ ''/''"

definition keys_degree_out_cell_prefix :: "string \<Rightarrow> string" where [key_defs]:
  "keys_degree_out_cell_prefix cell_id =
     ''cell/'' @ cell_id @ ''/cnt/out/''"

definition keys_degree_out ::
    "string \<Rightarrow> string \<Rightarrow> vertex_id \<Rightarrow> string" where [key_defs]:
  "keys_degree_out cell_id edge_type src =
     ''cell/'' @ cell_id @ ''/cnt/out/'' @ edge_type @ ''/'' @ pad20 src"

definition keys_degree_in ::
    "string \<Rightarrow> string \<Rightarrow> vertex_id \<Rightarrow> string" where [key_defs]:
  "keys_degree_in cell_id edge_type dst =
     ''cell/'' @ cell_id @ ''/cnt/in/'' @ edge_type @ ''/'' @ pad20 dst"

definition keys_vertex :: "string \<Rightarrow> vertex_id \<Rightarrow> string" where [key_defs]:
  "keys_vertex cell_id vertex_id =
     ''cell/'' @ cell_id @ ''/vertex/'' @ pad20 vertex_id"

definition keys_vertex_prefix :: "string \<Rightarrow> string" where [key_defs]:
  "keys_vertex_prefix cell_id =
     ''cell/'' @ cell_id @ ''/vertex/''"

definition keys_vertex_label ::
    "string \<Rightarrow> string \<Rightarrow> vertex_id \<Rightarrow> string" where [key_defs]:
  "keys_vertex_label cell_id label vertex_id =
     ''cell/'' @ cell_id @ ''/vlabel/'' @ label @ ''/'' @ pad20 vertex_id"

definition keys_vertex_label_prefix ::
    "string \<Rightarrow> string \<Rightarrow> string" where [key_defs]:
  "keys_vertex_label_prefix cell_id label =
     ''cell/'' @ cell_id @ ''/vlabel/'' @ label @ ''/''"

definition keys_vertex_label_cell_prefix :: "string \<Rightarrow> string" where [key_defs]:
  "keys_vertex_label_cell_prefix cell_id =
     ''cell/'' @ cell_id @ ''/vlabel/''"

definition keys_vertex_property_index_cell_prefix :: "string \<Rightarrow> string" where [key_defs]:
  "keys_vertex_property_index_cell_prefix cell_id =
     ''cell/'' @ cell_id @ ''/vprop_idx/''"

definition keys_vertex_property_index_entry_suffix ::
    "string \<Rightarrow> vertex_id \<Rightarrow> string" where [key_defs]:
  "keys_vertex_property_index_entry_suffix encoded_value vertex_id =
     encoded_value @ ''/'' @ pad20 vertex_id"

definition keys_vertex_property_index ::
    "string \<Rightarrow> string \<Rightarrow> string \<Rightarrow> vertex_id \<Rightarrow> string" where [key_defs]:
  "keys_vertex_property_index cell_id property encoded_value vertex_id =
     ''cell/'' @ cell_id @ ''/vprop_idx/'' @ property @ ''/'' @
     keys_vertex_property_index_entry_suffix encoded_value vertex_id"

definition keys_vertex_property_index_prefix ::
    "string \<Rightarrow> string \<Rightarrow> string \<Rightarrow> string" where [key_defs]:
  "keys_vertex_property_index_prefix cell_id property encoded_value =
     ''cell/'' @ cell_id @ ''/vprop_idx/'' @ property @ ''/'' @ encoded_value @ ''/''"

definition keys_vertex_property_index_property_prefix ::
    "string \<Rightarrow> string \<Rightarrow> string" where [key_defs]:
  "keys_vertex_property_index_property_prefix cell_id property =
     ''cell/'' @ cell_id @ ''/vprop_idx/'' @ property @ ''/''"

definition keys_edge_property_index_cell_prefix :: "string \<Rightarrow> string" where [key_defs]:
  "keys_edge_property_index_cell_prefix cell_id =
     ''cell/'' @ cell_id @ ''/eprop_idx/''"

definition keys_relationship_property_index_cell_prefix ::
    "string \<Rightarrow> string" where [key_defs]:
  "keys_relationship_property_index_cell_prefix cell_id =
     ''cell/'' @ cell_id @ ''/rprop_idx/''"

definition keys_edge_property_index ::
    "string \<Rightarrow> string \<Rightarrow> string \<Rightarrow> string \<Rightarrow> vertex_id \<Rightarrow> vertex_id \<Rightarrow> string" where [key_defs]:
  "keys_edge_property_index cell_id edge_type property encoded_value src dst =
     ''cell/'' @ cell_id @ ''/eprop_idx/'' @ edge_type @ ''/'' @ property @ ''/'' @
     encoded_value @ ''/'' @ pad20 src @ ''/'' @ pad20 dst"

definition keys_relationship_property_index ::
    "string \<Rightarrow> string \<Rightarrow> string \<Rightarrow> string \<Rightarrow> vertex_id \<Rightarrow> vertex_id \<Rightarrow> relationship_id \<Rightarrow> string" where [key_defs]:
 
     "keys_relationship_property_index cell_id edge_type property encoded_value src dst relationship_id =
     ''cell/'' @ cell_id @ ''/rprop_idx/'' @ edge_type @ ''/'' @ property @ ''/'' @
     encoded_value @ ''/'' @ pad20 src @ ''/'' @ pad20 dst @ ''/'' @ pad20 relationship_id"

definition keys_relationship_merge_index ::
    "string \<Rightarrow> string \<Rightarrow> string \<Rightarrow> string \<Rightarrow> vertex_id \<Rightarrow> vertex_id \<Rightarrow> string" where [key_defs]:
  "keys_relationship_merge_index cell_id edge_type property encoded_value src dst =
     ''cell/'' @ cell_id @ ''/rmerge_idx/'' @ edge_type @ ''/'' @ property @ ''/'' @
     encoded_value @ ''/'' @ pad20 src @ ''/'' @ pad20 dst"

definition keys_relationship_property_index_prefix ::
    "string \<Rightarrow> string \<Rightarrow> string \<Rightarrow> string \<Rightarrow> string" where [key_defs]:
  "keys_relationship_property_index_prefix cell_id edge_type property encoded_value =
     ''cell/'' @ cell_id @ ''/rprop_idx/'' @ edge_type @ ''/'' @ property @ ''/'' @
     encoded_value @ ''/''"

definition keys_relationship_property_index_property_prefix ::
    "string \<Rightarrow> string \<Rightarrow> string \<Rightarrow> string" where [key_defs]:
  "keys_relationship_property_index_property_prefix cell_id edge_type property =
     ''cell/'' @ cell_id @ ''/rprop_idx/'' @ edge_type @ ''/'' @ property @ ''/''"

definition keys_relationship_property_index_edge_prefix ::
    "string \<Rightarrow> string \<Rightarrow> string \<Rightarrow> string \<Rightarrow> vertex_id \<Rightarrow> vertex_id \<Rightarrow> string" where [key_defs]:
  "keys_relationship_property_index_edge_prefix cell_id edge_type property encoded_value src dst =
     ''cell/'' @ cell_id @ ''/rprop_idx/'' @ edge_type @ ''/'' @ property @ ''/'' @
     encoded_value @ ''/'' @ pad20 src @ ''/'' @ pad20 dst @ ''/''"

definition keys_edge_property_index_prefix ::
    "string \<Rightarrow> string \<Rightarrow> string \<Rightarrow> string \<Rightarrow> string" where [key_defs]:
  "keys_edge_property_index_prefix cell_id edge_type property encoded_value =
     ''cell/'' @ cell_id @ ''/eprop_idx/'' @ edge_type @ ''/'' @ property @ ''/'' @
     encoded_value @ ''/''"

definition keys_edge_property_index_property_prefix ::
    "string \<Rightarrow> string \<Rightarrow> string \<Rightarrow> string" where [key_defs]:
  "keys_edge_property_index_property_prefix cell_id edge_type property =
     ''cell/'' @ cell_id @ ''/eprop_idx/'' @ edge_type @ ''/'' @ property @ ''/''"

definition keys_query_stats_edge_type ::
    "string \<Rightarrow> string \<Rightarrow> string" where [key_defs]:
  "keys_query_stats_edge_type cell_id edge_type =
     ''cell/'' @ cell_id @ ''/qstats/edge_type/'' @ edge_type"

definition keys_query_stats_edge_expansion ::
    "string \<Rightarrow> string \<Rightarrow> string \<Rightarrow> string list \<Rightarrow> string" where [key_defs]:
  "keys_query_stats_edge_expansion cell_id edge_type direction source_labels =
     ''cell/'' @ cell_id @ ''/qstats/expand/'' @ direction @ ''/'' @ edge_type @ ''/'' @
     join_char CHR ''+'' source_labels"

definition keys_query_stats_vertex_label ::
    "string \<Rightarrow> string \<Rightarrow> string" where [key_defs]:
  "keys_query_stats_vertex_label cell_id label =
     ''cell/'' @ cell_id @ ''/qstats/vlabel/'' @ label"

definition keys_query_stats_vertex_label_intersection ::
    "string \<Rightarrow> string list \<Rightarrow> string" where [key_defs]:
  "keys_query_stats_vertex_label_intersection cell_id labels =
     ''cell/'' @ cell_id @ ''/qstats/vlabels/'' @ join_char CHR ''+'' labels"

definition keys_query_stats_vertex_property ::
    "string \<Rightarrow> string \<Rightarrow> string \<Rightarrow> string" where [key_defs]:
  "keys_query_stats_vertex_property cell_id property encoded_value =
     ''cell/'' @ cell_id @ ''/qstats/vprop/'' @ property @ ''/'' @ encoded_value"

definition keys_query_stats_vertex_property_prefix ::
    "string \<Rightarrow> string \<Rightarrow> string" where [key_defs]:
  "keys_query_stats_vertex_property_prefix cell_id property =
     ''cell/'' @ cell_id @ ''/qstats/vprop/'' @ property @ ''/''"

definition keys_query_stats_edge_property ::
    "string \<Rightarrow> string \<Rightarrow> string \<Rightarrow> string \<Rightarrow> string" where [key_defs]:
  "keys_query_stats_edge_property cell_id edge_type property encoded_value =
     ''cell/'' @ cell_id @ ''/qstats/eprop/'' @ edge_type @ ''/'' @ property @ ''/'' @
     encoded_value"

definition keys_query_stats_edge_property_prefix ::
    "string \<Rightarrow> string \<Rightarrow> string \<Rightarrow> string" where [key_defs]:
  "keys_query_stats_edge_property_prefix cell_id edge_type property =
     ''cell/'' @ cell_id @ ''/qstats/eprop/'' @ edge_type @ ''/'' @ property @ ''/''"

definition keys_query_stats_vertex_property_histogram ::
    "string \<Rightarrow> string \<Rightarrow> string" where [key_defs]:
  "keys_query_stats_vertex_property_histogram cell_id property =
     ''cell/'' @ cell_id @ ''/qstats/vprop_hist/'' @ property"

definition keys_query_stats_edge_property_histogram ::
    "string \<Rightarrow> string \<Rightarrow> string \<Rightarrow> string" where [key_defs]:
  "keys_query_stats_edge_property_histogram cell_id edge_type property =
     ''cell/'' @ cell_id @ ''/qstats/eprop_hist/'' @ edge_type @ ''/'' @ property"

definition keys_query_stats_record_key :: "string \<Rightarrow> string" where [key_defs]:
  "keys_query_stats_record_key count_key =
     count_key @ ''/record''"

end
