(* ===== verification/Key_Space.thy ===== *)
theory Key_Space
  imports Keys
begin

text \<open>
  The key space as data: \<open>graph_key\<close> has one constructor per kind of record stored in SlateDB and
  \<open>key_prefix\<close> one per scan prefix, each rendered by the builder of \<open>src/keys.rs\<close> it stands for.
  Rendering is injective on validated components, so no two records share a key; a prefix scan
  returns exactly the records of its family; and the zero-padded numbers sort as numbers.
\<close>

datatype stats_key =
    S_EdgeType string string
  | S_EdgeExpansion string string string "string list"
  | S_VertexLabel string string
  | S_VertexLabelIntersection string "string list"
  | S_VertexProperty string string string
  | S_EdgeProperty string string string string
  | S_VertexPropertyHistogram string string
  | S_EdgePropertyHistogram string string string

datatype graph_key =
    K_CellDropMarker string
  | K_CellDropPendingMarker string
  | K_CellDropIdempotency string string
  | K_LastRelationshipId string
  | K_MatrixDirty string string
  | K_AdjacencyGeneration string string
  | K_XlogEntry string string storage_sequence vertex_id vertex_id
  | K_XlogLowWater string string
  | K_Idempotency string string string
  | K_Edge string string vertex_id vertex_id
  | K_OutEdge string string vertex_id vertex_id
  | K_InEdge string string vertex_id vertex_id
  | K_OutSegment string string vertex_id storage_sequence string
  | K_OutSegmentTombstone string string vertex_id vertex_id
  | K_EdgeMetadata string string vertex_id vertex_id
  | K_Relationship string string vertex_id vertex_id relationship_id
  | K_RelationshipId string relationship_id
  | K_RelationshipCount string string vertex_id vertex_id
  | K_DegreeOut string string vertex_id
  | K_DegreeIn string string vertex_id
  | K_Vertex string vertex_id
  | K_VertexLabel string string vertex_id
  | K_VertexPropertyIndex string string string vertex_id
  | K_EdgePropertyIndex string string string string vertex_id vertex_id
  | K_RelationshipPropertyIndex string string string string vertex_id vertex_id relationship_id
  | K_RelationshipMergeIndex string string string string vertex_id vertex_id
  | K_QueryStats stats_key
  | K_QueryStatsRecord stats_key

fun render_stats :: "stats_key \<Rightarrow> string" where
  "render_stats (S_EdgeType c t) = keys_query_stats_edge_type c t"
| "render_stats (S_EdgeExpansion c t w ls) = keys_query_stats_edge_expansion c t w ls"
| "render_stats (S_VertexLabel c l) = keys_query_stats_vertex_label c l"
| "render_stats (S_VertexLabelIntersection c ls) = keys_query_stats_vertex_label_intersection c ls"
| "render_stats (S_VertexProperty c p e) = keys_query_stats_vertex_property c p e"
| "render_stats (S_EdgeProperty c t p e) = keys_query_stats_edge_property c t p e"
| "render_stats (S_VertexPropertyHistogram c p) = keys_query_stats_vertex_property_histogram c p"
| "render_stats (S_EdgePropertyHistogram c t p) = keys_query_stats_edge_property_histogram c t p"

fun render :: "graph_key \<Rightarrow> string" where
  "render (K_CellDropMarker c) = keys_cell_drop_marker c"
| "render (K_CellDropPendingMarker c) = keys_cell_drop_pending_marker c"
| "render (K_CellDropIdempotency c i) = keys_cell_drop_idempotency c i"
| "render (K_LastRelationshipId c) = keys_last_relationship_id c"
| "render (K_MatrixDirty c t) = keys_matrix_dirty c t"
| "render (K_AdjacencyGeneration c t) = keys_adjacency_generation c t"
| "render (K_XlogEntry c t q s d) = keys_xlog_entry c t q s d"
| "render (K_XlogLowWater c t) = keys_xlog_low_water c t"
| "render (K_Idempotency c w i) = keys_idempotency c w i"
| "render (K_Edge c t s d) = keys_edge c t s d"
| "render (K_OutEdge c t s d) = keys_out_edge c t s d"
| "render (K_InEdge c t d s) = keys_in_edge c t d s"
| "render (K_OutSegment c t s q g) = keys_out_segment c t s q g"
| "render (K_OutSegmentTombstone c t s d) = keys_out_segment_tombstone c t s d"
| "render (K_EdgeMetadata c t s d) = keys_edge_metadata c t s d"
| "render (K_Relationship c t s d r) = keys_relationship c t s d r"
| "render (K_RelationshipId c r) = keys_relationship_id c r"
| "render (K_RelationshipCount c t s d) = keys_relationship_count c t s d"
| "render (K_DegreeOut c t s) = keys_degree_out c t s"
| "render (K_DegreeIn c t d) = keys_degree_in c t d"
| "render (K_Vertex c v) = keys_vertex c v"
| "render (K_VertexLabel c l v) = keys_vertex_label c l v"
| "render (K_VertexPropertyIndex c p e v) = keys_vertex_property_index c p e v"
| "render (K_EdgePropertyIndex c t p e s d) = keys_edge_property_index c t p e s d"
| "render (K_RelationshipPropertyIndex c t p e s d r)
         = keys_relationship_property_index c t p e s d r"
| "render (K_RelationshipMergeIndex c t p e s d) = keys_relationship_merge_index c t p e s d"
| "render (K_QueryStats k) = render_stats k"
| "render (K_QueryStatsRecord k) = keys_query_stats_record_key (render_stats k)"

fun valid_stats :: "stats_key \<Rightarrow> bool" where
  "valid_stats (S_EdgeType c t) \<longleftrightarrow> valid_component c \<and> valid_component t"
| "valid_stats (S_EdgeExpansion c t w ls) \<longleftrightarrow> valid_component c
         \<and> valid_component t \<and> slash_free w
         \<and> (\<forall>l \<in> set ls. valid_component l)"
| "valid_stats (S_VertexLabel c l) \<longleftrightarrow> valid_component c \<and> valid_component l"
| "valid_stats (S_VertexLabelIntersection c ls) \<longleftrightarrow> valid_component c
         \<and> (\<forall>l \<in> set ls. valid_component l)"
| "valid_stats (S_VertexProperty c p e) \<longleftrightarrow> valid_component c
         \<and> valid_component p \<and> slash_free e"
| "valid_stats (S_EdgeProperty c t p e) \<longleftrightarrow> valid_component c
         \<and> valid_component t \<and> valid_component p \<and> slash_free e"
| "valid_stats (S_VertexPropertyHistogram c p) \<longleftrightarrow> valid_component c
         \<and> valid_component p"
| "valid_stats (S_EdgePropertyHistogram c t p) \<longleftrightarrow> valid_component c
         \<and> valid_component t \<and> valid_component p"

fun valid_key :: "graph_key \<Rightarrow> bool" where
  "valid_key (K_CellDropMarker c) \<longleftrightarrow> valid_component c"
| "valid_key (K_CellDropPendingMarker c) \<longleftrightarrow> valid_component c"
| "valid_key (K_CellDropIdempotency c i) \<longleftrightarrow> valid_component c
         \<and> valid_component i"
| "valid_key (K_LastRelationshipId c) \<longleftrightarrow> valid_component c"
| "valid_key (K_MatrixDirty c t) \<longleftrightarrow> valid_component c \<and> valid_component t"
| "valid_key (K_AdjacencyGeneration c t) \<longleftrightarrow> valid_component c
         \<and> valid_component t"
| "valid_key (K_XlogEntry c t q s d) \<longleftrightarrow> valid_component c
         \<and> valid_component t"
| "valid_key (K_XlogLowWater c t) \<longleftrightarrow> valid_component c \<and> valid_component t"
| "valid_key (K_Idempotency c w i) \<longleftrightarrow> valid_component c
         \<and> slash_free w \<and> valid_component i"
| "valid_key (K_Edge c t s d) \<longleftrightarrow> valid_component c \<and> valid_component t"
| "valid_key (K_OutEdge c t s d) \<longleftrightarrow> valid_component c \<and> valid_component t"
| "valid_key (K_InEdge c t d s) \<longleftrightarrow> valid_component c \<and> valid_component t"
| "valid_key (K_OutSegment c t s q g) \<longleftrightarrow> valid_component c
         \<and> valid_component t \<and> slash_free g"
| "valid_key (K_OutSegmentTombstone c t s d) \<longleftrightarrow> valid_component c
         \<and> valid_component t"
| "valid_key (K_EdgeMetadata c t s d) \<longleftrightarrow> valid_component c
         \<and> valid_component t"
| "valid_key (K_Relationship c t s d r) \<longleftrightarrow> valid_component c
         \<and> valid_component t"
| "valid_key (K_RelationshipId c r) \<longleftrightarrow> valid_component c"
| "valid_key (K_RelationshipCount c t s d) \<longleftrightarrow> valid_component c
         \<and> valid_component t"
| "valid_key (K_DegreeOut c t s) \<longleftrightarrow> valid_component c \<and> valid_component t"
| "valid_key (K_DegreeIn c t d) \<longleftrightarrow> valid_component c \<and> valid_component t"
| "valid_key (K_Vertex c v) \<longleftrightarrow> valid_component c"
| "valid_key (K_VertexLabel c l v) \<longleftrightarrow> valid_component c \<and> valid_component l"
| "valid_key (K_VertexPropertyIndex c p e v) \<longleftrightarrow> valid_component c
         \<and> valid_component p \<and> slash_free e"
| "valid_key (K_EdgePropertyIndex c t p e s d) \<longleftrightarrow> valid_component c
         \<and> valid_component t \<and> valid_component p \<and> slash_free e"
| "valid_key (K_RelationshipPropertyIndex c t p e s d r) \<longleftrightarrow> valid_component c \<and> valid_component t \<and> valid_component p \<and> slash_free e"
| "valid_key (K_RelationshipMergeIndex c t p e s d) \<longleftrightarrow> valid_component c \<and> valid_component t \<and> valid_component p \<and> slash_free e"
| "valid_key (K_QueryStats k) \<longleftrightarrow> valid_stats k"
| "valid_key (K_QueryStatsRecord k) \<longleftrightarrow> valid_stats k"

fun stats_segs :: "stats_key \<Rightarrow> string list" where
  "stats_segs (S_EdgeType c t) = [''cell'', c, ''qstats'', ''edge_type'', t]"
| "stats_segs (S_EdgeExpansion c t w ls) = [''cell'', c, ''qstats'', ''expand'', w, t,
         join_char CHR ''+'' ls]"
| "stats_segs (S_VertexLabel c l) = [''cell'', c, ''qstats'', ''vlabel'', l]"
| "stats_segs (S_VertexLabelIntersection c ls) = [''cell'', c, ''qstats'', ''vlabels'',
         join_char CHR ''+'' ls]"
| "stats_segs (S_VertexProperty c p e) = [''cell'', c, ''qstats'', ''vprop'', p, e]"
| "stats_segs (S_EdgeProperty c t p e) = [''cell'', c, ''qstats'', ''eprop'', t, p, e]"
| "stats_segs (S_VertexPropertyHistogram c p) = [''cell'', c, ''qstats'', ''vprop_hist'', p]"
| "stats_segs (S_EdgePropertyHistogram c t p) = [''cell'', c, ''qstats'', ''eprop_hist'', t, p]"

fun key_segs :: "graph_key \<Rightarrow> string list" where
  "key_segs (K_CellDropMarker c) = [''graph'', ''drop'', ''cell'', c]"
| "key_segs (K_CellDropPendingMarker c) = [''graph'', ''drop'', ''pending'', c]"
| "key_segs (K_CellDropIdempotency c i) = [''graph'', ''drop'', ''idem'', c, i]"
| "key_segs (K_LastRelationshipId c) = [''cell'', c, ''meta'', ''last_relationship_id'']"
| "key_segs (K_MatrixDirty c t) = [''cell'', c, ''meta'', ''matrix_dirty'', t]"
| "key_segs (K_AdjacencyGeneration c t) = [''cell'', c, ''meta'', ''adjacency_generation'', t]"
| "key_segs (K_XlogEntry c t q s d) = [''cell'', c, ''xlog'', t, pad20 q, pad20 s, pad20 d]"
| "key_segs (K_XlogLowWater c t) = [''cell'', c, ''meta'', ''xlog_low'', t]"
| "key_segs (K_Idempotency c w i) = [''cell'', c, ''idem'', w, i]"
| "key_segs (K_Edge c t s d) = [''cell'', c, ''edge'', t, pad20 s, pad20 d]"
| "key_segs (K_OutEdge c t s d) = [''cell'', c, ''e'', ''out'', t, pad20 s, pad20 d]"
| "key_segs (K_InEdge c t d s) = [''cell'', c, ''e'', ''in'', t, pad20 d, pad20 s]"
| "key_segs (K_OutSegment c t s q g) = [''cell'', c, ''seg'', ''out'', t, pad20 s, pad20 q, g]"
| "key_segs (K_OutSegmentTombstone c t s d) = [''cell'', c, ''seg'', ''tomb'', ''out'', t,
         pad20 s, pad20 d]"
| "key_segs (K_EdgeMetadata c t s d) = [''cell'', c, ''emeta'', t, pad20 s, pad20 d]"
| "key_segs (K_Relationship c t s d r) = [''cell'', c, ''rel'', t, pad20 s, pad20 d, pad20 r]"
| "key_segs (K_RelationshipId c r) = [''cell'', c, ''rel_id'', pad20 r]"
| "key_segs (K_RelationshipCount c t s d) = [''cell'', c, ''rel_count'', t, pad20 s, pad20 d]"
| "key_segs (K_DegreeOut c t s) = [''cell'', c, ''cnt'', ''out'', t, pad20 s]"
| "key_segs (K_DegreeIn c t d) = [''cell'', c, ''cnt'', ''in'', t, pad20 d]"
| "key_segs (K_Vertex c v) = [''cell'', c, ''vertex'', pad20 v]"
| "key_segs (K_VertexLabel c l v) = [''cell'', c, ''vlabel'', l, pad20 v]"
| "key_segs (K_VertexPropertyIndex c p e v) = [''cell'', c, ''vprop_idx'', p, e, pad20 v]"
| "key_segs (K_EdgePropertyIndex c t p e s d) = [''cell'', c, ''eprop_idx'', t, p, e, pad20 s,
         pad20 d]"
| "key_segs (K_RelationshipPropertyIndex c t p e s d r) = [''cell'', c, ''rprop_idx'', t, p, e,
         pad20 s, pad20 d, pad20 r]"
| "key_segs (K_RelationshipMergeIndex c t p e s d) = [''cell'', c, ''rmerge_idx'', t, p, e,
         pad20 s, pad20 d]"
| "key_segs (K_QueryStats k) = stats_segs k"
| "key_segs (K_QueryStatsRecord k) = stats_segs k @ [''record'']"

datatype key_prefix =
    P_CellPrefix string
  | P_MatrixDirtyPrefix string
  | P_XlogTypePrefix string string
  | P_OutEdgeTypePrefix string string
  | P_OutEdgeCellPrefix string
  | P_InEdgeTypePrefix string string
  | P_OutPrefix string string vertex_id
  | P_OutSegmentEdgeTypePrefix string string
  | P_OutSegmentCellPrefix string
  | P_OutSegmentSrcPrefix string string vertex_id
  | P_OutSegmentTombstoneEdgeTypePrefix string string
  | P_OutSegmentTombstoneSrcPrefix string string vertex_id
  | P_InPrefix string string vertex_id
  | P_RelationshipEdgePrefix string string vertex_id vertex_id
  | P_RelationshipCellPrefix string
  | P_RelationshipSourcePrefix string string vertex_id
  | P_RelationshipCountEdgeTypePrefix string string
  | P_DegreeOutPrefix string string
  | P_DegreeInPrefix string string
  | P_DegreeOutCellPrefix string
  | P_VertexPrefix string
  | P_VertexLabelPrefix string string
  | P_VertexLabelCellPrefix string
  | P_VertexPropertyIndexCellPrefix string
  | P_VertexPropertyIndexPrefix string string string
  | P_VertexPropertyIndexPropertyPrefix string string
  | P_EdgePropertyIndexCellPrefix string
  | P_RelationshipPropertyIndexCellPrefix string
  | P_RelationshipPropertyIndexPrefix string string string string
  | P_RelationshipPropertyIndexPropertyPrefix string string string
  | P_RelationshipPropertyIndexEdgePrefix string string string string vertex_id vertex_id
  | P_EdgePropertyIndexPrefix string string string string
  | P_EdgePropertyIndexPropertyPrefix string string string
  | P_QueryStatsVertexPropertyPrefix string string
  | P_QueryStatsEdgePropertyPrefix string string string

fun render_prefix :: "key_prefix \<Rightarrow> string" where
  "render_prefix (P_CellPrefix c) = keys_cell_prefix c"
| "render_prefix (P_MatrixDirtyPrefix c) = keys_matrix_dirty_prefix c"
| "render_prefix (P_XlogTypePrefix c t) = keys_xlog_type_prefix c t"
| "render_prefix (P_OutEdgeTypePrefix c t) = keys_out_edge_type_prefix c t"
| "render_prefix (P_OutEdgeCellPrefix c) = keys_out_edge_cell_prefix c"
| "render_prefix (P_InEdgeTypePrefix c t) = keys_in_edge_type_prefix c t"
| "render_prefix (P_OutPrefix c t s) = keys_out_prefix c t s"
| "render_prefix (P_OutSegmentEdgeTypePrefix c t) = keys_out_segment_edge_type_prefix c t"
| "render_prefix (P_OutSegmentCellPrefix c) = keys_out_segment_cell_prefix c"
| "render_prefix (P_OutSegmentSrcPrefix c t s) = keys_out_segment_src_prefix c t s"
| "render_prefix (P_OutSegmentTombstoneEdgeTypePrefix c t)
         = keys_out_segment_tombstone_edge_type_prefix c t"
| "render_prefix (P_OutSegmentTombstoneSrcPrefix c t s)
         = keys_out_segment_tombstone_src_prefix c t s"
| "render_prefix (P_InPrefix c t d) = keys_in_prefix c t d"
| "render_prefix (P_RelationshipEdgePrefix c t s d) = keys_relationship_edge_prefix c t s d"
| "render_prefix (P_RelationshipCellPrefix c) = keys_relationship_cell_prefix c"
| "render_prefix (P_RelationshipSourcePrefix c t s) = keys_relationship_source_prefix c t s"
| "render_prefix (P_RelationshipCountEdgeTypePrefix c t)
         = keys_relationship_count_edge_type_prefix c t"
| "render_prefix (P_DegreeOutPrefix c t) = keys_degree_out_prefix c t"
| "render_prefix (P_DegreeInPrefix c t) = keys_degree_in_prefix c t"
| "render_prefix (P_DegreeOutCellPrefix c) = keys_degree_out_cell_prefix c"
| "render_prefix (P_VertexPrefix c) = keys_vertex_prefix c"
| "render_prefix (P_VertexLabelPrefix c l) = keys_vertex_label_prefix c l"
| "render_prefix (P_VertexLabelCellPrefix c) = keys_vertex_label_cell_prefix c"
| "render_prefix (P_VertexPropertyIndexCellPrefix c) = keys_vertex_property_index_cell_prefix c"
| "render_prefix (P_VertexPropertyIndexPrefix c p e) = keys_vertex_property_index_prefix c p e"
| "render_prefix (P_VertexPropertyIndexPropertyPrefix c p)
         = keys_vertex_property_index_property_prefix c p"
| "render_prefix (P_EdgePropertyIndexCellPrefix c) = keys_edge_property_index_cell_prefix c"
| "render_prefix (P_RelationshipPropertyIndexCellPrefix c)
         = keys_relationship_property_index_cell_prefix c"
| "render_prefix (P_RelationshipPropertyIndexPrefix c t p e)
         = keys_relationship_property_index_prefix c t p e"
| "render_prefix (P_RelationshipPropertyIndexPropertyPrefix c t p)
         = keys_relationship_property_index_property_prefix c t p"
| "render_prefix (P_RelationshipPropertyIndexEdgePrefix c t p e s d)
         = keys_relationship_property_index_edge_prefix c t p e s d"
| "render_prefix (P_EdgePropertyIndexPrefix c t p e) = keys_edge_property_index_prefix c t p e"
| "render_prefix (P_EdgePropertyIndexPropertyPrefix c t p)
         = keys_edge_property_index_property_prefix c t p"
| "render_prefix (P_QueryStatsVertexPropertyPrefix c p)
         = keys_query_stats_vertex_property_prefix c p"
| "render_prefix (P_QueryStatsEdgePropertyPrefix c t p)
         = keys_query_stats_edge_property_prefix c t p"

fun valid_prefix :: "key_prefix \<Rightarrow> bool" where
  "valid_prefix (P_CellPrefix c) \<longleftrightarrow> valid_component c"
| "valid_prefix (P_MatrixDirtyPrefix c) \<longleftrightarrow> valid_component c"
| "valid_prefix (P_XlogTypePrefix c t) \<longleftrightarrow> valid_component c
         \<and> valid_component t"
| "valid_prefix (P_OutEdgeTypePrefix c t) \<longleftrightarrow> valid_component c
         \<and> valid_component t"
| "valid_prefix (P_OutEdgeCellPrefix c) \<longleftrightarrow> valid_component c"
| "valid_prefix (P_InEdgeTypePrefix c t) \<longleftrightarrow> valid_component c
         \<and> valid_component t"
| "valid_prefix (P_OutPrefix c t s) \<longleftrightarrow> valid_component c
         \<and> valid_component t"
| "valid_prefix (P_OutSegmentEdgeTypePrefix c t) \<longleftrightarrow> valid_component c
         \<and> valid_component t"
| "valid_prefix (P_OutSegmentCellPrefix c) \<longleftrightarrow> valid_component c"
| "valid_prefix (P_OutSegmentSrcPrefix c t s) \<longleftrightarrow> valid_component c
         \<and> valid_component t"
| "valid_prefix (P_OutSegmentTombstoneEdgeTypePrefix c t) \<longleftrightarrow> valid_component c \<and> valid_component t"
| "valid_prefix (P_OutSegmentTombstoneSrcPrefix c t s) \<longleftrightarrow> valid_component c \<and> valid_component t"
| "valid_prefix (P_InPrefix c t d) \<longleftrightarrow> valid_component c \<and> valid_component t"
| "valid_prefix (P_RelationshipEdgePrefix c t s d) \<longleftrightarrow> valid_component c \<and> valid_component t"
| "valid_prefix (P_RelationshipCellPrefix c) \<longleftrightarrow> valid_component c"
| "valid_prefix (P_RelationshipSourcePrefix c t s) \<longleftrightarrow> valid_component c \<and> valid_component t"
| "valid_prefix (P_RelationshipCountEdgeTypePrefix c t) \<longleftrightarrow> valid_component c \<and> valid_component t"
| "valid_prefix (P_DegreeOutPrefix c t) \<longleftrightarrow> valid_component c
         \<and> valid_component t"
| "valid_prefix (P_DegreeInPrefix c t) \<longleftrightarrow> valid_component c
         \<and> valid_component t"
| "valid_prefix (P_DegreeOutCellPrefix c) \<longleftrightarrow> valid_component c"
| "valid_prefix (P_VertexPrefix c) \<longleftrightarrow> valid_component c"
| "valid_prefix (P_VertexLabelPrefix c l) \<longleftrightarrow> valid_component c
         \<and> valid_component l"
| "valid_prefix (P_VertexLabelCellPrefix c) \<longleftrightarrow> valid_component c"
| "valid_prefix (P_VertexPropertyIndexCellPrefix c) \<longleftrightarrow> valid_component c"
| "valid_prefix (P_VertexPropertyIndexPrefix c p e) \<longleftrightarrow> valid_component c \<and> valid_component p \<and> slash_free e"
| "valid_prefix (P_VertexPropertyIndexPropertyPrefix c p) \<longleftrightarrow> valid_component c \<and> valid_component p"
| "valid_prefix (P_EdgePropertyIndexCellPrefix c) \<longleftrightarrow> valid_component c"
| "valid_prefix (P_RelationshipPropertyIndexCellPrefix c) \<longleftrightarrow> valid_component c"
| "valid_prefix (P_RelationshipPropertyIndexPrefix c t p e) \<longleftrightarrow> valid_component c \<and> valid_component t \<and> valid_component p \<and> slash_free e"
| "valid_prefix (P_RelationshipPropertyIndexPropertyPrefix c t p) \<longleftrightarrow> valid_component c \<and> valid_component t \<and> valid_component p"
| "valid_prefix (P_RelationshipPropertyIndexEdgePrefix c t p e s d) \<longleftrightarrow> valid_component c \<and> valid_component t \<and> valid_component p \<and> slash_free e"
| "valid_prefix (P_EdgePropertyIndexPrefix c t p e) \<longleftrightarrow> valid_component c \<and> valid_component t \<and> valid_component p \<and> slash_free e"
| "valid_prefix (P_EdgePropertyIndexPropertyPrefix c t p) \<longleftrightarrow> valid_component c \<and> valid_component t \<and> valid_component p"
| "valid_prefix (P_QueryStatsVertexPropertyPrefix c p) \<longleftrightarrow> valid_component c \<and> valid_component p"
| "valid_prefix (P_QueryStatsEdgePropertyPrefix c t p) \<longleftrightarrow> valid_component c \<and> valid_component t \<and> valid_component p"

fun prefix_segs :: "key_prefix \<Rightarrow> string list" where
  "prefix_segs (P_CellPrefix c) = [''cell'', c]"
| "prefix_segs (P_MatrixDirtyPrefix c) = [''cell'', c, ''meta'', ''matrix_dirty'']"
| "prefix_segs (P_XlogTypePrefix c t) = [''cell'', c, ''xlog'', t]"
| "prefix_segs (P_OutEdgeTypePrefix c t) = [''cell'', c, ''e'', ''out'', t]"
| "prefix_segs (P_OutEdgeCellPrefix c) = [''cell'', c, ''e'', ''out'']"
| "prefix_segs (P_InEdgeTypePrefix c t) = [''cell'', c, ''e'', ''in'', t]"
| "prefix_segs (P_OutPrefix c t s) = [''cell'', c, ''e'', ''out'', t, pad20 s]"
| "prefix_segs (P_OutSegmentEdgeTypePrefix c t) = [''cell'', c, ''seg'', ''out'', t]"
| "prefix_segs (P_OutSegmentCellPrefix c) = [''cell'', c, ''seg'', ''out'']"
| "prefix_segs (P_OutSegmentSrcPrefix c t s) = [''cell'', c, ''seg'', ''out'', t, pad20 s]"
| "prefix_segs (P_OutSegmentTombstoneEdgeTypePrefix c t) = [''cell'', c, ''seg'', ''tomb'',
         ''out'', t]"
| "prefix_segs (P_OutSegmentTombstoneSrcPrefix c t s) = [''cell'', c, ''seg'', ''tomb'',
         ''out'', t, pad20 s]"
| "prefix_segs (P_InPrefix c t d) = [''cell'', c, ''e'', ''in'', t, pad20 d]"
| "prefix_segs (P_RelationshipEdgePrefix c t s d) = [''cell'', c, ''rel'', t, pad20 s, pad20 d]"
| "prefix_segs (P_RelationshipCellPrefix c) = [''cell'', c, ''rel'']"
| "prefix_segs (P_RelationshipSourcePrefix c t s) = [''cell'', c, ''rel'', t, pad20 s]"
| "prefix_segs (P_RelationshipCountEdgeTypePrefix c t) = [''cell'', c, ''rel_count'', t]"
| "prefix_segs (P_DegreeOutPrefix c t) = [''cell'', c, ''cnt'', ''out'', t]"
| "prefix_segs (P_DegreeInPrefix c t) = [''cell'', c, ''cnt'', ''in'', t]"
| "prefix_segs (P_DegreeOutCellPrefix c) = [''cell'', c, ''cnt'', ''out'']"
| "prefix_segs (P_VertexPrefix c) = [''cell'', c, ''vertex'']"
| "prefix_segs (P_VertexLabelPrefix c l) = [''cell'', c, ''vlabel'', l]"
| "prefix_segs (P_VertexLabelCellPrefix c) = [''cell'', c, ''vlabel'']"
| "prefix_segs (P_VertexPropertyIndexCellPrefix c) = [''cell'', c, ''vprop_idx'']"
| "prefix_segs (P_VertexPropertyIndexPrefix c p e) = [''cell'', c, ''vprop_idx'', p, e]"
| "prefix_segs (P_VertexPropertyIndexPropertyPrefix c p) = [''cell'', c, ''vprop_idx'', p]"
| "prefix_segs (P_EdgePropertyIndexCellPrefix c) = [''cell'', c, ''eprop_idx'']"
| "prefix_segs (P_RelationshipPropertyIndexCellPrefix c) = [''cell'', c, ''rprop_idx'']"
| "prefix_segs (P_RelationshipPropertyIndexPrefix c t p e) = [''cell'', c, ''rprop_idx'', t, p, e]"
| "prefix_segs (P_RelationshipPropertyIndexPropertyPrefix c t p) = [''cell'', c, ''rprop_idx'',
         t, p]"
| "prefix_segs (P_RelationshipPropertyIndexEdgePrefix c t p e s d) = [''cell'', c,
         ''rprop_idx'', t, p, e, pad20 s, pad20 d]"
| "prefix_segs (P_EdgePropertyIndexPrefix c t p e) = [''cell'', c, ''eprop_idx'', t, p, e]"
| "prefix_segs (P_EdgePropertyIndexPropertyPrefix c t p) = [''cell'', c, ''eprop_idx'', t, p]"
| "prefix_segs (P_QueryStatsVertexPropertyPrefix c p) = [''cell'', c, ''qstats'', ''vprop'', p]"
| "prefix_segs (P_QueryStatsEdgePropertyPrefix c t p) = [''cell'', c, ''qstats'', ''eprop'', t, p]"

fun stats_cell :: "stats_key \<Rightarrow> string" where
  "stats_cell (S_EdgeType c _) = c"
| "stats_cell (S_EdgeExpansion c _ _ _) = c"
| "stats_cell (S_VertexLabel c _) = c"
| "stats_cell (S_VertexLabelIntersection c _) = c"
| "stats_cell (S_VertexProperty c _ _) = c"
| "stats_cell (S_EdgeProperty c _ _ _) = c"
| "stats_cell (S_VertexPropertyHistogram c _) = c"
| "stats_cell (S_EdgePropertyHistogram c _ _) = c"

fun key_cell :: "graph_key \<Rightarrow> string option" where
  "key_cell (K_CellDropMarker _) = None"
| "key_cell (K_CellDropPendingMarker _) = None"
| "key_cell (K_CellDropIdempotency _ _) = None"
| "key_cell (K_LastRelationshipId c) = Some c"
| "key_cell (K_MatrixDirty c _) = Some c"
| "key_cell (K_AdjacencyGeneration c _) = Some c"
| "key_cell (K_XlogEntry c _ _ _ _) = Some c"
| "key_cell (K_XlogLowWater c _) = Some c"
| "key_cell (K_Idempotency c _ _) = Some c"
| "key_cell (K_Edge c _ _ _) = Some c"
| "key_cell (K_OutEdge c _ _ _) = Some c"
| "key_cell (K_InEdge c _ _ _) = Some c"
| "key_cell (K_OutSegment c _ _ _ _) = Some c"
| "key_cell (K_OutSegmentTombstone c _ _ _) = Some c"
| "key_cell (K_EdgeMetadata c _ _ _) = Some c"
| "key_cell (K_Relationship c _ _ _ _) = Some c"
| "key_cell (K_RelationshipId c _) = Some c"
| "key_cell (K_RelationshipCount c _ _ _) = Some c"
| "key_cell (K_DegreeOut c _ _) = Some c"
| "key_cell (K_DegreeIn c _ _) = Some c"
| "key_cell (K_Vertex c _) = Some c"
| "key_cell (K_VertexLabel c _ _) = Some c"
| "key_cell (K_VertexPropertyIndex c _ _ _) = Some c"
| "key_cell (K_EdgePropertyIndex c _ _ _ _ _) = Some c"
| "key_cell (K_RelationshipPropertyIndex c _ _ _ _ _ _) = Some c"
| "key_cell (K_RelationshipMergeIndex c _ _ _ _ _) = Some c"
| "key_cell (K_QueryStats k) = Some (stats_cell k)"
| "key_cell (K_QueryStatsRecord k) = Some (stats_cell k)"

fun in_family :: "key_prefix \<Rightarrow> graph_key \<Rightarrow> bool" where
  "in_family (P_CellPrefix c) k \<longleftrightarrow> key_cell k = Some c"
| "in_family (P_MatrixDirtyPrefix c) k =
     (case k of K_MatrixDirty c' _ \<Rightarrow> c' = c | _ \<Rightarrow> False)"
| "in_family (P_XlogTypePrefix c t) k =
     (case k of K_XlogEntry c' t' _ _ _ \<Rightarrow> c' = c \<and> t' = t | _ \<Rightarrow> False)"
| "in_family (P_OutEdgeTypePrefix c t) k =
     (case k of K_OutEdge c' t' _ _ \<Rightarrow> c' = c \<and> t' = t | _ \<Rightarrow> False)"
| "in_family (P_OutEdgeCellPrefix c) k =
     (case k of K_OutEdge c' _ _ _ \<Rightarrow> c' = c | _ \<Rightarrow> False)"
| "in_family (P_InEdgeTypePrefix c t) k =
     (case k of K_InEdge c' t' _ _ \<Rightarrow> c' = c \<and> t' = t | _ \<Rightarrow> False)"
| "in_family (P_OutPrefix c t s) k =
     (case k of K_OutEdge c' t' s' _ \<Rightarrow> c' = c \<and> t' = t \<and> s'
         = s | _ \<Rightarrow> False)"
| "in_family (P_OutSegmentEdgeTypePrefix c t) k =
     (case k of K_OutSegment c' t' _ _ _ \<Rightarrow> c' = c \<and> t' = t | _
         \<Rightarrow> False)"
| "in_family (P_OutSegmentCellPrefix c) k =
     (case k of K_OutSegment c' _ _ _ _ \<Rightarrow> c' = c | _ \<Rightarrow> False)"
| "in_family (P_OutSegmentSrcPrefix c t s) k =
     (case k of K_OutSegment c' t' s' _ _ \<Rightarrow> c' = c \<and> t' = t \<and> s'
         = s | _ \<Rightarrow> False)"
| "in_family (P_OutSegmentTombstoneEdgeTypePrefix c t) k =
     (case k of K_OutSegmentTombstone c' t' _ _ \<Rightarrow> c' = c \<and> t'
         = t | _ \<Rightarrow> False)"
| "in_family (P_OutSegmentTombstoneSrcPrefix c t s) k =
     (case k of K_OutSegmentTombstone c' t' s' _ \<Rightarrow> c' = c \<and> t' = t \<and> s'
         = s | _ \<Rightarrow> False)"
| "in_family (P_InPrefix c t d) k =
     (case k of K_InEdge c' t' d' _ \<Rightarrow> c' = c \<and> t' = t \<and> d'
         = d | _ \<Rightarrow> False)"
| "in_family (P_RelationshipEdgePrefix c t s d) k =
     (case k of K_Relationship c' t' s' d' _ \<Rightarrow> c' = c \<and> t' = t \<and> s'
         = s \<and> d' = d | _ \<Rightarrow> False)"
| "in_family (P_RelationshipCellPrefix c) k =
     (case k of K_Relationship c' _ _ _ _ \<Rightarrow> c' = c | _ \<Rightarrow> False)"
| "in_family (P_RelationshipSourcePrefix c t s) k =
     (case k of K_Relationship c' t' s' _ _ \<Rightarrow> c' = c \<and> t' = t \<and> s'
         = s | _ \<Rightarrow> False)"
| "in_family (P_RelationshipCountEdgeTypePrefix c t) k =
     (case k of K_RelationshipCount c' t' _ _ \<Rightarrow> c' = c \<and> t'
         = t | _ \<Rightarrow> False)"
| "in_family (P_DegreeOutPrefix c t) k =
     (case k of K_DegreeOut c' t' _ \<Rightarrow> c' = c \<and> t' = t | _ \<Rightarrow> False)"
| "in_family (P_DegreeInPrefix c t) k =
     (case k of K_DegreeIn c' t' _ \<Rightarrow> c' = c \<and> t' = t | _ \<Rightarrow> False)"
| "in_family (P_DegreeOutCellPrefix c) k =
     (case k of K_DegreeOut c' _ _ \<Rightarrow> c' = c | _ \<Rightarrow> False)"
| "in_family (P_VertexPrefix c) k =
     (case k of K_Vertex c' _ \<Rightarrow> c' = c | _ \<Rightarrow> False)"
| "in_family (P_VertexLabelPrefix c l) k =
     (case k of K_VertexLabel c' l' _ \<Rightarrow> c' = c \<and> l' = l | _ \<Rightarrow> False)"
| "in_family (P_VertexLabelCellPrefix c) k =
     (case k of K_VertexLabel c' _ _ \<Rightarrow> c' = c | _ \<Rightarrow> False)"
| "in_family (P_VertexPropertyIndexCellPrefix c) k =
     (case k of K_VertexPropertyIndex c' _ _ _ \<Rightarrow> c' = c | _ \<Rightarrow> False)"
| "in_family (P_VertexPropertyIndexPrefix c p e) k =
     (case k of K_VertexPropertyIndex c' p' e' _ \<Rightarrow> c' = c \<and> p' = p \<and> e'
         = e | _ \<Rightarrow> False)"
| "in_family (P_VertexPropertyIndexPropertyPrefix c p) k =
     (case k of K_VertexPropertyIndex c' p' _ _ \<Rightarrow> c' = c \<and> p'
         = p | _ \<Rightarrow> False)"
| "in_family (P_EdgePropertyIndexCellPrefix c) k =
     (case k of K_EdgePropertyIndex c' _ _ _ _ _ \<Rightarrow> c' = c | _ \<Rightarrow> False)"
| "in_family (P_RelationshipPropertyIndexCellPrefix c) k =
     (case k of K_RelationshipPropertyIndex c' _ _ _ _ _ _ \<Rightarrow> c'
         = c | _ \<Rightarrow> False)"
| "in_family (P_RelationshipPropertyIndexPrefix c t p e) k =
     (case k of K_RelationshipPropertyIndex c' t' p' e' _ _ _ \<Rightarrow> c' = c \<and> t'
         = t \<and> p' = p \<and> e' = e | _ \<Rightarrow> False)"
| "in_family (P_RelationshipPropertyIndexPropertyPrefix c t p) k =
     (case k of K_RelationshipPropertyIndex c' t' p' _ _ _ _ \<Rightarrow> c' = c \<and> t'
         = t \<and> p' = p | _ \<Rightarrow> False)"
| "in_family (P_RelationshipPropertyIndexEdgePrefix c t p e s d) k =
     (case k of K_RelationshipPropertyIndex c' t' p' e' s' d' _ \<Rightarrow> c' = c
         \<and> t' = t \<and> p' = p \<and> e' = e \<and> s' = s \<and> d'
         = d | _ \<Rightarrow> False)"
| "in_family (P_EdgePropertyIndexPrefix c t p e) k =
     (case k of K_EdgePropertyIndex c' t' p' e' _ _ \<Rightarrow> c' = c \<and> t' = t
         \<and> p' = p \<and> e' = e | _ \<Rightarrow> False)"
| "in_family (P_EdgePropertyIndexPropertyPrefix c t p) k =
     (case k of K_EdgePropertyIndex c' t' p' _ _ _ \<Rightarrow> c' = c \<and> t' = t
         \<and> p' = p | _ \<Rightarrow> False)"
| "in_family (P_QueryStatsVertexPropertyPrefix c p) k =
     (case k of K_QueryStats j \<Rightarrow> (case j of S_VertexProperty c' p' _
         \<Rightarrow> c' = c \<and> p' = p | _ \<Rightarrow> False)
      | K_QueryStatsRecord j \<Rightarrow> (case j of S_VertexProperty c' p' _
         \<Rightarrow> c' = c \<and> p' = p | _ \<Rightarrow> False)
      | _ \<Rightarrow> False)"
| "in_family (P_QueryStatsEdgePropertyPrefix c t p) k =
     (case k of K_QueryStats j \<Rightarrow> (case j of S_EdgeProperty c' t' p' _
         \<Rightarrow> c' = c \<and> t' = t \<and> p' = p | _ \<Rightarrow> False)
      | K_QueryStatsRecord j \<Rightarrow> (case j of S_EdgeProperty c' t' p' _
         \<Rightarrow> c' = c \<and> t' = t \<and> p' = p | _ \<Rightarrow> False)
      | _ \<Rightarrow> False)"

subsection \<open>Rendered keys are joined segments\<close>

lemma render_stats_segs: "render_stats k = join_char CHR ''/'' (stats_segs k)"
  by (cases k) (simp_all add: key_defs)

lemma stats_segs_ne [simp]: "stats_segs k \<noteq> []"
  by (cases k) simp_all

lemma join_char_snoc: "ps \<noteq> [] \<Longrightarrow> join_char c (ps @ [p]) = join_char c ps @ c # p"
  by (induction c ps rule: join_char.induct) (simp_all add: join_char_Cons)

lemma render_segs: "render k = join_char CHR ''/'' (key_segs k)"
  by (cases k) (simp_all add: key_defs render_stats_segs join_char_snoc)

lemma key_segs_ne [simp]: "key_segs k \<noteq> []"
  by (cases k) simp_all

lemma join_plus_free:
  "\<forall>l \<in> set ls. valid_component l \<Longrightarrow> CHR ''/'' \<notin> set (join_char CHR ''+'' ls)"
  by (induction "CHR ''+''" ls rule: join_char.induct) (auto simp: valid_component_notin)

lemma stats_segs_free: "valid_stats k \<Longrightarrow> p \<in> set (stats_segs k) \<Longrightarrow> CHR ''/'' \<notin> set p"
  by (cases k) (auto simp: slash_free_def valid_component_notin join_plus_free)

lemma key_segs_free: "valid_key k \<Longrightarrow> p \<in> set (key_segs k) \<Longrightarrow> CHR ''/'' \<notin> set p"
  by (cases k) (auto simp: slash_free_def valid_component_notin stats_segs_free)

lemma join_plus_inject:
  assumes "\<forall>l \<in> set ls. valid_component l" "\<forall>l \<in> set ms. valid_component l"
  shows "join_char CHR ''+'' ls = join_char CHR ''+'' ms \<longleftrightarrow> ls = ms"
proof -
  have ne: "join_char CHR ''+'' xs = [] \<longleftrightarrow> xs = []" if "\<forall>l \<in> set xs. valid_component l" for xs
    using that by (cases "(CHR ''+'', xs)" rule: join_char.cases) auto
  show ?thesis
  proof (cases "ls = [] \<or> ms = []")
    case False
    then show ?thesis
      using assms join_char_inj [of "CHR ''+''" ls ms] by (auto simp: valid_component_notin)
  qed (use assms ne [of ls] ne [of ms] in auto)
qed

subsection \<open>Injectivity\<close>

lemma stats_segs_inject:
  "valid_stats j \<Longrightarrow> valid_stats k \<Longrightarrow> stats_segs j = stats_segs k \<longleftrightarrow> j = k"
  by (cases j; cases k) (simp_all add: join_plus_inject, auto)

lemma stats_segs_snoc: "stats_segs j \<noteq> stats_segs k @ [''record'']"
  by (cases j; cases k) simp_all

text \<open>The third segment tells the families of a cell apart, the fourth the groups inside one.\<close>

fun stats_of :: "graph_key \<Rightarrow> stats_key option" where
  "stats_of (K_QueryStats i) = Some i"
| "stats_of (K_QueryStatsRecord i) = Some i"
| "stats_of _ = None"

lemma stats_segs_third [simp]: "stats_segs k ! 2 = ''qstats''" "2 < length (stats_segs k)"
  by (cases k, simp_all)+

lemma stats_of_third: "key_segs k ! 2 = ''qstats'' \<longleftrightarrow> stats_of k \<noteq> None"
  by (cases k) (simp_all add: nth_append)

lemma stats_of_cases:
  assumes "stats_of k \<noteq> None"
  obtains i where "k = K_QueryStats i" | i where "k = K_QueryStatsRecord i"
  using assms by (cases k) auto

lemma key_segs_inject_stats:
  assumes "valid_key j" "valid_key k" "key_segs j = key_segs k" "stats_of j \<noteq> None" "stats_of k \<noteq> None"
  shows "j = k"
  using assms(4,5,1,2,3)
  by (elim stats_of_cases)
    (auto simp: stats_segs_inject stats_segs_snoc stats_segs_snoc [symmetric])

lemma key_segs_inject_plain:
  assumes "key_segs j = key_segs k" "stats_of j = None" "stats_of k = None"
  shows "j = k"
  using assms by (cases j; cases k; simp)

lemma key_segs_inject:
  assumes "valid_key j" "valid_key k" "key_segs j = key_segs k"
  shows "j = k"
  using assms stats_of_third [of j] stats_of_third [of k]
  by (metis key_segs_inject_plain key_segs_inject_stats)

lemma render_inject:
  assumes "valid_key j" "valid_key k"
  shows "render j = render k \<longleftrightarrow> j = k"
proof
  assume "render j = render k"
  then have "key_segs j = key_segs k"
    unfolding render_segs
    by (rule join_char_inj) (use assms key_segs_free in auto)
  then show "j = k"
    using assms key_segs_inject by blast
qed simp

subsection \<open>Prefix scans\<close>

lemma render_prefix_segs:
  "render_prefix p = concat (map (\<lambda>s. s @ ''/'') (prefix_segs p))"
  by (cases p) (simp_all add: key_defs)

lemma prefix_segs_free: "valid_prefix p \<Longrightarrow> s \<in> set (prefix_segs p) \<Longrightarrow> CHR ''/'' \<notin> set s"
  by (cases p) (auto simp: slash_free_def valid_component_notin)

lemma prefix_iff_take:
  assumes "valid_prefix p" "valid_key k"
  shows "prefix (render_prefix p) (render k) \<longleftrightarrow>
    length (prefix_segs p) < length (key_segs k) \<and>
    take (length (prefix_segs p)) (key_segs k) = prefix_segs p"
  unfolding render_prefix_segs render_segs
  by (rule prefix_join_char) (use assms prefix_segs_free key_segs_free in auto)

lemma take_stats_cell: "take 2 (stats_segs j) = [''cell'', stats_cell j]"
  by (cases j) simp_all

lemma take_key_cell: "take 2 (key_segs k) = [''cell'', c] \<longleftrightarrow> key_cell k = Some c"
  by (cases k) (simp_all add: take_stats_cell less_imp_le)

definition selects :: "key_prefix \<Rightarrow> graph_key \<Rightarrow> bool" where
  "selects p k \<longleftrightarrow>
     length (prefix_segs p) < length (key_segs k) \<and>
     take (length (prefix_segs p)) (key_segs k) = prefix_segs p"

lemma selects_stats: "stats_of k \<noteq> None \<Longrightarrow> selects p k = in_family p k"
  unfolding selects_def
  by (erule stats_of_cases; hypsubst; rename_tac i; case_tac i; cases p; simp)

lemma selects_plain: "stats_of k = None \<Longrightarrow> selects p k = in_family p k"
  unfolding selects_def by (cases k; simp; cases p; simp; blast?)

lemma prefix_in_family:
  assumes "valid_prefix p" "valid_key k"
  shows "prefix (render_prefix p) (render k) \<longleftrightarrow> in_family p k"
  using prefix_iff_take [OF assms] selects_stats selects_plain selects_def by metis

subsection \<open>Order\<close>

lemma pad20_append_less: "pad20 a @ u < pad20 b @ v \<longleftrightarrow> a < b \<or> a = b \<and> u < v"
  by (auto simp: less_string_append)

lemma xlog_entry_less:
  "keys_xlog_entry c t q s d < keys_xlog_entry c t q' s' d' \<longleftrightarrow> (q, s, d) < (q', s', d')"
  by (simp add: key_defs less_string_append_same pad20_append_less less_prod_def')

lemma edge_keys_less:
  "keys_edge c t s d < keys_edge c t s' d' \<longleftrightarrow> (s, d) < (s', d')"
  "keys_out_edge c t s d < keys_out_edge c t s' d' \<longleftrightarrow> (s, d) < (s', d')"
  "keys_in_edge c t d s < keys_in_edge c t d' s' \<longleftrightarrow> (d, s) < (d', s')"
  by (simp_all add: key_defs less_string_append_same pad20_append_less less_prod_def')

subsection \<open>Properties\<close>



text \<open>
  C19.  A prefix scan returns exactly the records of its family: a rendered scan prefix is a prefix
  of a rendered key if and only if the key is of the prefix's kind and agrees with it on every
  component the prefix fixes.  In particular the cell prefix selects every record of the cell and
  none of another cell, nor the drop markers.
\<close>

theorem prefix_scan_exact:
  "valid_prefix p \<Longrightarrow> valid_key k \<Longrightarrow> prefix (render_prefix p) (render k) \<longleftrightarrow> in_family p k"
  by (rule prefix_in_family)

theorem prefix_scan_exact_witness:
  "prefix (render_prefix (P_OutPrefix ''c1'' ''KNOWS'' 7)) (render (K_OutEdge ''c1'' ''KNOWS'' 7 8)) \<and>
   \<not> prefix (render_prefix (P_CellPrefix ''c1'')) (render (K_CellDropMarker ''c1''))"
proof -
  have v: "valid_prefix (P_OutPrefix ''c1'' ''KNOWS'' 7)" "valid_key (K_OutEdge ''c1'' ''KNOWS'' 7 8)"
    "valid_prefix (P_CellPrefix ''c1'')" "valid_key (K_CellDropMarker ''c1'')"
    by code_simp+
  show ?thesis
    using prefix_scan_exact [OF v(1) v(2)] prefix_scan_exact [OF v(3) v(4)] by simp
qed

text \<open>
  C29.  Storage order is numeric order: the changelog entries of an edge type sort by commit
  sequence, then source, then destination, and edge keys sort by their vertex identifiers.
\<close>

theorem key_order_numeric:
  "(keys_xlog_entry c t q s d < keys_xlog_entry c t q' s' d' \<longleftrightarrow> (q, s, d) < (q', s', d')) \<and>
   (keys_out_edge c t s d < keys_out_edge c t s' d' \<longleftrightarrow> (s, d) < (s', d')) \<and>
   (keys_in_edge c t d s < keys_in_edge c t d' s' \<longleftrightarrow> (d, s) < (d', s'))"
  by (simp only: xlog_entry_less edge_keys_less)

end
