(* ===== verification/Codec_Values.thy ===== *)
theory Codec_Values
  imports Key_Space
begin

unbundle bit_operations_syntax

text \<open>
  The scalar codecs of \<open>src/codec.rs\<close>: counters, hexadecimal strings, and the two encodings of a
  property value -- the index-key form, whose byte order is the value order, and the record form.
  Both forms decode back to the value they were made from.
\<close>

subsection \<open>Numbers and flags\<close>

definition parse_u64 :: "string \<Rightarrow> string \<Rightarrow> string \<Rightarrow> u64 result" where [codec_defs]:
  "parse_u64 key v field =
     map_err (\<lambda>err. CorruptValue key (''invalid '' @ field @ '': '' @ show_parse_int_error err))
       (parse_str_u64 v)"

definition parse_bool_u8 :: "string \<Rightarrow> string \<Rightarrow> string \<Rightarrow> bool result" where [codec_defs]:
  "parse_bool_u8 key v field =
     (if v = ''0'' then Inr False
      else if v = ''1'' then Inr True
      else Inl (CorruptValue key (''invalid '' @ field @ '': expected 0 or 1'')))"

definition decode_bool_flag :: "string \<Rightarrow> string \<Rightarrow> string \<Rightarrow> bool result" where [codec_defs]:
  "decode_bool_flag key v field =
     (if v = ''0'' then Inr False
      else if v = ''1'' then Inr True
      else Inl (CorruptValue key (''invalid '' @ field @ '' flag '' @ v)))"

text \<open>\<open>u8::from(bool)\<close>, printed.\<close>

definition show_bool_u8 :: "bool \<Rightarrow> string" where
  "show_bool_u8 b = (if b then ''1'' else ''0'')"

definition ensure_limit :: "string \<Rightarrow> u64 \<Rightarrow> u64 \<Rightarrow> unit result" where
  "ensure_limit operation actual limit =
     (if limit < actual then Inl (AdmissionRejected operation actual limit) else Inr ())"

definition encode_u64 :: "u64 \<Rightarrow> bytes" where
  "encode_u64 v = to_be_bytes v"

definition decode_u64 :: "string \<Rightarrow> bytes \<Rightarrow> u64 result" where
  "decode_u64 key v =
     (if length v = 8 then Inr (from_be_bytes v)
      else Inl (CorruptValue key (''expected 8 bytes, got '' @ show_nat (length v))))"

lemma parse_u64_show [simp]:
  "parse_u64 key (show_u64 w) field = Inr w"
  "parse_u64 key (pad20 w) field = Inr w"
  by (simp_all add: parse_u64_def)

lemma parse_bool_show [simp]:
  "parse_bool_u8 key (show_bool_u8 b) field = Inr b"
  "decode_bool_flag key (show_bool_u8 b) field = Inr b"
  by (simp_all add: parse_bool_u8_def decode_bool_flag_def show_bool_u8_def)

lemma show_bool_u8_free [simp]:
  "CHR 0x09 \<notin> set (show_bool_u8 b)" "CHR 0x0A \<notin> set (show_bool_u8 b)" "ascii (show_bool_u8 b)"
  by (simp_all add: show_bool_u8_def nat_of_byte_def)

lemma decode_encode_u64 [simp]: "decode_u64 key (encode_u64 w) = Inr w"
  by (simp add: decode_u64_def encode_u64_def)

lemma decode_u64_eq_Inr: "decode_u64 key v = Inr w \<longleftrightarrow> v = encode_u64 w"
  unfolding decode_u64_def encode_u64_def
  by (metis Inl_Inr_False Inr_inject from_to_be_bytes length_to_be_bytes to_from_be_bytes)

subsection \<open>Hexadecimal text\<close>

definition HEX :: string where
  "HEX = ''0123456789abcdef''"

definition hex_encode :: "bytes \<Rightarrow> string" where
  "hex_encode bs =
     concat (map (\<lambda>b. [HEX ! (nat_of_byte b div 16), HEX ! (nat_of_byte b mod 16)]) bs)"

definition hex_value :: "char \<Rightarrow> nat option" where
  "hex_value c =
     (let b = nat_of_byte c in
      if 48 \<le> b \<and> b \<le> 57 then Some (b - 48)
      else if 97 \<le> b \<and> b \<le> 102 then Some (b - 97 + 10)
      else if 65 \<le> b \<and> b \<le> 70 then Some (b - 65 + 10)
      else None)"

text \<open>\<open>byte as char\<close> in a format string: a byte above 127 prints as the two bytes of U+0080..U+00FF.\<close>

definition show_byte_char :: "char \<Rightarrow> string" where
  "show_byte_char c =
     (let n = nat_of_byte c in
      if n < 128 then [c] else [byte_of_nat (192 + n div 64), byte_of_nat (128 + n mod 64)])"

definition hex_pair :: "string \<Rightarrow> char \<Rightarrow> char \<Rightarrow> char result" where
  "hex_pair key h l =
     and_then (ok_or (CorruptValue key (''invalid hex digit '' @ show_byte_char h)) (hex_value h)) (\<lambda>high.
     and_then (ok_or (CorruptValue key (''invalid hex digit '' @ show_byte_char l)) (hex_value l)) (\<lambda>low.
     Inr (byte_of_nat (high * 16 + low))))"

definition hex_decode :: "string \<Rightarrow> string \<Rightarrow> bytes result" where
  "hex_decode key s =
     (if length s mod 2 \<noteq> 0 then Inl (CorruptValue key ''odd-length hex string'')
      else map_res (\<lambda>pair. hex_pair key (pair ! 0) (pair ! 1)) (as_chunks 2 s))"

lemma HEX_digit: "n < 16 \<Longrightarrow> HEX ! n = digit_char n"
proof -
  have "\<forall>n \<in> set [0..<16]. HEX ! n = digit_char n" by code_simp
  then show "n < 16 \<Longrightarrow> HEX ! n = digit_char n" by simp
qed

lemma hex_value_digit: "n < 16 \<Longrightarrow> hex_value (digit_char n) = Some n"
  by (cases "n < 10") (simp_all add: hex_value_def digit_char_def)

definition hex_byte :: "char \<Rightarrow> string" where
  "hex_byte b = [digit_char (nat_of_byte b div 16), digit_char (nat_of_byte b mod 16)]"

lemma nibble_less: "nat_of_byte b div 16 < 16" "nat_of_byte b mod 16 < 16"
  using nat_of_byte_less [of b] by (simp_all add: less_mult_imp_div_less)

lemma hex_encode_bytes: "hex_encode bs = concat (map hex_byte bs)"
  unfolding hex_encode_def hex_byte_def by (simp add: HEX_digit nibble_less)

lemma hex_pair_byte: "hex_pair key (hex_byte b ! 0) (hex_byte b ! 1) = Inr b"
  unfolding hex_pair_def hex_byte_def by (simp add: hex_value_digit nibble_less)

lemma length_hex_encode [simp]: "length (hex_encode bs) = 2 * length bs"
  by (induction bs) (simp_all add: hex_encode_def)

lemma hex_decode_encode [simp]: "hex_decode key (hex_encode bs) = Inr bs"
proof -
  have "as_chunks 2 (hex_encode bs) = map hex_byte bs"
    unfolding hex_encode_bytes by (rule as_chunks_concat) (simp_all add: hex_byte_def)
  moreover have "map_res (\<lambda>pair. hex_pair key (pair ! 0) (pair ! 1)) (map hex_byte bs) = Inr bs"
    by (induction bs) (simp_all add: hex_pair_byte [simplified])
  ultimately show ?thesis
    by (simp add: hex_decode_def)
qed

lemma hex_encode_digits: "bs \<noteq> [] \<Longrightarrow> digit_text 16 (hex_encode bs)"
  by (auto simp: digit_text_def hex_encode_bytes hex_byte_def intro: nibble_less)

lemma hex_encode_notin:
  "nat_of_byte c \<notin> {48..57} \<union> {97..122} \<Longrightarrow> c \<notin> set (hex_encode bs)"
  using digit_text_notin [OF hex_encode_digits [of bs], of c]
  by (cases "bs = []") (auto simp: hex_encode_def)

lemma nibbles_less:
  "(x div 16 < y div 16 \<or> x div 16 = y div 16 \<and> x mod 16 < y mod 16) \<longleftrightarrow> x < (y :: nat)"
proof -
  have "(a < c \<or> a = c \<and> b < d) \<longleftrightarrow> 16 * a + b < 16 * c + d" if "b < 16" "d < 16" for a b c d :: nat
    using that by (cases a c rule: linorder_cases) auto
  from this [of "x mod 16" "y mod 16" "x div 16" "y div 16"] show ?thesis by simp
qed

lemma digit_char_eq: "m < 36 \<Longrightarrow> n < 36 \<Longrightarrow> digit_char m = digit_char n \<longleftrightarrow> m = n"
  using digit_char_less [of m n] digit_char_less [of n m] by (metis less_irrefl neqE)

lemma hex_byte_less: "hex_byte a < hex_byte b \<longleftrightarrow> a < b"
proof -
  have l: "nat_of_byte c div 16 < 36" "nat_of_byte c mod 16 < 36" for c
    using nibble_less [of c] by linarith+
  have "hex_byte a < hex_byte b \<longleftrightarrow> nat_of_byte a < nat_of_byte b"
    using l [of a] l [of b] by (simp add: hex_byte_def digit_char_less digit_char_eq nibbles_less)
  then show ?thesis
    by (simp add: nat_of_byte_def less_char_def)
qed

lemma hex_encode_less: "hex_encode s < hex_encode t \<longleftrightarrow> s < t"
proof (induction s arbitrary: t)
  case Nil
  then show ?case by (cases t) (simp_all add: hex_encode_bytes hex_byte_def)
next
  case (Cons a s)
  then show ?case
  proof (cases t)
    case (Cons b u)
    have "hex_byte a = hex_byte b \<longleftrightarrow> a = b"
      by (metis hex_byte_less less_irrefl neqE)
    then show ?thesis
      using Cons.IH [of u] Cons
        less_string_append [of "hex_byte a" "hex_byte b" "hex_encode s" "hex_encode u"]
      by (auto simp: hex_encode_bytes hex_byte_less) (auto simp: hex_byte_def)
  qed (simp add: hex_encode_bytes)
qed

subsection \<open>Property values in index keys\<close>

text \<open>\<open>1_u64 << 63\<close>\<close>

definition sign_bit :: u64 where
  "sign_bit = push_bit 63 1"

definition sortable_float_bits :: "query_float \<Rightarrow> u64" where
  "sortable_float_bits bits =
     (if bits AND sign_bit = 0 then bits XOR sign_bit else NOT bits)"

fun encode_vertex_property_value_key :: "vertex_property_value \<Rightarrow> string" where
  "encode_vertex_property_value_key (V_Integer v) = ''i'' @ pad20 v"
| "encode_vertex_property_value_key (V_SignedInteger v) = ''j'' @ hex16 (v XOR sign_bit)"
| "encode_vertex_property_value_key (V_Bool b) = (if b then ''b1'' else ''b0'')"
| "encode_vertex_property_value_key (V_Float v) = ''n'' @ hex16 (sortable_float_bits v)"
| "encode_vertex_property_value_key (V_String s) = ''s'' @ hex_encode s"

definition decode_vertex_property_value_key :: "string \<Rightarrow> vertex_property_value result" where
  "decode_vertex_property_value_key encoded =
     (let corrupt = (\<lambda>reason. CorruptValue encoded reason) in
      case split_at_one encoded of
        None \<Rightarrow> Inl (corrupt ''empty property index value'')
      | Some (kind, payload) \<Rightarrow>
          if kind = ''b'' then
            (if payload = ''0'' then Inr (V_Bool False)
             else if payload = ''1'' then Inr (V_Bool True)
             else Inl (corrupt (''invalid boolean property index value '' @ payload)))
          else if kind = ''i'' then
            map_err (\<lambda>err. corrupt (''invalid unsigned property index value: '' @ show_parse_int_error err))
              (map_ok V_Integer (parse_str_u64 payload))
          else if kind = ''j'' then
            map_err (\<lambda>err. corrupt (''invalid signed property index value: '' @ show_parse_int_error err))
              (map_ok (\<lambda>v. V_SignedInteger (v XOR sign_bit)) (from_str_radix_u64 16 payload))
          else if kind = ''n'' then
            map_err (\<lambda>err. corrupt (''invalid float property index value: '' @ show_parse_int_error err))
              (map_ok (\<lambda>sortable.
                 V_Float (if sortable AND sign_bit = 0 then NOT sortable
                          else sortable XOR sign_bit))
                (from_str_radix_u64 16 payload))
          else if kind = ''s'' then
            and_then (hex_decode encoded payload) (\<lambda>bs.
              map_err (\<lambda>err. corrupt (show_utf8_error err)) (map_ok V_String (from_utf8 bs)))
          else Inl (corrupt (''unknown property index value type '' @ kind)))"

text \<open>Strings of the program are UTF-8; that is the only invariant of a property value.\<close>

fun value_utf8 :: "vertex_property_value \<Rightarrow> bool" where
  "value_utf8 (V_String s) = utf8_valid s"
| "value_utf8 _ = True"

fun value_kind :: "vertex_property_value \<Rightarrow> nat" where
  "value_kind (V_Integer _) = 0"
| "value_kind (V_SignedInteger _) = 1"
| "value_kind (V_Bool _) = 2"
| "value_kind (V_Float _) = 3"
| "value_kind (V_String _) = 4"

subsubsection \<open>The sign bit\<close>

lemma sign_bit_exp: "sign_bit = 2 ^ 63"
  by (simp add: sign_bit_def)

lemma and_sign: "w AND sign_bit = 0 \<longleftrightarrow> \<not> bit (w :: u64) 63"
  unfolding sign_bit_exp by (rule and_exp_eq_0_iff_not_bit)

lemma bit_sign_bit: "bit sign_bit 63"
  by (simp add: sign_bit_exp bit_exp_iff del: power_numeral)

lemma bit_xor_sign [simp]: "bit (w XOR sign_bit) 63 \<longleftrightarrow> \<not> bit (w :: u64) 63"
  by (simp add: bit_xor_iff bit_sign_bit)

lemma xor_sign_twice [simp]: "(w XOR sign_bit) XOR sign_bit = (w :: u64)"
  by (simp add: xor.assoc)

lemma bit_not_sign [simp]: "bit (NOT w) 63 \<longleftrightarrow> \<not> bit (w :: u64) 63"
  by (simp add: bit_not_iff)

text \<open>Flipping the top bit is adding it, so it shifts the signed range onto the unsigned one.\<close>

lemma xor_sign_add: "w XOR sign_bit = w + sign_bit"
proof (cases "bit w 63")
  case False
  then show ?thesis
    by (intro disjunctive_add_eq_xor [symmetric]) (simp add: and_sign)
next
  case True
  then have "(w XOR sign_bit) XOR sign_bit = (w XOR sign_bit) + sign_bit"
    by (intro disjunctive_add_eq_xor [symmetric]) (simp add: and_sign)
  then have "w = (w XOR sign_bit) + sign_bit"
    by simp
  moreover have "sign_bit + sign_bit = 0"
    by (simp add: sign_bit_exp)
  ultimately show ?thesis
    by (metis add.assoc add.right_neutral)
qed

lemma uint_xor_sign: "uint (w XOR sign_bit) = sint w + 2 ^ 63"
proof -
  have "w XOR sign_bit = word_of_int (sint w + 2 ^ 63)"
    unfolding xor_sign_add by (simp add: sign_bit_exp flip: wi_hom_add)
  then have "uint (w XOR sign_bit) = (sint w + 2 ^ 63) mod 2 ^ 64"
    by (simp only: uint_word_of_int) (simp add: take_bit_eq_mod)
  also have "\<dots> = sint w + 2 ^ 63"
    using sint_greater_eq [of w] sint_less [of w] by (intro mod_pos_pos_trivial) simp_all
  finally show ?thesis .
qed

lemma uint_sortable_float_bits: "uint (sortable_float_bits w) = total_cmp_key w + 2 ^ 63"
proof (cases "bit w 63")
  case True
  have "w XOR 0x7FFFFFFFFFFFFFFF = NOT w XOR sign_bit"
  proof -
    have "(0x7FFFFFFFFFFFFFFF :: u64) = NOT sign_bit" by code_simp
    then show ?thesis by (simp add: bit_eq_iff bit_xor_iff bit_not_iff)
  qed
  then show ?thesis
    using True uint_xor_sign [of "NOT w XOR sign_bit"]
    by (simp add: sortable_float_bits_def total_cmp_key_def and_sign)
next
  case False
  then show ?thesis
    using uint_xor_sign [of w]
    by (simp add: sortable_float_bits_def total_cmp_key_def and_sign)
qed

subsubsection \<open>Round trip and order\<close>

text \<open>The payloads are hexadecimal digits, so the tag is always split off whole.\<close>

lemma digit_text_not_cont: "digit_text r (c # s) \<Longrightarrow> r \<le> 36 \<Longrightarrow> \<not> utf8_cont c"
  using digit_text_ascii by (fastforce simp: utf8_cont_def)

lemma split_at_one_digits:
  "s = [] \<or> digit_text r s \<Longrightarrow> r \<le> 36 \<Longrightarrow> split_at_one (c # s) = Some ([c], s)"
  by (cases s) (auto simp: split_at_one_def dest: digit_text_not_cont)

lemma digit_text_pad20: "digit_text 10 (pad20 w)"
  unfolding pad20_def show_u64_def show_nat_def by (rule digit_text_pad) simp_all

lemma digit_text_hex16: "digit_text 16 (hex16 w)"
  unfolding hex16_def by (rule digit_text_pad) simp_all

lemma split_tagged [simp]:
  "split_at_one (c # pad20 w) = Some ([c], pad20 w)"
  "split_at_one (c # hex16 w) = Some ([c], hex16 w)"
  "split_at_one (c # hex_encode bs) = Some ([c], hex_encode bs)"
  using split_at_one_digits [of "pad20 w" 10] split_at_one_digits [of "hex16 w" 16]
    split_at_one_digits [of "hex_encode bs" 16] digit_text_pad20 digit_text_hex16 hex_encode_digits [of bs]
  by (auto simp: hex_encode_def)

lemma sortable_float_bits_inverse:
  "(if sortable_float_bits v AND sign_bit = 0 then NOT (sortable_float_bits v)
    else sortable_float_bits v XOR sign_bit) = v"
  by (cases "bit v 63") (simp_all add: sortable_float_bits_def and_sign)

lemma decode_encode_value_key:
  "value_utf8 v \<Longrightarrow>
    decode_vertex_property_value_key (encode_vertex_property_value_key v) = Inr v"
proof (cases v)
  case (V_Bool b)
  then show ?thesis
    by (cases b) (simp_all add: decode_vertex_property_value_key_def split_at_one_def utf8_cont_def
        nat_of_byte_def)
qed (simp_all add: decode_vertex_property_value_key_def sortable_float_bits_inverse)

lemma encode_value_key_less:
  assumes "value_kind a = value_kind b"
  shows "encode_vertex_property_value_key a < encode_vertex_property_value_key b \<longleftrightarrow> a < b"
  using assms
  by (cases a; cases b)
    (simp_all add: less_vertex_property_value_def less_prod_def' hex_encode_less word_less_def
      uint_sortable_float_bits uint_xor_sign)

lemma encode_value_key_slash_free: "slash_free (encode_vertex_property_value_key v)"
  by (cases v) (auto simp: slash_free_def hex_encode_notin nat_of_byte_def)

subsection \<open>Property values in records\<close>

fun encode_vertex_property_value_record :: "vertex_property_value \<Rightarrow> string" where
  "encode_vertex_property_value_record (V_Integer v) = ''i:'' @ show_u64 v"
| "encode_vertex_property_value_record (V_SignedInteger v) = ''j:'' @ show_i64 v"
| "encode_vertex_property_value_record (V_Bool b) = (if b then ''b:true'' else ''b:false'')"
| "encode_vertex_property_value_record (V_Float v) = ''f:'' @ hex16 v"
| "encode_vertex_property_value_record (V_String s) = ''s:'' @ hex_encode s"

definition decode_vertex_property_value_record ::
    "string \<Rightarrow> string \<Rightarrow> vertex_property_value result" where
  "decode_vertex_property_value_record key v =
     (case split_once (CHR '':'') v of
        None \<Rightarrow> Inl (CorruptValue key (''invalid vertex property value '' @ v))
      | Some (kind, payload) \<Rightarrow>
          if kind = ''i'' then
            map_err (\<lambda>err. CorruptValue key
                (''invalid integer vertex property '' @ payload @ '': '' @ show_parse_int_error err))
              (map_ok V_Integer (parse_str_u64 payload))
          else if kind = ''j'' then
            map_err (\<lambda>err. CorruptValue key
                (''invalid signed integer vertex property '' @ payload @ '': '' @ show_parse_int_error err))
              (map_ok from_i64 (parse_str_i64 payload))
          else if kind = ''b'' then
            (if payload = ''true'' then Inr (V_Bool True)
             else if payload = ''false'' then Inr (V_Bool False)
             else Inl (CorruptValue key (''invalid boolean vertex property '' @ payload)))
          else if kind = ''f'' then
            map_err (\<lambda>err. CorruptValue key
                (''invalid float vertex property '' @ payload @ '': '' @ show_parse_int_error err))
              (map_ok V_Float (from_str_radix_u64 16 payload))
          else if kind = ''s'' then
            and_then (hex_decode key payload) (\<lambda>bs.
              map_err (\<lambda>err. CorruptValue key (show_utf8_error err)) (map_ok V_String (from_utf8 bs)))
          else Inl (CorruptValue key (''unsupported vertex property kind '' @ kind)))"

text \<open>
  \<open>from_i64\<close> keeps \<open>SignedInteger\<close> for negative numbers only; the record decoder applies it, so
  the record form is exact on the values \<open>from_i64\<close> can make.
\<close>

fun value_canonical :: "vertex_property_value \<Rightarrow> bool" where
  "value_canonical (V_SignedInteger w) \<longleftrightarrow> sint w < 0"
| "value_canonical (V_String s) \<longleftrightarrow> utf8_valid s"
| "value_canonical _ \<longleftrightarrow> True"

lemma from_i64_canonical: "value_canonical (from_i64 w)"
  by (simp add: from_i64_def)

fun normalize_value :: "vertex_property_value \<Rightarrow> vertex_property_value" where
  "normalize_value (V_SignedInteger w) = from_i64 w"
| "normalize_value v = v"

lemma normalize_canonical [simp]: "value_canonical v \<Longrightarrow> normalize_value v = v"
  by (cases v) (simp_all add: from_i64_def)

lemma decode_encode_value_record:
  "value_utf8 v \<Longrightarrow>
    decode_vertex_property_value_record key (encode_vertex_property_value_record v) =
      Inr (normalize_value v)"
  by (cases v) (simp_all add: decode_vertex_property_value_record_def)

lemma value_canonical_utf8: "value_canonical v \<Longrightarrow> value_utf8 v"
  by (cases v) simp_all

lemma show_i64_free:
  "CHR 0x09 \<notin> set (show_i64 w)" "CHR 0x0A \<notin> set (show_i64 w)" "CHR 0x0D \<notin> set (show_i64 w)"
  by (simp_all add: show_i64_def)

lemma hex16_cr_free [simp]: "CHR 0x0D \<notin> set (hex16 w)"
  using digit_text_notin [OF digit_text_hex16] by (simp add: nat_of_byte_def)

lemma encode_value_record_text:
  "line_text (encode_vertex_property_value_record v)"
  "CHR 0x09 \<notin> set (encode_vertex_property_value_record v)"
  "ascii (encode_vertex_property_value_record v)"
proof -
  have "ascii (hex_encode bs)" for bs
    using digit_text_ascii [OF hex_encode_digits [of bs]]
    by (cases "bs = []") (simp_all add: hex_encode_def)
  then show "line_text (encode_vertex_property_value_record v)"
    "CHR 0x09 \<notin> set (encode_vertex_property_value_record v)"
    "ascii (encode_vertex_property_value_record v)"
    by (cases v; auto simp: line_text_def show_i64_free hex_encode_notin nat_of_byte_def)+
qed

subsection \<open>Properties\<close>

text \<open>
  C30.  The property-index encoding of a value is exact and order-preserving: it decodes to the
  value, it holds no path separator, and two values of one type compare as their encodings do --
  unsigned, signed (sign bit flipped), floats by total order, and strings bytewise.
\<close>

theorem property_index_encoding:
  "value_utf8 a \<Longrightarrow> value_kind a = value_kind b \<Longrightarrow>
    decode_vertex_property_value_key (encode_vertex_property_value_key a) = Inr a \<and>
    slash_free (encode_vertex_property_value_key a) \<and>
    (encode_vertex_property_value_key a < encode_vertex_property_value_key b \<longleftrightarrow> a < b)"
  by (simp add: decode_encode_value_key encode_value_key_slash_free encode_value_key_less)

theorem property_index_encoding_witness:
  "decode_vertex_property_value_key (encode_vertex_property_value_key (V_SignedInteger (- 5))) =
     Inr (V_SignedInteger (- 5)) \<and>
   (encode_vertex_property_value_key (V_SignedInteger (- 5)) < encode_vertex_property_value_key (V_SignedInteger 3)
     \<longleftrightarrow> V_SignedInteger (- 5) < V_SignedInteger 3)"
  using property_index_encoding [of "V_SignedInteger (- 5)" "V_SignedInteger 3"] by simp

text \<open>
  A property value written into a record reads back as the value, with a non-negative
  \<open>SignedInteger\<close> normalised to \<open>Integer\<close> as \<open>from_i64\<close> does; values made by \<open>from_i64\<close> read back
  unchanged.
\<close>

theorem property_record_roundtrip:
  "value_utf8 v \<Longrightarrow>
    decode_vertex_property_value_record key (encode_vertex_property_value_record v) = Inr (normalize_value v) \<and>
    decode_vertex_property_value_record key (encode_vertex_property_value_record (from_i64 w)) = Inr (from_i64 w)"
  using from_i64_canonical [of w]
  by (simp add: decode_encode_value_record value_canonical_utf8)

theorem property_record_roundtrip_witness:
  "decode_vertex_property_value_record ''k'' (encode_vertex_property_value_record (V_SignedInteger 5)) =
     Inr (V_Integer 5)"
  using property_record_roundtrip [of "V_SignedInteger 5" "''k''"] by (simp add: from_i64_def)

end
