(* ===== verification/Codec_Records.thy ===== *)
theory Codec_Records
  imports Codec_Values
begin

text \<open>
  The record codecs of \<open>src/codec.rs\<close>: the identity a key carries (edge, relationship, segment and
  tombstone keys), vertex and edge metadata, relationship records and outbound segments.  Every
  encoder has a decoder that gives back what was encoded, and a segment's declared destination
  count agrees with its full decode.
\<close>

subsection \<open>Identities read back from keys\<close>

definition edge_record_of :: "string \<Rightarrow> string \<Rightarrow> string \<Rightarrow> string \<Rightarrow> string \<Rightarrow> edge_record result" where
  "edge_record_of key cell_id edge_type src dst =
     and_then (validate_component ''cell_id'' cell_id) (\<lambda>_.
     and_then (validate_component ''edge_type'' edge_type) (\<lambda>_.
     and_then (parse_u64 key src ''src'') (\<lambda>s.
     and_then (parse_u64 key dst ''dst'') (\<lambda>d.
     Inr \<lparr> er_cell_id = cell_id, er_edge_type = edge_type, er_src = s, er_dst = d \<rparr>))))"

definition parse_edge_record_key :: "string \<Rightarrow> edge_record result" where
  "parse_edge_record_key key =
     (let bad = Inl (CorruptValue key ''cannot infer edge record identity from key'') in
      case split_char (CHR ''/'') key of
        [a, cell_id, b, edge_type, src, dst] \<Rightarrow>
          if a = ''cell'' \<and> b = ''edge'' then edge_record_of key cell_id edge_type src dst else bad
      | [a, cell_id, b, c, edge_type, x, y] \<Rightarrow>
          if a = ''cell'' \<and> b = ''e'' \<and> c = ''out'' then edge_record_of key cell_id edge_type x y
          else if a = ''cell'' \<and> b = ''e'' \<and> c = ''in'' then edge_record_of key cell_id edge_type y x
          else bad
      | _ \<Rightarrow> bad)"

definition parse_relationship_record_key :: "string \<Rightarrow> relationship_record result" where
  "parse_relationship_record_key key =
     (let bad = Inl (CorruptValue key ''cannot infer relationship record identity from key'') in
      case split_char (CHR ''/'') key of
        [a, cell_id, b, edge_type, src, dst, relationship_id] \<Rightarrow>
          if a = ''cell'' \<and> b = ''rel'' then
            and_then (validate_component ''cell_id'' cell_id) (\<lambda>_.
            and_then (validate_component ''edge_type'' edge_type) (\<lambda>_.
            and_then (parse_u64 key src ''src'') (\<lambda>s.
            and_then (parse_u64 key dst ''dst'') (\<lambda>d.
            and_then (parse_u64 key relationship_id ''relationship_id'') (\<lambda>r.
            Inr \<lparr> rr_cell_id = cell_id, rr_edge_type = edge_type, rr_src = s, rr_dst = d,
                  rr_relationship_id = r, rr_metadata = default_edge_metadata \<rparr>)))))
          else bad
      | _ \<Rightarrow> bad)"

definition parse_relationship_property_index_key ::
    "string \<Rightarrow> (string \<times> string \<times> string \<times> string \<times> vertex_id \<times> vertex_id \<times> relationship_id) result" where
  "parse_relationship_property_index_key key =
     (let bad = Inl (CorruptValue key ''expected relationship property index key'') in
      case split_char (CHR ''/'') key of
        [a, cell_id, b, edge_type, property, encoded, src, dst, relationship_id] \<Rightarrow>
          if a = ''cell'' \<and> b = ''rprop_idx'' then
            and_then (parse_u64 key src ''src'') (\<lambda>s.
            and_then (parse_u64 key dst ''dst'') (\<lambda>d.
            and_then (parse_u64 key relationship_id ''relationship_id'') (\<lambda>r.
            Inr (cell_id, edge_type, property, encoded, s, d, r))))
          else bad
      | _ \<Rightarrow> bad)"

definition parse_out_edge_segment_key ::
    "string \<Rightarrow> (string \<times> string \<times> vertex_id \<times> storage_sequence) result" where
  "parse_out_edge_segment_key key =
     (let bad = Inl (CorruptValue key ''expected canonical outbound segment key'') in
      case split_char (CHR ''/'') key of
        [a, cell_id, b, c, edge_type, src, storage_sequence, segment_id] \<Rightarrow>
          if a = ''cell'' \<and> b = ''seg'' \<and> c = ''out'' then
            and_then (validate_component ''cell_id'' cell_id) (\<lambda>_.
            and_then (validate_component ''edge_type'' edge_type) (\<lambda>_.
            and_then (validate_component ''segment_id'' segment_id) (\<lambda>_.
            and_then (parse_u64 key src ''src'') (\<lambda>s.
            and_then (parse_u64 key storage_sequence ''storage_sequence'') (\<lambda>q.
            Inr (cell_id, edge_type, s, q))))))
          else bad
      | _ \<Rightarrow> bad)"

definition parse_out_edge_segment_tombstone_key ::
    "string \<Rightarrow> (string \<times> string \<times> vertex_id \<times> vertex_id) result" where
  "parse_out_edge_segment_tombstone_key key =
     (let bad = Inl (CorruptValue key ''expected canonical outbound segment tombstone key'') in
      case split_char (CHR ''/'') key of
        [a, cell_id, b, c, e, edge_type, src, dst] \<Rightarrow>
          if a = ''cell'' \<and> b = ''seg'' \<and> c = ''tomb'' \<and> e = ''out'' then
            and_then (validate_component ''cell_id'' cell_id) (\<lambda>_.
            and_then (validate_component ''edge_type'' edge_type) (\<lambda>_.
            and_then (parse_u64 key src ''src'') (\<lambda>s.
            and_then (parse_u64 key dst ''dst'') (\<lambda>d.
            Inr (cell_id, edge_type, s, d)))))
          else bad
      | _ \<Rightarrow> bad)"

lemma split_render: "valid_key k \<Longrightarrow> split_char (CHR ''/'') (render k) = key_segs k"
  unfolding render_segs by (rule split_join_char) (auto simp: key_segs_free)

lemma validate_component_ok [simp]: "valid_component v \<Longrightarrow> validate_component n v = Inr ()"
  by (simp add: validate_component_Inr)

lemma parse_edge_keys:
  assumes "valid_component c" "valid_component t"
  shows "parse_edge_record_key (keys_edge c t s d) =
      Inr \<lparr> er_cell_id = c, er_edge_type = t, er_src = s, er_dst = d \<rparr>"
    "parse_edge_record_key (keys_out_edge c t s d) =
      Inr \<lparr> er_cell_id = c, er_edge_type = t, er_src = s, er_dst = d \<rparr>"
    "parse_edge_record_key (keys_in_edge c t d s) =
      Inr \<lparr> er_cell_id = c, er_edge_type = t, er_src = s, er_dst = d \<rparr>"
  using assms split_render [of "K_Edge c t s d"] split_render [of "K_OutEdge c t s d"]
    split_render [of "K_InEdge c t d s"]
  by (simp_all add: parse_edge_record_key_def edge_record_of_def)

lemma parse_relationship_key:
  assumes "valid_component c" "valid_component t"
  shows "parse_relationship_record_key (keys_relationship c t s d r) =
    Inr \<lparr> rr_cell_id = c, rr_edge_type = t, rr_src = s, rr_dst = d,
          rr_relationship_id = r, rr_metadata = default_edge_metadata \<rparr>"
  using assms split_render [of "K_Relationship c t s d r"]
  by (simp add: parse_relationship_record_key_def)

lemma parse_relationship_property_index_key_ok:
  assumes "valid_component c" "valid_component t" "valid_component p" "slash_free e"
  shows "parse_relationship_property_index_key (keys_relationship_property_index c t p e s d r) =
    Inr (c, t, p, e, s, d, r)"
  using assms split_render [of "K_RelationshipPropertyIndex c t p e s d r"]
  by (simp add: parse_relationship_property_index_key_def)

lemma parse_segment_keys:
  assumes "valid_component c" "valid_component t"
  shows "valid_component g \<Longrightarrow>
      parse_out_edge_segment_key (keys_out_segment c t s q g) = Inr (c, t, s, q)"
    "parse_out_edge_segment_tombstone_key (keys_out_segment_tombstone c t s d) = Inr (c, t, s, d)"
  using assms split_render [of "K_OutSegment c t s q g"] split_render [of "K_OutSegmentTombstone c t s d"]
  by (simp_all add: parse_out_edge_segment_key_def parse_out_edge_segment_tombstone_key_def)

subsection \<open>Edge records\<close>

definition encode_edge_record :: "edge_record \<Rightarrow> bytes" where
  "encode_edge_record record = ''graph-edge'' @ [newline]"

definition decode_edge_record :: "string \<Rightarrow> bytes \<Rightarrow> edge_record result" where
  "decode_edge_record key v =
     (if v \<noteq> ''graph-edge'' @ [newline] then Inl (CorruptValue key ''expected graph-edge record'')
      else parse_edge_record_key key)"

subsection \<open>Line records\<close>

definition text_of :: "string \<Rightarrow> bytes \<Rightarrow> string result" where
  "text_of key v = map_err (\<lambda>err. CorruptValue key (show_utf8_error err)) (from_utf8 v)"

definition property_line :: "string \<times> vertex_property_value \<Rightarrow> string" where
  "property_line np =
     ''property'' @ [tab] @ fst np @ [tab] @ encode_vertex_property_value_record (snd np)"

definition label_line :: "string \<Rightarrow> string" where
  "label_line label = ''label'' @ [tab] @ label"

definition encode_lines :: "string list \<Rightarrow> bytes" where
  "encode_lines ls = concat (map (\<lambda>l. l @ [newline]) ls)"

definition encode_vertex_metadata :: "vertex_metadata \<Rightarrow> bytes" where
  "encode_vertex_metadata metadata =
     encode_lines (''vertex-metadata-v1''
       # map label_line (vm_labels metadata)
       @ map property_line (vm_properties metadata))"

definition encode_edge_metadata :: "edge_metadata \<Rightarrow> bytes" where
  "encode_edge_metadata metadata =
     encode_lines (''edge-metadata-v1'' # map property_line (em_properties metadata))"

definition encode_relationship_record :: "relationship_record \<Rightarrow> bytes" where
  "encode_relationship_record record =
     encode_lines (''relationship'' # map property_line (em_properties (rr_metadata record)))"

definition vertex_metadata_line :: "string \<Rightarrow> vertex_metadata \<Rightarrow> string \<Rightarrow> vertex_metadata result" where
  "vertex_metadata_line key metadata line =
     (let bad = Inl (CorruptValue key (''invalid vertex metadata line '' @ line)) in
      case split_char tab line of
        [tag, label] \<Rightarrow>
          if tag = ''label'' then
            and_then (validate_component ''label'' label) (\<lambda>_. Inr (vertex_with_label metadata label))
          else bad
      | [tag, name, encoded] \<Rightarrow>
          if tag = ''property'' then
            and_then (validate_component ''property'' name) (\<lambda>_.
            and_then (decode_vertex_property_value_record key encoded) (\<lambda>v.
            Inr (vertex_with_property metadata name v)))
          else bad
      | _ \<Rightarrow> bad)"

definition decode_vertex_metadata :: "string \<Rightarrow> bytes \<Rightarrow> vertex_metadata result" where
  "decode_vertex_metadata key v =
     and_then (text_of key v) (\<lambda>s.
       case lines s of
         [] \<Rightarrow> Inl (CorruptValue key ''empty vertex metadata'')
       | header # rest \<Rightarrow>
           if header = ''vertex-metadata-v1''
           then fold_res (vertex_metadata_line key) default_vertex_metadata rest
           else Inl (CorruptValue key (''unsupported vertex metadata version '' @ header)))"

text \<open>The property loop of edge metadata and of relationship records; they differ in the error text.\<close>

definition edge_metadata_line :: "string \<Rightarrow> string \<Rightarrow> edge_metadata \<Rightarrow> string \<Rightarrow> edge_metadata result" where
  "edge_metadata_line what key metadata line =
     (let bad = Inl (CorruptValue key (''invalid '' @ what @ '' line '' @ line)) in
      case split_char tab line of
        [tag, name, encoded] \<Rightarrow>
          if tag = ''property'' then
            and_then (validate_component ''property'' name) (\<lambda>_.
            and_then (decode_vertex_property_value_record key encoded) (\<lambda>v.
            Inr (edge_with_property metadata name v)))
          else bad
      | _ \<Rightarrow> bad)"

definition decode_edge_metadata :: "string \<Rightarrow> bytes \<Rightarrow> edge_metadata result" where
  "decode_edge_metadata key v =
     and_then (text_of key v) (\<lambda>s.
       case lines s of
         [] \<Rightarrow> Inl (CorruptValue key ''empty edge metadata'')
       | header # rest \<Rightarrow>
           if header = ''edge-metadata-v1''
           then fold_res (edge_metadata_line ''edge metadata'' key) default_edge_metadata rest
           else Inl (CorruptValue key (''unsupported edge metadata version '' @ header)))"

definition decode_relationship_record :: "string \<Rightarrow> bytes \<Rightarrow> relationship_record result" where
  "decode_relationship_record key v =
     and_then (text_of key v) (\<lambda>s.
       case lines s of
         [] \<Rightarrow> Inl (CorruptValue key ''empty relationship record'')
       | header # rest \<Rightarrow>
           if header \<noteq> ''relationship'' then Inl (CorruptValue key ''expected relationship header'')
           else
             and_then (parse_relationship_record_key key) (\<lambda>record.
             and_then (fold_res (edge_metadata_line ''relationship record'' key) (rr_metadata record) rest)
               (\<lambda>metadata. Inr (record\<lparr> rr_metadata := metadata \<rparr>))))"

subsubsection \<open>Round trips\<close>

definition properties_ok :: "(string \<times> vertex_property_value) list \<Rightarrow> bool" where
  "properties_ok ps \<longleftrightarrow> (\<forall>(n, v) \<in> set ps. valid_component n \<and> value_canonical v)"

definition vertex_metadata_ok :: "vertex_metadata \<Rightarrow> bool" where
  "vertex_metadata_ok m \<longleftrightarrow>
     vertex_metadata_inv m \<and> (\<forall>l \<in> set (vm_labels m). valid_component l) \<and>
     properties_ok (vm_properties m)"

definition edge_metadata_ok :: "edge_metadata \<Rightarrow> bool" where
  "edge_metadata_ok m \<longleftrightarrow> edge_metadata_inv m \<and> properties_ok (em_properties m)"

lemma valid_component_line: "valid_component v \<Longrightarrow> line_text v"
  by (simp add: line_text_def valid_component_notin)

lemma text_of_lines:
  assumes "\<forall>l \<in> set ls. line_text l \<and> ascii l"
  shows "text_of key (encode_lines ls) = Inr (encode_lines ls)" "lines (encode_lines ls) = ls"
proof -
  have "ascii (encode_lines ls)"
    using assms unfolding encode_lines_def by (intro ascii_concat) (auto simp: nat_of_byte_def)
  then show "text_of key (encode_lines ls) = Inr (encode_lines ls)"
    by (simp add: text_of_def from_utf8_ascii)
  show "lines (encode_lines ls) = ls"
    using assms unfolding encode_lines_def by (intro lines_concat) auto
qed

lemma property_line_text:
  "valid_component n \<Longrightarrow> line_text (property_line (n, v)) \<and> ascii (property_line (n, v))"
  by (simp add: property_line_def encode_value_record_text valid_component_line valid_component_ascii
      nat_of_byte_def)

lemma property_line_join:
  "property_line (n, v) = join_char tab [''property'', n, encode_vertex_property_value_record v]"
  by (simp add: property_line_def)

lemma label_line_join: "label_line l = join_char tab [''label'', l]"
  by (simp add: label_line_def)

lemma split_property_line:
  assumes "valid_component n"
  shows "split_char tab (property_line (n, v)) =
    [''property'', n, encode_vertex_property_value_record v]"
  unfolding property_line_join
  by (rule split_join_char)
    (use assms in \<open>simp_all add: encode_value_record_text valid_component_notin\<close>)

lemma split_label_line:
  assumes "valid_component l"
  shows "split_char tab (label_line l) = [''label'', l]"
  unfolding label_line_join
  by (rule split_join_char) (use assms in \<open>simp_all add: valid_component_notin\<close>)

lemma edge_lines_fold:
  assumes "properties_ok ps"
  shows "fold_res (edge_metadata_line what key) m (map property_line ps) =
    Inr (m\<lparr> em_properties := bt_extend (em_properties m) ps \<rparr>)"
  using assms
proof (induction ps arbitrary: m)
  case (Cons p ps)
  obtain n v where p: "p = (n, v)" by (cases p)
  have "edge_metadata_line what key m (property_line p) = Inr (edge_with_property m n v)"
    using Cons.prems p
    by (simp add: edge_metadata_line_def split_property_line properties_ok_def
        decode_encode_value_record value_canonical_utf8)
  then show ?case
    using Cons p by (simp add: properties_ok_def edge_with_property_def bt_extend_def)
qed (simp add: bt_extend_def)

lemma vertex_property_lines_fold:
  assumes "properties_ok ps"
  shows "fold_res (vertex_metadata_line key) m (map property_line ps) =
    Inr (m\<lparr> vm_properties := bt_extend (vm_properties m) ps \<rparr>)"
  using assms
proof (induction ps arbitrary: m)
  case (Cons p ps)
  obtain n v where p: "p = (n, v)" by (cases p)
  have "vertex_metadata_line key m (property_line p) = Inr (vertex_with_property m n v)"
    using Cons.prems p
    by (simp add: vertex_metadata_line_def split_property_line properties_ok_def
        decode_encode_value_record value_canonical_utf8)
  then show ?case
    using Cons p by (simp add: properties_ok_def vertex_with_property_def bt_extend_def)
qed (simp add: bt_extend_def)

lemma vertex_label_lines_fold:
  assumes "\<forall>l \<in> set ls. valid_component l"
  shows "fold_res (vertex_metadata_line key) m (map label_line ls) =
    Inr (m\<lparr> vm_labels := bs_extend (vm_labels m) ls \<rparr>)"
  using assms
proof (induction ls arbitrary: m)
  case (Cons l ls)
  have "vertex_metadata_line key m (label_line l) = Inr (vertex_with_label m l)"
    using Cons.prems by (simp add: vertex_metadata_line_def split_label_line)
  then show ?case
    using Cons by (simp add: vertex_with_label_def bs_extend_def)
qed (simp add: bs_extend_def)

lemma property_lines_text:
  "properties_ok ps \<Longrightarrow> l \<in> set (map property_line ps) \<Longrightarrow> line_text l \<and> ascii l"
  by (auto simp: properties_ok_def property_line_text)

lemma label_line_text:
  "valid_component l \<Longrightarrow> line_text (label_line l) \<and> ascii (label_line l)"
  by (simp add: label_line_def valid_component_line valid_component_ascii nat_of_byte_def)

lemma bs_extend_sorted: "bs_inv xs \<Longrightarrow> bs_extend [] xs = xs"
  using bs_of_list_sorted [of xs] by (simp add: bs_of_list_def)

lemma decode_encode_vertex_metadata:
  assumes "vertex_metadata_ok m"
  shows "decode_vertex_metadata key (encode_vertex_metadata m) = Inr m"
proof -
  let ?ls = "''vertex-metadata-v1'' # map label_line (vm_labels m) @ map property_line (vm_properties m)"
  have "\<forall>l \<in> set ?ls. line_text l \<and> ascii l"
    using assms property_lines_text label_line_text
    by (auto simp: vertex_metadata_ok_def nat_of_byte_def)
  note decoded = text_of_lines [OF this, folded encode_vertex_metadata_def]
  have "fold_res (vertex_metadata_line key) default_vertex_metadata (tl ?ls) = Inr m"
    using assms
    by (simp add: fold_res_append vertex_label_lines_fold vertex_property_lines_fold
        vertex_metadata_ok_def vertex_metadata_inv_def default_vertex_metadata_def
        bs_extend_sorted bt_extend_from_sorted)
  then show ?thesis
    unfolding decode_vertex_metadata_def decoded by simp (simp add: decoded(2))
qed

lemma decode_encode_edge_metadata:
  assumes "edge_metadata_ok m"
  shows "decode_edge_metadata key (encode_edge_metadata m) = Inr m"
proof -
  let ?ls = "''edge-metadata-v1'' # map property_line (em_properties m)"
  have "\<forall>l \<in> set ?ls. line_text l \<and> ascii l"
    using assms property_lines_text by (auto simp: edge_metadata_ok_def nat_of_byte_def)
  note decoded = text_of_lines [OF this, folded encode_edge_metadata_def]
  have "fold_res (edge_metadata_line ''edge metadata'' key) default_edge_metadata (tl ?ls) = Inr m"
    using assms
    by (simp add: edge_lines_fold edge_metadata_ok_def edge_metadata_inv_def
        default_edge_metadata_def bt_extend_from_sorted)
  then show ?thesis
    unfolding decode_edge_metadata_def decoded by simp (simp add: decoded(2))
qed

lemma decode_encode_relationship_record:
  assumes "valid_component (rr_cell_id r)" "valid_component (rr_edge_type r)"
    and "edge_metadata_ok (rr_metadata r)"
    and "key = keys_relationship (rr_cell_id r) (rr_edge_type r) (rr_src r) (rr_dst r) (rr_relationship_id r)"
  shows "decode_relationship_record key (encode_relationship_record r) = Inr r"
proof -
  let ?m = "rr_metadata r"
  let ?ls = "''relationship'' # map property_line (em_properties ?m)"
  have "\<forall>l \<in> set ?ls. line_text l \<and> ascii l"
    using assms property_lines_text by (auto simp: edge_metadata_ok_def nat_of_byte_def)
  note decoded = text_of_lines [OF this, folded encode_relationship_record_def]
  have "fold_res (edge_metadata_line ''relationship record'' key) default_edge_metadata (tl ?ls) = Inr ?m"
    using assms
    by (simp add: edge_lines_fold edge_metadata_ok_def edge_metadata_inv_def
        default_edge_metadata_def bt_extend_from_sorted)
  then show ?thesis
    unfolding decode_relationship_record_def decoded
    using assms by simp (simp add: decoded(2) parse_relationship_key)
qed

subsection \<open>Outbound segments\<close>

definition segment_header :: bytes where
  "segment_header = ''graph-out-segment'' @ [newline]"

definition encode_out_edge_segment_records :: "vertex_id list \<Rightarrow> bytes" where
  "encode_out_edge_segment_records destinations =
     segment_header @ to_be_bytes (of_nat (length destinations)) @ concat (map to_be_bytes destinations)"

text \<open>
  \<open>usize\<close> is 64 bits wide, so \<open>usize::try_from\<close> of a \<open>u64\<close> cannot fail; \<open>checked_mul(8)\<close> can.
\<close>

definition out_edge_segment_destination_count :: "string \<Rightarrow> bytes \<Rightarrow> nat result" where
  "out_edge_segment_destination_count key v =
     (case strip_prefix segment_header v of
        None \<Rightarrow> Inl (CorruptValue key ''expected graph-out-segment record'')
      | Some body \<Rightarrow>
          if length body < 8 then
            Inl (CorruptValue key (''expected graph-out-segment count, got '' @ show_nat (length body) @ '' bytes''))
          else
            let declared = unat (from_be_bytes (take 8 body)) in
            if 2 ^ 64 \<le> declared * 8 then
              Inl (CorruptValue key (''graph-out-segment count '' @ show_nat declared @ '' is too large''))
            else if length body - 8 \<noteq> declared * 8 then
              Inl (CorruptValue key
                (''expected '' @ show_nat (declared * 8) @ '' graph-out-segment destination bytes, got '' @
                 show_nat (length body - 8)))
            else Inr declared)"

definition decode_out_edge_segment :: "string \<Rightarrow> bytes \<Rightarrow> out_edge_segment result" where
  "decode_out_edge_segment key v =
     and_then (parse_out_edge_segment_key key) (\<lambda>(cell_id, edge_type, src, storage_sequence).
     case strip_prefix segment_header v of
        None \<Rightarrow> Inl (CorruptValue key ''expected graph-out-segment record'')
      | Some body \<Rightarrow>
          if length body < 8 then
            Inl (CorruptValue key (''expected graph-out-segment count, got '' @ show_nat (length body) @ '' bytes''))
          else
            let expected_count = unat (from_be_bytes (take 8 body));
                edge_bytes = drop 8 body in
            if 2 ^ 64 \<le> expected_count * 8 then
              Inl (CorruptValue key (''graph-out-segment count '' @ show_nat expected_count @ '' is too large''))
            else if length edge_bytes \<noteq> expected_count * 8 then
              Inl (CorruptValue key
                (''expected '' @ show_nat (expected_count * 8) @ '' graph-out-segment destination bytes, got '' @
                 show_nat (length edge_bytes)))
            else
              Inr \<lparr> oes_cell_id = cell_id, oes_edge_type = edge_type, oes_src = src,
                    oes_storage_sequence = storage_sequence,
                    oes_destinations = map from_be_bytes (as_chunks 8 edge_bytes) \<rparr>)"

lemma destination_count_decode:
  assumes "parse_out_edge_segment_key key = Inr ident"
  shows "map_ok (\<lambda>seg. length (oes_destinations seg)) (decode_out_edge_segment key v) =
    out_edge_segment_destination_count key v"
  using assms
  by (cases ident)
    (auto simp: decode_out_edge_segment_def out_edge_segment_destination_count_def Let_def
      length_as_chunks split: option.splits)

lemma decode_encode_segment:
  assumes "valid_component c" "valid_component t" "valid_component g"
    and "length ds < 2 ^ 61"
  shows "decode_out_edge_segment (keys_out_segment c t s q g) (encode_out_edge_segment_records ds) =
    Inr \<lparr> oes_cell_id = c, oes_edge_type = t, oes_src = s, oes_storage_sequence = q,
          oes_destinations = ds \<rparr>"
proof -
  have "unat (of_nat (length ds) :: u64) = length ds"
    using assms(4) by (intro unat_of_nat_u64) simp
  moreover have "as_chunks 8 (concat (map to_be_bytes ds)) = map to_be_bytes ds"
    by (rule as_chunks_concat) simp_all
  moreover have "length (concat (map to_be_bytes ds)) = length ds * 8"
    by (induction ds) simp_all
  ultimately show ?thesis
    using assms
    by (simp add: decode_out_edge_segment_def encode_out_edge_segment_records_def
        parse_segment_keys comp_def)
qed

definition segment_edge_visible :: "storage_sequence \<Rightarrow> storage_sequence option \<Rightarrow> bool" where
  "segment_edge_visible edge_epoch tombstone_epoch =
     (case tombstone_epoch of None \<Rightarrow> True | Some epoch \<Rightarrow> epoch < edge_epoch)"

subsection \<open>Batches\<close>

definition validate_edge_mutation_step ::
    "string \<Rightarrow> string \<Rightarrow> string btree_set \<Rightarrow> edge_mutation \<Rightarrow> string btree_set result" where
  "validate_edge_mutation_step cell_id operation idempotency_keys mutation =
     and_then (validate_component ''cell_id'' (mut_cell_id mutation)) (\<lambda>_.
     and_then (validate_component ''edge_type'' (mut_edge_type mutation)) (\<lambda>_.
     and_then (validate_component ''idempotency_key'' (mut_idempotency_key mutation)) (\<lambda>_.
     if mut_cell_id mutation \<noteq> cell_id then
       Inl (CorruptValue (''cell/'' @ cell_id @ ''/'' @ operation)
         (''batch contains mutation for different cell '' @ mut_cell_id mutation))
     else if mut_idempotency_key mutation \<in> set idempotency_keys then
       Inl (IdempotencyConflict ''create'' (mut_idempotency_key mutation)
         ''the same key appears twice in one batch'')
     else Inr (bs_insert (mut_idempotency_key mutation) idempotency_keys))))"

definition validate_edge_mutations_for_cell ::
    "string \<Rightarrow> edge_mutation list \<Rightarrow> string \<Rightarrow> unit result" where
  "validate_edge_mutations_for_cell cell_id mutations operation =
     map_ok (\<lambda>_. ()) (fold_res (validate_edge_mutation_step cell_id operation) [] mutations)"

lemma validate_edge_mutation_step_Inr:
  "validate_edge_mutation_step c op ks m = Inr ks' \<longleftrightarrow>
    valid_component (mut_cell_id m) \<and> valid_component (mut_edge_type m) \<and>
    valid_component (mut_idempotency_key m) \<and> mut_cell_id m = c \<and>
    mut_idempotency_key m \<notin> set ks \<and> ks' = bs_insert (mut_idempotency_key m) ks"
  by (auto simp: validate_edge_mutation_step_def and_then_eq_Inr validate_component_Inr)

lemma validate_edge_mutations_fold:
  "(\<exists>ks'. fold_res (validate_edge_mutation_step c op) ks ms = Inr ks') \<longleftrightarrow>
    (\<forall>m \<in> set ms. valid_component (mut_cell_id m) \<and> valid_component (mut_edge_type m) \<and>
       valid_component (mut_idempotency_key m) \<and> mut_cell_id m = c) \<and>
    distinct (map mut_idempotency_key ms) \<and> set (map mut_idempotency_key ms) \<inter> set ks = {}"
proof (induction ms arbitrary: ks)
  case (Cons m ms)
  show ?case
    by (simp add: and_then_eq_Inr validate_edge_mutation_step_Inr Cons.IH) auto
qed simp

lemma validate_edge_mutations_Inr:
  "validate_edge_mutations_for_cell c ms op = Inr u \<longleftrightarrow>
    (\<forall>m \<in> set ms. valid_component (mut_cell_id m) \<and> valid_component (mut_edge_type m) \<and>
       valid_component (mut_idempotency_key m) \<and> mut_cell_id m = c) \<and>
    distinct (map mut_idempotency_key ms)"
  using validate_edge_mutations_fold [of c op "[]" ms]
  by (simp add: validate_edge_mutations_for_cell_def map_ok_eq_Inr)

subsection \<open>Properties\<close>





text \<open>
  C33.  An outbound segment decodes to the destinations it was written with, and the cheap
  destination count of a segment equals the number of destinations its full decode yields -- both
  accept or reject the same values, with the same error.
\<close>

theorem segment_roundtrip:
  "valid_component c \<Longrightarrow> valid_component t \<Longrightarrow> valid_component g \<Longrightarrow> length ds < 2 ^ 61 \<Longrightarrow>
    decode_out_edge_segment (keys_out_segment c t s q g) (encode_out_edge_segment_records ds) =
      Inr \<lparr> oes_cell_id = c, oes_edge_type = t, oes_src = s, oes_storage_sequence = q,
            oes_destinations = ds \<rparr> \<and>
    map_ok (\<lambda>seg. length (oes_destinations seg)) (decode_out_edge_segment (keys_out_segment c t s q g) v) =
      out_edge_segment_destination_count (keys_out_segment c t s q g) v"
  by (simp add: decode_encode_segment destination_count_decode [OF parse_segment_keys(1)])

theorem segment_roundtrip_witness:
  "decode_out_edge_segment (keys_out_segment ''c1'' ''KNOWS'' 7 5 ''a'') (encode_out_edge_segment_records [8, 9]) =
     Inr \<lparr> oes_cell_id = ''c1'', oes_edge_type = ''KNOWS'', oes_src = 7, oes_storage_sequence = 5,
           oes_destinations = [8, 9] \<rparr>"
proof -
  have "valid_component ''c1''" "valid_component ''KNOWS''" "valid_component ''a''"
    by code_simp+
  from segment_roundtrip [OF this, of "[8, 9]"] show ?thesis by simp
qed

text \<open>
  A batch of edge mutations is accepted exactly when every name in it is a valid key
  component, every mutation is for the batch's cell, and no idempotency key occurs twice.
\<close>

theorem batch_validation:
  "is_ok (validate_edge_mutations_for_cell c ms op) \<longleftrightarrow>
    list_all (\<lambda>m. valid_component (mut_cell_id m) \<and> valid_component (mut_edge_type m) \<and>
       valid_component (mut_idempotency_key m) \<and> mut_cell_id m = c) ms \<and>
    distinct (map mut_idempotency_key ms)"
  using validate_edge_mutations_Inr [of c ms op "()"]
  by (cases "validate_edge_mutations_for_cell c ms op") (auto simp: list_all_iff)

end
