(* ===== verification/Query_Stats.thy ===== *)
theory Query_Stats
  imports Codec_Records
begin

unbundle bit_operations_syntax

text \<open>
  Optimizer statistics: \<open>QueryStatsRecord\<close> and \<open>QueryStatsBloom\<close> of \<open>src/query/algebra.rs\<close> and
  their codec in \<open>src/codec.rs\<close>.  The Bloom filter has no false negatives, the record decodes to
  what was encoded, and the equality estimate stays between one and the most common count.

  The false-positive rate stored beside a filter is computed with the platform's \<open>exp\<close> and
  \<open>powf\<close>; it is the parameter \<open>rate\<close> of the constructor and nothing else depends on it.
\<close>

subsection \<open>Bloom filters\<close>

record query_stats_bloom =
  qb_bit_count :: u64
  qb_hash_count :: u32
  qb_inserted_count :: u64
  qb_false_positive_rate_ppm :: u32
  qb_bits :: bytes

definition saturating_mul_u64 :: "u64 \<Rightarrow> u64 \<Rightarrow> u64" where
  "saturating_mul_u64 a b = (if unat a * unat b < 2 ^ 64 then a * b else u64_max)"

definition fnv_step :: "u64 \<Rightarrow> char \<Rightarrow> u64" where
  "fnv_step hash byte = (hash XOR of_nat (nat_of_byte byte)) * 0x100000001b3"

definition stable_bloom_hash :: "bytes \<Rightarrow> u64 \<Rightarrow> u64" where
  "stable_bloom_hash v seed = foldl fnv_step (0xcbf29ce484222325 XOR seed) v"

definition bloom_indexes :: "bytes \<Rightarrow> u64 \<Rightarrow> u32 \<Rightarrow> u64 list" where
  "bloom_indexes v bit_count hash_count =
     (let first = stable_bloom_hash v 0x517cc1b727220a95;
          second = stable_bloom_hash v 0x6c8e9cf570932bd5 OR 1 in
      map (\<lambda>index. (first + of_nat index * second) mod bit_count) [0..<unat hash_count])"

definition bit_set :: "bytes \<Rightarrow> u64 \<Rightarrow> bool" where
  "bit_set bits index \<longleftrightarrow>
     nat_of_byte (bits ! unat (index div 8)) AND push_bit (unat (index mod 8)) 1 \<noteq> 0"

definition set_bit_at :: "bytes \<Rightarrow> u64 \<Rightarrow> bytes" where
  "set_bit_at bits index =
     (let byte = unat (index div 8) in
      bits[byte := byte_of_nat (nat_of_byte (bits ! byte) OR push_bit (unat (index mod 8)) 1)])"

definition bloom_insert :: "query_stats_bloom \<Rightarrow> bytes \<Rightarrow> query_stats_bloom" where
  "bloom_insert bloom v =
     bloom\<lparr> qb_bits := foldl set_bit_at (qb_bits bloom)
       (bloom_indexes v (qb_bit_count bloom) (qb_hash_count bloom)) \<rparr>"

definition from_encoded_values ::
    "(u64 \<Rightarrow> u32 \<Rightarrow> u64 \<Rightarrow> u32) \<Rightarrow> string list \<Rightarrow> query_stats_bloom" where
  "from_encoded_values rate values =
     (let inserted_count = of_nat (length values);
          requested_bits = max (saturating_mul_u64 inserted_count 10) 64;
          bit_count = saturating_add_u64 requested_bits 7 div 8 * 8;
          bloom = \<lparr> qb_bit_count = bit_count, qb_hash_count = 7, qb_inserted_count = inserted_count,
                    qb_false_positive_rate_ppm = rate bit_count 7 inserted_count,
                    qb_bits = replicate (unat (bit_count div 8)) (CHR 0x00) \<rparr> in
      foldl bloom_insert bloom values)"

definition may_contain_encoded :: "query_stats_bloom \<Rightarrow> string \<Rightarrow> bool" where
  "may_contain_encoded bloom v =
     (if qb_bit_count bloom = 0
         \<or> of_nat (length (qb_bits bloom)) \<noteq> qb_bit_count bloom div 8
         \<or> \<not> (1 \<le> qb_hash_count bloom \<and> qb_hash_count bloom \<le> 32)
      then True
      else list_all (bit_set (qb_bits bloom)) (bloom_indexes v (qb_bit_count bloom) (qb_hash_count bloom)))"

subsubsection \<open>No false negatives\<close>

lemma length_set_bit_at [simp]: "length (set_bit_at bits i) = length bits"
  by (simp add: set_bit_at_def Let_def)

lemma length_set_bits [simp]: "length (foldl set_bit_at bits is) = length bits"
  by (induction "is" arbitrary: bits) simp_all

lemma byte_or_less: "nat_of_byte b OR 2 ^ k < 256" if "k < 8"
proof -
  have "(2 ^ k :: nat) < 2 ^ 8"
    using that by (intro power_strict_increasing) simp_all
  then have "take_bit 8 (nat_of_byte b OR 2 ^ k) = nat_of_byte b OR 2 ^ k"
    using nat_of_byte_less [of b] by (simp add: take_bit_or take_bit_nat_eq_self that)
  then have "nat_of_byte b OR 2 ^ k < 2 ^ 8"
    by (simp only: take_bit_nat_eq_self_iff)
  then show ?thesis by simp
qed

lemma bit_set_iff: "bit_set bits i \<longleftrightarrow> bit (nat_of_byte (bits ! unat (i div 8))) (unat (i mod 8))"
  unfolding bit_set_def using and_exp_eq_0_iff_not_bit [of "nat_of_byte (bits ! unat (i div 8))"]
  by (simp add: push_bit_of_1)

lemma bit_set_mono: "bit_set bits i \<Longrightarrow> bit_set (set_bit_at bits j) i"
proof -
  have "unat (j mod 8) < 8"
    by (simp add: unat_mod)
  then show "bit_set bits i \<Longrightarrow> bit_set (set_bit_at bits j) i"
    by (cases "unat (j div 8) < length bits")
      (auto simp: bit_set_iff set_bit_at_def Let_def nth_list_update byte_or_less bit_or_iff
        list_update_beyond not_less)
qed

lemma bit_set_same: "unat (i div 8) < length bits \<Longrightarrow> bit_set (set_bit_at bits i) i"
proof -
  have "unat (i mod 8) < 8"
    by (simp add: unat_mod)
  then show "unat (i div 8) < length bits \<Longrightarrow> bit_set (set_bit_at bits i) i"
    by (simp add: bit_set_iff set_bit_at_def Let_def byte_or_less bit_or_iff bit_exp_iff)
qed

lemma bits_mono: "bit_set bits i \<Longrightarrow> bit_set (foldl set_bit_at bits js) i"
  by (induction js arbitrary: bits) (simp_all add: bit_set_mono)

lemma bits_inserted:
  "i \<in> set js \<Longrightarrow> \<forall>j \<in> set js. unat (j div 8) < length bits \<Longrightarrow> bit_set (foldl set_bit_at bits js) i"
  by (induction js arbitrary: bits) (auto simp: bit_set_same bits_mono)

definition bloom_ok :: "query_stats_bloom \<Rightarrow> bool" where
  "bloom_ok b \<longleftrightarrow> 0 < qb_bit_count b \<and> 8 dvd unat (qb_bit_count b) \<and>
     length (qb_bits b) = unat (qb_bit_count b) div 8"

lemma bloom_insert_fields [simp]:
  "qb_bit_count (bloom_insert b v) = qb_bit_count b"
  "qb_hash_count (bloom_insert b v) = qb_hash_count b"
  "length (qb_bits (bloom_insert b v)) = length (qb_bits b)"
  by (simp_all add: bloom_insert_def)

lemma bloom_inserts_fields [simp]:
  "qb_bit_count (foldl bloom_insert b vs) = qb_bit_count b"
  "qb_hash_count (foldl bloom_insert b vs) = qb_hash_count b"
  "length (qb_bits (foldl bloom_insert b vs)) = length (qb_bits b)"
  by (induction vs arbitrary: b) simp_all

lemma bloom_ok_insert [simp]: "bloom_ok (bloom_insert b v) = bloom_ok b"
  by (simp add: bloom_ok_def)

lemma bloom_index_in_range:
  assumes "bloom_ok b" "i \<in> set (bloom_indexes v (qb_bit_count b) k)"
  shows "unat (i div 8) < length (qb_bits b)"
proof -
  obtain w where "i = w mod qb_bit_count b"
    using assms(2) by (auto simp: bloom_indexes_def Let_def)
  then have "unat i < unat (qb_bit_count b)"
    using assms(1) by (simp add: unat_mod bloom_ok_def word_less_nat_alt)
  moreover have "unat (i div 8) = unat i div 8"
    by (simp add: unat_div)
  ultimately show ?thesis
    using assms(1) unfolding bloom_ok_def
    by (metis dvd_mult_div_cancel less_mult_imp_div_less mult.commute)
qed

lemma bloom_insert_present:
  assumes "bloom_ok b" "i \<in> set (bloom_indexes v (qb_bit_count b) (qb_hash_count b))"
  shows "bit_set (qb_bits (bloom_insert b v)) i"
  unfolding bloom_insert_def
  using bits_inserted [OF assms(2)] bloom_index_in_range [OF assms(1)] by simp

lemma bloom_inserts_mono: "bit_set (qb_bits b) i \<Longrightarrow> bit_set (qb_bits (foldl bloom_insert b vs)) i"
  by (induction vs arbitrary: b) (simp_all add: bloom_insert_def bits_mono)

lemma bloom_inserts_present:
  assumes "bloom_ok b" "v \<in> set vs"
    and "i \<in> set (bloom_indexes v (qb_bit_count b) (qb_hash_count b))"
  shows "bit_set (qb_bits (foldl bloom_insert b vs)) i"
  using assms
  by (induction vs arbitrary: b) (auto intro: bloom_inserts_mono bloom_insert_present)

lemma bloom_bit_count_ok:
  assumes "64 \<le> requested"
  shows "8 dvd unat (saturating_add_u64 requested 7 div 8 * 8)"
    and "0 < saturating_add_u64 requested 7 div 8 * 8"
    and "unat ((saturating_add_u64 requested 7 div 8 * 8) div 8) =
      unat (saturating_add_u64 requested 7 div 8 * 8) div 8"
proof -
  let ?w = "saturating_add_u64 requested 7"
  have "unat ?w div 8 * 8 \<le> unat ?w"
    by simp
  then have "unat (?w div 8 * 8) = unat ?w div 8 * 8"
    using unat_u64_bound [of ?w]
    by (simp add: unat_word_ariths(2) unat_div)
  moreover have "64 \<le> unat ?w"
    using assms unat_u64_bound [of requested]
    by (auto simp: unat_saturating_add_u64 word_le_nat_alt min_def)
  ultimately show "8 dvd unat (?w div 8 * 8)" "0 < ?w div 8 * 8"
    by (simp_all add: word_less_nat_alt)
  show "unat ((?w div 8 * 8) div 8) = unat (?w div 8 * 8) div 8"
    by (simp add: unat_div)
qed

lemma no_false_negatives:
  assumes "v \<in> set vs"
  shows "may_contain_encoded (from_encoded_values rate vs) v"
proof -
  let ?n = "of_nat (length vs) :: u64"
  define req where "req = max (saturating_mul_u64 ?n 10) 64"
  define bc where "bc = saturating_add_u64 req 7 div 8 * 8"
  define b where "b = \<lparr> qb_bit_count = bc, qb_hash_count = 7, qb_inserted_count = ?n,
    qb_false_positive_rate_ppm = rate bc 7 ?n, qb_bits = replicate (unat (bc div 8)) (CHR 0x00) \<rparr>"
  have "64 \<le> req" by (simp add: req_def)
  then have "bloom_ok b"
    using bloom_bit_count_ok [of req] by (simp add: bloom_ok_def b_def bc_def)
  moreover have "from_encoded_values rate vs = foldl bloom_insert b vs"
    by (simp add: from_encoded_values_def Let_def b_def bc_def req_def)
  ultimately show ?thesis
    using bloom_inserts_present [OF _ assms, of b]
    by (auto simp: may_contain_encoded_def list_all_iff)
qed

subsection \<open>Statistics records\<close>

record query_stats_record =
  qs_count :: u64
  qs_read_epoch :: storage_sequence
  qs_refreshed_at_ms :: u64
  qs_distinct_values :: u64
  qs_total_values :: u64
  qs_most_common_count :: u64
  qs_bloom :: "query_stats_bloom option"

definition point_count :: "u64 \<Rightarrow> storage_sequence \<Rightarrow> u64 \<Rightarrow> query_stats_record" where
  "point_count count read_epoch refreshed_at_ms =
     \<lparr> qs_count = count, qs_read_epoch = read_epoch, qs_refreshed_at_ms = refreshed_at_ms,
       qs_distinct_values = 1, qs_total_values = count, qs_most_common_count = count,
       qs_bloom = None \<rparr>"

definition histogram :: "u64 \<Rightarrow> storage_sequence \<Rightarrow> u64 \<Rightarrow> u64 \<Rightarrow> u64 \<Rightarrow> query_stats_record" where
  "histogram count read_epoch refreshed_at_ms distinct_values most_common_count =
     \<lparr> qs_count = count, qs_read_epoch = read_epoch, qs_refreshed_at_ms = refreshed_at_ms,
       qs_distinct_values = distinct_values, qs_total_values = count,
       qs_most_common_count = most_common_count, qs_bloom = None \<rparr>"

definition is_unusable_at :: "query_stats_record \<Rightarrow> storage_sequence \<Rightarrow> u64 \<Rightarrow> bool" where
  "is_unusable_at r current_epoch now_ms \<longleftrightarrow>
     current_epoch < qs_read_epoch r \<or> now_ms < qs_refreshed_at_ms r"

definition equality_estimate :: "query_stats_record \<Rightarrow> u64" where
  "equality_estimate r =
     (if qs_distinct_values r = 0 then max (qs_count r) 1
      else min (max (qs_count r div qs_distinct_values r) 1) (max (qs_most_common_count r) 1))"

definition stats_record_from_histogram ::
    "(u64 \<Rightarrow> u32 \<Rightarrow> u64 \<Rightarrow> u32) \<Rightarrow> u64 \<Rightarrow> storage_sequence \<Rightarrow> (string, u64) btree_map \<Rightarrow> query_stats_record" where
  "stats_record_from_histogram rate now read_epoch buckets =
     (let total = sum_list (map snd buckets);
          most_common = (if buckets = [] then 0 else Max (set (map snd buckets))) in
      (histogram total read_epoch now (of_nat (length buckets)) most_common)
        \<lparr> qs_bloom := Some (from_encoded_values rate (map fst buckets)) \<rparr>)"

subsubsection \<open>Codec\<close>

definition stat_line :: "string \<Rightarrow> string \<Rightarrow> string" where
  "stat_line field v = field @ [tab] @ v"

definition encode_query_stats_record :: "query_stats_record \<Rightarrow> bytes" where
  "encode_query_stats_record r =
     encode_lines
       ([if qs_bloom r = None then ''query-stats-v1'' else ''query-stats-v2'',
         stat_line ''count'' (show_u64 (qs_count r)),
         stat_line ''read_epoch'' (show_u64 (qs_read_epoch r)),
         stat_line ''refreshed_at_ms'' (show_u64 (qs_refreshed_at_ms r)),
         stat_line ''distinct_values'' (show_u64 (qs_distinct_values r)),
         stat_line ''total_values'' (show_u64 (qs_total_values r)),
         stat_line ''most_common_count'' (show_u64 (qs_most_common_count r))] @
        (case qs_bloom r of
           None \<Rightarrow> []
         | Some bloom \<Rightarrow>
             [stat_line ''bloom_bit_count'' (show_u64 (qb_bit_count bloom)),
              stat_line ''bloom_hash_count'' (show_nat (unat (qb_hash_count bloom))),
              stat_line ''bloom_inserted_count'' (show_u64 (qb_inserted_count bloom)),
              stat_line ''bloom_false_positive_rate_ppm'' (show_nat (unat (qb_false_positive_rate_ppm bloom))),
              stat_line ''bloom_bits'' (hex_encode (qb_bits bloom))]))"

text \<open>The decoder's mutable variables.\<close>

record stats_fields =
  sf_count :: "u64 option"
  sf_read_epoch :: "u64 option"
  sf_refreshed_at_ms :: "u64 option"
  sf_distinct_values :: "u64 option"
  sf_total_values :: "u64 option"
  sf_most_common_count :: "u64 option"
  sf_bloom_bit_count :: "u64 option"
  sf_bloom_hash_count :: "u64 option"
  sf_bloom_inserted_count :: "u64 option"
  sf_bloom_false_positive_rate_ppm :: "u64 option"
  sf_bloom_bits :: "bytes option"

definition no_stats_fields :: stats_fields where
  "no_stats_fields =
     \<lparr> sf_count = None, sf_read_epoch = None, sf_refreshed_at_ms = None, sf_distinct_values = None,
       sf_total_values = None, sf_most_common_count = None, sf_bloom_bit_count = None,
       sf_bloom_hash_count = None, sf_bloom_inserted_count = None,
       sf_bloom_false_positive_rate_ppm = None, sf_bloom_bits = None \<rparr>"

definition query_stats_field_line :: "string \<Rightarrow> stats_fields \<Rightarrow> string \<Rightarrow> stats_fields result" where
  "query_stats_field_line key st line =
     (case split_char tab line of
        [field, v] \<Rightarrow>
          if field = ''bloom_bits'' then
            and_then (hex_decode key v) (\<lambda>bs. Inr (st\<lparr> sf_bloom_bits := Some bs \<rparr>))
          else
            and_then (map_err (\<lambda>err. CorruptValue key
                (''invalid query stats '' @ field @ '' value '' @ v @ '': '' @ show_parse_int_error err))
              (parse_str_u64 v)) (\<lambda>n.
            if field = ''count'' then Inr (st\<lparr> sf_count := Some n \<rparr>)
            else if field = ''read_epoch'' then Inr (st\<lparr> sf_read_epoch := Some n \<rparr>)
            else if field = ''refreshed_at_ms'' then Inr (st\<lparr> sf_refreshed_at_ms := Some n \<rparr>)
            else if field = ''distinct_values'' then Inr (st\<lparr> sf_distinct_values := Some n \<rparr>)
            else if field = ''total_values'' then Inr (st\<lparr> sf_total_values := Some n \<rparr>)
            else if field = ''most_common_count'' then Inr (st\<lparr> sf_most_common_count := Some n \<rparr>)
            else if field = ''bloom_bit_count'' then Inr (st\<lparr> sf_bloom_bit_count := Some n \<rparr>)
            else if field = ''bloom_hash_count'' then Inr (st\<lparr> sf_bloom_hash_count := Some n \<rparr>)
            else if field = ''bloom_inserted_count'' then Inr (st\<lparr> sf_bloom_inserted_count := Some n \<rparr>)
            else if field = ''bloom_false_positive_rate_ppm''
            then Inr (st\<lparr> sf_bloom_false_positive_rate_ppm := Some n \<rparr>)
            else Inl (CorruptValue key (''unknown query stats field '' @ field)))
      | _ \<Rightarrow> Inl (CorruptValue key (''invalid query stats line '' @ line)))"

definition required_query_stats_field :: "string \<Rightarrow> string \<Rightarrow> u64 option \<Rightarrow> u64 result" where
  "required_query_stats_field key field v =
     ok_or (CorruptValue key (''missing query stats field '' @ field)) v"

text \<open>\<open>u32::try_from\<close> of a field.\<close>

definition u32_field :: "string \<Rightarrow> string \<Rightarrow> u64 \<Rightarrow> u32 result" where
  "u32_field key field v =
     (if unat v < 2 ^ 32 then Inr (of_nat (unat v))
      else Inl (CorruptValue key (''invalid query stats '' @ field @
        '': out of range integral type conversion attempted'')))"

definition decode_bloom :: "string \<Rightarrow> stats_fields \<Rightarrow> query_stats_bloom result" where
  "decode_bloom key st =
     and_then (required_query_stats_field key ''bloom_bit_count'' (sf_bloom_bit_count st)) (\<lambda>bit_count.
     and_then (required_query_stats_field key ''bloom_hash_count'' (sf_bloom_hash_count st)) (\<lambda>h.
     and_then (u32_field key ''bloom_hash_count'' h) (\<lambda>hash_count.
     and_then (required_query_stats_field key ''bloom_inserted_count'' (sf_bloom_inserted_count st)) (\<lambda>inserted_count.
     and_then (required_query_stats_field key ''bloom_false_positive_rate_ppm''
         (sf_bloom_false_positive_rate_ppm st)) (\<lambda>p.
     and_then (u32_field key ''bloom_false_positive_rate_ppm'' p) (\<lambda>ppm.
     and_then (ok_or (CorruptValue key ''missing query stats field bloom_bits'') (sf_bloom_bits st)) (\<lambda>bits.
     if bit_count = 0 \<or> bit_count mod 8 \<noteq> 0 \<or> of_nat (length bits) \<noteq> bit_count div 8
        \<or> \<not> (1 \<le> hash_count \<and> hash_count \<le> 32) \<or> 1000000 < ppm
     then Inl (CorruptValue key ''invalid query stats bloom dimensions'')
     else Inr \<lparr> qb_bit_count = bit_count, qb_hash_count = hash_count, qb_inserted_count = inserted_count,
                qb_false_positive_rate_ppm = ppm, qb_bits = bits \<rparr>)))))))"

definition decode_query_stats_record :: "string \<Rightarrow> bytes \<Rightarrow> query_stats_record result" where
  "decode_query_stats_record key v =
     (if length v = 8 then and_then (decode_u64 key v) (\<lambda>count. Inr (point_count count 0 0))
      else
        and_then (text_of key v) (\<lambda>s.
        case lines s of
          [] \<Rightarrow> Inl (CorruptValue key ''empty query stats record'')
        | version # rest \<Rightarrow>
            if version \<noteq> ''query-stats-v1'' \<and> version \<noteq> ''query-stats-v2'' then
              Inl (CorruptValue key (''unsupported query stats version '' @ version))
            else
              and_then (fold_res (query_stats_field_line key) no_stats_fields rest) (\<lambda>st.
              and_then (if version = ''query-stats-v2'' then map_ok Some (decode_bloom key st) else Inr None) (\<lambda>bloom.
              and_then (required_query_stats_field key ''count'' (sf_count st)) (\<lambda>a.
              and_then (required_query_stats_field key ''read_epoch'' (sf_read_epoch st)) (\<lambda>b.
              and_then (required_query_stats_field key ''refreshed_at_ms'' (sf_refreshed_at_ms st)) (\<lambda>c.
              and_then (required_query_stats_field key ''distinct_values'' (sf_distinct_values st)) (\<lambda>d.
              and_then (required_query_stats_field key ''total_values'' (sf_total_values st)) (\<lambda>e.
              and_then (required_query_stats_field key ''most_common_count'' (sf_most_common_count st)) (\<lambda>f.
              Inr \<lparr> qs_count = a, qs_read_epoch = b, qs_refreshed_at_ms = c, qs_distinct_values = d,
                    qs_total_values = e, qs_most_common_count = f, qs_bloom = bloom \<rparr>))))))))))"

subsubsection \<open>Round trip\<close>

definition bloom_dimensions_ok :: "query_stats_bloom \<Rightarrow> bool" where
  "bloom_dimensions_ok b \<longleftrightarrow>
     qb_bit_count b \<noteq> 0 \<and> qb_bit_count b mod 8 = 0 \<and>
     of_nat (length (qb_bits b)) = qb_bit_count b div 8 \<and>
     1 \<le> qb_hash_count b \<and> qb_hash_count b \<le> 32 \<and> qb_false_positive_rate_ppm b \<le> 1000000"

lemma split_stat_line: "tab \<notin> set f \<Longrightarrow> tab \<notin> set v \<Longrightarrow> split_char tab (stat_line f v) = [f, v]"
  using split_join_char [of "[f, v]" tab] by (simp add: stat_line_def)

lemma stat_line_text:
  "line_text f \<Longrightarrow> ascii f \<Longrightarrow> line_text v \<Longrightarrow> ascii v \<Longrightarrow>
    line_text (stat_line f v) \<and> ascii (stat_line f v)"
  by (simp add: stat_line_def nat_of_byte_def)

lemma hex_encode_text [simp]:
  "line_text (hex_encode bs)" "ascii (hex_encode bs)" "tab \<notin> set (hex_encode bs)"
  using encode_value_record_text [of "V_String bs"] by simp_all

lemma unat_u32_less: "unat (w :: u32) < 2 ^ 32"
  using unsigned_less [of w] by simp

lemma parse_show_u32 [simp]: "parse_str_u64 (show_nat (unat (w :: u32))) = Inr (of_nat (unat w))"
  using unat_u32_less [of w] by (intro parse_show_small) simp

lemma u32_field_unat [simp]: "u32_field key f (of_nat (unat (w :: u32))) = Inr w"
proof -
  have "unat (of_nat (unat w) :: u64) = unat w"
    using unat_u32_less [of w] by (intro unat_of_nat_u64) simp
  then show ?thesis
    using unat_u32_less [of w] by (simp add: u32_field_def)
qed

lemma u32_field_ucast [simp]: "u32_field key f (ucast (w :: u32)) = Inr w"
  using u32_field_unat [of key f w] by simp

lemma decode_bloom_ok:
  assumes "bloom_dimensions_ok b"
    and "sf_bloom_bit_count st = Some (qb_bit_count b)"
    and "sf_bloom_hash_count st = Some (of_nat (unat (qb_hash_count b)))"
    and "sf_bloom_inserted_count st = Some (qb_inserted_count b)"
    and "sf_bloom_false_positive_rate_ppm st = Some (of_nat (unat (qb_false_positive_rate_ppm b)))"
    and "sf_bloom_bits st = Some (qb_bits b)"
  shows "decode_bloom key st = Inr b"
  using assms by (simp add: decode_bloom_def required_query_stats_field_def bloom_dimensions_ok_def not_less)

lemma field_line_num:
  assumes "tab \<notin> set f" "tab \<notin> set v" "f \<noteq> ''bloom_bits''" "parse_str_u64 v = Inr n"
  shows "query_stats_field_line key st (stat_line f v) =
    (if f = ''count'' then Inr (st\<lparr> sf_count := Some n \<rparr>)
     else if f = ''read_epoch'' then Inr (st\<lparr> sf_read_epoch := Some n \<rparr>)
     else if f = ''refreshed_at_ms'' then Inr (st\<lparr> sf_refreshed_at_ms := Some n \<rparr>)
     else if f = ''distinct_values'' then Inr (st\<lparr> sf_distinct_values := Some n \<rparr>)
     else if f = ''total_values'' then Inr (st\<lparr> sf_total_values := Some n \<rparr>)
     else if f = ''most_common_count'' then Inr (st\<lparr> sf_most_common_count := Some n \<rparr>)
     else if f = ''bloom_bit_count'' then Inr (st\<lparr> sf_bloom_bit_count := Some n \<rparr>)
     else if f = ''bloom_hash_count'' then Inr (st\<lparr> sf_bloom_hash_count := Some n \<rparr>)
     else if f = ''bloom_inserted_count'' then Inr (st\<lparr> sf_bloom_inserted_count := Some n \<rparr>)
     else if f = ''bloom_false_positive_rate_ppm''
     then Inr (st\<lparr> sf_bloom_false_positive_rate_ppm := Some n \<rparr>)
     else Inl (CorruptValue key (''unknown query stats field '' @ f)))"
  using assms by (simp add: query_stats_field_line_def split_stat_line)

lemma field_line_bits:
  "query_stats_field_line key st (stat_line ''bloom_bits'' (hex_encode bs)) =
    Inr (st\<lparr> sf_bloom_bits := Some bs \<rparr>)"
  by (simp add: query_stats_field_line_def split_stat_line)

lemma decode_encode_query_stats_record:
  assumes "\<forall>b. qs_bloom r = Some b \<longrightarrow> bloom_dimensions_ok b"
  shows "decode_query_stats_record key (encode_query_stats_record r) = Inr r"
proof (cases "qs_bloom r")
  case None
  let ?ls = "[''query-stats-v1'',
         stat_line ''count'' (show_u64 (qs_count r)),
         stat_line ''read_epoch'' (show_u64 (qs_read_epoch r)),
         stat_line ''refreshed_at_ms'' (show_u64 (qs_refreshed_at_ms r)),
         stat_line ''distinct_values'' (show_u64 (qs_distinct_values r)),
         stat_line ''total_values'' (show_u64 (qs_total_values r)),
         stat_line ''most_common_count'' (show_u64 (qs_most_common_count r))]"
  have enc: "encode_query_stats_record r = encode_lines ?ls"
    by (simp add: encode_query_stats_record_def None)
  have "\<forall>l \<in> set ?ls. line_text l \<and> ascii l"
    by (simp add: stat_line_text nat_of_byte_def)
  note decoded = text_of_lines [OF this]
  have "length (encode_lines ?ls) \<noteq> 8"
    by (simp add: encode_lines_def)
  then show ?thesis
    unfolding decode_query_stats_record_def enc decoded
    by (simp del: length_0_conv)
      (simp add: decoded(2) field_line_num no_stats_fields_def required_query_stats_field_def None)
next
  case (Some b)
  let ?ls = "[''query-stats-v2'',
         stat_line ''count'' (show_u64 (qs_count r)),
         stat_line ''read_epoch'' (show_u64 (qs_read_epoch r)),
         stat_line ''refreshed_at_ms'' (show_u64 (qs_refreshed_at_ms r)),
         stat_line ''distinct_values'' (show_u64 (qs_distinct_values r)),
         stat_line ''total_values'' (show_u64 (qs_total_values r)),
         stat_line ''most_common_count'' (show_u64 (qs_most_common_count r)),
         stat_line ''bloom_bit_count'' (show_u64 (qb_bit_count b)),
         stat_line ''bloom_hash_count'' (show_nat (unat (qb_hash_count b))),
         stat_line ''bloom_inserted_count'' (show_u64 (qb_inserted_count b)),
         stat_line ''bloom_false_positive_rate_ppm'' (show_nat (unat (qb_false_positive_rate_ppm b))),
         stat_line ''bloom_bits'' (hex_encode (qb_bits b))]"
  have enc: "encode_query_stats_record r = encode_lines ?ls"
    by (simp add: encode_query_stats_record_def Some)
  have "\<forall>l \<in> set ?ls. line_text l \<and> ascii l"
    by (simp add: stat_line_text nat_of_byte_def)
  note decoded = text_of_lines [OF this]
  have "length (encode_lines ?ls) \<noteq> 8"
    by (simp add: encode_lines_def)
  then show ?thesis
    unfolding decode_query_stats_record_def enc decoded
    using assms Some
    by (simp del: length_0_conv)
      (simp add: decoded(2) field_line_num field_line_bits no_stats_fields_def
        required_query_stats_field_def decode_bloom_ok [of b])
qed

lemma equality_estimate_bounds:
  "1 \<le> equality_estimate r"
  "qs_distinct_values r \<noteq> 0 \<Longrightarrow> equality_estimate r \<le> max (qs_most_common_count r) 1"
  by (auto simp: equality_estimate_def)

subsection \<open>Properties\<close>

text \<open>
  C34.  The statistics Bloom filter has no false negatives: a filter built from a list of encoded
  values answers \<open>may contain\<close> for each of them, whatever the number of values and whatever the
  rate function.
\<close>

theorem bloom_no_false_negatives:
  "v \<in> set values \<Longrightarrow> may_contain_encoded (from_encoded_values rate values) v"
  by (rule no_false_negatives)

theorem bloom_no_false_negatives_witness:
  "may_contain_encoded (from_encoded_values (\<lambda>_ _ _. 0) [''i1'', ''s61'']) ''s61''"
  using bloom_no_false_negatives [of "''s61''" "[''i1'', ''s61'']" "\<lambda>_ _ _. 0"] by simp

text \<open>
  A statistics record decodes to the record that was encoded, with or without a Bloom filter;
  a filter must have the dimensions the decoder checks.
\<close>

theorem query_stats_roundtrip:
  "case_option True bloom_dimensions_ok (qs_bloom r) \<Longrightarrow>
    decode_query_stats_record key (encode_query_stats_record r) = Inr r"
  by (rule decode_encode_query_stats_record) (auto split: option.splits)

theorem query_stats_roundtrip_witness:
  "decode_query_stats_record ''k'' (encode_query_stats_record
     ((point_count 4 5 6)\<lparr> qs_bloom := Some \<lparr> qb_bit_count = 8, qb_hash_count = 7, qb_inserted_count = 1,
        qb_false_positive_rate_ppm = 9, qb_bits = ''x'' \<rparr> \<rparr>)) =
   Inr ((point_count 4 5 6)\<lparr> qs_bloom := Some \<lparr> qb_bit_count = 8, qb_hash_count = 7, qb_inserted_count = 1,
        qb_false_positive_rate_ppm = 9, qb_bits = ''x'' \<rparr> \<rparr>)"
  by (rule query_stats_roundtrip) (simp add: point_count_def bloom_dimensions_ok_def)

end
