(* ===== verification/Namespace.thy ===== *)
theory Namespace
  imports Keys
begin

text \<open>
  Graph scopes, from \<open>src/core/namespace.rs\<close>: namespace identifiers and paths, their depth bound,
  and the object-store path of a scope.  Two different scopes never share a store path, so graphs
  of different tenants are kept apart by construction.
\<close>

type_synonym namespace_id = string
type_synonym graph_id = string
type_synonym namespace_path = "namespace_id list"

definition DEFAULT_NAMESPACE_ID :: string where
  "DEFAULT_NAMESPACE_ID = ''default''"

definition DEFAULT_GRAPH_ID :: string where
  "DEFAULT_GRAPH_ID = ''default''"

definition MAX_NAMESPACE_DEPTH :: nat where
  "MAX_NAMESPACE_DEPTH = 8"

record graph_scope =
  gs_namespace :: namespace_path
  gs_graph_id :: graph_id

definition NamespaceId_new :: "string \<Rightarrow> namespace_id result" where
  "NamespaceId_new v = and_then (validate_component ''namespace_id'' v) (\<lambda>_. Inr v)"

definition GraphId_new :: "string \<Rightarrow> graph_id result" where
  "GraphId_new v = and_then (validate_component ''graph_id'' v) (\<lambda>_. Inr v)"

text \<open>
  \<open>char::is_control\<close> on UTF-8 text: U+0000..U+001F and U+007F are one byte, U+0080..U+009F are the
  two bytes \<open>C2 80\<close> .. \<open>C2 9F\<close>.
\<close>

fun has_control :: "string \<Rightarrow> bool" where
  "has_control [] = False"
| "has_control (c # s) =
     (nat_of_byte c < 32 \<or> nat_of_byte c = 127 \<or>
      (nat_of_byte c = 194 \<and> (case s of [] \<Rightarrow> False | d # _ \<Rightarrow> nat_of_byte d < 160)) \<or>
      has_control s)"

text \<open>The URL-safe base-64 alphabet without padding is the codec crate's; it is a parameter.\<close>

definition encode_scope_namespace_id ::
    "(string \<Rightarrow> string) \<Rightarrow> string \<Rightarrow> string \<Rightarrow> namespace_id result" where
  "encode_scope_namespace_id base64_url component v =
     (if v = [] \<or> has_control v then Inl (InvalidKeyComponent component v)
      else NamespaceId_new (base64_url v))"

definition NamespacePath_root :: "namespace_id \<Rightarrow> namespace_path" where
  "NamespacePath_root n = [n]"

definition NamespacePath_new :: "namespace_id list \<Rightarrow> namespace_path result" where
  "NamespacePath_new segments =
     (if segments = [] then
        Inl (CorruptValue ''namespace_path'' ''namespace path must contain a tenant namespace'')
      else if MAX_NAMESPACE_DEPTH < length segments then
        Inl (AdmissionRejected ''namespace_depth'' (of_nat (length segments)) (of_nat MAX_NAMESPACE_DEPTH))
      else Inr segments)"

definition NamespacePath_child :: "namespace_path \<Rightarrow> namespace_id \<Rightarrow> namespace_path result" where
  "NamespacePath_child p n = NamespacePath_new (p @ [n])"

definition tenant_id :: "namespace_path \<Rightarrow> namespace_id" where
  "tenant_id p = p ! 0"

definition leaf :: "namespace_path \<Rightarrow> namespace_id" where
  "leaf p = last p"

definition depth :: "namespace_path \<Rightarrow> nat" where
  "depth p = length p"

definition ancestors_inclusive :: "namespace_path \<Rightarrow> namespace_path list" where
  "ancestors_inclusive p = map (\<lambda>len. take len p) [1..<Suc (length p)]"

definition is_descendant_of :: "namespace_path \<Rightarrow> namespace_path \<Rightarrow> bool" where
  "is_descendant_of p ancestor = prefix ancestor p"

definition storage_suffix :: "namespace_path \<Rightarrow> string" where
  "storage_suffix p =
     foldl (\<lambda>suffix segment. suffix @ ''/subnamespaces/'' @ segment)
       (''namespaces/'' @ p ! 0) (tl p)"

definition show_namespace_path :: "namespace_path \<Rightarrow> string" where
  "show_namespace_path p = join_char (CHR ''/'') p"

definition default_graph_scope :: graph_scope where
  "default_graph_scope =
     \<lparr> gs_namespace = NamespacePath_root DEFAULT_NAMESPACE_ID, gs_graph_id = DEFAULT_GRAPH_ID \<rparr>"

definition scope_is_default :: "graph_scope \<Rightarrow> bool" where
  "scope_is_default s \<longleftrightarrow> s = default_graph_scope"

definition scoped_store_path :: "graph_scope \<Rightarrow> string \<Rightarrow> string" where
  "scoped_store_path s base_path =
     (let base = trim_end (CHR ''/'') base_path;
          scoped_path = storage_suffix (gs_namespace s) @ ''/graphs/'' @ gs_graph_id s in
      if base = [] then scoped_path else base @ ''/'' @ scoped_path)"

definition show_graph_scope :: "graph_scope \<Rightarrow> string" where
  "show_graph_scope s = show_namespace_path (gs_namespace s) @ ''/graphs/'' @ gs_graph_id s"

subsection \<open>The invariant of scopes\<close>

definition path_ok :: "namespace_path \<Rightarrow> bool" where
  "path_ok p \<longleftrightarrow> p \<noteq> [] \<and> length p \<le> MAX_NAMESPACE_DEPTH \<and> (\<forall>n \<in> set p. valid_component n)"

definition scope_ok :: "graph_scope \<Rightarrow> bool" where
  "scope_ok s \<longleftrightarrow> path_ok (gs_namespace s) \<and> valid_component (gs_graph_id s)"

lemma NamespacePath_new_Inr:
  "NamespacePath_new p = Inr q \<longleftrightarrow> q = p \<and> p \<noteq> [] \<and> length p \<le> MAX_NAMESPACE_DEPTH"
  by (auto simp: NamespacePath_new_def)

lemma path_ok_new:
  "NamespacePath_new p = Inr q \<Longrightarrow> \<forall>n \<in> set p. valid_component n \<Longrightarrow> path_ok q"
  by (simp add: NamespacePath_new_Inr path_ok_def)

lemma NamespaceId_new_Inr: "NamespaceId_new v = Inr n \<longleftrightarrow> n = v \<and> valid_component v"
  by (auto simp: NamespaceId_new_def and_then_eq_Inr validate_component_Inr)

subsection \<open>Store paths\<close>

fun sub_segments :: "namespace_path \<Rightarrow> string list" where
  "sub_segments [] = []"
| "sub_segments (n # p) = ''subnamespaces'' # n # sub_segments p"

definition scope_segments :: "graph_scope \<Rightarrow> string list" where
  "scope_segments s =
     ''namespaces'' # gs_namespace s ! 0 # sub_segments (tl (gs_namespace s)) @ [''graphs'', gs_graph_id s]"

lemma storage_suffix_segments:
  "foldl (\<lambda>suffix segment. suffix @ ''/subnamespaces/'' @ segment) acc p =
    acc @ concat (map (\<lambda>x. CHR ''/'' # x) (sub_segments p))"
  by (induction p arbitrary: acc) simp_all

lemma join_char_append:
  "ps \<noteq> [] \<Longrightarrow> join_char c (ps @ qs) = join_char c ps @ concat (map (\<lambda>q. c # q) qs)"
proof (induction qs arbitrary: ps)
  case (Cons q qs)
  have "join_char c (ps @ [q]) = join_char c ps @ c # q" if "ps \<noteq> []" for ps
    using that by (induction c ps rule: join_char.induct) (simp_all add: join_char_Cons)
  with Cons.IH [of "ps @ [q]"] Cons.prems show ?case by simp
qed simp

lemma scope_path_segments:
  "storage_suffix (gs_namespace s) @ ''/graphs/'' @ gs_graph_id s =
    join_char (CHR ''/'') (scope_segments s)"
proof -
  have "join_char (CHR ''/'') (scope_segments s) =
      join_char (CHR ''/'') [''namespaces'', gs_namespace s ! 0] @
      concat (map (\<lambda>q. CHR ''/'' # q) (sub_segments (tl (gs_namespace s)) @ [''graphs'', gs_graph_id s]))"
    using join_char_append [of "[''namespaces'', gs_namespace s ! 0]" "CHR ''/''"
        "sub_segments (tl (gs_namespace s)) @ [''graphs'', gs_graph_id s]"]
    by (simp add: scope_segments_def)
  then show ?thesis
    unfolding storage_suffix_def storage_suffix_segments by simp
qed

lemma scope_segments_ne [simp]: "scope_segments s \<noteq> []"
  by (simp add: scope_segments_def)

lemma sub_segments_inject:
  "sub_segments p @ [''graphs'', g] = sub_segments q @ [''graphs'', h] \<Longrightarrow> p = q \<and> g = h"
proof (induction p q rule: list_induct2')
  case (4 m p n q)
  then show ?case by simp
qed simp_all

lemma scope_segments_free:
  assumes "scope_ok s" "p \<in> set (scope_segments s)"
  shows "CHR ''/'' \<notin> set p"
proof -
  have "CHR ''/'' \<notin> set x" if "\<forall>n \<in> set ns. valid_component n" "x \<in> set (sub_segments ns)" for x ns
    using that by (induction ns) (auto simp: valid_component_notin)
  moreover have "\<forall>n \<in> set (tl (gs_namespace s)). valid_component n" "valid_component (gs_namespace s ! 0)"
    using assms(1) by (auto simp: scope_ok_def path_ok_def dest: list.set_sel(2))
  ultimately show ?thesis
    using assms by (auto simp: scope_segments_def scope_ok_def valid_component_notin)
qed

lemma scope_segments_inject:
  assumes "scope_ok s" "scope_ok t" "scope_segments s = scope_segments t"
  shows "s = t"
proof -
  have "gs_namespace s ! 0 = gs_namespace t ! 0"
    and "sub_segments (tl (gs_namespace s)) @ [''graphs'', gs_graph_id s] =
      sub_segments (tl (gs_namespace t)) @ [''graphs'', gs_graph_id t]"
    using assms(3) by (simp_all only: scope_segments_def list.inject)
  moreover from sub_segments_inject [OF this(2)]
  have "tl (gs_namespace s) = tl (gs_namespace t)" "gs_graph_id s = gs_graph_id t" by simp_all
  moreover have "gs_namespace s \<noteq> []" "gs_namespace t \<noteq> []"
    using assms by (simp_all add: scope_ok_def path_ok_def)
  ultimately have "gs_namespace s = gs_namespace t"
    by (metis hd_conv_nth list.expand)
  then show ?thesis
    using \<open>gs_graph_id s = gs_graph_id t\<close> by (intro graph_scope.equality) simp_all
qed

lemma scoped_store_path_inject:
  assumes "scope_ok s" "scope_ok t" "scoped_store_path s base = scoped_store_path t base"
  shows "s = t"
proof -
  have "join_char (CHR ''/'') (scope_segments s) = join_char (CHR ''/'') (scope_segments t)"
    using assms(3) unfolding scoped_store_path_def Let_def scope_path_segments
    by (simp split: if_splits)
  then have "scope_segments s = scope_segments t"
    by (rule join_char_inj) (use assms scope_segments_free in auto)
  then show ?thesis
    using assms scope_segments_inject by blast
qed

lemma ancestors_inclusive_prefixes:
  "set (ancestors_inclusive p) = {a. a \<noteq> [] \<and> prefix a p}"
proof -
  have "a \<in> set (ancestors_inclusive p) \<longleftrightarrow> a \<noteq> [] \<and> prefix a p" for a
  proof
    assume "a \<in> set (ancestors_inclusive p)"
    then show "a \<noteq> [] \<and> prefix a p"
      by (auto simp: ancestors_inclusive_def take_is_prefix)
  next
    assume a: "a \<noteq> [] \<and> prefix a p"
    then have "a = take (length a) p" "1 \<le> length a" "length a \<le> length p"
      by (auto simp: prefix_def Suc_le_eq)
    then show "a \<in> set (ancestors_inclusive p)"
      unfolding ancestors_inclusive_def by (metis (no_types, lifting) atLeastLessThan_iff image_eqI le_imp_less_Suc list.set_map set_upt)
  qed
  then show ?thesis by blast
qed

lemma sub_segments_prefix:
  "prefix (sub_segments p @ [''graphs'', g]) (sub_segments q @ [''graphs'', h]) \<Longrightarrow> p = q \<and> g = h"
proof (induction p q rule: list_induct2')
  case (4 m p n q)
  then show ?case by simp
qed simp_all

lemma scoped_store_path_disjoint:
  assumes "scope_ok s" "scope_ok t"
  shows "\<not> prefix (scoped_store_path s base @ ''/'') (scoped_store_path t base)"
proof
  let ?s = "scope_segments s" and ?t = "scope_segments t"
  assume "prefix (scoped_store_path s base @ ''/'') (scoped_store_path t base)"
  then have "prefix (join_char (CHR ''/'') ?s @ ''/'') (join_char (CHR ''/'') ?t)"
    unfolding scoped_store_path_def Let_def scope_path_segments by (simp split: if_splits)
  moreover have "concat (map (\<lambda>p. p @ ''/'') ps) = join_char (CHR ''/'') ps @ ''/''" if "ps \<noteq> []" for ps
    using that by (induction "CHR ''/''" ps rule: join_char.induct) simp_all
  ultimately have "prefix (concat (map (\<lambda>p. p @ ''/'') ?s)) (join_char (CHR ''/'') ?t)"
    by simp
  then have "length ?s < length ?t" "take (length ?s) ?t = ?s"
    using prefix_join_char [of ?s "CHR ''/''" ?t] scope_segments_free assms by auto
  then have "prefix ?s ?t" "length ?s < length ?t"
    by (metis take_is_prefix)+
  then show False
    using sub_segments_prefix [of "tl (gs_namespace s)" "gs_graph_id s" "tl (gs_namespace t)" "gs_graph_id t"]
    unfolding scope_segments_def by simp
qed

subsection \<open>Properties\<close>

text \<open>
  C35.  Graph scopes are isolated in the object store: under one base path, two valid scopes have
  the same store path only if they are the same scope, and no scope's path lies below another's --
  not even a sub-namespace's below its parent's.
\<close>

theorem scope_isolation:
  "scope_ok s \<Longrightarrow> scope_ok t \<Longrightarrow>
    (scoped_store_path s base = scoped_store_path t base \<longleftrightarrow> s = t) \<and>
    \<not> prefix (scoped_store_path s base @ ''/'') (scoped_store_path t base)"
  using scoped_store_path_inject scoped_store_path_disjoint by blast

theorem scope_isolation_witness:
  "scoped_store_path \<lparr> gs_namespace = [''acme''], gs_graph_id = ''g'' \<rparr> ''s3/'' \<noteq>
   scoped_store_path \<lparr> gs_namespace = [''acme'', ''eu''], gs_graph_id = ''g'' \<rparr> ''s3/''"
proof -
  have "scope_ok \<lparr> gs_namespace = [''acme''], gs_graph_id = ''g'' \<rparr>"
    "scope_ok \<lparr> gs_namespace = [''acme'', ''eu''], gs_graph_id = ''g'' \<rparr>"
    by code_simp+
  from scope_isolation [OF this] show ?thesis by simp
qed

text \<open>
  Namespace paths stay within their depth bound: adding a child to a valid path gives a valid
  path that descends from it, or, at the maximum depth, is refused by admission control; the
  inclusive ancestors of a path are exactly its non-empty prefixes.
\<close>

theorem namespace_path_invariant:
  "path_ok p \<Longrightarrow> valid_component n \<Longrightarrow>
    (case NamespacePath_child p n of
       Inr q \<Rightarrow> depth p < MAX_NAMESPACE_DEPTH \<and> path_ok q \<and> is_descendant_of q p \<and> leaf q = n \<and>
         tenant_id q = tenant_id p
     | Inl e \<Rightarrow> depth p = MAX_NAMESPACE_DEPTH \<and> error_class e = ''admission'') \<and>
    set (ancestors_inclusive p) = {a. a \<noteq> [] \<and> is_descendant_of p a}"
  by (auto simp: NamespacePath_child_def NamespacePath_new_def path_ok_def depth_def is_descendant_of_def
      leaf_def tenant_id_def nth_append ancestors_inclusive_prefixes error_class_def class_index_def CLASSES_def
      split: sum.splits)

theorem namespace_path_invariant_witness:
  "NamespacePath_child [''acme''] ''eu'' = Inr [''acme'', ''eu''] \<and> path_ok [''acme'', ''eu'']"
proof -
  have "path_ok [''acme'']" "valid_component ''eu''"
    by code_simp+
  from namespace_path_invariant [OF this] show ?thesis
    by (simp add: NamespacePath_child_def NamespacePath_new_def MAX_NAMESPACE_DEPTH_def)
qed

end
