(* ===== verification/Rendezvous.thy ===== *)
theory Rendezvous
  imports Prelude Rust_Std "HOL-Library.Product_Lexorder" "HOL-Library.Multiset"
begin

unbundle bit_operations_syntax

text \<open>
  Rendezvous placement, from \<open>crates/placement/src/hash.rs\<close>: the frozen score of a node for a
  \<open>(scope, cell)\<close> pair and the ranking of the live nodes by it.  The locale \<open>best_choice\<close> states
  what the callers rely on -- the choice is the least element under an injective key -- and derives
  agreement between nodes and minimal disruption; \<open>owner\<close> interprets it.
\<close>

subsection \<open>The score\<close>

definition FNV_OFFSET :: u64 where
  "FNV_OFFSET = 0xcbf29ce484222325"

definition FNV_PRIME :: u64 where
  "FNV_PRIME = 0x100000001b3"

definition fnv1a64 :: "bytes list \<Rightarrow> u64" where
  "fnv1a64 chunks =
     foldl (\<lambda>h chunk. foldl (\<lambda>h b. (h XOR of_nat (nat_of_byte b)) * FNV_PRIME) h chunk)
       FNV_OFFSET chunks"

definition mix64 :: "u64 \<Rightarrow> u64" where
  "mix64 z0 =
     (let z1 = z0 + 0x9e3779b97f4a7c15;
          z2 = (z1 XOR drop_bit 30 z1) * 0xbf58476d1ce4e5b9;
          z3 = (z2 XOR drop_bit 27 z2) * 0x94d049bb133111eb in
      z3 XOR drop_bit 31 z3)"

definition score :: "string \<Rightarrow> string \<Rightarrow> string \<Rightarrow> u64" where
  "score scope cell_id node_id =
     mix64 (fnv1a64 [scope, [CHR 0x00], cell_id, [CHR 0x00], node_id])"

subsection \<open>Ranking\<close>

text \<open>Descending by score, ties by node id; \<open>sort_by\<close> is stable, as \<open>sort_key\<close> is.\<close>

definition rank_key :: "u64 \<times> string \<Rightarrow> int \<times> string" where
  "rank_key = (\<lambda>(s, n). (- uint s, n))"

definition rank :: "string \<Rightarrow> string \<Rightarrow> string list \<Rightarrow> string list" where
  "rank scope cell_id live =
     map snd (sort_key rank_key (map (\<lambda>n. (score scope cell_id n, n)) live))"

definition owner :: "string \<Rightarrow> string \<Rightarrow> string list \<Rightarrow> string option" where
  "owner scope cell_id live =
     (case rank scope cell_id live of [] \<Rightarrow> None | n # _ \<Rightarrow> Some n)"

definition node_key :: "string \<Rightarrow> string \<Rightarrow> string \<Rightarrow> int \<times> string" where
  "node_key scope cell_id n = rank_key (score scope cell_id n, n)"

lemma node_key_inject [simp]: "node_key s c m = node_key s c n \<longleftrightarrow> m = n"
  by (auto simp: node_key_def rank_key_def)

lemma mset_rank: "mset (rank s c live) = mset live"
  by (simp add: rank_def image_mset.compositionality comp_def)

lemma set_rank [simp]: "set (rank s c live) = set live"
  using mset_rank [of s c live] by (metis set_mset_mset)

lemma sorted_rank: "sorted (map (node_key s c) (rank s c live))"
proof -
  let ?xs = "sort_key rank_key (map (\<lambda>n. (score s c n, n)) live)"
  have "map (node_key s c) (map snd ?xs) = map rank_key ?xs"
    by (auto simp: node_key_def)
  then show ?thesis
    unfolding rank_def by (simp only: sorted_sort_key)
qed

lemma rank_unique:
  assumes "mset ns = mset live" "sorted (map (node_key s c) ns)"
  shows "rank s c live = ns"
proof -
  have "mset (map (node_key s c) (rank s c live)) = mset (map (node_key s c) ns)"
    by (simp add: mset_rank assms(1))
  then have "map (node_key s c) (rank s c live) = map (node_key s c) ns"
    using sorted_rank assms(2) by (metis properties_for_sort)
  then show ?thesis
    by (rule map_injective) (simp add: inj_on_def)
qed

subsection \<open>The contract of a choice\<close>

locale best_choice =
  fixes pick :: "'n list \<Rightarrow> 'n option" and key :: "'n \<Rightarrow> 'k :: linorder"
  assumes key_inj: "key m = key n \<Longrightarrow> m = n"
    and pick_None: "pick ns = None \<longleftrightarrow> ns = []"
    and pick_Some: "pick ns = Some n \<Longrightarrow> n \<in> set ns \<and> (\<forall>m \<in> set ns. key n \<le> key m)"
begin

lemma pick_iff: "pick ns = Some n \<longleftrightarrow> n \<in> set ns \<and> (\<forall>m \<in> set ns. key n \<le> key m)"
proof
  assume n: "n \<in> set ns \<and> (\<forall>m \<in> set ns. key n \<le> key m)"
  then obtain n' where "pick ns = Some n'"
    by (metis pick_None list.set_cases list.distinct(1) not_None_eq)
  then show "pick ns = Some n"
    using n pick_Some [of ns n'] key_inj by (metis order_antisym)
qed (rule pick_Some)

lemma agreement: "set ms = set ns \<Longrightarrow> pick ms = pick ns"
  by (metis pick_None pick_iff not_None_eq set_empty)

lemma removal: "pick ns = Some n \<Longrightarrow> n \<in> set ms \<Longrightarrow> set ms \<subseteq> set ns \<Longrightarrow> pick ms = Some n"
  by (auto simp: pick_iff)

lemma addition: "pick (x # ns) = Some x \<or> pick (x # ns) = pick ns"
proof (cases "pick ns")
  case None
  then have "pick (x # ns) = Some x"
    by (simp add: pick_None pick_iff)
  then show ?thesis ..
next
  case (Some n)
  show ?thesis
  proof (cases "key x \<le> key n")
    case True
    then have "pick (x # ns) = Some x"
      using Some by (auto simp: pick_iff intro: order_trans)
    then show ?thesis ..
  next
    case False
    then have "pick (x # ns) = Some n"
      using Some by (auto simp: pick_iff)
    then show ?thesis using Some by simp
  qed
qed

end

lemma owner_Some:
  "owner s c live = Some n \<Longrightarrow> n \<in> set live \<and> (\<forall>m \<in> set live. node_key s c n \<le> node_key s c m)"
proof -
  assume "owner s c live = Some n"
  then obtain ns where r: "rank s c live = n # ns"
    by (auto simp: owner_def split: list.splits)
  then show ?thesis
    using set_rank [of s c live] sorted_rank [of s c live] by auto
qed

interpretation rendezvous: best_choice "owner s c" "node_key s c"
proof
  show "owner s c ns = None \<longleftrightarrow> ns = []" for ns
    using mset_rank [of s c ns] by (cases "rank s c ns") (auto simp: owner_def)
qed (use owner_Some in auto)

text \<open>When the owner leaves, the next in the ranking takes over.\<close>

lemma rank_remove_owner:
  assumes "distinct live" "rank s c live = n # ns"
  shows "rank s c (removeAll n live) = ns"
proof (rule rank_unique)
  have "mset live = mset (n # ns)"
    using mset_rank [of s c live] assms(2) by simp
  then show "mset ns = mset (removeAll n live)"
    using assms(1) by (simp add: distinct_remove1_removeAll [symmetric])
  show "sorted (map (node_key s c) ns)"
    using sorted_rank [of s c live] assms(2) by simp
qed

subsection \<open>Properties\<close>

text \<open>
  C26.  The owner of a cell is the live node with the highest score, the least id among equals, and
  there is one exactly when some node is live.  It depends only on the set of live nodes: two nodes
  that list the same fleet in any order, with any repetition, name the same owner.
\<close>

theorem owner_agreement:
  "set live = set live' \<Longrightarrow>
    owner scope cell live = owner scope cell live' \<and>
    (case owner scope cell live of
       None \<Rightarrow> live = []
     | Some n \<Rightarrow> n \<in> set live \<and>
         list_all (\<lambda>m. score scope cell m < score scope cell n \<or>
           score scope cell m = score scope cell n \<and> n \<le> m) live)"
proof -
  have le: "node_key s c n \<le> node_key s c m \<longleftrightarrow> score s c m < score s c n \<or> score s c m = score s c n \<and> n \<le> m"
    for s c n m
    by (auto simp: node_key_def rank_key_def less_eq_prod_def word_less_def word_uint_eq_iff)
  assume "set live = set live'"
  then show ?thesis
    using rendezvous.agreement [of live live' scope cell] rendezvous.pick_None [of scope cell live]
      rendezvous.pick_iff [of scope cell live]
    by (auto split: option.splits simp: list_all_iff le)
qed

theorem owner_agreement_witness:
  "owner ''acme/graphs/g'' ''c1'' [''n1'', ''n2'', ''n1''] = owner ''acme/graphs/g'' ''c1'' [''n2'', ''n1'']"
  using owner_agreement [of "[''n1'', ''n2'', ''n1'']" "[''n2'', ''n1'']" "''acme/graphs/g''" "''c1''"]
  by (simp add: insert_commute)

text \<open>
  C27.  Membership changes disturb as little as possible: removing nodes moves only the cells they
  owned -- to the next node of the ranking when the owner leaves -- and adding a node moves only
  the cells it now wins.
\<close>

theorem minimal_disruption:
  "owner scope cell live = Some n \<Longrightarrow> distinct live \<Longrightarrow>
    (x \<noteq> n \<longrightarrow> owner scope cell (removeAll x live) = Some n) \<and>
    owner scope cell (removeAll n live) =
      (case tl (rank scope cell live) of [] \<Rightarrow> None | m # _ \<Rightarrow> Some m) \<and>
    owner scope cell (x # live) \<in> {Some n, Some x}"
proof -
  assume o: "owner scope cell live = Some n" and d: "distinct live"
  then obtain ns where r: "rank scope cell live = n # ns"
    by (auto simp: owner_def split: list.splits)
  have "owner scope cell (removeAll x live) = Some n" if "x \<noteq> n"
    using rendezvous.removal [OF o] rendezvous.pick_Some [OF o] that by auto
  moreover have "rank scope cell (removeAll n live) = ns"
    using rank_remove_owner [OF d r] .
  ultimately show ?thesis
    using rendezvous.addition [of scope cell x live] o r by (auto simp: owner_def)
qed

theorem minimal_disruption_witness:
  "owner ''s'' ''c'' [''a''] = Some ''a'' \<and> owner ''s'' ''c'' [''b'', ''a''] \<in> {Some ''a'', Some ''b''}"
proof -
  have o: "owner ''s'' ''c'' [''a''] = Some ''a''"
    by (simp add: owner_def rank_def)
  with minimal_disruption [OF o, of "''b''"] show ?thesis by simp
qed

end
