(* ===== verification/Liveness.thy ===== *)
theory Liveness
  imports Rendezvous Keys
begin

text \<open>
  Heartbeats and the live set, from \<open>crates/placement/src/heartbeat.rs\<close>, \<open>cell_writer.rs\<close> and
  \<open>liveness.rs\<close>.  A duration is a number of nanoseconds.  The object store's LIST is a parameter:
  its outcome (an error, or the locations and timestamps found) is an argument.  An object-store
  path is the type variable \<open>'p\<close> with the crate's \<open>join\<close> and \<open>prefix_match\<close> as arguments.
\<close>

type_synonym duration = nat

definition as_millis :: "duration \<Rightarrow> nat" where
  "as_millis d = d div 1000000"

subsection \<open>Object names\<close>

datatype placement_error =
    InvalidNodeId string string
  | PlacementObjectStore string os_error
  | InvalidCellId string string

definition HEARTBEAT_PREFIX :: string where
  "HEARTBEAT_PREFIX = ''_graph_nodes/v1''"

definition CELL_WRITER_PREFIX :: string where
  "CELL_WRITER_PREFIX = ''_cell_writers/v1''"

definition name_rule_violation :: "string \<Rightarrow> string option" where
  "name_rule_violation v =
     (if v = [] then Some ''must not be empty''
      else if v = ''.'' \<or> v = ''..'' then Some ''must not be a relative path segment''
      else if \<not> list_all component_byte v
      then Some (''must be ASCII alphanumeric, '' @ [CHR 0x27] @ ''_'' @ [CHR 0x27] @ '', '' @
        [CHR 0x27] @ ''-'' @ [CHR 0x27] @ '' or '' @ [CHR 0x27] @ ''.'' @ [CHR 0x27])
      else None)"

definition validate_node_id :: "string \<Rightarrow> placement_error + unit" where
  "validate_node_id node_id =
     (case name_rule_violation node_id of
        Some reason \<Rightarrow> Inl (InvalidNodeId node_id reason)
      | None \<Rightarrow> Inr ())"

definition heartbeat_object_name :: "string \<Rightarrow> placement_error + string" where
  "heartbeat_object_name node_id = and_then (validate_node_id node_id) (\<lambda>_. Inr node_id)"

definition parse_heartbeat_name :: "string \<Rightarrow> string option" where
  "parse_heartbeat_name name = (case validate_node_id name of Inr _ \<Rightarrow> Some name | Inl _ \<Rightarrow> None)"

definition validate_cell_id :: "string \<Rightarrow> placement_error + unit" where
  "validate_cell_id cell_id =
     (case name_rule_violation cell_id of
        Some reason \<Rightarrow> Inl (InvalidCellId cell_id reason)
      | None \<Rightarrow> Inr ())"

definition cell_writer_object_name :: "string \<Rightarrow> placement_error + string" where
  "cell_writer_object_name cell_id = and_then (validate_cell_id cell_id) (\<lambda>_. Inr cell_id)"

definition parse_cell_writer_name :: "string \<Rightarrow> string option" where
  "parse_cell_writer_name name = (case validate_cell_id name of Inr _ \<Rightarrow> Some name | Inl _ \<Rightarrow> None)"

definition versioned_prefix :: "('p \<Rightarrow> string \<Rightarrow> 'p) \<Rightarrow> 'p \<Rightarrow> string \<Rightarrow> 'p" where
  "versioned_prefix join base pre = foldl join base (split_char (CHR ''/'') pre)"

definition heartbeat_prefix :: "('p \<Rightarrow> string \<Rightarrow> 'p) \<Rightarrow> 'p \<Rightarrow> 'p" where
  "heartbeat_prefix join base = versioned_prefix join base HEARTBEAT_PREFIX"

definition heartbeat_path :: "('p \<Rightarrow> string \<Rightarrow> 'p) \<Rightarrow> 'p \<Rightarrow> string \<Rightarrow> placement_error + 'p" where
  "heartbeat_path join base node_id =
     and_then (heartbeat_object_name node_id) (\<lambda>name. Inr (join (heartbeat_prefix join base) name))"

definition cell_writer_prefix :: "('p \<Rightarrow> string \<Rightarrow> 'p) \<Rightarrow> 'p \<Rightarrow> 'p" where
  "cell_writer_prefix join base = versioned_prefix join base CELL_WRITER_PREFIX"

definition cell_writer_path :: "('p \<Rightarrow> string \<Rightarrow> 'p) \<Rightarrow> 'p \<Rightarrow> string \<Rightarrow> placement_error + 'p" where
  "cell_writer_path join base cell_id =
     and_then (cell_writer_object_name cell_id) (\<lambda>name. Inr (join (cell_writer_prefix join base) name))"

definition node_id_at :: "('p \<Rightarrow> 'p \<Rightarrow> string list option) \<Rightarrow> 'p \<Rightarrow> 'p \<Rightarrow> string option" where
  "node_id_at prefix_match pre location =
     (case prefix_match location pre of
        None \<Rightarrow> None
      | Some parts \<Rightarrow> (case parts of [name] \<Rightarrow> parse_heartbeat_name name | _ \<Rightarrow> None))"

subsection \<open>Listing\<close>

record 'p heartbeat_entry =
  he_node_id :: string
  he_age :: duration
  he_location :: 'p

text \<open>
  A listed object is its location and last-modified time, in nanoseconds; a time after \<open>now\<close>
  gives age zero.
\<close>

definition list_heartbeats ::
    "('p \<Rightarrow> string \<Rightarrow> 'p) \<Rightarrow> ('p \<Rightarrow> 'p \<Rightarrow> string list option) \<Rightarrow> 'p \<Rightarrow> int \<Rightarrow>
     os_error + ('p \<times> int) list \<Rightarrow> placement_error + 'p heartbeat_entry list" where
  "list_heartbeats join prefix_match base now listed =
     (let pre = heartbeat_prefix join base in
      and_then
        (case listed of
           Inr metas \<Rightarrow> Inr metas
         | Inl e \<Rightarrow> (case e of Os_Not_Found _ \<Rightarrow> Inr [] | _ \<Rightarrow> Inl (PlacementObjectStore ''list'' e)))
        (\<lambda>metas. Inr (concat (map (\<lambda>(location, last_modified).
           case node_id_at prefix_match pre location of
             None \<Rightarrow> []
           | Some node_id \<Rightarrow>
               [\<lparr> he_node_id = node_id, he_age = nat (now - last_modified), he_location = location \<rparr>])
           metas))))"

subsection \<open>The live set\<close>

record node_view =
  nv_node_id :: string
  nv_age :: duration

definition youngest_step ::
    "(string, 'p heartbeat_entry) btree_map \<Rightarrow> 'p heartbeat_entry \<Rightarrow> (string, 'p heartbeat_entry) btree_map" where
  "youngest_step by_id entry =
     (case bt_get by_id (he_node_id entry) of
        Some existing \<Rightarrow>
          if he_age existing \<le> he_age entry then by_id else bt_insert (he_node_id entry) entry by_id
      | None \<Rightarrow> bt_insert (he_node_id entry) entry by_id)"

definition youngest_per_node :: "'p heartbeat_entry list \<Rightarrow> (string, 'p heartbeat_entry) btree_map" where
  "youngest_per_node entries = foldl youngest_step [] entries"

definition live_nodes :: "'p heartbeat_entry list \<Rightarrow> duration \<Rightarrow> node_view list" where
  "live_nodes entries timeout =
     map (\<lambda>entry. \<lparr> nv_node_id = he_node_id entry, nv_age = he_age entry \<rparr>)
       (filter (\<lambda>entry. he_age entry < timeout) (map snd (youngest_per_node entries)))"

datatype heartbeat_action = Publish | Withdraw

datatype view_state = VS_Fresh | VS_Grace | VS_Shed

datatype live_view = Fresh "node_view list" | Grace "node_view list" | Shed

fun view_state_as_str :: "view_state \<Rightarrow> string" where
  "view_state_as_str VS_Fresh = ''fresh''"
| "view_state_as_str VS_Grace = ''grace''"
| "view_state_as_str VS_Shed = ''shed''"

fun state_heartbeat_action :: "view_state \<Rightarrow> heartbeat_action" where
  "state_heartbeat_action VS_Fresh = Publish"
| "state_heartbeat_action VS_Grace = Publish"
| "state_heartbeat_action VS_Shed = Withdraw"

definition state_is_ready :: "view_state \<Rightarrow> bool" where
  "state_is_ready st \<longleftrightarrow> st \<noteq> VS_Shed"

fun state_of_view :: "live_view \<Rightarrow> view_state" where
  "state_of_view (Fresh _) = VS_Fresh"
| "state_of_view (Grace _) = VS_Grace"
| "state_of_view Shed = VS_Shed"

fun view_nodes :: "live_view \<Rightarrow> node_view list" where
  "view_nodes (Fresh nodes) = nodes"
| "view_nodes (Grace nodes) = nodes"
| "view_nodes Shed = []"

fun candidates :: "live_view \<Rightarrow> string list option" where
  "candidates (Fresh nodes) = Some (map nv_node_id nodes)"
| "candidates (Grace nodes) = Some (map nv_node_id nodes)"
| "candidates Shed = None"

definition view_heartbeat_action :: "live_view \<Rightarrow> heartbeat_action" where
  "view_heartbeat_action view = state_heartbeat_action (state_of_view view)"

record live_node_set =
  ln_local_node_id :: string
  ln_members :: "string btree_set"
  ln_heartbeat_timeout :: duration
  ln_cached :: "node_view list"

definition live_node_set_new :: "string \<Rightarrow> string list \<Rightarrow> duration \<Rightarrow> live_node_set" where
  "live_node_set_new local_node_id members heartbeat_timeout =
     (let ms = bs_insert local_node_id (bs_of_list members) in
      \<lparr> ln_local_node_id = local_node_id, ln_members = ms, ln_heartbeat_timeout = heartbeat_timeout,
        ln_cached = map (\<lambda>id. \<lparr> nv_node_id = id, nv_age = 0 \<rparr>) ms \<rparr>)"

definition grace :: "live_node_set \<Rightarrow> duration" where
  "grace s = ln_heartbeat_timeout s"

text \<open>The three passes of \<open>observe_list\<close>: fresh members, the startup window, and the node itself.\<close>

definition fresh_members ::
    "live_node_set \<Rightarrow> 'p heartbeat_entry list \<Rightarrow> (string, node_view) btree_map" where
  "fresh_members s entries =
     foldl (\<lambda>live view. if nv_node_id view \<in> set (ln_members s)
                        then bt_insert (nv_node_id view) view live else live)
       [] (live_nodes entries (ln_heartbeat_timeout s))"

definition startup_window ::
    "live_node_set \<Rightarrow> 'p heartbeat_entry list \<Rightarrow> duration \<Rightarrow> (string, node_view) btree_map \<Rightarrow>
     (string, node_view) btree_map" where
  "startup_window s entries since_start live =
     (if since_start < ln_heartbeat_timeout s then
        foldl (\<lambda>live member.
            if bt_get (youngest_per_node entries) member = None \<and> bt_get live member = None
            then bt_insert member \<lparr> nv_node_id = member, nv_age = 0 \<rparr> live else live)
          live (ln_members s)
      else live)"

definition self_view :: "live_node_set \<Rightarrow> 'p heartbeat_entry list \<Rightarrow> node_view" where
  "self_view s entries =
     \<lparr> nv_node_id = ln_local_node_id s,
       nv_age = (case bt_get (youngest_per_node entries) (ln_local_node_id s) of
                   None \<Rightarrow> 0 | Some entry \<Rightarrow> he_age entry) \<rparr>"

definition observe_list ::
    "live_node_set \<Rightarrow> 'p heartbeat_entry list \<Rightarrow> duration \<Rightarrow> live_node_set \<times> live_view" where
  "observe_list s entries since_start =
     (let live = bt_insert (ln_local_node_id s) (self_view s entries)
           (startup_window s entries since_start (fresh_members s entries));
          s' = s\<lparr> ln_cached := map snd live \<rparr> in
      (s', Fresh (ln_cached s')))"

definition observe_list_failure :: "live_node_set \<Rightarrow> duration \<Rightarrow> live_view" where
  "observe_list_failure s since_last_success =
     (if since_last_success < ln_heartbeat_timeout s then Grace (ln_cached s) else Shed)"

subsection \<open>Names round-trip\<close>

lemma name_rule_None: "name_rule_violation v = None \<longleftrightarrow> valid_component v \<and> v \<noteq> ''.'' \<and> v \<noteq> ''..''"
  by (auto simp: name_rule_violation_def valid_component_def)

lemma parse_heartbeat_name_Some:
  "parse_heartbeat_name name = Some n \<longleftrightarrow> n = name \<and> heartbeat_object_name n = Inr name"
  by (auto simp: parse_heartbeat_name_def heartbeat_object_name_def and_then_def split: sum.splits)

subsection \<open>The youngest heartbeat\<close>

definition entry_keyed :: "(string, 'p heartbeat_entry) btree_map \<Rightarrow> bool" where
  "entry_keyed m \<longleftrightarrow> bt_inv m \<and> (\<forall>(k, e) \<in> set m. he_node_id e = k)"

lemma entry_keyed_insert: "entry_keyed m \<Longrightarrow> he_node_id e = k \<Longrightarrow> entry_keyed (bt_insert k e m)"
  by (auto simp: entry_keyed_def dest!: set_bt_insert)

lemma youngest_step_keyed: "entry_keyed m \<Longrightarrow> entry_keyed (youngest_step m e)"
  by (auto simp: youngest_step_def entry_keyed_insert split: option.splits)

lemma youngest_step_get:
  "entry_keyed m \<Longrightarrow>
    bt_get (youngest_step m e) k =
      (if k = he_node_id e then
         (case bt_get m k of Some x \<Rightarrow> Some (if he_age x \<le> he_age e then x else e) | None \<Rightarrow> Some e)
       else bt_get m k)"
  by (auto simp: youngest_step_def entry_keyed_def split: option.splits)

definition is_youngest :: "'p heartbeat_entry list \<Rightarrow> string \<Rightarrow> 'p heartbeat_entry option \<Rightarrow> bool" where
  "is_youngest es k r \<longleftrightarrow>
     (case r of
        None \<Rightarrow> \<forall>e \<in> set es. he_node_id e \<noteq> k
      | Some x \<Rightarrow> x \<in> set es \<and> he_node_id x = k \<and> (\<forall>e \<in> set es. he_node_id e = k \<longrightarrow> he_age x \<le> he_age e))"

lemma youngest_fold:
  "entry_keyed m \<Longrightarrow> (\<And>k. is_youngest es0 k (bt_get m k)) \<Longrightarrow>
    entry_keyed (foldl youngest_step m es) \<and> is_youngest (es0 @ es) k (bt_get (foldl youngest_step m es) k)"
proof (induction es arbitrary: m es0)
  case (Cons e es)
  have "is_youngest (es0 @ [e]) k (bt_get (youngest_step m e) k)" for k
    using Cons.prems(2) [of k] youngest_step_get [OF Cons.prems(1), of e k]
    by (auto simp: is_youngest_def split: option.splits if_splits)
  then show ?case
    using Cons.IH [of "youngest_step m e" "es0 @ [e]"] youngest_step_keyed [OF Cons.prems(1)] by simp
qed simp

lemma youngest_keyed: "entry_keyed (youngest_per_node es)"
  and youngest_is: "is_youngest es k (bt_get (youngest_per_node es) k)"
  using youngest_fold [of "[]" "[]" es k]
  by (simp_all add: youngest_per_node_def entry_keyed_def is_youngest_def)

lemma youngest_None: "bt_get (youngest_per_node es) k = None \<longleftrightarrow> k \<notin> he_node_id ` set es"
  using youngest_is [of es k] by (auto simp: is_youngest_def split: option.splits)

subsection \<open>Live nodes\<close>

lemma youngest_values:
  "e \<in> snd ` set (youngest_per_node es) \<longleftrightarrow> bt_get (youngest_per_node es) (he_node_id e) = Some e"
  using youngest_keyed [of es]
  by (force simp: entry_keyed_def bt_get_Some_set)

lemma live_nodes_sorted: "bs_inv (map nv_node_id (live_nodes es timeout))"
proof -
  let ?m = "youngest_per_node es"
  have "map nv_node_id (live_nodes es timeout) = map fst (filter (\<lambda>kv. he_age (snd kv) < timeout) ?m)"
    using youngest_keyed [of es]
    by (auto simp: live_nodes_def filter_map comp_def entry_keyed_def)
  moreover have "bt_inv (filter (\<lambda>kv. he_age (snd kv) < timeout) ?m)"
    using youngest_keyed [of es] by (simp add: entry_keyed_def bt_inv_filter)
  ultimately show ?thesis
    by (simp add: bt_inv_def bs_inv_def)
qed

lemma live_nodes_iff:
  "v \<in> set (live_nodes es timeout) \<longleftrightarrow>
    (\<exists>e. bt_get (youngest_per_node es) (nv_node_id v) = Some e \<and> he_age e = nv_age v \<and> nv_age v < timeout)"
  (is "?l \<longleftrightarrow> ?r")
proof
  assume ?l
  then obtain e where "e \<in> snd ` set (youngest_per_node es)" "he_age e < timeout"
    "v = \<lparr> nv_node_id = he_node_id e, nv_age = he_age e \<rparr>"
    unfolding live_nodes_def by auto
  then show ?r
    by (simp add: youngest_values)
next
  assume ?r
  then obtain e where e: "bt_get (youngest_per_node es) (nv_node_id v) = Some e"
    "he_age e = nv_age v" "nv_age v < timeout" by auto
  have id: "he_node_id e = nv_node_id v"
    using youngest_is [of es "nv_node_id v"] e(1) by (simp add: is_youngest_def)
  show ?l
    unfolding live_nodes_def set_map
  proof (rule image_eqI)
    show "v = \<lparr> nv_node_id = he_node_id e, nv_age = he_age e \<rparr>"
      using e(2) id by (intro node_view.equality) simp_all
    show "e \<in> set (filter (\<lambda>e. he_age e < timeout) (map snd (youngest_per_node es)))"
      using e id youngest_values [of e es] by simp
  qed
qed

subsection \<open>The cached view after a successful LIST\<close>

definition view_keyed :: "(string, node_view) btree_map \<Rightarrow> bool" where
  "view_keyed m \<longleftrightarrow> bt_inv m \<and> (\<forall>(k, v) \<in> set m. nv_node_id v = k)"

lemma view_keyed_insert [simp]: "view_keyed m \<Longrightarrow> view_keyed (bt_insert (nv_node_id v) v m)"
  by (auto simp: view_keyed_def dest!: set_bt_insert)

lemma view_keyed_ids: "view_keyed m \<Longrightarrow> map nv_node_id (map snd m) = bt_keys m"
  by (auto simp: view_keyed_def bt_keys_def)

lemma keyed_fold_extend:
  "foldl (\<lambda>live v. if P v then bt_insert (nv_node_id v) v live else live) m vs =
    bt_extend m (map (\<lambda>v. (nv_node_id v, v)) (filter P vs))"
  by (induction vs arbitrary: m) (simp_all add: bt_extend_def)

lemma fresh_members_eq:
  "fresh_members s es = map (\<lambda>v. (nv_node_id v, v))
     (filter (\<lambda>v. nv_node_id v \<in> set (ln_members s)) (live_nodes es (ln_heartbeat_timeout s)))"
  (is "_ = ?m")
proof -
  have "bs_inv (map fst ?m)"
    using bs_inv_filter [OF live_nodes_sorted, of "\<lambda>k. k \<in> set (ln_members s)" es "ln_heartbeat_timeout s"]
    by (simp add: filter_map comp_def)
  then have "bt_inv ?m"
    by (simp add: bt_inv_def bs_inv_def)
  then show ?thesis
    by (simp add: fresh_members_def keyed_fold_extend bt_extend_from_sorted)
qed

lemma fresh_members_keyed: "view_keyed (fresh_members s es)"
proof -
  have "bs_inv (map fst (fresh_members s es))"
    using bs_inv_filter [OF live_nodes_sorted, of "\<lambda>k. k \<in> set (ln_members s)" es "ln_heartbeat_timeout s"]
    by (simp add: fresh_members_eq filter_map comp_def)
  then show ?thesis
    by (auto simp: view_keyed_def bt_inv_def bs_inv_def fresh_members_eq)
qed

lemma live_nodes_ids: "nv_node_id ` set (live_nodes es timeout) = {k. \<exists>e \<in> set es. he_node_id e = k \<and> he_age e < timeout}"
proof (intro set_eqI iffI)
  fix k assume "k \<in> {k. \<exists>e \<in> set es. he_node_id e = k \<and> he_age e < timeout}"
  then obtain e where e: "e \<in> set es" "he_node_id e = k" "he_age e < timeout" by auto
  then obtain x where x: "bt_get (youngest_per_node es) k = Some x" "he_age x \<le> he_age e"
    using youngest_is [of es k] by (auto simp: is_youngest_def split: option.splits)
  then have "\<lparr> nv_node_id = k, nv_age = he_age x \<rparr> \<in> set (live_nodes es timeout)"
    using e(3) by (simp add: live_nodes_iff)
  then show "k \<in> nv_node_id ` set (live_nodes es timeout)"
    by (metis image_eqI node_view.select_convs(1))
next
  fix k assume "k \<in> nv_node_id ` set (live_nodes es timeout)"
  then show "k \<in> {k. \<exists>e \<in> set es. he_node_id e = k \<and> he_age e < timeout}"
    using youngest_is [of es k] by (force simp: live_nodes_iff is_youngest_def)
qed

lemma fresh_members_ids:
  "set (bt_keys (fresh_members s es)) =
    {k \<in> set (ln_members s). \<exists>e \<in> set es. he_node_id e = k \<and> he_age e < ln_heartbeat_timeout s}"
proof -
  have "set (bt_keys (fresh_members s es)) =
      {k \<in> nv_node_id ` set (live_nodes es (ln_heartbeat_timeout s)). k \<in> set (ln_members s)}"
    by (auto simp: fresh_members_eq bt_keys_def)
  then show ?thesis
    unfolding live_nodes_ids by auto
qed

lemma keys_bt_insert: "set (bt_keys (bt_insert k v m)) = insert k (set (bt_keys m))"
  by (induction k v m rule: bt_insert.induct) (auto simp: bt_keys_def)

lemma bt_get_None_keys: "bt_get m k = None \<longleftrightarrow> k \<notin> set (bt_keys m)"
  by (simp add: bt_get_None bt_keys_def)

lemma startup_fold:
  "view_keyed m \<Longrightarrow>
    view_keyed (foldl (\<lambda>live k. if P k \<and> bt_get live k = None
        then bt_insert k \<lparr> nv_node_id = k, nv_age = 0 \<rparr> live else live) m ks) \<and>
    set (bt_keys (foldl (\<lambda>live k. if P k \<and> bt_get live k = None
        then bt_insert k \<lparr> nv_node_id = k, nv_age = 0 \<rparr> live else live) m ks)) =
      set (bt_keys m) \<union> {k \<in> set ks. P k}"
proof (induction ks arbitrary: m)
  case (Cons k ks)
  let ?v = "\<lparr> nv_node_id = k, nv_age = 0 \<rparr>"
  have "view_keyed (bt_insert k ?v m)"
    using view_keyed_insert [OF Cons.prems, of ?v] by simp
  then show ?case
    using Cons.IH [of m] Cons.IH [of "bt_insert k ?v m"] Cons.prems
    by (auto simp: keys_bt_insert bt_get_None_keys)
qed simp

lemma startup_window_keyed: "view_keyed m \<Longrightarrow> view_keyed (startup_window s es t m)"
  and startup_window_ids: "view_keyed m \<Longrightarrow> set (bt_keys (startup_window s es t m)) =
    set (bt_keys m) \<union> {k \<in> set (ln_members s). t < ln_heartbeat_timeout s \<and> k \<notin> he_node_id ` set es}"
  using startup_fold [of m "\<lambda>k. bt_get (youngest_per_node es) k = None" "ln_members s"]
  by (auto simp: startup_window_def youngest_None)

lemma observe_list_ids:
  "bs_inv (map nv_node_id (ln_cached (fst (observe_list s es t)))) \<and>
    set (map nv_node_id (ln_cached (fst (observe_list s es t)))) =
      insert (ln_local_node_id s)
        {k \<in> set (ln_members s). (\<exists>e \<in> set es. he_node_id e = k \<and> he_age e < ln_heartbeat_timeout s) \<or>
           t < ln_heartbeat_timeout s \<and> k \<notin> he_node_id ` set es}"
proof -
  let ?w = "startup_window s es t (fresh_members s es)"
  have k: "view_keyed ?w"
    by (rule startup_window_keyed [OF fresh_members_keyed])
  let ?live = "bt_insert (ln_local_node_id s) (self_view s es) ?w"
  have live: "view_keyed ?live"
    using view_keyed_insert [OF k, of "self_view s es"] by (simp add: self_view_def)
  have "map nv_node_id (ln_cached (fst (observe_list s es t))) = bt_keys ?live"
    using view_keyed_ids [OF live] by (simp add: observe_list_def Let_def)
  moreover have "bs_inv (bt_keys ?live)"
    using live by (simp add: view_keyed_def bs_keys_inv)
  moreover have "set (bt_keys ?live) = insert (ln_local_node_id s)
      (set (bt_keys (fresh_members s es)) \<union>
       {k \<in> set (ln_members s). t < ln_heartbeat_timeout s \<and> k \<notin> he_node_id ` set es})"
    by (simp add: keys_bt_insert startup_window_ids [OF fresh_members_keyed])
  ultimately show ?thesis
    unfolding fresh_members_ids by auto
qed

lemma observe_list_frame [simp]:
  "ln_members (fst (observe_list s es t)) = ln_members s"
  "ln_local_node_id (fst (observe_list s es t)) = ln_local_node_id s"
  "ln_heartbeat_timeout (fst (observe_list s es t)) = ln_heartbeat_timeout s"
  "snd (observe_list s es t) = Fresh (ln_cached (fst (observe_list s es t)))"
  by (simp_all add: observe_list_def Let_def)

subsection \<open>Properties\<close>

text \<open>
  C28.  A successful LIST yields a fresh view whose candidates are, in ascending order and without
  repetition, exactly the local node together with the configured members that have a heartbeat
  younger than the timeout or -- only during the first timeout after start -- no heartbeat object at
  all.  Nodes outside the membership and members whose every heartbeat has expired never appear.
\<close>

theorem observe_list_live_set:
  "\<exists>ids. candidates (snd (observe_list s entries since_start)) = Some ids \<and>
     bs_inv ids \<and>
     set ids = insert (ln_local_node_id s)
       {k \<in> set (ln_members s).
          (\<exists>e \<in> set entries. he_node_id e = k \<and> he_age e < ln_heartbeat_timeout s) \<or>
          since_start < ln_heartbeat_timeout s \<and> k \<notin> he_node_id ` set entries} \<and>
     state_of_view (snd (observe_list s entries since_start)) = VS_Fresh"
  using observe_list_ids [of s entries since_start] by auto

text \<open>
  A heartbeat written under a valid node id is listed back as that node: whatever path type
  the store uses, if matching a joined path against its prefix gives the joined segment, then the
  entry read from the published location names the node, with age zero when the clock of the store
  runs ahead, and a LIST of a missing directory is the empty list.
\<close>

theorem heartbeat_roundtrip:
  assumes join_match: "\<And>pre name. prefix_match (join pre name) pre = Some [name]"
    and path: "heartbeat_path join base node_id = Inr location"
  shows "list_heartbeats join prefix_match base now (Inr [(location, last_modified)]) =
           Inr [\<lparr> he_node_id = node_id, he_age = nat (now - last_modified), he_location = location \<rparr>] \<and>
         list_heartbeats join prefix_match base now (Inl (Os_Not_Found detail)) = Inr []"
proof -
  have "validate_node_id node_id = Inr ()" "location = join (heartbeat_prefix join base) node_id"
    using path by (auto simp: heartbeat_path_def heartbeat_object_name_def and_then_def split: sum.splits)
  then show ?thesis
    by (simp add: list_heartbeats_def and_then_def node_id_at_def join_match parse_heartbeat_name_def Let_def)
qed

theorem heartbeat_roundtrip_witness:
  "list_heartbeats (\<lambda>p n. p @ [n]) (\<lambda>l p. if take (length p) l = p then Some (drop (length p) l) else None)
     [''acme''] 100 (Inr [([''acme'', ''_graph_nodes'', ''v1'', ''n1''], 70)]) =
   Inr [\<lparr> he_node_id = ''n1'', he_age = 30, he_location = [''acme'', ''_graph_nodes'', ''v1'', ''n1''] \<rparr>]"
proof -
  have "heartbeat_path (\<lambda>p n. p @ [n]) [''acme''] ''n1'' = Inr [''acme'', ''_graph_nodes'', ''v1'', ''n1'']"
    by code_simp
  from heartbeat_roundtrip [OF _ this, of "\<lambda>l p. if take (length p) l = p then Some (drop (length p) l) else None" 100 70]
  show ?thesis by simp
qed

end
