(* ===== verification/Placement_View.thy ===== *)
theory Placement_View
  imports Liveness
begin

text \<open>
  The placement seam, from \<open>src/engine/placement.rs\<close>: one live set behind one published snapshot,
  refreshed by folding LIST outcomes into it.  The monotonic clock is an argument of \<open>install\<close> (the
  time since process start); a run of the view is a sequence of installs at non-decreasing times.
  Locks and logging have no counterpart: \<open>install\<close> reads and publishes under one lock, hence is one
  step.
\<close>

subsection \<open>Configuration\<close>

record placement_config =
  pc_heartbeat_interval :: duration
  pc_heartbeat_timeout :: duration

definition placement_config_default :: placement_config where
  "placement_config_default =
     \<lparr> pc_heartbeat_interval = 5 * 1000000000, pc_heartbeat_timeout = 15 * 1000000000 \<rparr>"

definition placement_config_validate :: "placement_config \<Rightarrow> unit result" where
  "placement_config_validate c =
     (if pc_heartbeat_interval c = 0 then
        Inl (CorruptValue ''placement/heartbeat_interval'' ''heartbeat interval must be greater than zero'')
      else if pc_heartbeat_timeout c \<le> pc_heartbeat_interval c then
        Inl (CorruptValue ''placement/heartbeat_interval''
          (''heartbeat interval ('' @ show_nat (as_millis (pc_heartbeat_interval c)) @
           ''ms) must be less than the heartbeat timeout ('' @
           show_nat (as_millis (pc_heartbeat_timeout c)) @ ''ms)''))
      else Inr ())"

subsection \<open>Ownership\<close>

datatype cell_ownership = Own_Local | Own_Remote string | Own_Unowned | Own_Unknown

fun may_promote :: "cell_ownership \<Rightarrow> bool" where
  "may_promote Own_Local = True"
| "may_promote (Own_Remote _) = False"
| "may_promote Own_Unowned = True"
| "may_promote Own_Unknown = False"

fun owner_hint :: "cell_ownership \<Rightarrow> string option" where
  "owner_hint (Own_Remote node_id) = Some node_id"
| "owner_hint Own_Local = None"
| "owner_hint Own_Unowned = None"
| "owner_hint Own_Unknown = None"

subsection \<open>The view\<close>

record refresh_state =
  rs_live :: live_node_set
  rs_last_success :: duration

record placement_view =
  pv_local_node_id :: string
  pv_config :: placement_config
  pv_refresh :: refresh_state
  pv_published :: live_view

definition placement_view_new ::
    "string \<Rightarrow> string list \<Rightarrow> placement_config \<Rightarrow> placement_view result" where
  "placement_view_new local_node_id members config =
     and_then (placement_config_validate config) (\<lambda>_.
     and_then (validate_component ''node_id'' local_node_id) (\<lambda>_.
     and_then (map_res (\<lambda>member. and_then (validate_component ''node_id'' member) (\<lambda>_. Inr member)) members)
       (\<lambda>member_ids.
         let live = live_node_set_new local_node_id member_ids (pc_heartbeat_timeout config) in
         Inr \<lparr> pv_local_node_id = local_node_id, pv_config = config,
               pv_refresh = \<lparr> rs_live = live, rs_last_success = 0 \<rparr>,
               pv_published = observe_list_failure live 0 \<rparr>)))"

definition since_last_success :: "refresh_state \<Rightarrow> duration \<Rightarrow> duration" where
  "since_last_success st since_start = since_start - rs_last_success st"

definition install ::
    "placement_view \<Rightarrow> duration \<Rightarrow> placement_error + 'p heartbeat_entry list \<Rightarrow> placement_view" where
  "install pv since_start listed =
     (let st = pv_refresh pv in
      case listed of
        Inr entries \<Rightarrow>
          (case observe_list (rs_live st) entries since_start of
             (live, view) \<Rightarrow>
               pv\<lparr> pv_refresh := st\<lparr> rs_live := live, rs_last_success := since_start \<rparr>,
                   pv_published := view \<rparr>)
      | Inl error \<Rightarrow>
          pv\<lparr> pv_published := observe_list_failure (rs_live st) (since_last_success st since_start) \<rparr>)"

definition refresh ::
    "('p \<Rightarrow> string \<Rightarrow> 'p) \<Rightarrow> ('p \<Rightarrow> 'p \<Rightarrow> string list option) \<Rightarrow> 'p \<Rightarrow> int \<Rightarrow> duration \<Rightarrow>
     os_error + ('p \<times> int) list \<Rightarrow> placement_view \<Rightarrow> placement_view" where
  "refresh join prefix_match base utc_now since_start listed pv =
     install pv since_start (list_heartbeats join prefix_match base utc_now listed)"

definition pv_state :: "placement_view \<Rightarrow> view_state" where
  "pv_state pv = state_of_view (pv_published pv)"

definition pv_live_nodes :: "placement_view \<Rightarrow> node_view list" where
  "pv_live_nodes pv = view_nodes (pv_published pv)"

definition pv_heartbeat_action :: "placement_view \<Rightarrow> heartbeat_action" where
  "pv_heartbeat_action pv = view_heartbeat_action (pv_published pv)"

definition pv_is_ready :: "placement_view \<Rightarrow> bool" where
  "pv_is_ready pv = state_is_ready (state_of_view (pv_published pv))"

definition ownership_in :: "placement_view \<Rightarrow> live_view \<Rightarrow> string \<Rightarrow> string \<Rightarrow> cell_ownership" where
  "ownership_in pv view scope cell_id =
     (case candidates view of
        None \<Rightarrow> Own_Unknown
      | Some live \<Rightarrow>
          (case owner scope cell_id live of
             Some node_id \<Rightarrow> if node_id = pv_local_node_id pv then Own_Local else Own_Remote node_id
           | None \<Rightarrow> Own_Unowned))"

definition ownership :: "placement_view \<Rightarrow> string \<Rightarrow> string \<Rightarrow> cell_ownership" where
  "ownership pv scope cell_id = ownership_in pv (pv_published pv) scope cell_id"

definition owner_in :: "live_view \<Rightarrow> string \<Rightarrow> string \<Rightarrow> string option" where
  "owner_in view scope cell_id =
     (case candidates view of None \<Rightarrow> None | Some live \<Rightarrow> owner scope cell_id live)"

definition pv_owner :: "placement_view \<Rightarrow> string \<Rightarrow> string \<Rightarrow> string option" where
  "pv_owner pv scope cell_id = owner_in (pv_published pv) scope cell_id"

subsection \<open>Runs\<close>

text \<open>A view and the time since start at its last install; the clock never goes back.\<close>

inductive placed :: "string \<Rightarrow> string list \<Rightarrow> placement_config \<Rightarrow> placement_view \<Rightarrow> duration \<Rightarrow> bool"
  for node members config where
  start: "placement_view_new node members config = Inr pv \<Longrightarrow> placed node members config pv 0"
| tick: "placed node members config pv t \<Longrightarrow> t \<le> t' \<Longrightarrow>
    placed node members config (install pv t' (listed :: placement_error + string heartbeat_entry list)) t'"

definition placed_inv :: "string \<Rightarrow> string list \<Rightarrow> placement_config \<Rightarrow> placement_view \<Rightarrow> duration \<Rightarrow> bool" where
  "placed_inv node members config pv t \<longleftrightarrow>
     (let live = rs_live (pv_refresh pv); ids = map nv_node_id (ln_cached live) in
      pv_local_node_id pv = node \<and> pv_config pv = config \<and>
      ln_local_node_id live = node \<and> set (ln_members live) = insert node (set members) \<and>
      ln_heartbeat_timeout live = pc_heartbeat_timeout config \<and>
      bs_inv ids \<and> node \<in> set ids \<and> set ids \<subseteq> insert node (set members) \<and>
      rs_last_success (pv_refresh pv) \<le> t \<and>
      pv_published pv \<in> {Fresh (ln_cached live), Grace (ln_cached live), Shed})"

lemma map_res_validate:
  "map_res (\<lambda>m. and_then (validate_component c m) (\<lambda>_. Inr m)) ms = Inr ids \<Longrightarrow> ids = ms"
  by (induction ms arbitrary: ids) (auto simp: and_then_def map_ok_def split: sum.splits)

lemma placement_view_new_Inr:
  assumes "placement_view_new node members config = Inr pv"
  shows "pv = \<lparr> pv_local_node_id = node, pv_config = config,
      pv_refresh = \<lparr> rs_live = live_node_set_new node members (pc_heartbeat_timeout config), rs_last_success = 0 \<rparr>,
      pv_published = observe_list_failure (live_node_set_new node members (pc_heartbeat_timeout config)) 0 \<rparr>"
    and "pc_heartbeat_interval config < pc_heartbeat_timeout config"
    and "valid_component node"
  using assms
  by (auto simp: placement_view_new_def and_then_def [of "placement_config_validate config"]
      and_then_def [of "validate_component n node" for n] and_then_def [of "map_res f ms" for f ms]
      Let_def validate_component_Inr placement_config_validate_def
      dest!: map_res_validate split: sum.splits if_splits)

lemma placement_view_new_ok:
  assumes "valid_component node" "list_all valid_component members"
    "0 < pc_heartbeat_interval config" "pc_heartbeat_interval config < pc_heartbeat_timeout config"
  obtains pv where "placement_view_new node members config = Inr pv"
proof -
  have "map_res (\<lambda>m. and_then (validate_component n m) (\<lambda>_. Inr m)) members = Inr members" for n
    using assms(2)
    by (induction members) (simp_all add: validate_component_def valid_component_def and_then_def map_ok_def)
  with that show thesis
    using assms(1,3,4)
    by (simp add: placement_view_new_def placement_config_validate_def validate_component_def
        valid_component_def and_then_def Let_def)
qed

lemma install_failure:
  "install pv t (Inl e) = pv\<lparr> pv_published := observe_list_failure (rs_live (pv_refresh pv))
     (t - rs_last_success (pv_refresh pv)) \<rparr>"
  by (simp add: install_def since_last_success_def Let_def)

lemma install_success:
  "install pv t (Inr es) =
     pv\<lparr> pv_refresh := \<lparr> rs_live = fst (observe_list (rs_live (pv_refresh pv)) es t), rs_last_success = t \<rparr>,
         pv_published := Fresh (ln_cached (fst (observe_list (rs_live (pv_refresh pv)) es t))) \<rparr>"
  using observe_list_frame(4) [of "rs_live (pv_refresh pv)" es t]
  by (cases "observe_list (rs_live (pv_refresh pv)) es t") (simp add: install_def Let_def)

lemma placed_inv_new:
  assumes "placement_view_new node members config = Inr pv"
  shows "placed_inv node members config pv 0"
proof -
  let ?ms = "bs_insert node (bs_of_list members)"
  have "bs_inv ?ms" by simp
  then show ?thesis
    unfolding placement_view_new_Inr(1) [OF assms] placed_inv_def
    by (auto simp: Let_def live_node_set_new_def observe_list_failure_def comp_def)
qed

lemma placed_inv_install:
  assumes inv: "placed_inv node members config pv t" and t: "t \<le> t'"
  shows "placed_inv node members config (install pv t' listed) t'"
proof (cases listed)
  case (Inl e)
  then show ?thesis
    using inv t by (auto simp: install_failure placed_inv_def Let_def observe_list_failure_def)
next
  case (Inr es)
  let ?live = "rs_live (pv_refresh pv)"
  have "set (map nv_node_id (ln_cached (fst (observe_list ?live es t')))) \<subseteq>
      insert (ln_local_node_id ?live) (set (ln_members ?live))"
    using observe_list_ids [of ?live es t'] by auto
  moreover have "ln_local_node_id ?live \<in> set (map nv_node_id (ln_cached (fst (observe_list ?live es t'))))"
    using observe_list_ids [of ?live es t'] by blast
  ultimately show ?thesis
    using inv observe_list_ids [of ?live es t']
    unfolding Inr install_success placed_inv_def by (simp add: Let_def)
qed

lemma placed_invariant: "placed node members config pv t \<Longrightarrow> placed_inv node members config pv t"
  by (induction rule: placed.induct) (auto intro: placed_inv_new placed_inv_install)

subsection \<open>Failing runs\<close>

definition fail_ticks :: "placement_error \<Rightarrow> placement_view \<Rightarrow> duration list \<Rightarrow> placement_view" where
  "fail_ticks e pv ts = foldl (\<lambda>pv t. install pv t (Inl e :: placement_error + string heartbeat_entry list)) pv ts"

lemma fail_ticks_refresh [simp]: "pv_refresh (fail_ticks e pv ts) = pv_refresh pv"
  by (induction ts arbitrary: pv) (simp_all add: fail_ticks_def install_failure)

lemma fail_ticks_snoc: "fail_ticks e pv (ts @ [t]) = install (fail_ticks e pv ts) t (Inl e :: _ + string heartbeat_entry list)"
  by (simp add: fail_ticks_def)

lemma pv_state_failure:
  "pv_state (install pv t (Inl e)) =
    (if t - rs_last_success (pv_refresh pv) < ln_heartbeat_timeout (rs_live (pv_refresh pv)) then VS_Grace else VS_Shed)"
  by (simp add: pv_state_def install_failure observe_list_failure_def)

lemma state_cases:
  "pv_state pv = VS_Shed \<longleftrightarrow> pv_published pv = Shed"
  by (cases "pv_published pv") (simp_all add: pv_state_def)

lemmas seam_defs = ownership_def ownership_in_def pv_owner_def owner_in_def pv_is_ready_def
  pv_heartbeat_action_def view_heartbeat_action_def state_is_ready_def

lemma shed_view:
  "pv_published pv = Shed \<Longrightarrow> ownership pv scope cell = Own_Unknown \<and> \<not> pv_is_ready pv \<and>
     pv_heartbeat_action pv = Withdraw \<and> pv_owner pv scope cell = None"
  by (simp add: seam_defs)

lemma unshed_view:
  assumes "pv_published pv \<in> {Fresh nodes, Grace nodes}" "nodes \<noteq> []"
  obtains n where "owner scope cell (map nv_node_id nodes) = Some n" "n \<in> nv_node_id ` set nodes"
    "ownership pv scope cell = (if n = pv_local_node_id pv then Own_Local else Own_Remote n)"
    "pv_owner pv scope cell = Some n" "pv_is_ready pv" "pv_heartbeat_action pv = Publish"
proof -
  obtain n where n: "owner scope cell (map nv_node_id nodes) = Some n"
    using assms(2) rendezvous.pick_None [of scope cell "map nv_node_id nodes"] by auto
  then have "n \<in> nv_node_id ` set nodes"
    using owner_Some [OF n] by simp
  with n that show thesis
    using assms(1) by (auto simp: seam_defs)
qed

lemma refreshed_view:
  assumes inv: "placed_inv a members config pv t" and past: "pc_heartbeat_timeout config \<le> t'"
    and self: "\<exists>e \<in> set entries. he_node_id e = a \<and> he_age e < pc_heartbeat_timeout config"
  obtains ids n where
    "set ids = {k \<in> insert a (set members). \<exists>e \<in> set entries. he_node_id e = k \<and> he_age e < pc_heartbeat_timeout config}"
    "owner scope cell ids = Some n" "pv_owner (install pv t' (Inr entries)) scope cell = Some n"
    "ownership (install pv t' (Inr entries)) scope cell = (if n = a then Own_Local else Own_Remote n)"
proof -
  let ?v = "install pv t' (Inr entries)"
  let ?nodes = "ln_cached (rs_live (pv_refresh ?v))"
  have ids: "set (map nv_node_id ?nodes) =
      {k \<in> insert a (set members). \<exists>e \<in> set entries. he_node_id e = k \<and> he_age e < pc_heartbeat_timeout config}"
    using inv past self observe_list_ids [of "rs_live (pv_refresh pv)" entries t']
    by (auto simp: install_success placed_inv_def Let_def)
  have loc: "pv_local_node_id ?v = a" and pub: "pv_published ?v \<in> {Fresh ?nodes, Grace ?nodes}"
    using inv by (simp_all add: install_success placed_inv_def Let_def)
  have "a \<in> set (map nv_node_id ?nodes)"
    unfolding ids using self by simp
  then have "?nodes \<noteq> []" by auto
  with pub obtain n where "owner scope cell (map nv_node_id ?nodes) = Some n" "pv_owner ?v scope cell = Some n"
    "ownership ?v scope cell = (if n = pv_local_node_id ?v then Own_Local else Own_Remote n)"
    by (rule unshed_view)
  with that [OF ids] show thesis
    unfolding loc by blast
qed

lemma fleet_start:
  assumes "valid_component node" "list_all valid_component members"
  obtains pv where "placed node members placement_config_default pv 0"
proof -
  have "0 < pc_heartbeat_interval placement_config_default"
    "pc_heartbeat_interval placement_config_default < pc_heartbeat_timeout placement_config_default"
    by (simp_all add: placement_config_default_def)
  with assms obtain pv where "placement_view_new node members placement_config_default = Inr pv"
    by (rule placement_view_new_ok)
  with that show thesis by (blast intro: placed.start)
qed

lemma sample_ids: "valid_component ''n1''" "valid_component ''n2''"
  by code_simp+

subsection \<open>Properties\<close>

text \<open>
  C22.  In every run of the placement seam the local node is a candidate of its own view, so the
  answer \<open>Unowned\<close> never occurs; a remote owner is a configured peer other than the node itself; and
  the shed state, unknown ownership, refusal to promote with no owner hint, unreadiness and the
  order to withdraw the heartbeat always coincide.
\<close>

theorem placement_run_invariant:
  assumes "placed node members config pv t"
  shows "ownership pv scope cell \<noteq> Own_Unowned \<and>
    (case ownership pv scope cell of
       Own_Remote n \<Rightarrow> n \<noteq> node \<and> n \<in> set members \<and> pv_state pv \<noteq> VS_Shed
     | Own_Unknown \<Rightarrow> pv_state pv = VS_Shed
     | _ \<Rightarrow> pv_state pv \<noteq> VS_Shed) \<and>
    (pv_heartbeat_action pv = Withdraw \<longleftrightarrow> pv_state pv = VS_Shed) \<and>
    (pv_is_ready pv \<longleftrightarrow> pv_state pv \<noteq> VS_Shed)"
proof -
  let ?nodes = "ln_cached (rs_live (pv_refresh pv))"
  have inv: "pv_published pv \<in> {Fresh ?nodes, Grace ?nodes, Shed}" "?nodes \<noteq> []"
    "nv_node_id ` set ?nodes \<subseteq> insert node (set members)" "pv_local_node_id pv = node"
    using placed_invariant [OF assms] by (auto simp: placed_inv_def Let_def)
  show ?thesis
  proof (cases "pv_published pv = Shed")
    case True
    then show ?thesis
      using shed_view [OF True, of scope cell] by (simp add: state_cases)
  next
    case False
    with inv(1) have "pv_published pv \<in> {Fresh ?nodes, Grace ?nodes}" by simp
    then obtain n where "n \<in> nv_node_id ` set ?nodes" "pv_is_ready pv" "pv_heartbeat_action pv = Publish"
      "ownership pv scope cell = (if n = pv_local_node_id pv then Own_Local else Own_Remote n)"
      using inv(2) by (rule unshed_view)
    then show ?thesis
      using False inv(3,4) by (auto simp: state_cases)
  qed
qed

theorem placement_run_invariant_witness:
  "\<exists>pv. placed ''n1'' [''n2''] placement_config_default pv 0 \<and> ownership pv ''s'' ''c'' \<noteq> Own_Unowned"
proof -
  obtain pv where p: "placed ''n1'' [''n2''] placement_config_default pv 0"
    using fleet_start [of "''n1''" "[''n2'']"] sample_ids by auto
  show ?thesis
    using p placement_run_invariant [OF p, of "''s''" "''c''"] by blast
qed

text \<open>
  C23.  A partitioned node stands down.  If from some point of a run every LIST fails, at tick times
  that never decrease and are unbounded, then from some tick on the view is shed for good: the node
  is unready, withdraws its heartbeat and may promote no cell.  The first such tick is the first one
  at least one timeout after the last successful LIST.
\<close>

theorem partition_sheds:
  assumes "placed node members config pv t"
    and "mono ticks" and "\<And>bound. \<exists>n. bound \<le> ticks n"
  shows "(\<exists>n. \<forall>m \<ge> n. let pv' = fail_ticks e pv (map ticks [0..<Suc m]) in
           pv_state pv' = VS_Shed \<and> \<not> pv_is_ready pv' \<and> pv_heartbeat_action pv' = Withdraw \<and>
           \<not> may_promote (ownership pv' scope cell)) \<and>
         (\<forall>m. pv_state (fail_ticks e pv (map ticks [0..<Suc m])) = VS_Shed \<longleftrightarrow>
           pc_heartbeat_timeout config \<le> ticks m - rs_last_success (pv_refresh pv))"
    (is "(\<exists>n. \<forall>m \<ge> n. ?shed m) \<and> (\<forall>m. ?first m)")
proof -
  have timeout: "ln_heartbeat_timeout (rs_live (pv_refresh pv)) = pc_heartbeat_timeout config"
    using placed_invariant [OF assms(1)] by (simp add: placed_inv_def Let_def)
  have st: "?first m" for m
    by (simp add: fail_ticks_snoc pv_state_failure timeout)
  obtain n where n: "rs_last_success (pv_refresh pv) + pc_heartbeat_timeout config \<le> ticks n"
    using assms(3) by blast
  have "?shed m" if "n \<le> m" for m
  proof -
    have "ticks n \<le> ticks m" using assms(2) that by (rule monoD)
    with n have "pv_state (fail_ticks e pv (map ticks [0..<Suc m])) = VS_Shed"
      unfolding st by simp
    then show ?thesis
      using shed_view by (simp add: state_cases Let_def)
  qed
  with st show ?thesis by blast
qed

theorem partition_sheds_witness:
  "\<exists>pv. placed ''n1'' [''n2''] placement_config_default pv 0 \<and>
     (\<exists>n. \<forall>m \<ge> n. pv_state (fail_ticks (InvalidNodeId [] []) pv (map (\<lambda>k. k * 5000000000) [0..<Suc m])) = VS_Shed)"
proof -
  obtain pv where p: "placed ''n1'' [''n2''] placement_config_default pv 0"
    using fleet_start [of "''n1''" "[''n2'']"] sample_ids by auto
  have "mono (\<lambda>k :: nat. k * 5000000000)"
    by (simp add: mono_def)
  moreover have "\<exists>n. bound \<le> n * 5000000000" for bound :: nat
    by (rule exI [of _ bound]) simp
  ultimately have "\<exists>n. \<forall>m \<ge> n. pv_state (fail_ticks (InvalidNodeId [] []) pv (map (\<lambda>k. k * 5000000000) [0..<Suc m])) = VS_Shed"
    using partition_sheds [OF p, of "\<lambda>k. k * 5000000000" "InvalidNodeId [] []"]
    unfolding Let_def by blast
  with p show ?thesis by blast
qed

text \<open>
  C13.  Placement ends the writer duel.  When two distinct nodes of one fleet have installed the same
  LIST, both past the startup window and both with a fresh heartbeat in it, they name the same owner
  for every cell, so at most one of them may promote; the owner itself answers \<open>Local\<close> and the
  other refuses with the owner as its hint.
\<close>

theorem no_writer_duel:
  assumes "placed a members config pv t" and "placed b members' config pv' t'"
    and "a \<noteq> b" and "insert a (set members) = insert b (set members')"
    and "pc_heartbeat_timeout config \<le> t1" and "pc_heartbeat_timeout config \<le> t2"
    and "\<exists>e \<in> set entries. he_node_id e = a \<and> he_age e < pc_heartbeat_timeout config"
    and "\<exists>e \<in> set entries. he_node_id e = b \<and> he_age e < pc_heartbeat_timeout config"
    and va_def: "va = install pv t1 (Inr entries)" and vb_def: "vb = install pv' t2 (Inr entries)"
  shows "pv_owner va scope cell = pv_owner vb scope cell \<and> pv_owner va scope cell \<noteq> None \<and>
    (may_promote (ownership va scope cell) \<longleftrightarrow> pv_owner va scope cell = Some a) \<and>
    (may_promote (ownership vb scope cell) \<longleftrightarrow> pv_owner vb scope cell = Some b) \<and>
    \<not> (may_promote (ownership va scope cell) \<and> may_promote (ownership vb scope cell)) \<and>
    (pv_owner va scope cell = Some a \<longrightarrow> owner_hint (ownership vb scope cell) = Some a)"
proof -
  have inva: "placed_inv a members config pv t" and invb: "placed_inv b members' config pv' t'"
    using assms(1,2) by (auto dest: placed_invariant)
  obtain as n where n: "set as = {k \<in> insert a (set members). \<exists>e \<in> set entries. he_node_id e = k \<and> he_age e < pc_heartbeat_timeout config}"
    "owner scope cell as = Some n" "pv_owner va scope cell = Some n"
    "ownership va scope cell = (if n = a then Own_Local else Own_Remote n)"
    unfolding va_def by (rule refreshed_view [OF inva assms(5,7)])
  obtain bs m where m: "set bs = {k \<in> insert b (set members'). \<exists>e \<in> set entries. he_node_id e = k \<and> he_age e < pc_heartbeat_timeout config}"
    "owner scope cell bs = Some m" "pv_owner vb scope cell = Some m"
    "ownership vb scope cell = (if m = b then Own_Local else Own_Remote m)"
    unfolding vb_def by (rule refreshed_view [OF invb assms(6,8)])
  have "set as = set bs"
    unfolding n(1) m(1) assms(4) ..
  then have "n = m"
    using n(2) m(2) rendezvous.agreement [of as bs scope cell] by simp
  then show ?thesis
    using n(3,4) m(3,4) assms(3) by simp
qed

theorem no_writer_duel_witness:
  "\<exists>pv pv'. placed ''n1'' [''n2''] placement_config_default pv 0 \<and>
     placed ''n2'' [''n1''] placement_config_default pv' 0 \<and>
     (let entries = [\<lparr> he_node_id = ''n1'', he_age = 3, he_location = ''p'' \<rparr>,
                     \<lparr> he_node_id = ''n2'', he_age = 4, he_location = ''q'' \<rparr>] in
      \<not> (may_promote (ownership (install pv 15000000000 (Inr entries)) ''s'' ''c'') \<and>
         may_promote (ownership (install pv' 15000000000 (Inr entries)) ''s'' ''c'')))"
proof -
  let ?es = "[\<lparr> he_node_id = ''n1'', he_age = 3, he_location = ''p'' \<rparr>,
                     \<lparr> he_node_id = ''n2'', he_age = 4, he_location = ''q'' \<rparr>]"
  obtain pv where p: "placed ''n1'' [''n2''] placement_config_default pv 0"
    using fleet_start [of "''n1''" "[''n2'']"] sample_ids by auto
  obtain pv' where p': "placed ''n2'' [''n1''] placement_config_default pv' 0"
    using fleet_start [of "''n2''" "[''n1'']"] sample_ids by auto
  have "\<not> (may_promote (ownership (install pv 15000000000 (Inr ?es)) ''s'' ''c'') \<and>
         may_promote (ownership (install pv' 15000000000 (Inr ?es)) ''s'' ''c''))"
    using no_writer_duel [OF p p', of 15000000000 15000000000 ?es _ _ "''s''" "''c''"]
    by (simp add: placement_config_default_def insert_commute)
  with p p' show ?thesis
    unfolding Let_def by blast
qed

text \<open>
  C36.  The seam accepts the node ids \<open>.\<close> and \<open>..\<close> that the heartbeat names refuse: a view for
  such a node is built by any valid configuration and owns cells of its own fleet, while no
  heartbeat path exists for it, so no LIST ever reports it to its peers.
\<close>

theorem relative_node_id_accepted:
  assumes "placement_config_validate config = Inr ()" and "node \<in> {''.'', ''..''}"
  shows "\<exists>pv. placement_view_new node [] config = Inr pv \<and> ownership pv scope cell = Own_Local \<and>
    (\<forall>(join :: 'p \<Rightarrow> string \<Rightarrow> 'p) base. \<exists>reason. heartbeat_path join base node = Inl (InvalidNodeId node reason)) \<and>
    (\<forall>prefix_match (pre :: 'p) location. node_id_at prefix_match pre location \<noteq> Some node)"
proof -
  have cfg: "0 < pc_heartbeat_interval config" "pc_heartbeat_interval config < pc_heartbeat_timeout config"
    using assms(1) by (auto simp: placement_config_validate_def split: if_splits)
  have "valid_component ''.''" "valid_component ''..''" by code_simp+
  then have valid: "valid_component node" using assms(2) by auto
  then obtain pv where pv: "placement_view_new node [] config = Inr pv"
    using placement_view_new_ok [of node "[]" config] cfg by auto
  have "pv_published pv = Grace [\<lparr> nv_node_id = node, nv_age = 0 \<rparr>]" "pv_local_node_id pv = node"
    using cfg placement_view_new_Inr(1) [OF pv]
    by (simp_all add: live_node_set_new_def Let_def observe_list_failure_def bs_of_list_def bs_extend_def)
  moreover have "owner scope cell [node] = Some node"
    using rendezvous.pick_iff [of scope cell "[node]" node] by simp
  ultimately have "ownership pv scope cell = Own_Local"
    by (simp add: seam_defs)
  moreover obtain reason where reason: "name_rule_violation node = Some reason"
    using assms(2) by (auto simp: name_rule_violation_def)
  have "node_id_at prefix_match pre location \<noteq> Some node"
    for prefix_match and pre location :: 'p
    using reason
    by (auto simp: node_id_at_def parse_heartbeat_name_def validate_node_id_def split: option.splits list.splits sum.splits)
  ultimately show ?thesis
    using pv reason by (auto simp: heartbeat_path_def heartbeat_object_name_def validate_node_id_def and_then_def)
qed

theorem relative_node_id_accepted_witness:
  "\<exists>pv. placement_view_new ''..'' [] placement_config_default = Inr pv \<and> ownership pv ''s'' ''c'' = Own_Local"
  using relative_node_id_accepted [of placement_config_default "''..''" "''s''" "''c''"]
  by (auto simp: placement_config_validate_def placement_config_default_def)

end
