(* ===== verification/Writer_Lease.thy ===== *)
theory Writer_Lease
  imports Liveness Namespace Codec_Records "HOL-Library.Product_Lexorder"
begin

text \<open>
  The durable writer lease of a cell, from \<open>src/engine/writer_lease.rs\<close>: the lease text, the
  in-process directory (local, abandoned and observed leases, scope users) and every operation on
  it.  An asynchronous operation is the composition of the pieces between its awaits; the outcome of
  each object-store request and the clock readings are arguments.  Object-store paths are their text,
  and \<open>Path::from\<close> is the argument \<open>path_from\<close>.
\<close>

subsection \<open>Constants and records\<close>

definition WRITER_LEASE_FORMAT :: string where
  "WRITER_LEASE_FORMAT = ''turbolay-writer-lease2''"

definition DEFAULT_WRITER_LEASE_DURATION :: duration where
  "DEFAULT_WRITER_LEASE_DURATION = 30 * 1000000000"

definition SERVER_TIMESTAMP_RESOLUTION_GUARD :: duration where
  "SERVER_TIMESTAMP_RESOLUTION_GUARD = 1000000000"

definition MAX_WRITER_LEASE_CAS_ATTEMPTS :: nat where
  "MAX_WRITER_LEASE_CAS_ATTEMPTS = 16"

definition MAX_OBSERVED_WRITER_LEASES :: nat where
  "MAX_OBSERVED_WRITER_LEASES = 65536"

record writer_lease_owner =
  wo_node_id :: string
  wo_generation :: u64
  wo_remaining_ms :: u64

record local_writer_lease =
  ll_scope :: graph_scope
  ll_cell_id :: string
  ll_node_id :: string
  ll_generation :: u64
  ll_valid_until :: duration

record 'v stored_writer_lease =
  sl_node_id :: string
  sl_holder_id :: string
  sl_generation :: u64
  sl_heartbeat :: u64
  sl_duration :: duration
  sl_version :: 'v
  sl_last_modified_ms :: int
  sl_released :: bool

type_synonym lease_fingerprint = "string \<times> string \<times> u64 \<times> u64 \<times> u64 \<times> bool"

record observed_writer_lease =
  ow_fingerprint :: lease_fingerprint
  ow_observed_at :: duration
  ow_remaining :: duration

type_synonym scope_user_key = "string list \<times> string \<times> string"

record lease_directory =
  ld_base_path :: string
  ld_lease_duration :: duration
  ld_holder_id :: string
  ld_local :: "(string, local_writer_lease) btree_map"
  ld_abandoned :: "(string, local_writer_lease) btree_map"
  ld_scope_users :: "(scope_user_key, nat) btree_map"
  ld_observed :: "(string, observed_writer_lease) btree_map"
  ld_clock_probe :: u64

definition scope_user :: "graph_scope \<Rightarrow> string \<Rightarrow> scope_user_key" where
  "scope_user scope node_id = (gs_namespace scope, gs_graph_id scope, node_id)"

definition millis_u64 :: "duration \<Rightarrow> u64" where
  "millis_u64 d = (if as_millis d < 2 ^ 64 then of_nat (as_millis d) else u64_max)"

definition from_millis :: "u64 \<Rightarrow> duration" where
  "from_millis ms = unat ms * 1000000"

subsection \<open>The lease text\<close>

definition parse_lease_u64 :: "string \<Rightarrow> string \<Rightarrow> string option \<Rightarrow> u64 result" where
  "parse_lease_u64 path field v =
     map_err (\<lambda>e. CorruptValue path (''invalid writer lease '' @ field @ '': '' @ show_parse_int_error e))
       (parse_str_u64 (case v of None \<Rightarrow> [] | Some s \<Rightarrow> s))"

definition lease_state_text :: "bool \<Rightarrow> string" where
  "lease_state_text released = (if released then ''released'' else ''active'')"

definition encode_writer_lease ::
    "string \<Rightarrow> string \<Rightarrow> u64 \<Rightarrow> u64 \<Rightarrow> duration \<Rightarrow> bool \<Rightarrow> string result" where
  "encode_writer_lease node_id holder_id generation heartbeat d released =
     and_then (validate_component ''node_id'' node_id) (\<lambda>_.
     and_then (validate_component ''writer_lease_holder'' holder_id) (\<lambda>_.
     and_then (if as_millis d < 2 ^ 64 then Inr (of_nat (as_millis d) :: u64)
               else Inl (CorruptValue ''writer-lease/duration'' ''writer lease duration exceeds u64 milliseconds''))
       (\<lambda>duration_ms.
     Inr (encode_lines
       [WRITER_LEASE_FORMAT, node_id, holder_id, show_u64 generation, show_u64 heartbeat,
        show_u64 duration_ms, lease_state_text released]))))"

record decoded_writer_lease =
  dl_node_id :: string
  dl_holder_id :: string
  dl_generation :: u64
  dl_heartbeat :: u64
  dl_duration_ms :: u64
  dl_released :: bool

definition next_line :: "string list \<Rightarrow> nat \<Rightarrow> string option" where
  "next_line ls i = (if i < length ls then Some (ls ! i) else None)"

definition unwrap_or_empty :: "string option \<Rightarrow> string" where
  "unwrap_or_empty v = (case v of None \<Rightarrow> [] | Some s \<Rightarrow> s)"

definition decode_writer_lease :: "string \<Rightarrow> bytes \<Rightarrow> decoded_writer_lease result" where
  "decode_writer_lease path bs =
     and_then (map_err (\<lambda>e. CorruptValue path (''writer lease is not UTF-8: '' @ show_utf8_error e)) (from_utf8 bs))
       (\<lambda>text. let ls = lines text; line = next_line ls in
     if line 0 \<noteq> Some WRITER_LEASE_FORMAT then Inl (CorruptValue path ''unsupported writer lease format'')
     else
       let node_id = unwrap_or_empty (line 1); holder_id = unwrap_or_empty (line 2) in
       and_then (validate_component ''node_id'' node_id) (\<lambda>_.
       and_then (validate_component ''writer_lease_holder'' holder_id) (\<lambda>_.
       and_then (parse_lease_u64 path ''generation'' (line 3)) (\<lambda>generation.
       and_then (parse_lease_u64 path ''heartbeat'' (line 4)) (\<lambda>heartbeat.
       and_then (parse_lease_u64 path ''duration_ms'' (line 5)) (\<lambda>duration_ms.
       and_then
         (if line 6 = Some ''active'' then Inr False
          else if line 6 = Some ''released'' then Inr True
          else Inl (CorruptValue path ''writer lease has an invalid state'')) (\<lambda>released.
       if generation = 0 \<or> heartbeat = 0 \<or> duration_ms = 0 \<or> line 7 \<noteq> None
       then Inl (CorruptValue path ''writer lease has an invalid duration or trailing fields'')
       else Inr \<lparr> dl_node_id = node_id, dl_holder_id = holder_id, dl_generation = generation,
                  dl_heartbeat = heartbeat, dl_duration_ms = duration_ms, dl_released = released \<rparr>)))))))"

subsection \<open>The directory\<close>

definition with_duration_and_holder :: "string \<Rightarrow> duration \<Rightarrow> string \<Rightarrow> lease_directory" where
  "with_duration_and_holder base_path lease_duration holder_id =
     \<lparr> ld_base_path = trim_end (CHR ''/'') base_path,
       ld_lease_duration = max lease_duration 1000000000, ld_holder_id = holder_id,
       ld_local = [], ld_abandoned = [], ld_scope_users = [], ld_observed = [], ld_clock_probe = 0 \<rparr>"

definition register_scope :: "graph_scope \<Rightarrow> string \<Rightarrow> lease_directory \<Rightarrow> lease_directory" where
  "register_scope scope node_id d =
     (let key = scope_user scope node_id;
          users = (case bt_get (ld_scope_users d) key of None \<Rightarrow> 0 | Some n \<Rightarrow> n) in
      d\<lparr> ld_scope_users := bt_insert key (users + 1) (ld_scope_users d) \<rparr>)"

definition lease_path :: "(string \<Rightarrow> string) \<Rightarrow> lease_directory \<Rightarrow> graph_scope \<Rightarrow> string \<Rightarrow> string" where
  "lease_path path_from d scope cell_id =
     path_from (scoped_store_path scope (ld_base_path d) @ ''/_writer_leases/v2/'' @ cell_id)"

text \<open>A GET gives the object's version, its modification time in milliseconds, and its bytes.\<close>

definition read_stored ::
    "string \<Rightarrow> os_error + ('v \<times> int \<times> bytes) \<Rightarrow> 'v stored_writer_lease option result" where
  "read_stored path got =
     (case got of
        Inl (Os_Not_Found _) \<Rightarrow> Inr None
      | Inl e \<Rightarrow> Inl (ObjectStore e)
      | Inr (version, last_modified_ms, bs) \<Rightarrow>
          and_then (decode_writer_lease path bs) (\<lambda>decoded.
            Inr (Some \<lparr> sl_node_id = dl_node_id decoded, sl_holder_id = dl_holder_id decoded,
                        sl_generation = dl_generation decoded, sl_heartbeat = dl_heartbeat decoded,
                        sl_duration = from_millis (dl_duration_ms decoded), sl_version = version,
                        sl_last_modified_ms = last_modified_ms, sl_released = dl_released decoded \<rparr>)))"

definition fingerprint :: "'v stored_writer_lease \<Rightarrow> lease_fingerprint" where
  "fingerprint stored =
     (sl_node_id stored, sl_holder_id stored, sl_generation stored, sl_heartbeat stored,
      millis_u64 (sl_duration stored), sl_released stored)"

definition remaining_after_elapsed :: "observed_writer_lease \<Rightarrow> duration \<Rightarrow> u64" where
  "remaining_after_elapsed entry now = millis_u64 (ow_remaining entry - (now - ow_observed_at entry))"

text \<open>
  \<open>shared_remaining_ms\<close> before and after its clock probe: a cached observation of the same lease
  answers at once; otherwise the probed server time gives the age, and the observation is cached.
\<close>

definition cached_remaining_ms ::
    "lease_directory \<Rightarrow> string \<Rightarrow> 'v stored_writer_lease \<Rightarrow> duration \<Rightarrow> u64 option" where
  "cached_remaining_ms d path stored now =
     (case bt_get (ld_observed d) path of
        None \<Rightarrow> None
      | Some entry \<Rightarrow>
          if ow_fingerprint entry = fingerprint stored then Some (remaining_after_elapsed entry now) else None)"

definition saturating_sub_i64 :: "int \<Rightarrow> int \<Rightarrow> int" where
  "saturating_sub_i64 a b = max (- (2 ^ 63)) (min (2 ^ 63 - 1) (a - b))"

definition durable_remaining :: "'v stored_writer_lease \<Rightarrow> int \<Rightarrow> duration" where
  "durable_remaining stored server_now =
     sl_duration stored + SERVER_TIMESTAMP_RESOLUTION_GUARD -
       nat (saturating_sub_i64 server_now (sl_last_modified_ms stored)) * 1000000"

definition evict_observed ::
    "string \<Rightarrow> (string, observed_writer_lease) btree_map \<Rightarrow> (string, observed_writer_lease) btree_map" where
  "evict_observed path obs =
     (if MAX_OBSERVED_WRITER_LEASES \<le> length obs \<and> bt_get obs path = None then
        (case bt_keys obs of [] \<Rightarrow> obs | k # _ \<Rightarrow> bt_remove k obs)
      else obs)"

definition observe_remaining ::
    "lease_directory \<Rightarrow> string \<Rightarrow> 'v stored_writer_lease \<Rightarrow> duration \<Rightarrow> int \<Rightarrow> lease_directory \<times> u64" where
  "observe_remaining d path stored now server_now =
     (let remaining = durable_remaining stored server_now in
      (d\<lparr> ld_observed := bt_insert path
            \<lparr> ow_fingerprint = fingerprint stored, ow_observed_at = now, ow_remaining = remaining \<rparr>
            (evict_observed path (ld_observed d)) \<rparr>,
       millis_u64 remaining))"

definition shared_remaining_ms ::
    "lease_directory \<Rightarrow> string \<Rightarrow> 'v stored_writer_lease \<Rightarrow> duration \<Rightarrow> os_error + int \<Rightarrow>
     lease_directory \<times> u64 result" where
  "shared_remaining_ms d path stored now probe =
     (case cached_remaining_ms d path stored now of
        Some ms \<Rightarrow> (d, Inr ms)
      | None \<Rightarrow>
          let d = d\<lparr> ld_clock_probe := ld_clock_probe d + 1 \<rparr> in
          (case probe of
             Inl e \<Rightarrow> (d, Inl (ObjectStore e))
           | Inr server_now \<Rightarrow> (case observe_remaining d path stored now server_now of (d, ms) \<Rightarrow> (d, Inr ms))))"

definition observe_successful_write ::
    "string \<Rightarrow> lease_fingerprint \<Rightarrow> duration \<Rightarrow> lease_directory \<Rightarrow> lease_directory" where
  "observe_successful_write path fp observed_at d =
     (case fp of
        (_, _, _, _, duration_ms, released) \<Rightarrow>
          d\<lparr> ld_observed := bt_insert path
                \<lparr> ow_fingerprint = fp, ow_observed_at = observed_at,
                  ow_remaining = (if released then 0
                                  else from_millis duration_ms + SERVER_TIMESTAMP_RESOLUTION_GUARD) \<rparr>
                (ld_observed d) \<rparr>)"

definition current_owner ::
    "lease_directory \<Rightarrow> string \<Rightarrow> string \<Rightarrow> os_error + ('v \<times> int \<times> bytes) \<Rightarrow> duration \<Rightarrow> os_error + int \<Rightarrow>
     lease_directory \<times> writer_lease_owner option result" where
  "current_owner d path cell_id got now probe =
     (case validate_component ''cell_id'' cell_id of
        Inl e \<Rightarrow> (d, Inl e)
      | Inr _ \<Rightarrow>
          (case read_stored path got of
             Inl e \<Rightarrow> (d, Inl e)
           | Inr None \<Rightarrow> (d, Inr None)
           | Inr (Some stored) \<Rightarrow>
               if sl_released stored then (d, Inr None)
               else
                 (case shared_remaining_ms d path stored now probe of
                    (d, Inl e) \<Rightarrow> (d, Inl e)
                  | (d, Inr remaining_ms) \<Rightarrow>
                      (d, Inr (if remaining_ms > 0
                               then Some \<lparr> wo_node_id = sl_node_id stored, wo_generation = sl_generation stored,
                                           wo_remaining_ms = remaining_ms \<rparr>
                               else None)))))"

definition lease_valid :: "local_writer_lease \<Rightarrow> string \<Rightarrow> duration \<Rightarrow> bool" where
  "lease_valid lease node_id now \<longleftrightarrow> ll_node_id lease = node_id \<and> now < ll_valid_until lease"

definition holds_valid_local :: "lease_directory \<Rightarrow> string \<Rightarrow> string \<Rightarrow> duration \<Rightarrow> bool" where
  "holds_valid_local d path node_id now \<longleftrightarrow>
     (case bt_get (ld_local d) path of None \<Rightarrow> False | Some lease \<Rightarrow> lease_valid lease node_id now)"

definition holds_abandoned_local ::
    "lease_directory \<Rightarrow> string \<Rightarrow> string \<Rightarrow> duration \<Rightarrow> lease_directory \<times> bool" where
  "holds_abandoned_local d path node_id now =
     (case bt_get (ld_abandoned d) path of
        None \<Rightarrow> (d, False)
      | Some lease \<Rightarrow>
          if lease_valid lease node_id now then (d, True)
          else (d\<lparr> ld_abandoned := bt_remove path (ld_abandoned d) \<rparr>, False))"

subsection \<open>Acquiring and renewing\<close>

definition drop_lease :: "string \<Rightarrow> lease_directory \<Rightarrow> lease_directory" where
  "drop_lease path d =
     d\<lparr> ld_local := bt_remove path (ld_local d), ld_abandoned := bt_remove path (ld_abandoned d) \<rparr>"

text \<open>Up to the attempts: validation, the forced renewal's own lease, and the lease still fresh.\<close>

definition acquire_begin ::
    "lease_directory \<Rightarrow> string \<Rightarrow> string \<Rightarrow> string \<Rightarrow> bool \<Rightarrow> duration \<Rightarrow>
     lease_directory \<times> u64 result option" where
  "acquire_begin d path cell_id node_id force_renew now =
     (case and_then (validate_component ''cell_id'' cell_id) (\<lambda>_.
           and_then (validate_component ''node_id'' node_id) (\<lambda>_.
           validate_component ''writer_lease_holder'' (ld_holder_id d))) of
        Inl e \<Rightarrow> (d, Some (Inl e))
      | Inr _ \<Rightarrow>
          let renew_margin = ld_lease_duration d div 3 in
          if force_renew then
            (if holds_valid_local d path node_id now then (d, None)
             else (d\<lparr> ld_local := bt_remove path (ld_local d) \<rparr>, Some (Inl (NotCellWriter cell_id None))))
          else
            (case bt_get (ld_local d) path of
               Some lease \<Rightarrow>
                 if ll_node_id lease = node_id \<and> now + renew_margin < ll_valid_until lease
                 then (d, Some (Inr (ll_generation lease))) else (d, None)
             | None \<Rightarrow> (d, None)))"

definition owned_by :: "lease_directory \<Rightarrow> string \<Rightarrow> 'v stored_writer_lease \<Rightarrow> bool" where
  "owned_by d node_id stored \<longleftrightarrow> sl_node_id stored = node_id \<and> sl_holder_id stored = ld_holder_id d"

text \<open>One attempt, after the read: a live lease of another holder refuses.\<close>

definition acquire_guard ::
    "lease_directory \<Rightarrow> string \<Rightarrow> string \<Rightarrow> string \<Rightarrow> 'v stored_writer_lease \<Rightarrow> u64 \<Rightarrow>
     lease_directory \<times> graph_error option" where
  "acquire_guard d path cell_id node_id stored remaining_ms =
     (if remaining_ms > 0 \<and> \<not> owned_by d node_id stored
      then (drop_lease path d, Some (NotCellWriter cell_id (Some (sl_node_id stored))))
      else (d, None))"

datatype 'v put_mode = Put_Create | Put_Update 'v

record 'v lease_intent =
  li_same_holder :: bool
  li_generation :: u64
  li_heartbeat :: u64
  li_payload :: bytes
  li_mode :: "'v put_mode"

definition acquire_intent ::
    "lease_directory \<Rightarrow> string \<Rightarrow> 'v stored_writer_lease option \<Rightarrow> 'v lease_intent result" where
  "acquire_intent d node_id current =
     (let same_holder = (case current of None \<Rightarrow> False | Some stored \<Rightarrow> \<not> sl_released stored \<and> owned_by d node_id stored);
          generation = (case current of
              None \<Rightarrow> 1
            | Some stored \<Rightarrow> if same_holder then sl_generation stored
                             else saturating_add_u64 (sl_generation stored) 1);
          heartbeat = (case current of None \<Rightarrow> 1 | Some stored \<Rightarrow> saturating_add_u64 (sl_heartbeat stored) 1) in
      and_then (encode_writer_lease node_id (ld_holder_id d) generation heartbeat (ld_lease_duration d) False)
        (\<lambda>payload.
          Inr \<lparr> li_same_holder = same_holder, li_generation = generation, li_heartbeat = heartbeat,
                li_payload = payload,
                li_mode = (case current of None \<Rightarrow> Put_Create | Some stored \<Rightarrow> Put_Update (sl_version stored)) \<rparr>))"

text \<open>After a successful write: \<open>None\<close> means the window already closed and the loop goes on.\<close>

definition acquire_written ::
    "lease_directory \<Rightarrow> string \<Rightarrow> graph_scope \<Rightarrow> string \<Rightarrow> string \<Rightarrow> bool \<Rightarrow> 'v lease_intent \<Rightarrow>
     duration \<Rightarrow> duration \<Rightarrow> lease_directory \<times> u64 result option" where
  "acquire_written d path scope cell_id node_id force_renew intent write_started now =
     (let valid_until = write_started + ld_lease_duration d in
      if valid_until \<le> now then (d, None)
      else
        let d = observe_successful_write path
              (node_id, ld_holder_id d, li_generation intent, li_heartbeat intent,
               millis_u64 (ld_lease_duration d), False) write_started d;
            lease = \<lparr> ll_scope = scope, ll_cell_id = cell_id, ll_node_id = node_id,
                      ll_generation = li_generation intent, ll_valid_until = valid_until \<rparr>;
            installed = d\<lparr> ld_abandoned := bt_remove path (ld_abandoned d),
                           ld_local := bt_insert path lease (ld_local d) \<rparr> in
        if force_renew \<and> bt_get (ld_scope_users d) (scope_user scope node_id) = None
        then (d, Some (Inl (NotCellWriter cell_id (Some node_id))))
        else (installed, Some (Inr (li_generation intent))))"

text \<open>What the environment answers during one attempt.\<close>

record 'v attempt_env =
  ae_got :: "os_error + ('v \<times> int \<times> bytes)"
  ae_now :: duration
  ae_probe :: "os_error + int"
  ae_write_started :: duration
  ae_put :: "os_error + unit"
  ae_overwrite :: "os_error + unit"
  ae_reply_at :: duration

definition acquire_attempt ::
    "lease_directory \<Rightarrow> string \<Rightarrow> graph_scope \<Rightarrow> string \<Rightarrow> string \<Rightarrow> bool \<Rightarrow> 'v attempt_env \<Rightarrow>
     lease_directory \<times> u64 result option" where
  "acquire_attempt d path scope cell_id node_id force_renew env =
     (case read_stored path (ae_got env) of
        Inl e \<Rightarrow> (d, Some (Inl e))
      | Inr current \<Rightarrow>
          (case (case current of
                   Some stored \<Rightarrow>
                     if sl_released stored then (d, Inr ())
                     else
                       (case shared_remaining_ms d path stored (ae_now env) (ae_probe env) of
                          (d, Inl e) \<Rightarrow> (d, Inl e)
                        | (d, Inr remaining_ms) \<Rightarrow>
                            (case acquire_guard d path cell_id node_id stored remaining_ms of
                               (d, Some e) \<Rightarrow> (d, Inl e)
                             | (d, None) \<Rightarrow> (d, Inr ())))
                 | None \<Rightarrow> (d, Inr ())) of
             (d, Inl e) \<Rightarrow> (d, Some (Inl e))
           | (d, Inr _) \<Rightarrow>
               (case acquire_intent d node_id current of
                  Inl e \<Rightarrow> (d, Some (Inl e))
                | Inr intent \<Rightarrow>
                    (case (case ae_put env of
                             Inl (Os_Not_Implemented m) \<Rightarrow>
                               if li_same_holder intent then ae_overwrite env else Inl (Os_Not_Implemented m)
                           | r \<Rightarrow> r) of
                       Inr _ \<Rightarrow>
                         acquire_written d path scope cell_id node_id force_renew intent
                           (ae_write_started env) (ae_reply_at env)
                     | Inl (Os_Already_Exists _) \<Rightarrow> (d, None)
                     | Inl (Os_Precondition _) \<Rightarrow> (d, None)
                     | Inl e \<Rightarrow> (d, Some (Inl (ObjectStore e)))))))"

fun acquire_attempts ::
    "nat \<Rightarrow> (nat \<Rightarrow> 'v attempt_env) \<Rightarrow> string \<Rightarrow> graph_scope \<Rightarrow> string \<Rightarrow> string \<Rightarrow> bool \<Rightarrow> lease_directory \<Rightarrow>
     lease_directory \<times> u64 result" where
  "acquire_attempts 0 envs path scope cell_id node_id force_renew d =
     (d, Inl (RetryExhausted ''writer_lease_cas'' MAX_WRITER_LEASE_CAS_ATTEMPTS))"
| "acquire_attempts (Suc n) envs path scope cell_id node_id force_renew d =
     (case acquire_attempt d path scope cell_id node_id force_renew (envs n) of
        (d, Some r) \<Rightarrow> (d, r)
      | (d, None) \<Rightarrow> acquire_attempts n envs path scope cell_id node_id force_renew d)"

definition acquire_or_renew_inner ::
    "(string \<Rightarrow> string) \<Rightarrow> lease_directory \<Rightarrow> graph_scope \<Rightarrow> string \<Rightarrow> string \<Rightarrow> bool \<Rightarrow> duration \<Rightarrow>
     (nat \<Rightarrow> 'v attempt_env) \<Rightarrow> lease_directory \<times> u64 result" where
  "acquire_or_renew_inner path_from d scope cell_id node_id force_renew now envs =
     (let path = lease_path path_from d scope cell_id in
      case acquire_begin d path cell_id node_id force_renew now of
        (d, Some r) \<Rightarrow> (d, r)
      | (d, None) \<Rightarrow> acquire_attempts MAX_WRITER_LEASE_CAS_ATTEMPTS envs path scope cell_id node_id force_renew d)"

definition acquire_or_renew ::
    "(string \<Rightarrow> string) \<Rightarrow> lease_directory \<Rightarrow> graph_scope \<Rightarrow> string \<Rightarrow> string \<Rightarrow> duration \<Rightarrow>
     (nat \<Rightarrow> 'v attempt_env) \<Rightarrow> lease_directory \<times> u64 result" where
  "acquire_or_renew path_from d scope cell_id node_id now envs =
     acquire_or_renew_inner path_from d scope cell_id node_id False now envs"

subsection \<open>Releasing and abandoning\<close>

datatype release_check = Release_Done | Release_Write u64 duration bytes

definition release_check ::
    "lease_directory \<Rightarrow> string \<Rightarrow> u64 \<Rightarrow> 'v stored_writer_lease option \<Rightarrow> release_check result" where
  "release_check d node_id generation current =
     (case current of
        None \<Rightarrow> Inr Release_Done
      | Some stored \<Rightarrow>
          if sl_node_id stored \<noteq> node_id \<or> sl_holder_id stored \<noteq> ld_holder_id d \<or> sl_generation stored \<noteq> generation
          then Inr Release_Done
          else
            let heartbeat = saturating_add_u64 (sl_heartbeat stored) 1 in
            and_then (encode_writer_lease node_id (ld_holder_id d) generation heartbeat (sl_duration stored) True)
              (\<lambda>payload. Inr (Release_Write heartbeat (sl_duration stored) payload)))"

definition release_written ::
    "lease_directory \<Rightarrow> string \<Rightarrow> string \<Rightarrow> u64 \<Rightarrow> u64 \<Rightarrow> duration \<Rightarrow> duration \<Rightarrow> lease_directory" where
  "release_written d path node_id generation heartbeat duration write_started =
     observe_successful_write path
       (node_id, ld_holder_id d, generation, heartbeat, millis_u64 duration, True) write_started d"

definition release_attempt ::
    "lease_directory \<Rightarrow> string \<Rightarrow> string \<Rightarrow> u64 \<Rightarrow> 'v attempt_env \<Rightarrow> lease_directory \<times> unit result option" where
  "release_attempt d path node_id generation env =
     (case read_stored path (ae_got env) of
        Inl e \<Rightarrow> (d, Some (Inl e))
      | Inr current \<Rightarrow>
          (case release_check d node_id generation current of
             Inl e \<Rightarrow> (d, Some (Inl e))
           | Inr Release_Done \<Rightarrow> (d, Some (Inr ()))
           | Inr (Release_Write heartbeat duration payload) \<Rightarrow>
               (case ae_put env of
                  Inl (Os_Not_Implemented _) \<Rightarrow> (d, Some (map_err ObjectStore (ae_overwrite env)))
                | Inr _ \<Rightarrow> (release_written d path node_id generation heartbeat duration (ae_write_started env), Some (Inr ()))
                | Inl (Os_Already_Exists _) \<Rightarrow> (d, None)
                | Inl (Os_Precondition _) \<Rightarrow> (d, None)
                | Inl e \<Rightarrow> (d, Some (Inl (ObjectStore e))))))"

fun release_attempts ::
    "nat \<Rightarrow> (nat \<Rightarrow> 'v attempt_env) \<Rightarrow> string \<Rightarrow> string \<Rightarrow> u64 \<Rightarrow> lease_directory \<Rightarrow> lease_directory \<times> unit result" where
  "release_attempts 0 envs path node_id generation d =
     (d, Inl (RetryExhausted ''writer_lease_release_cas'' MAX_WRITER_LEASE_CAS_ATTEMPTS))"
| "release_attempts (Suc n) envs path node_id generation d =
     (case release_attempt d path node_id generation (envs n) of
        (d, Some r) \<Rightarrow> (d, r)
      | (d, None) \<Rightarrow> release_attempts n envs path node_id generation d)"

definition release_stored ::
    "lease_directory \<Rightarrow> string \<Rightarrow> string \<Rightarrow> u64 \<Rightarrow> (nat \<Rightarrow> 'v attempt_env) \<Rightarrow> lease_directory \<times> unit result" where
  "release_stored d path node_id generation envs =
     release_attempts MAX_WRITER_LEASE_CAS_ATTEMPTS envs path node_id generation d"

definition release_begin :: "lease_directory \<Rightarrow> string \<Rightarrow> lease_directory \<times> local_writer_lease option" where
  "release_begin d path =
     (case bt_get (ld_local d) path of
        Some lease \<Rightarrow> (d\<lparr> ld_local := bt_remove path (ld_local d) \<rparr>, Some lease)
      | None \<Rightarrow>
          (case bt_get (ld_abandoned d) path of
             Some lease \<Rightarrow> (d\<lparr> ld_abandoned := bt_remove path (ld_abandoned d) \<rparr>, Some lease)
           | None \<Rightarrow> (d, None)))"

definition release_cell ::
    "(string \<Rightarrow> string) \<Rightarrow> lease_directory \<Rightarrow> graph_scope \<Rightarrow> string \<Rightarrow> string \<Rightarrow> (nat \<Rightarrow> 'v attempt_env) \<Rightarrow>
     lease_directory \<times> unit result" where
  "release_cell path_from d scope cell_id node_id envs =
     (let path = lease_path path_from d scope cell_id in
      case release_begin d path of
        (d, None) \<Rightarrow> (d, Inr ())
      | (d, Some lease) \<Rightarrow> release_stored d path node_id (ll_generation lease) envs)"

text \<open>The scope's user count; the flag says that this was its last user.\<close>

definition drop_scope_user :: "graph_scope \<Rightarrow> string \<Rightarrow> lease_directory \<Rightarrow> lease_directory \<times> bool" where
  "drop_scope_user scope node_id d =
     (let key = scope_user scope node_id in
      case bt_get (ld_scope_users d) key of
        Some users \<Rightarrow>
          if users > 1 then (d\<lparr> ld_scope_users := bt_insert key (users - 1) (ld_scope_users d) \<rparr>, False)
          else (d\<lparr> ld_scope_users := bt_remove key (ld_scope_users d) \<rparr>, True)
      | None \<Rightarrow> (d, True))"

definition of_scope :: "graph_scope \<Rightarrow> string \<Rightarrow> local_writer_lease \<Rightarrow> bool" where
  "of_scope scope node_id lease \<longleftrightarrow> ll_scope lease = scope \<and> ll_node_id lease = node_id"

definition abandon_scope :: "graph_scope \<Rightarrow> string \<Rightarrow> duration \<Rightarrow> lease_directory \<Rightarrow> lease_directory" where
  "abandon_scope scope node_id now d =
     (case drop_scope_user scope node_id d of
        (d, False) \<Rightarrow> d
      | (d, True) \<Rightarrow>
          let leases = filter (\<lambda>(_, lease). of_scope scope node_id lease) (ld_local d) in
          d\<lparr> ld_local := bt_retain (\<lambda>_ lease. \<not> of_scope scope node_id lease) (ld_local d),
             ld_abandoned :=
               bt_extend (bt_retain (\<lambda>_ lease. now < ll_valid_until lease) (ld_abandoned d)) leases \<rparr>)"

fun release_leases ::
    "(string \<Rightarrow> string) \<Rightarrow> graph_scope \<Rightarrow> string \<Rightarrow> (string \<Rightarrow> nat \<Rightarrow> 'v attempt_env) \<Rightarrow> local_writer_lease list \<Rightarrow>
     lease_directory \<Rightarrow> lease_directory \<times> (string \<times> graph_error) list" where
  "release_leases path_from scope node_id envs [] d = (d, [])"
| "release_leases path_from scope node_id envs (lease # leases) d =
     (case release_stored d (lease_path path_from d scope (ll_cell_id lease)) node_id (ll_generation lease)
             (envs (ll_cell_id lease)) of
        (d, r) \<Rightarrow>
          (case release_leases path_from scope node_id envs leases d of
             (d, failures) \<Rightarrow>
               (d, (case r of Inl e \<Rightarrow> (ll_cell_id lease, e) # failures | Inr _ \<Rightarrow> failures))))"

definition release_scope ::
    "(string \<Rightarrow> string) \<Rightarrow> graph_scope \<Rightarrow> string \<Rightarrow> (string \<Rightarrow> nat \<Rightarrow> 'v attempt_env) \<Rightarrow> lease_directory \<Rightarrow>
     lease_directory \<times> (string \<times> graph_error) list" where
  "release_scope path_from scope node_id envs d =
     (case drop_scope_user scope node_id d of
        (d, False) \<Rightarrow> (d, [])
      | (d, True) \<Rightarrow>
          let leases = filter (of_scope scope node_id) (map snd (ld_local d));
              abandoned_leases = filter (of_scope scope node_id) (map snd (ld_abandoned d)) in
          release_leases path_from scope node_id envs (leases @ abandoned_leases)
            (d\<lparr> ld_local := bt_retain (\<lambda>_ lease. \<not> of_scope scope node_id lease) (ld_local d),
                ld_abandoned := bt_retain (\<lambda>_ lease. \<not> of_scope scope node_id lease) (ld_abandoned d) \<rparr>))"

subsection \<open>The text round-trips\<close>

lemma lease_state_inject: "lease_state_text a = lease_state_text b \<longleftrightarrow> a = b"
  by (simp add: lease_state_text_def)

lemma lease_texts:
  "line_text WRITER_LEASE_FORMAT" "ascii WRITER_LEASE_FORMAT"
  "line_text (lease_state_text r)" "ascii (lease_state_text r)"
  by (auto simp: WRITER_LEASE_FORMAT_def lease_state_text_def nat_of_byte_def)

lemma utf8_of_lines: "\<forall>l \<in> set ls. line_text l \<and> ascii l \<Longrightarrow> from_utf8 (encode_lines ls) = Inr (encode_lines ls)"
  unfolding encode_lines_def by (intro from_utf8_ascii ascii_concat) (auto simp: nat_of_byte_def)

lemma encode_writer_lease_Inr:
  assumes "encode_writer_lease n h g b d r = Inr payload"
  shows "valid_component n" "valid_component h" "as_millis d < 2 ^ 64"
    "payload = encode_lines
       [WRITER_LEASE_FORMAT, n, h, show_u64 g, show_u64 b, show_u64 (of_nat (as_millis d)), lease_state_text r]"
  using assms
  by (auto simp: encode_writer_lease_def and_then_def validate_component_Inr split: sum.splits if_splits)

lemma encode_writer_lease_ok:
  assumes "valid_component n" "valid_component h" "as_millis d < 2 ^ 64"
  obtains payload where "encode_writer_lease n h g b d r = Inr payload"
  using assms by (auto simp: encode_writer_lease_def and_then_def validate_component_def valid_component_def)

lemma decode_encode_writer_lease:
  assumes enc: "encode_writer_lease n h g b d r = Inr payload"
    and "g \<noteq> 0" "b \<noteq> 0" "1000000 \<le> d"
  shows "decode_writer_lease path payload =
    Inr \<lparr> dl_node_id = n, dl_holder_id = h, dl_generation = g, dl_heartbeat = b,
          dl_duration_ms = millis_u64 d, dl_released = r \<rparr>"
proof -
  note facts = encode_writer_lease_Inr [OF enc]
  let ?ms = "of_nat (as_millis d) :: u64"
  let ?ls = "[WRITER_LEASE_FORMAT, n, h, show_u64 g, show_u64 b, show_u64 ?ms, lease_state_text r]"
  have clean: "\<forall>s \<in> set ?ls. line_text s \<and> ascii s"
    using facts(1,2) by (auto simp: lease_texts valid_component_line valid_component_ascii)
  have utf8: "from_utf8 payload = Inr payload" and ls: "lines payload = ?ls"
    unfolding facts(4) using clean by (simp_all add: utf8_of_lines text_of_lines(2))
  have "unat ?ms = as_millis d"
    using facts(3) by (simp add: unat_of_nat take_bit_nat_eq_self)
  moreover have "as_millis d \<noteq> 0"
    using assms(4) by (simp add: as_millis_def)
  ultimately have ms: "?ms \<noteq> 0" "millis_u64 d = ?ms"
    using facts(3) by (auto simp: millis_u64_def)
  show ?thesis
    using facts(1,2) assms(2,3) ms lease_state_inject [of r True] lease_state_inject [of r False]
    by (cases r)
      (simp_all add: decode_writer_lease_def utf8 ls Let_def next_line_def unwrap_or_empty_def and_then_def
        map_err_def validate_component_def valid_component_def parse_lease_u64_def lease_state_text_def nth_Cons')
qed

subsection \<open>Frames of the operations\<close>

lemma release_attempt_frame:
  "release_attempt d path node g env = (d', r) \<Longrightarrow>
    ld_scope_users d' = ld_scope_users d \<and> ld_lease_duration d' = ld_lease_duration d \<and>
    ld_local d' = ld_local d \<and> ld_abandoned d' = ld_abandoned d"
  by (auto simp: release_attempt_def release_written_def observe_successful_write_def
      split: sum.splits release_check.splits os_error.splits)

lemma release_attempts_frame:
  "release_attempts n envs path node g d = (d', r) \<Longrightarrow>
    ld_scope_users d' = ld_scope_users d \<and> ld_lease_duration d' = ld_lease_duration d \<and>
    ld_local d' = ld_local d \<and> ld_abandoned d' = ld_abandoned d"
proof (induction n arbitrary: d)
  case (Suc n)
  obtain d1 r1 where r1: "release_attempt d path node g (envs n) = (d1, r1)"
    by (cases "release_attempt d path node g (envs n)")
  with Suc release_attempt_frame [OF r1] show ?case
    by (cases r1) auto
qed simp

lemma release_cell_frame:
  "release_cell path_from d scope cell node envs = (d', r) \<Longrightarrow>
    ld_scope_users d' = ld_scope_users d \<and> ld_lease_duration d' = ld_lease_duration d \<and>
    (bt_inv (ld_local d) \<longrightarrow> bt_inv (ld_local d'))"
  by (auto simp: release_cell_def release_begin_def release_stored_def Let_def dest!: release_attempts_frame
      split: prod.splits option.splits)

lemma acquire_written_holds:
  assumes "bt_inv (ld_local d)" "now < ws + ld_lease_duration d" "force \<longrightarrow> bt_get (ld_scope_users d) (scope_user scope node) \<noteq> None"
  shows "acquire_written d path scope cell node force i ws now =
      (fst (acquire_written d path scope cell node force i ws now), Some (Inr (li_generation i)))"
    and "holds_valid_local (fst (acquire_written d path scope cell node force i ws now)) path node t \<longleftrightarrow>
      t < ws + ld_lease_duration d"
  using assms
  by (auto simp: acquire_written_def Let_def observe_successful_write_def holds_valid_local_def lease_valid_def)

subsection \<open>Properties\<close>

text \<open>
  C38.  The lease text round-trips: for valid names, a non-zero generation and heartbeat and a
  duration of at least a millisecond that fits, the text is written and read back as the same lease,
  its duration cut to whole milliseconds; and every lease that is read at all has valid names and
  non-zero numbers, so it can be written again.
\<close>

theorem writer_lease_roundtrip:
  "(valid_component node \<and> valid_component holder \<and> generation \<noteq> 0 \<and> heartbeat \<noteq> 0 \<and>
     1000000 \<le> duration \<and> as_millis duration < 2 ^ 64 \<longrightarrow>
     and_then (encode_writer_lease node holder generation heartbeat duration released) (decode_writer_lease path) =
       Inr \<lparr> dl_node_id = node, dl_holder_id = holder, dl_generation = generation, dl_heartbeat = heartbeat,
             dl_duration_ms = of_nat (as_millis duration), dl_released = released \<rparr>) \<and>
   (case decode_writer_lease path bs of
      Inl _ \<Rightarrow> True
    | Inr l \<Rightarrow> valid_component (dl_node_id l) \<and> valid_component (dl_holder_id l) \<and>
        dl_generation l \<noteq> 0 \<and> dl_heartbeat l \<noteq> 0 \<and> dl_duration_ms l \<noteq> 0)"
proof (intro conjI impI)
  assume "valid_component node \<and> valid_component holder \<and> generation \<noteq> 0 \<and> heartbeat \<noteq> 0 \<and>
     1000000 \<le> duration \<and> as_millis duration < 2 ^ 64"
  then have a: "valid_component node" "valid_component holder" "generation \<noteq> 0" "heartbeat \<noteq> 0"
    "1000000 \<le> duration" "as_millis duration < 2 ^ 64" by (simp_all only: simp_thms)
  obtain payload where p: "encode_writer_lease node holder generation heartbeat duration released = Inr payload"
    using encode_writer_lease_ok [OF a(1,2,6)] by blast
  have "millis_u64 duration = of_nat (as_millis duration)"
    using a(6) by (simp only: millis_u64_def if_True)
  then show "and_then (encode_writer_lease node holder generation heartbeat duration released) (decode_writer_lease path) =
       Inr \<lparr> dl_node_id = node, dl_holder_id = holder, dl_generation = generation, dl_heartbeat = heartbeat,
             dl_duration_ms = of_nat (as_millis duration), dl_released = released \<rparr>"
    using decode_encode_writer_lease [OF p a(3,4,5), of path] by (simp add: p and_then_def)
qed (auto simp: decode_writer_lease_def and_then_def Let_def validate_component_Inr split: sum.splits if_splits)

theorem writer_lease_roundtrip_witness:
  "and_then (encode_writer_lease ''n1'' ''h1'' 3 7 30000000000 False) (decode_writer_lease ''p'') =
     Inr \<lparr> dl_node_id = ''n1'', dl_holder_id = ''h1'', dl_generation = 3, dl_heartbeat = 7,
           dl_duration_ms = 30000, dl_released = False \<rparr>"
proof -
  have "valid_component ''n1''" "valid_component ''h1''" by code_simp+
  then show ?thesis
    using writer_lease_roundtrip [of "''n1''" "''h1''" 3 7 30000000000 False "''p''" "[]"]
    by (simp add: as_millis_def)
qed

text \<open>
  C40.  A lease released by its process can come back to life there.  When a forced renewal is
  in flight while the cell's lease is released, and the scope still has a user, the reply of the
  renewal re-creates the local lease, and the process believes it holds it.
\<close>

theorem renewal_reply_recreates_lease:
  assumes "release_cell path_from d scope cell node envs = (d', Inr ())"
    and "bt_get (ld_scope_users d) (scope_user scope node) \<noteq> None"
    and "now < write_started + ld_lease_duration d" and "bt_inv (ld_local d)"
  shows "holds_valid_local
    (fst (acquire_written d' path scope cell node True intent write_started now)) path node now"
  using acquire_written_holds(2) [of d' now write_started True scope node path cell intent now]
    release_cell_frame [OF assms(1)] assms(2-4) by simp

theorem renewal_reply_recreates_lease_witness:
  "let d0 = register_scope default_graph_scope ''n'' (with_duration_and_holder [] 0 ''h'');
       path = lease_path id d0 default_graph_scope ''c'';
       d = d0\<lparr> ld_local := [(path, \<lparr> ll_scope = default_graph_scope, ll_cell_id = ''c'', ll_node_id = ''n'',
                                   ll_generation = 1, ll_valid_until = 9 \<rparr>)] \<rparr>;
       gone = \<lparr> ae_got = Inl (Os_Not_Found []), ae_now = 0, ae_probe = Inr 0, ae_write_started = 0,
                ae_put = Inr (), ae_overwrite = Inr (), ae_reply_at = 0 \<rparr> :: nat attempt_env;
       d' = fst (release_cell id d default_graph_scope ''c'' ''n'' (\<lambda>_. gone)) in
   \<not> holds_valid_local d' path ''n'' 5 \<and>
   holds_valid_local (fst (acquire_written d' path default_graph_scope ''c'' ''n'' True
     \<lparr> li_same_holder = True, li_generation = 1, li_heartbeat = 2, li_payload = [], li_mode = Put_Create :: nat put_mode \<rparr> 4 5)) path ''n'' 5"
proof -
  let ?d0 = "register_scope default_graph_scope ''n'' (with_duration_and_holder [] 0 ''h'')"
  let ?path = "lease_path id ?d0 default_graph_scope ''c''"
  let ?d = "?d0\<lparr> ld_local := [(?path, \<lparr> ll_scope = default_graph_scope, ll_cell_id = ''c'', ll_node_id = ''n'',
      ll_generation = 1, ll_valid_until = 9 \<rparr>)] \<rparr>"
  let ?gone = "\<lparr> ae_got = Inl (Os_Not_Found []), ae_now = 0, ae_probe = Inr 0, ae_write_started = 0,
                ae_put = Inr (), ae_overwrite = Inr (), ae_reply_at = 0 \<rparr> :: nat attempt_env"
  have path: "lease_path id ?d default_graph_scope ''c'' = ?path"
    by (simp add: lease_path_def)
  have rel: "release_cell id ?d default_graph_scope ''c'' ''n'' (\<lambda>_. ?gone) = (?d\<lparr> ld_local := [] \<rparr>, Inr ())"
    unfolding release_cell_def path
    by (simp add: release_begin_def release_stored_def MAX_WRITER_LEASE_CAS_ATTEMPTS_def
        eval_nat_numeral release_attempt_def read_stored_def release_check_def)
  have "holds_valid_local (fst (acquire_written (?d\<lparr> ld_local := [] \<rparr>) ?path default_graph_scope ''c'' ''n'' True
     \<lparr> li_same_holder = True, li_generation = 1, li_heartbeat = 2, li_payload = [], li_mode = Put_Create :: nat put_mode \<rparr> 4 5)) ?path ''n'' 5"
    by (rule renewal_reply_recreates_lease [OF rel])
      (simp_all add: register_scope_def with_duration_and_holder_def Let_def)
  then show ?thesis
    unfolding Let_def rel by (simp add: holds_valid_local_def)
qed

end
