(* ===== verification/Lease_Protocol.thy ===== *)
theory Lease_Protocol
  imports Writer_Lease
begin

text \<open>
  Processes competing for one writer lease.  Every piece between two awaits of \<open>acquire_or_renew\<close>,
  \<open>release_cell\<close> and \<open>release_scope\<close> is one step, any process may move between them, and an object-store
  request takes effect at some moment between its start and its reply.  The store is known only by
  its conditional PUT (accepted when the version is still the one named, giving a new version) and by
  its timestamps, the parameter \<open>fl_stamp\<close>.  Within one process the operations on the lease of the
  cell run one after the other.  The result is mutual exclusion as long as the clock probe answers
  within the resolution guard.
\<close>

subsection \<open>The world\<close>

record lease_object =
  lo_version :: nat
  lo_committed :: duration
  lo_bytes :: bytes

datatype lease_pc =
    Idle
  | Reading bool nat
  | Read bool nat "nat stored_writer_lease option"
  | Probing bool nat "nat stored_writer_lease" duration
  | Ready bool nat "nat stored_writer_lease option"
  | Writing bool nat "nat lease_intent" duration
  | Written bool nat "nat lease_intent" duration
  | Rel_Reading u64 nat
  | Rel_Writing u64 nat u64 duration bytes nat duration
  | Rel_Written u64 u64 duration duration

record lease_fleet =
  fl_path :: string
  fl_scope :: graph_scope
  fl_cell :: string
  fl_node :: "string \<Rightarrow> string"
  fl_duration :: "string \<Rightarrow> duration"
  fl_stamp :: "duration \<Rightarrow> int"
  fl_latency :: duration

record lease_world =
  w_now :: duration
  w_object :: "lease_object option"
  w_dir :: "string \<Rightarrow> lease_directory"
  w_pc :: "string \<Rightarrow> lease_pc"

definition set_proc :: "string \<Rightarrow> lease_directory \<Rightarrow> lease_pc \<Rightarrow> lease_world \<Rightarrow> lease_world" where
  "set_proc h d pc w = w\<lparr> w_dir := (w_dir w)(h := d), w_pc := (w_pc w)(h := pc) \<rparr>"

definition get_outcome :: "lease_fleet \<Rightarrow> lease_object option \<Rightarrow> os_error + (nat \<times> int \<times> bytes)" where
  "get_outcome F ob =
     (case ob of
        None \<Rightarrow> Inl (Os_Not_Found (fl_path F))
      | Some o' \<Rightarrow> Inr (lo_version o', fl_stamp F (lo_committed o'), lo_bytes o'))"

definition cas_accepts :: "nat put_mode \<Rightarrow> lease_object option \<Rightarrow> bool" where
  "cas_accepts mode ob =
     (case mode of
        Put_Create \<Rightarrow> ob = None
      | Put_Update v \<Rightarrow> (case ob of None \<Rightarrow> False | Some o' \<Rightarrow> lo_version o' = v))"

definition put_object :: "bytes \<Rightarrow> lease_world \<Rightarrow> lease_world" where
  "put_object payload w =
     w\<lparr> w_object := Some \<lparr> lo_version = (case w_object w of None \<Rightarrow> 0 | Some o' \<Rightarrow> Suc (lo_version o')),
                            lo_committed = w_now w, lo_bytes = payload \<rparr> \<rparr>"

definition after_guard :: "bool \<Rightarrow> nat \<Rightarrow> nat stored_writer_lease \<Rightarrow> graph_error option \<Rightarrow> lease_pc" where
  "after_guard f n st e = (case e of None \<Rightarrow> Ready f n (Some st) | Some _ \<Rightarrow> Idle)"

text \<open>What an operation on another path may do to a directory, seen from this path.\<close>

definition elsewhere_ok :: "string \<Rightarrow> lease_directory \<Rightarrow> lease_directory \<Rightarrow> bool" where
  "elsewhere_ok path d d' \<longleftrightarrow>
     ld_holder_id d' = ld_holder_id d \<and> ld_lease_duration d' = ld_lease_duration d \<and>
     bt_inv (ld_local d') \<and> bt_inv (ld_abandoned d') \<and> bt_inv (ld_observed d') \<and>
     bt_get (ld_local d') path = bt_get (ld_local d) path \<and>
     bt_get (ld_abandoned d') path \<in> {bt_get (ld_abandoned d) path, None} \<and>
     bt_get (ld_observed d') path \<in> {bt_get (ld_observed d) path, None}"

inductive lease_step :: "lease_fleet \<Rightarrow> lease_world \<Rightarrow> lease_world \<Rightarrow> bool" for F where
  tick: "w_now w \<le> t \<Longrightarrow> lease_step F w (w\<lparr> w_now := t \<rparr>)"
| start: "w_pc w h = Idle \<Longrightarrow>
    acquire_begin (w_dir w h) (fl_path F) (fl_cell F) (fl_node F h) f (w_now w) = (d, None) \<Longrightarrow>
    lease_step F w (set_proc h d (Reading f MAX_WRITER_LEASE_CAS_ATTEMPTS) w)"
| answered: "w_pc w h = Idle \<Longrightarrow>
    acquire_begin (w_dir w h) (fl_path F) (fl_cell F) (fl_node F h) f (w_now w) = (d, Some r) \<Longrightarrow>
    lease_step F w (set_proc h d Idle w)"
| read: "w_pc w h = Reading f (Suc n) \<Longrightarrow>
    read_stored (fl_path F) (get_outcome F (w_object w)) = Inr current \<Longrightarrow>
    lease_step F w (set_proc h (w_dir w h) (Read f n current) w)"
| free: "w_pc w h = Read f n current \<Longrightarrow> (case current of None \<Rightarrow> True | Some st \<Rightarrow> sl_released st) \<Longrightarrow>
    lease_step F w (set_proc h (w_dir w h) (Ready f n current) w)"
| cached: "w_pc w h = Read f n (Some st) \<Longrightarrow> \<not> sl_released st \<Longrightarrow>
    cached_remaining_ms (w_dir w h) (fl_path F) st (w_now w) = Some ms \<Longrightarrow>
    acquire_guard (w_dir w h) (fl_path F) (fl_cell F) (fl_node F h) st ms = (d, e) \<Longrightarrow>
    lease_step F w (set_proc h d (after_guard f n st e) w)"
| probe: "w_pc w h = Read f n (Some st) \<Longrightarrow> \<not> sl_released st \<Longrightarrow>
    cached_remaining_ms (w_dir w h) (fl_path F) st (w_now w) = None \<Longrightarrow>
    lease_step F w (set_proc h ((w_dir w h)\<lparr> ld_clock_probe := ld_clock_probe (w_dir w h) + 1 \<rparr>)
      (Probing f n st (w_now w)) w)"
| probed: "w_pc w h = Probing f n st now \<Longrightarrow>
    now \<le> \<tau> \<Longrightarrow> \<tau> \<le> w_now w \<Longrightarrow> \<tau> \<le> now + fl_latency F \<Longrightarrow>
    observe_remaining (w_dir w h) (fl_path F) st now (fl_stamp F \<tau>) = (d, ms) \<Longrightarrow>
    acquire_guard d (fl_path F) (fl_cell F) (fl_node F h) st ms = (d', e) \<Longrightarrow>
    lease_step F w (set_proc h d' (after_guard f n st e) w)"
| send: "w_pc w h = Ready f n current \<Longrightarrow>
    acquire_intent (w_dir w h) (fl_node F h) current = Inr intent \<Longrightarrow>
    lease_step F w (set_proc h (w_dir w h) (Writing f n intent (w_now w)) w)"
| commit: "w_pc w h = Writing f n intent ws \<Longrightarrow> cas_accepts (li_mode intent) (w_object w) \<Longrightarrow>
    lease_step F w (set_proc h (w_dir w h) (Written f n intent ws) (put_object (li_payload intent) w))"
| written: "w_pc w h = Written f n intent ws \<Longrightarrow>
    acquire_written (w_dir w h) (fl_path F) (fl_scope F) (fl_cell F) (fl_node F h) f intent ws (w_now w) = (d, r) \<Longrightarrow>
    lease_step F w (set_proc h d (case r of None \<Rightarrow> Reading f n | Some _ \<Rightarrow> Idle) w)"
| conflict: "w_pc w h = Writing f n intent ws \<or> w_pc w h = Written f n intent ws \<Longrightarrow>
    lease_step F w (set_proc h (w_dir w h) (Reading f n) w)"
| fail: "lease_step F w (set_proc h (w_dir w h) Idle w)"
| release: "w_pc w h = Idle \<Longrightarrow> release_begin (w_dir w h) (fl_path F) = (d, Some lease) \<Longrightarrow>
    lease_step F w (set_proc h d (Rel_Reading (ll_generation lease) MAX_WRITER_LEASE_CAS_ATTEMPTS) w)"
| release_read: "w_pc w h = Rel_Reading g (Suc n) \<Longrightarrow>
    read_stored (fl_path F) (get_outcome F (w_object w)) = Inr (Some st) \<Longrightarrow>
    release_check (w_dir w h) (fl_node F h) g (Some st) = Inr (Release_Write hb dur payload) \<Longrightarrow>
    lease_step F w (set_proc h (w_dir w h) (Rel_Writing g n hb dur payload (sl_version st) (w_now w)) w)"
| release_commit: "w_pc w h = Rel_Writing g n hb dur payload v ws \<Longrightarrow> cas_accepts (Put_Update v) (w_object w) \<Longrightarrow>
    lease_step F w (set_proc h (w_dir w h) (Rel_Written g hb dur ws) (put_object payload w))"
| release_written: "w_pc w h = Rel_Written g hb dur ws \<Longrightarrow>
    lease_step F w (set_proc h (release_written (w_dir w h) (fl_path F) (fl_node F h) g hb dur ws) Idle w)"
| release_conflict: "w_pc w h = Rel_Writing g n hb dur payload v ws \<Longrightarrow>
    lease_step F w (set_proc h (w_dir w h) (Rel_Reading g n) w)"
| abandon: "w_pc w h = Idle \<Longrightarrow>
    lease_step F w (set_proc h (abandon_scope scope node (w_now w) (w_dir w h)) Idle w)"
| elsewhere: "elsewhere_ok (fl_path F) (w_dir w h) d \<Longrightarrow>
    lease_step F w (set_proc h d (w_pc w h) w)"

definition lease_start :: "lease_fleet \<Rightarrow> string \<Rightarrow> lease_world" where
  "lease_start F base =
     \<lparr> w_now = 0, w_object = None,
       w_dir = (\<lambda>h. with_duration_and_holder base (fl_duration F h) h), w_pc = (\<lambda>_. Idle) \<rparr>"

inductive lease_reach :: "lease_fleet \<Rightarrow> lease_world \<Rightarrow> bool" for F where
  init: "lease_reach F (lease_start F base)"
| step: "lease_reach F w \<Longrightarrow> lease_step F w w' \<Longrightarrow> lease_reach F w'"

subsection \<open>The invariant\<close>

text \<open>The lease in the store, as a reader would see it, with the moment it took effect.\<close>

definition current_lease :: "lease_fleet \<Rightarrow> lease_world \<Rightarrow> (duration \<times> nat stored_writer_lease) option" where
  "current_lease F w =
     (case w_object w of
        None \<Rightarrow> None
      | Some o' \<Rightarrow>
          (case read_stored (fl_path F) (get_outcome F (w_object w)) of
             Inr (Some st) \<Rightarrow> Some (lo_committed o', st)
           | _ \<Rightarrow> None))"

definition held_by :: "(duration \<times> nat stored_writer_lease) option \<Rightarrow> string \<Rightarrow> bool" where
  "held_by cur h \<longleftrightarrow> (case cur of None \<Rightarrow> False | Some (c, st) \<Rightarrow> \<not> sl_released st \<and> sl_holder_id st = h)"

text \<open>The duration a directory works with: at least a second.\<close>

definition lease_len :: "lease_fleet \<Rightarrow> string \<Rightarrow> duration" where
  "lease_len F h = max (fl_duration F h) 1000000000"

text \<open>How long the authority of a process may last, given the lease in the store.\<close>

definition horizon :: "lease_fleet \<Rightarrow> duration \<Rightarrow> (duration \<times> nat stored_writer_lease) option \<Rightarrow> string \<Rightarrow> duration" where
  "horizon F now cur h = (if held_by cur h then fst (the cur) + lease_len F h else now)"

definition entries_ok :: "lease_fleet \<Rightarrow> duration \<Rightarrow> (duration \<times> nat stored_writer_lease) option \<Rightarrow> string \<Rightarrow> lease_directory \<Rightarrow> bool" where
  "entries_ok F now cur h d \<longleftrightarrow>
     (\<forall>l. bt_get (ld_local d) (fl_path F) = Some l \<or> bt_get (ld_abandoned d) (fl_path F) = Some l \<longrightarrow>
        ll_valid_until l \<le> horizon F now cur h)"

definition expired_for :: "lease_fleet \<Rightarrow> duration \<Rightarrow> (duration \<times> nat stored_writer_lease) option \<Rightarrow> string \<Rightarrow> bool" where
  "expired_for F now cur h \<longleftrightarrow>
     (case cur of
        None \<Rightarrow> True
      | Some (c, st) \<Rightarrow> sl_released st \<or> sl_holder_id st = h \<or>
          c + lease_len F (sl_holder_id st) \<le> now)"

fun fp_heartbeat :: "lease_fingerprint \<Rightarrow> u64" where
  "fp_heartbeat (n, h, g, b, d, r) = b"

definition obs_ok :: "lease_fleet \<Rightarrow> duration \<Rightarrow> (duration \<times> nat stored_writer_lease) option \<Rightarrow> string \<Rightarrow> lease_directory \<Rightarrow> bool" where
  "obs_ok F now cur h d \<longleftrightarrow>
     (\<forall>e. bt_get (ld_observed d) (fl_path F) = Some e \<longrightarrow> ow_observed_at e \<le> now \<and>
        (\<exists>c st. cur = Some (c, st) \<and> fp_heartbeat (ow_fingerprint e) \<le> sl_heartbeat st \<and>
           (ow_fingerprint e = fingerprint st \<and> \<not> sl_released st \<and> sl_holder_id st \<noteq> h \<longrightarrow>
              c + lease_len F (sl_holder_id st) + 1000000 \<le> ow_observed_at e + ow_remaining e)))"

text \<open>A lease read some time ago: if its version is still current, it is the lease in the store.\<close>

definition snapshot_ok :: "(duration \<times> nat stored_writer_lease) option \<Rightarrow> nat stored_writer_lease \<Rightarrow> bool" where
  "snapshot_ok cur st \<longleftrightarrow>
     unat (sl_heartbeat st) = Suc (sl_version st) \<and> sl_generation st \<noteq> 0 \<and>
     (\<exists>c s. cur = Some (c, s) \<and> sl_version st \<le> sl_version s \<and> (sl_version st = sl_version s \<longrightarrow> st = s))"

definition intent_ok ::
    "lease_fleet \<Rightarrow> duration \<Rightarrow> (duration \<times> nat stored_writer_lease) option \<Rightarrow> string \<Rightarrow> nat lease_intent \<Rightarrow> bool" where
  "intent_ok F now cur h i \<longleftrightarrow>
     encode_writer_lease (fl_node F h) h (li_generation i) (li_heartbeat i) (lease_len F h) False
       = Inr (li_payload i) \<and> li_generation i \<noteq> 0 \<and>
     (case li_mode i of
        Put_Create \<Rightarrow> li_heartbeat i = 1
      | Put_Update v \<Rightarrow>
          (\<exists>c s. cur = Some (c, s) \<and> v \<le> sl_version s \<and>
             (v = sl_version s \<longrightarrow> li_heartbeat i = saturating_add_u64 (sl_heartbeat s) 1 \<and> expired_for F now cur h)))"

definition release_ok ::
    "lease_fleet \<Rightarrow> (duration \<times> nat stored_writer_lease) option \<Rightarrow> string \<Rightarrow> u64 \<Rightarrow> u64 \<Rightarrow> duration \<Rightarrow> bytes \<Rightarrow> nat \<Rightarrow> bool" where
  "release_ok F cur h g hb dur payload v \<longleftrightarrow>
     encode_writer_lease (fl_node F h) h g hb dur True = Inr payload \<and>
     (\<exists>c s. cur = Some (c, s) \<and> v \<le> sl_version s \<and>
        (v = sl_version s \<longrightarrow> g = sl_generation s \<and> hb = saturating_add_u64 (sl_heartbeat s) 1 \<and>
           dur = sl_duration s \<and> sl_holder_id s = h))"

definition no_entries :: "lease_fleet \<Rightarrow> lease_directory \<Rightarrow> bool" where
  "no_entries F d \<longleftrightarrow> bt_get (ld_local d) (fl_path F) = None \<and> bt_get (ld_abandoned d) (fl_path F) = None"

fun pc_ok ::
    "lease_fleet \<Rightarrow> duration \<Rightarrow> (duration \<times> nat stored_writer_lease) option \<Rightarrow> string \<Rightarrow> lease_directory \<Rightarrow> lease_pc \<Rightarrow> bool" where
  "pc_ok F now cur h d Idle = True"
| "pc_ok F now cur h d (Reading f n) = True"
| "pc_ok F now cur h d (Read f n current) = (case current of None \<Rightarrow> True | Some st \<Rightarrow> snapshot_ok cur st)"
| "pc_ok F now cur h d (Probing f n st a) =
     (snapshot_ok cur st \<and> a \<le> now \<and> (sl_version st = sl_version (snd (the cur)) \<longrightarrow> fst (the cur) \<le> a))"
| "pc_ok F now cur h d (Ready f n current) =
     (case current of
        None \<Rightarrow> True
      | Some st \<Rightarrow> snapshot_ok cur st \<and>
          (sl_version st = sl_version (snd (the cur)) \<longrightarrow> expired_for F now cur h))"
| "pc_ok F now cur h d (Writing f n i ws) = (intent_ok F now cur h i \<and> ws \<le> now)"
| "pc_ok F now cur h d (Written f n i ws) =
     (ws \<le> now \<and> ws + lease_len F h \<le> horizon F now cur h \<and>
      (\<exists>c s. cur = Some (c, s) \<and> li_heartbeat i \<le> sl_heartbeat s))"
| "pc_ok F now cur h d (Rel_Reading g n) = no_entries F d"
| "pc_ok F now cur h d (Rel_Writing g n hb dur payload v ws) =
     (no_entries F d \<and> ws \<le> now \<and> release_ok F cur h g hb dur payload v)"
| "pc_ok F now cur h d (Rel_Written g hb dur ws) =
     (no_entries F d \<and> ws \<le> now \<and> (\<exists>c s. cur = Some (c, s) \<and> hb \<le> sl_heartbeat s))"

definition dir_ok :: "lease_fleet \<Rightarrow> string \<Rightarrow> lease_directory \<Rightarrow> bool" where
  "dir_ok F h d \<longleftrightarrow>
     ld_holder_id d = h \<and> ld_lease_duration d = lease_len F h \<and>
     bt_inv (ld_local d) \<and> bt_inv (ld_abandoned d) \<and> bt_inv (ld_observed d) \<and>
     (bt_get (ld_local d) (fl_path F) = None \<or> bt_get (ld_abandoned d) (fl_path F) = None)"

definition proc_ok ::
    "lease_fleet \<Rightarrow> duration \<Rightarrow> (duration \<times> nat stored_writer_lease) option \<Rightarrow> string \<Rightarrow> lease_directory \<Rightarrow> lease_pc \<Rightarrow> bool" where
  "proc_ok F now cur h d pc \<longleftrightarrow>
     dir_ok F h d \<and> entries_ok F now cur h d \<and> obs_ok F now cur h d \<and> pc_ok F now cur h d pc"

text \<open>The stored lease itself: written by its holder with its holder's duration, one heartbeat per version.\<close>

definition object_ok :: "lease_fleet \<Rightarrow> lease_world \<Rightarrow> bool" where
  "object_ok F w \<longleftrightarrow>
     (case w_object w of
        None \<Rightarrow> True
      | Some o' \<Rightarrow> (\<exists>st. current_lease F w = Some (lo_committed o', st) \<and> lo_committed o' \<le> w_now w \<and>
          sl_version st = lo_version o' \<and> sl_last_modified_ms st = fl_stamp F (lo_committed o') \<and>
          unat (sl_heartbeat st) = Suc (lo_version o') \<and> sl_generation st \<noteq> 0 \<and> sl_node_id st = fl_node F (sl_holder_id st) \<and>
          sl_duration st = from_millis (millis_u64 (lease_len F (sl_holder_id st))) \<and>
          lease_len F (sl_holder_id st) < sl_duration st + 1000000))"

definition lease_inv :: "lease_fleet \<Rightarrow> lease_world \<Rightarrow> bool" where
  "lease_inv F w \<longleftrightarrow>
     object_ok F w \<and> (\<forall>h. proc_ok F (w_now w) (current_lease F w) h (w_dir w h) (w_pc w h))"

text \<open>Fewer writes than a heartbeat can count.\<close>

definition countable_writes :: "lease_world \<Rightarrow> bool" where
  "countable_writes w \<longleftrightarrow> (case w_object w of None \<Rightarrow> True | Some o' \<Rightarrow> lo_version o' < 2 ^ 64 - 2)"

definition clock_ok :: "lease_fleet \<Rightarrow> duration \<Rightarrow> bool" where
  "clock_ok F resolution \<longleftrightarrow>
     (\<forall>t t'. t \<le> t' \<longrightarrow> (fl_stamp F t' - fl_stamp F t) * 1000000 \<le> int (t' - t) + int resolution) \<and>
     resolution + fl_latency F + 2000000 \<le> SERVER_TIMESTAMP_RESOLUTION_GUARD"

subsection \<open>Steps that move one process\<close>

lemma horizon_mono: "now \<le> now' \<Longrightarrow> horizon F now cur h \<le> horizon F now' cur h"
  by (simp add: horizon_def)

lemma expired_mono: "now \<le> now' \<Longrightarrow> expired_for F now cur h \<Longrightarrow> expired_for F now' cur h"
  by (auto simp: expired_for_def split: option.splits)

lemma intent_mono: "now \<le> now' \<Longrightarrow> intent_ok F now cur h i \<Longrightarrow> intent_ok F now' cur h i"
  by (auto simp: intent_ok_def expired_mono split: put_mode.splits)

lemma proc_ok_mono: "now \<le> now' \<Longrightarrow> proc_ok F now cur h d pc \<Longrightarrow> proc_ok F now' cur h d pc"
proof -
  assume now: "now \<le> now'" and ok: "proc_ok F now cur h d pc"
  have "pc_ok F now' cur h d pc"
    using ok now horizon_mono [OF now, of F cur h]
    by (cases pc) (auto simp: proc_ok_def expired_mono intent_mono split: option.splits)
  moreover have "entries_ok F now' cur h d"
    using ok horizon_mono [OF now, of F cur h] by (auto simp: proc_ok_def entries_ok_def intro: order_trans)
  moreover have "obs_ok F now' cur h d"
    using ok now by (fastforce simp: proc_ok_def obs_ok_def)
  ultimately show ?thesis
    using ok by (simp add: proc_ok_def)
qed

lemma set_proc_simps [simp]:
  "w_now (set_proc h d pc w) = w_now w" "w_object (set_proc h d pc w) = w_object w"
  "w_dir (set_proc h d pc w) = (w_dir w)(h := d)" "w_pc (set_proc h d pc w) = (w_pc w)(h := pc)"
  by (simp_all add: set_proc_def)

lemma current_lease_cong: "w_object w' = w_object w \<Longrightarrow> current_lease F w' = current_lease F w"
  unfolding current_lease_def by (simp only:)

lemma current_lease_set_proc [simp]: "current_lease F (set_proc h d pc w) = current_lease F w"
  by (rule current_lease_cong) simp

lemma object_ok_cong:
  assumes "w_object w' = w_object w" "w_now w \<le> w_now w'" "object_ok F w"
  shows "object_ok F w'"
proof (cases "w_object w")
  case (Some o')
  then show ?thesis
    using assms current_lease_cong [OF assms(1), of F] by (fastforce simp: object_ok_def)
qed (use assms in \<open>simp add: object_ok_def\<close>)

lemma lease_inv_set_proc:
  "lease_inv F w \<Longrightarrow> proc_ok F (w_now w) (current_lease F w) h d pc \<Longrightarrow> lease_inv F (set_proc h d pc w)"
  using object_ok_cong [of "set_proc h d pc w" w F] by (auto simp: lease_inv_def)

lemma lease_inv_proc: "lease_inv F w \<Longrightarrow> proc_ok F (w_now w) (current_lease F w) h (w_dir w h) (w_pc w h)"
  by (simp add: lease_inv_def)

text \<open>A directory that lost entries at this path, and is otherwise unchanged there.\<close>

definition dir_le :: "lease_fleet \<Rightarrow> lease_directory \<Rightarrow> lease_directory \<Rightarrow> bool" where
  "dir_le F d d' \<longleftrightarrow>
     ld_holder_id d' = ld_holder_id d \<and> ld_lease_duration d' = ld_lease_duration d \<and>
     bt_inv (ld_local d') \<and> bt_inv (ld_abandoned d') \<and> bt_inv (ld_observed d') \<and>
     bt_get (ld_local d') (fl_path F) \<in> {bt_get (ld_local d) (fl_path F), None} \<and>
     bt_get (ld_abandoned d') (fl_path F) \<in> {bt_get (ld_abandoned d) (fl_path F), None} \<and>
     bt_get (ld_observed d') (fl_path F) \<in> {bt_get (ld_observed d) (fl_path F), None}"

lemma pc_ok_dir_le: "dir_le F d d' \<Longrightarrow> pc_ok F now cur h d pc \<Longrightarrow> pc_ok F now cur h d' pc"
  by (cases pc) (auto simp: dir_le_def no_entries_def)

lemma proc_ok_dir_le: "dir_le F d d' \<Longrightarrow> proc_ok F now cur h d pc \<Longrightarrow> proc_ok F now cur h d' pc"
  using pc_ok_dir_le [of F d d' now cur h pc]
  by (auto simp: proc_ok_def dir_ok_def entries_ok_def obs_ok_def dir_le_def)

lemma proc_ok_pc:
  "proc_ok F now cur h d pc \<Longrightarrow> pc_ok F now cur h d pc' \<Longrightarrow> proc_ok F now cur h d pc'"
  by (simp add: proc_ok_def)

lemma proc_ok_dir: "proc_ok F now cur h d pc \<Longrightarrow> dir_ok F h d"
  by (simp add: proc_ok_def)

lemma dir_le_refl: "dir_ok F h d \<Longrightarrow> dir_le F d d"
  by (simp add: dir_le_def dir_ok_def)

lemma dir_le_begin:
  "acquire_begin d (fl_path F) c n f now = (d', r) \<Longrightarrow> dir_ok F h d \<Longrightarrow> dir_le F d d'"
  by (auto simp: acquire_begin_def dir_le_def dir_ok_def Let_def split: sum.splits if_splits option.splits)

lemma dir_le_guard:
  "acquire_guard d (fl_path F) c n st ms = (d', e) \<Longrightarrow> dir_ok F h d \<Longrightarrow> dir_le F d d'"
  by (auto simp: acquire_guard_def drop_lease_def dir_le_def dir_ok_def split: if_splits)

lemma dir_le_release:
  "release_begin d (fl_path F) = (d', Some l) \<Longrightarrow> dir_ok F h d \<Longrightarrow> dir_le F d d' \<and> no_entries F d'"
  by (auto simp: release_begin_def dir_le_def dir_ok_def no_entries_def split: option.splits)

lemma of_nat_u64_zero: "k < 2 ^ 64 \<Longrightarrow> (of_nat k :: u64) = 0 \<longleftrightarrow> k = 0"
proof
  assume k: "k < 2 ^ 64" and z: "(of_nat k :: u64) = 0"
  have "unat (of_nat k :: u64) = k"
    using k by (simp add: unat_of_nat take_bit_nat_eq_self)
  then show "k = 0" unfolding z by simp
qed simp

lemma millis_u64_zero: "millis_u64 d = 0 \<longleftrightarrow> d < 1000000"
proof -
  have ms: "as_millis d = 0 \<longleftrightarrow> d < 1000000"
    by (simp add: as_millis_def div_eq_0_iff)
  show ?thesis
  proof (cases "as_millis d < 2 ^ 64")
    case True
    then have "millis_u64 d = of_nat (as_millis d)"
      by (simp only: millis_u64_def if_True)
    then show ?thesis
      using of_nat_u64_zero [OF True] ms by (simp only:)
  next
    case False
    then have "millis_u64 d = u64_max"
      by (simp only: millis_u64_def if_False)
    moreover have "as_millis d \<noteq> 0"
      using False by (rule contrapos_nn) (simp only:, simp)
    ultimately show ?thesis
      using ms by (simp add: u64_max_def)
  qed
qed

lemma guard_passed:
  assumes "acquire_guard d path c n st ms = (d', None)" "ld_holder_id d = h"
  shows "d' = d" "sl_holder_id st = h \<or> ms = 0"
  using assms by (auto simp: acquire_guard_def owned_by_def word_gt_0 split: if_splits)

text \<open>The current lease, read back.\<close>

lemma read_current:
  assumes "object_ok F w" "read_stored (fl_path F) (get_outcome F (w_object w)) = Inr current"
  shows "case current of None \<Rightarrow> w_object w = None | Some st \<Rightarrow> snapshot_ok (current_lease F w) st \<and>
    (\<exists>c. current_lease F w = Some (c, st) \<and> c \<le> w_now w)"
proof (cases "w_object w")
  case None
  then show ?thesis
    using assms(2) by (auto simp: get_outcome_def read_stored_def)
next
  case (Some o')
  then show ?thesis
    using assms by (auto simp: object_ok_def current_lease_def snapshot_ok_def split: option.splits)
qed

subsection \<open>Observations\<close>

lemma cached_expired:
  assumes obs: "obs_ok F now cur h d" and cached: "cached_remaining_ms d (fl_path F) s now = Some 0"
    and cur: "cur = Some (c, s)"
  shows "expired_for F now cur h"
proof -
  obtain e where e: "bt_get (ld_observed d) (fl_path F) = Some e" "ow_fingerprint e = fingerprint s"
    "millis_u64 (ow_remaining e - (now - ow_observed_at e)) = 0"
    using cached by (auto simp: cached_remaining_ms_def remaining_after_elapsed_def split: option.splits if_splits)
  then show ?thesis
    using obs cur by (auto simp: obs_ok_def expired_for_def millis_u64_zero)
qed

lemma durable_remaining_bound:
  assumes clock: "clock_ok F resolution" and s: "sl_last_modified_ms s = fl_stamp F c"
    and d: "dur < sl_duration s + 1000000" and order: "c \<le> a" "a \<le> \<tau>" "\<tau> \<le> a + fl_latency F"
  shows "c + dur + 1000000 \<le> a + durable_remaining s (fl_stamp F \<tau>)"
proof -
  let ?x = "fl_stamp F \<tau> - fl_stamp F c"
  have "?x * 1000000 \<le> int (\<tau> - c) + int resolution"
    and guard: "resolution + fl_latency F + 2000000 \<le> SERVER_TIMESTAMP_RESOLUTION_GUARD"
    using clock order by (auto simp: clock_ok_def)
  moreover have "int (nat (saturating_sub_i64 (fl_stamp F \<tau>) (fl_stamp F c))) \<le> max 0 ?x"
    by (simp add: saturating_sub_i64_def)
  ultimately have "int (nat (saturating_sub_i64 (fl_stamp F \<tau>) (fl_stamp F c)) * 1000000) \<le> int ((\<tau> - c) + resolution)"
    by (cases "?x \<le> 0") auto
  then have age: "nat (saturating_sub_i64 (fl_stamp F \<tau>) (fl_stamp F c)) * 1000000 \<le> (\<tau> - c) + resolution"
    by (simp only: zle_int)
  show ?thesis
    using age guard d order unfolding durable_remaining_def s by linarith
qed

lemma bt_get_evict: "bt_inv m \<Longrightarrow> bt_get (evict_observed path m) path = bt_get m path"
  by (auto simp: evict_observed_def bt_keys_def split: list.splits)

lemma bt_inv_evict: "bt_inv m \<Longrightarrow> bt_inv (evict_observed path m)"
  by (auto simp: evict_observed_def split: list.splits)

lemma observe_remaining_dir:
  assumes "observe_remaining d (fl_path F) st a sn = (d', ms)" "dir_ok F h d"
  shows "dir_ok F h d'" "ld_local d' = ld_local d" "ld_abandoned d' = ld_abandoned d"
    "bt_get (ld_observed d') (fl_path F) =
       Some \<lparr> ow_fingerprint = fingerprint st, ow_observed_at = a, ow_remaining = durable_remaining st sn \<rparr>"
    "ms = millis_u64 (durable_remaining st sn)"
  using assms by (auto simp: observe_remaining_def Let_def dir_ok_def bt_inv_evict)

lemma probed_ok:
  assumes ok: "proc_ok F now cur h d (Probing f n st a)" and clock: "clock_ok F resolution"
    and obj: "\<And>c s. cur = Some (c, s) \<Longrightarrow> sl_last_modified_ms s = fl_stamp F c \<and>
        unat (sl_heartbeat s) = Suc (sl_version s) \<and>
        lease_len F (sl_holder_id s) < sl_duration s + 1000000"
    and \<tau>: "a \<le> \<tau>" "\<tau> \<le> a + fl_latency F"
    and obs: "observe_remaining d (fl_path F) st a (fl_stamp F \<tau>) = (d', ms)"
  shows "proc_ok F now cur h d' (Read f n (Some st))"
    and "ms = 0 \<Longrightarrow> sl_version st = sl_version (snd (the cur)) \<Longrightarrow> expired_for F now cur h"
proof -
  have dir: "dir_ok F h d" by (rule proc_ok_dir [OF ok])
  note d' = observe_remaining_dir [OF obs dir]
  obtain c s where cur: "cur = Some (c, s)" "sl_version st \<le> sl_version s" "sl_version st = sl_version s \<longrightarrow> st = s"
    and snap: "snapshot_ok cur st" and a: "a \<le> now" "sl_version st = sl_version s \<longrightarrow> c \<le> a"
    and hb: "unat (sl_heartbeat st) = Suc (sl_version st)"
    using ok by (auto simp: proc_ok_def snapshot_ok_def)
  have bound: "c + lease_len F (sl_holder_id s) + 1000000 \<le> a + durable_remaining st (fl_stamp F \<tau>)"
    if "sl_version st = sl_version s"
  proof -
    have "st = s" "c \<le> a" using that cur(3) a(2) by simp_all
    then show ?thesis
      using durable_remaining_bound [OF clock, of s c "lease_len F (sl_holder_id s)" a \<tau>] obj [OF cur(1)] \<tau>
      by simp
  qed
  have "sl_heartbeat st \<le> sl_heartbeat s"
    using hb obj [OF cur(1)] cur(2) by (simp add: word_le_nat_alt)
  moreover have "sl_version st = sl_version s" if "fingerprint st = fingerprint s"
    using that hb obj [OF cur(1)] by (simp add: fingerprint_def)
  ultimately have "obs_ok F now cur h d'"
    using bound a(1) cur(1) unfolding obs_ok_def d'(4) by (auto simp: fingerprint_def)
  then show "proc_ok F now cur h d' (Read f n (Some st))"
    using ok snap d'(1-3) by (simp add: proc_ok_def entries_ok_def)
  show "expired_for F now cur h" if "ms = 0" "sl_version st = sl_version (snd (the cur))"
    using that bound a(1) cur(1) d'(5) by (auto simp: expired_for_def millis_u64_zero)
qed

lemma sat_add_nonzero: "saturating_add_u64 x 1 \<noteq> 0"
  using unat_saturating_add_u64 [of x 1] by (intro notI) simp

lemma send_ok:
  assumes ok: "proc_ok F now cur h d (Ready f n current)"
    and int: "acquire_intent d (fl_node F h) current = Inr i"
  shows "proc_ok F now cur h d (Writing f n i now)"
proof -
  have d: "ld_holder_id d = h" "ld_lease_duration d = lease_len F h"
    using ok by (auto simp: proc_ok_def dir_ok_def)
  have "intent_ok F now cur h i"
  proof (cases current)
    case None
    then show ?thesis
      using int d by (auto simp: acquire_intent_def intent_ok_def and_then_def Let_def split: sum.splits)
  next
    case (Some st)
    then have snap: "snapshot_ok cur st" "sl_version st = sl_version (snd (the cur)) \<longrightarrow> expired_for F now cur h"
      using ok by (auto simp: proc_ok_def)
    obtain c s where cur: "cur = Some (c, s)" "sl_version st \<le> sl_version s" "sl_version st = sl_version s \<longrightarrow> st = s"
      "sl_generation st \<noteq> 0"
      using snap(1) by (auto simp: snapshot_ok_def)
    have "li_mode i = Put_Update (sl_version st)" "li_heartbeat i = saturating_add_u64 (sl_heartbeat st) 1"
      "li_generation i \<noteq> 0"
      "encode_writer_lease (fl_node F h) h (li_generation i) (li_heartbeat i) (lease_len F h) False = Inr (li_payload i)"
      using int Some d cur(4)
      by (auto simp: acquire_intent_def and_then_def Let_def sat_add_nonzero split: sum.splits if_splits)
    then show ?thesis
      using cur snap(2) by (auto simp: intent_ok_def)
  qed
  then show ?thesis
    using ok by (simp add: proc_ok_def)
qed

subsection \<open>Writes\<close>

lemma written_ok:
  assumes ok: "proc_ok F now cur h d (Written f n i ws)"
    and wr: "acquire_written d (fl_path F) scope cell node f i ws now = (d', r)"
  shows "proc_ok F now cur h d' Idle"
proof -
  have dir: "dir_ok F h d" and obs: "obs_ok F now cur h d" and ent: "entries_ok F now cur h d"
    and hor: "ws \<le> now" "ws + lease_len F h \<le> horizon F now cur h"
    and hb: "\<exists>c s. cur = Some (c, s) \<and> li_heartbeat i \<le> sl_heartbeat s"
    using ok by (auto simp: proc_ok_def)
  let ?fp = "(node, h, li_generation i, li_heartbeat i, millis_u64 (ld_lease_duration d), False)"
  let ?d = "observe_successful_write (fl_path F) ?fp ws d"
  have obs': "obs_ok F now cur h ?d"
    using obs hor(1) hb dir by (auto simp: obs_ok_def observe_successful_write_def fingerprint_def dir_ok_def)
  have dir': "dir_ok F h ?d" "ld_local ?d = ld_local d" "ld_abandoned ?d = ld_abandoned d"
    using dir by (auto simp: observe_successful_write_def dir_ok_def)
  let ?l = "\<lparr> ll_scope = scope, ll_cell_id = cell, ll_node_id = node,
      ll_generation = li_generation i, ll_valid_until = ws + ld_lease_duration d \<rparr>"
  let ?d2 = "?d\<lparr> ld_abandoned := bt_remove (fl_path F) (ld_abandoned ?d),
      ld_local := bt_insert (fl_path F) ?l (ld_local ?d) \<rparr>"
  have "ld_holder_id d = h" using dir by (simp add: dir_ok_def)
  then consider "d' = d" | "d' = ?d" | "d' = ?d2"
    using wr unfolding acquire_written_def Let_def by (auto split: if_splits)
  then show ?thesis
  proof cases
    case 3
    have "ll_valid_until ?l \<le> horizon F now cur h"
      using hor(2) dir by (simp add: dir_ok_def)
    then show ?thesis
      unfolding 3 using obs' dir' by (auto simp: proc_ok_def dir_ok_def entries_ok_def obs_ok_def)
  qed (use obs' dir' ent ok in \<open>auto simp: proc_ok_def entries_ok_def\<close>)
qed

lemma release_written_ok:
  assumes ok: "proc_ok F now cur h d (Rel_Written g hb dur ws)"
  shows "proc_ok F now cur h (release_written d (fl_path F) node g hb dur ws) Idle"
  using ok
  by (auto simp: proc_ok_def dir_ok_def entries_ok_def obs_ok_def release_written_def observe_successful_write_def
      fingerprint_def)

lemma map_of_rev_bt: "bt_inv m \<Longrightarrow> map_of (rev m) k = bt_get m k"
  using map_of_inject_set [of "rev m" m] by (simp add: bt_get_map_of bt_inv_distinct rev_map [symmetric])

lemma drop_scope_user_frame:
  "\<exists>users. drop_scope_user scope node d = (d\<lparr> ld_scope_users := users \<rparr>, snd (drop_scope_user scope node d))"
proof (cases "bt_get (ld_scope_users d) (scope_user scope node)")
  case None
  then show ?thesis
    by (intro exI [of _ "ld_scope_users d"]) (simp add: drop_scope_user_def Let_def)
next
  case (Some a)
  then show ?thesis
    by (cases "1 < a") (auto simp: drop_scope_user_def Let_def)
qed

lemma abandon_ok:
  assumes ok: "proc_ok F now cur h d Idle"
  shows "proc_ok F now cur h (abandon_scope scope node now d) Idle"
proof -
  let ?leases = "filter (\<lambda>(_, l). of_scope scope node l) (ld_local d)"
  obtain users b where d1: "drop_scope_user scope node d = (d\<lparr> ld_scope_users := users \<rparr>, b)"
    using drop_scope_user_frame by blast
  have inv: "bt_inv (ld_local d)" "bt_inv (ld_abandoned d)"
    using ok by (auto simp: proc_ok_def dir_ok_def)
  have get: "bt_get (bt_extend m ?leases) p =
      (case bt_get (ld_local d) p of Some l \<Rightarrow> if of_scope scope node l then Some l else bt_get m p | None \<Rightarrow> bt_get m p)"
    if "bt_inv m" for m p
    using that inv(1) bt_get_retain [OF inv(1), of "\<lambda>_ l. of_scope scope node l" p]
    by (simp add: bt_get_extend map_of_rev_bt bt_inv_filter bt_retain_def split: option.splits)
  show ?thesis
    using ok inv get
    by (cases b) (auto simp: abandon_scope_def d1 proc_ok_def dir_ok_def entries_ok_def obs_ok_def Let_def
        bt_get_retain split: option.splits if_splits)
qed

lemma read_payload:
  assumes "encode_writer_lease n h g b d r = Inr payload" "g \<noteq> 0" "b \<noteq> 0" "1000000 \<le> d"
  shows "read_stored path (Inr (v, lm, payload)) =
    Inr (Some \<lparr> sl_node_id = n, sl_holder_id = h, sl_generation = g, sl_heartbeat = b,
      sl_duration = from_millis (millis_u64 d), sl_version = v, sl_last_modified_ms = lm, sl_released = r \<rparr>)"
  using decode_encode_writer_lease [OF assms, of path] by (simp add: read_stored_def and_then_def)

lemma obs_ok_supersede:
  assumes "obs_ok F now cur k d"
    and "\<And>c s. cur = Some (c, s) \<Longrightarrow> sl_version s < sl_version st \<and> sl_heartbeat s < sl_heartbeat st"
  shows "obs_ok F now (Some (now, st)) k d"
  using assms by (fastforce simp: obs_ok_def fingerprint_def)

text \<open>The other processes, when a new lease takes effect.\<close>

lemma proc_ok_supersede:
  assumes ok: "proc_ok F now cur k d pc" and new: "sl_holder_id st \<noteq> k" "expired_for F now cur (sl_holder_id st)"
    and later: "\<And>c s. cur = Some (c, s) \<Longrightarrow> sl_version s < sl_version st \<and> sl_heartbeat s < sl_heartbeat st"
  shows "proc_ok F now (Some (now, st)) k d pc"
proof -
  let ?new = "Some (now, st)"
  have hor: "horizon F now cur k \<le> horizon F now ?new k"
    using new by (auto simp: horizon_def held_by_def expired_for_def split: option.splits)
  have snap: "snapshot_ok ?new x" if "snapshot_ok cur x" for x
    using that later by (fastforce simp: snapshot_ok_def)
  have not_same: "sl_version x \<noteq> sl_version st" if "snapshot_ok cur x" for x
    using that later by (fastforce simp: snapshot_ok_def)
  have "pc_ok F now ?new k d pc"
  proof (cases pc)
    case (Writing f n i ws)
    then show ?thesis
      using ok later by (cases "li_mode i") (fastforce simp: proc_ok_def intent_ok_def)+
  next
    case (Rel_Writing g n hb dur payload v ws)
    then show ?thesis
      using ok later by (fastforce simp: proc_ok_def release_ok_def)
  qed (use ok hor snap not_same later in \<open>fastforce simp: proc_ok_def split: option.splits\<close>)+
  moreover have "entries_ok F now ?new k d"
    using ok hor by (auto simp: proc_ok_def entries_ok_def intro: order_trans)
  moreover have "obs_ok F now ?new k d"
    using ok later by (auto simp: proc_ok_def intro: obs_ok_supersede)
  ultimately show ?thesis
    using ok by (simp add: proc_ok_def)
qed

lemma put_object_simps [simp]:
  "w_now (put_object p w) = w_now w" "w_dir (put_object p w) = w_dir w" "w_pc (put_object p w) = w_pc w"
  by (simp_all add: put_object_def)

definition put_version :: "lease_world \<Rightarrow> nat" where
  "put_version w = (case w_object w of None \<Rightarrow> 0 | Some o' \<Rightarrow> Suc (lo_version o'))"

lemma current_lease_put:
  assumes "encode_writer_lease n h g b d r = Inr payload" "g \<noteq> 0" "b \<noteq> 0" "1000000 \<le> d"
  shows "current_lease F (put_object payload w) =
    Some (w_now w, \<lparr> sl_node_id = n, sl_holder_id = h, sl_generation = g, sl_heartbeat = b,
      sl_duration = from_millis (millis_u64 d), sl_version = put_version w,
      sl_last_modified_ms = fl_stamp F (w_now w), sl_released = r \<rparr>)"
  unfolding current_lease_def put_object_def get_outcome_def
  by (simp add: read_payload [OF assms] put_version_def)

lemma from_millis_u64:
  "as_millis d < 2 ^ 64 \<Longrightarrow> from_millis (millis_u64 d) = as_millis d * 1000000"
  by (simp only: from_millis_def millis_u64_def if_True unat_of_nat_u64)

lemma millis_trunc: "d < as_millis d * 1000000 + 1000000" "1000000 \<le> d \<Longrightarrow> 1000000 \<le> as_millis d * 1000000"
  by (simp_all add: as_millis_def)

lemma duration_in_range: "d < from_millis m + 1000000 \<Longrightarrow> as_millis d < 2 ^ 64"
  using unat_u64_less [of m] by (simp add: from_millis_def as_millis_def)

lemma current_facts:
  assumes "object_ok F w" "current_lease F w = Some (c, s)"
  shows "c \<le> w_now w" "sl_last_modified_ms s = fl_stamp F c" "unat (sl_heartbeat s) = Suc (sl_version s)"
    "sl_generation s \<noteq> 0" "sl_node_id s = fl_node F (sl_holder_id s)"
    "sl_duration s = from_millis (millis_u64 (lease_len F (sl_holder_id s)))"
    "lease_len F (sl_holder_id s) < sl_duration s + 1000000" "put_version w = Suc (sl_version s)"
  using assms by (cases "w_object w"; auto simp: object_ok_def current_lease_def put_version_def)+

lemma no_current: "object_ok F w \<Longrightarrow> current_lease F w = None \<longleftrightarrow> w_object w = None"
  by (cases "w_object w") (auto simp: object_ok_def current_lease_def)

lemma lease_inv_put:
  fixes F w h
  defines "D \<equiv> lease_len F h" and "cur \<equiv> current_lease F w"
  assumes inv: "lease_inv F w" and enc: "encode_writer_lease (fl_node F h) h g b dur r = Inr payload"
    and g: "g \<noteq> 0" and b: "unat b = Suc (put_version w)"
    and dur: "from_millis (millis_u64 dur) = from_millis (millis_u64 D)" "1000000 \<le> dur" "as_millis D < 2 ^ 64"
    and exp: "expired_for F (w_now w) cur h"
    and own: "\<And>st. sl_holder_id st = h \<Longrightarrow> sl_released st = r \<Longrightarrow> sl_heartbeat st = b \<Longrightarrow>
        pc_ok F (w_now w) (Some (w_now w, st)) h (w_dir w h) pc"
    and entries: "r \<Longrightarrow> no_entries F (w_dir w h)"
  shows "lease_inv F (set_proc h (w_dir w h) pc (put_object payload w))"
proof -
  let ?st = "\<lparr> sl_node_id = fl_node F h, sl_holder_id = h, sl_generation = g, sl_heartbeat = b,
      sl_duration = from_millis (millis_u64 dur), sl_version = put_version w,
      sl_last_modified_ms = fl_stamp F (w_now w), sl_released = r \<rparr>"
  have b0: "b \<noteq> 0" using b by (intro notI) simp
  have new: "current_lease F (put_object payload w) = Some (w_now w, ?st)"
    by (rule current_lease_put [OF enc g b0 dur(2)])
  have obj: "object_ok F w" using inv by (simp add: lease_inv_def)
  have later: "sl_version s < sl_version ?st \<and> sl_heartbeat s < sl_heartbeat ?st" if "cur = Some (c, s)" for c s
    using current_facts(3,8) [OF obj that [unfolded cur_def]] b by (simp add: word_less_nat_alt)
  have old: "proc_ok F (w_now w) cur k (w_dir w k) (w_pc w k)" for k
    using inv by (simp add: lease_inv_def cur_def)
  have others: "proc_ok F (w_now w) (Some (w_now w, ?st)) k (w_dir w k) (w_pc w k)" if "k \<noteq> h" for k
    by (rule proc_ok_supersede [OF old _ _ later]) (use that exp in simp_all)
  have "entries_ok F (w_now w) (Some (w_now w, ?st)) h (w_dir w h)"
  proof (cases r)
    case True
    then show ?thesis using entries by (auto simp: entries_ok_def no_entries_def)
  next
    case False
    have "horizon F (w_now w) cur h \<le> horizon F (w_now w) (Some (w_now w, ?st)) h"
      using False current_facts(1) [OF obj] by (auto simp: horizon_def held_by_def cur_def split: option.splits)
    then show ?thesis
      using old [of h] by (auto simp: proc_ok_def entries_ok_def intro: order_trans)
  qed
  moreover have "obs_ok F (w_now w) (Some (w_now w, ?st)) h (w_dir w h)"
    by (rule obs_ok_supersede [OF _ later]) (use old [of h] in \<open>simp_all add: proc_ok_def\<close>)
  ultimately have "proc_ok F (w_now w) (Some (w_now w, ?st)) h (w_dir w h) pc"
    using old [of h] own [of ?st] by (simp add: proc_ok_def)
  moreover have "object_ok F (put_object payload w)"
    using dur b g millis_trunc(1) [of D] unfolding object_ok_def new
    by (simp add: put_object_def put_version_def from_millis_u64 D_def)
  ultimately show ?thesis
    using others new object_ok_cong [of "set_proc h (w_dir w h) pc (put_object payload w)" "put_object payload w" F]
    by (simp add: lease_inv_def)
qed

subsection \<open>Every step keeps the invariant\<close>

lemma dir_le_elsewhere: "elsewhere_ok (fl_path F) d d' \<Longrightarrow> dir_le F d d'"
  by (auto simp: elsewhere_ok_def dir_le_def)

lemma free_ok:
  assumes "pc_ok F now cur h d (Read f n current)"
    and "case current of None \<Rightarrow> True | Some st \<Rightarrow> sl_released st"
  shows "pc_ok F now cur h d (Ready f n current)"
proof (cases current)
  case (Some st)
  then have snap: "snapshot_ok cur st" and rel: "sl_released st"
    using assms by simp_all
  then obtain c s where cur: "cur = Some (c, s)" "sl_version st = sl_version s \<longrightarrow> st = s"
    unfolding snapshot_ok_def by blast
  then have "expired_for F now cur h" if "sl_version st = sl_version s"
    using that rel by (simp add: expired_for_def)
  then show ?thesis
    using Some snap cur(1) by simp
qed simp

lemma ready_ok:
  assumes ok: "proc_ok F now cur h d (Read f n (Some st))"
    and guard: "acquire_guard d (fl_path F) c nd st ms = (d', e)"
    and ms: "ms = 0 \<Longrightarrow> sl_version st = sl_version (snd (the cur)) \<Longrightarrow> expired_for F now cur h"
  shows "proc_ok F now cur h d' (after_guard f n st e)"
proof (cases e)
  case None
  have h: "ld_holder_id d = h" and snap: "snapshot_ok cur st"
    using ok by (auto simp: proc_ok_def dir_ok_def)
  note g = guard_passed [OF guard [unfolded None] h]
  have "expired_for F now cur h" if "sl_version st = sl_version (snd (the cur))"
  proof (cases "ms = 0")
    case False
    then have "sl_holder_id st = h" using g(2) by simp
    then show ?thesis
      using snap that by (auto simp: snapshot_ok_def expired_for_def)
  qed (use ms that in simp)
  then show ?thesis
    using ok snap g(1) None by (simp add: after_guard_def proc_ok_def)
next
  case (Some x)
  have "dir_le F d d'"
    by (rule dir_le_guard [OF guard proc_ok_dir [OF ok]])
  from proc_ok_dir_le [OF this ok] show ?thesis
    using Some by (simp add: after_guard_def proc_ok_def)
qed

lemma commit_inv:
  assumes inv: "lease_inv F w" and pc: "w_pc w h = Writing f n i ws"
    and cas: "cas_accepts (li_mode i) (w_object w)" and few: "countable_writes (put_object (li_payload i) w)"
  shows "lease_inv F (set_proc h (w_dir w h) (Written f n i ws) (put_object (li_payload i) w))"
proof -
  have obj: "object_ok F w" using inv by (simp add: lease_inv_def)
  have int: "intent_ok F (w_now w) (current_lease F w) h i" and ws: "ws \<le> w_now w"
    using lease_inv_proc [OF inv, of h] by (auto simp: pc proc_ok_def)
  have enc: "encode_writer_lease (fl_node F h) h (li_generation i) (li_heartbeat i) (lease_len F h) False = Inr (li_payload i)"
    and g: "li_generation i \<noteq> 0"
    using int by (auto simp: intent_ok_def)
  have hb: "unat (li_heartbeat i) = Suc (put_version w) \<and> expired_for F (w_now w) (current_lease F w) h"
  proof (cases "li_mode i")
    case Put_Create
    then have "w_object w = None" using cas by (simp add: cas_accepts_def)
    then show ?thesis
      using int Put_Create no_current [OF obj] by (simp add: intent_ok_def put_version_def expired_for_def)
  next
    case (Put_Update v)
    then obtain c s where cur: "current_lease F w = Some (c, s)"
      and v: "v = sl_version s \<longrightarrow> li_heartbeat i = saturating_add_u64 (sl_heartbeat s) 1 \<and> expired_for F (w_now w) (current_lease F w) h"
      using int by (auto simp: intent_ok_def)
    obtain o' where o': "w_object w = Some o'" "lo_version o' = v"
      using cas Put_Update by (auto simp: cas_accepts_def split: option.splits)
    have "v = sl_version s" using o' current_facts(8) [OF obj cur] by (simp add: put_version_def)
    moreover have "Suc (sl_version s) < 2 ^ 64 - 2"
      using few o' \<open>v = sl_version s\<close> by (simp add: countable_writes_def put_object_def)
    ultimately show ?thesis
      using v current_facts(3,8) [OF obj cur] by (simp add: unat_saturating_add_u64)
  qed
  have dur: "as_millis (lease_len F h) < 2 ^ 64" using encode_writer_lease_Inr(3) [OF enc] .
  show ?thesis
    by (rule lease_inv_put [OF inv enc g]) (use hb dur ws in \<open>simp_all add: lease_len_def horizon_def held_by_def\<close>)
qed

lemma release_commit_inv:
  assumes inv: "lease_inv F w" and pc: "w_pc w h = Rel_Writing g n hb dur payload v ws"
    and cas: "cas_accepts (Put_Update v) (w_object w)" and few: "countable_writes (put_object payload w)"
  shows "lease_inv F (set_proc h (w_dir w h) (Rel_Written g hb dur ws) (put_object payload w))"
proof -
  have obj: "object_ok F w" using inv by (simp add: lease_inv_def)
  have rel: "release_ok F (current_lease F w) h g hb dur payload v" and ws: "ws \<le> w_now w" "no_entries F (w_dir w h)"
    using lease_inv_proc [OF inv, of h] by (auto simp: pc proc_ok_def)
  then obtain c s where enc: "encode_writer_lease (fl_node F h) h g hb dur True = Inr payload"
    and cur: "current_lease F w = Some (c, s)"
    and v: "v = sl_version s \<longrightarrow> g = sl_generation s \<and> hb = saturating_add_u64 (sl_heartbeat s) 1 \<and>
           dur = sl_duration s \<and> sl_holder_id s = h"
    by (auto simp: release_ok_def)
  obtain o' where o': "w_object w = Some o'" "lo_version o' = v"
    using cas by (auto simp: cas_accepts_def split: option.splits)
  note cf = current_facts [OF obj cur]
  have "v = sl_version s" using o' cf(8) by (simp add: put_version_def)
  note v = v [rule_format, OF this]
  have "Suc (sl_version s) < 2 ^ 64 - 2"
    using few o' \<open>v = sl_version s\<close> by (simp add: countable_writes_def put_object_def)
  then have hb: "unat hb = Suc (put_version w)"
    using v cf(3,8) by (simp add: unat_saturating_add_u64)
  have D: "as_millis (lease_len F h) < 2 ^ 64"
    using duration_in_range [of "lease_len F (sl_holder_id s)"] cf(6,7) v by simp
  then have dur: "dur = as_millis (lease_len F h) * 1000000"
    using cf(6) v by (simp only: from_millis_u64)
  then have "as_millis dur = as_millis (lease_len F h)"
    by (simp add: as_millis_def)
  then have "millis_u64 dur = millis_u64 (lease_len F h)"
    by (simp only: millis_u64_def)
  moreover have "1000000 \<le> dur"
    unfolding dur by (rule millis_trunc) (simp add: lease_len_def)
  ultimately show ?thesis
    using D by (intro lease_inv_put [OF inv enc])
      (use hb ws cf(4) v cur in \<open>simp_all add: lease_len_def expired_for_def\<close>)
qed

lemma lease_step_inv:
  assumes step: "lease_step F w w'" and inv: "lease_inv F w" and few: "countable_writes w'"
    and clock: "clock_ok F resolution"
  shows "lease_inv F w'"
  using step
proof cases
  case (tick t)
  then show ?thesis
    using inv object_ok_cong [of w' w F] current_lease_cong [of w' w F]
    by (auto simp: lease_inv_def intro: proc_ok_mono)
next
  case (start h f d)
  have ok: "proc_ok F (w_now w) (current_lease F w) h (w_dir w h) Idle"
    using lease_inv_proc [OF inv, of h] start(2) by simp
  have "proc_ok F (w_now w) (current_lease F w) h d Idle"
    by (rule proc_ok_dir_le [OF dir_le_begin [OF start(3) proc_ok_dir [OF ok]] ok])
  then show ?thesis
    unfolding start(1) by (intro lease_inv_set_proc [OF inv]) (rule proc_ok_pc, simp_all)
next
  case (answered h f d r)
  have ok: "proc_ok F (w_now w) (current_lease F w) h (w_dir w h) Idle"
    using lease_inv_proc [OF inv, of h] answered(2) by simp
  show ?thesis
    unfolding answered(1)
    by (rule lease_inv_set_proc [OF inv proc_ok_dir_le [OF dir_le_begin [OF answered(3) proc_ok_dir [OF ok]] ok]])
next
  case (read h f n current)
  have "object_ok F w" using inv by (simp add: lease_inv_def)
  from read_current [OF this read(3)]
  have "pc_ok F (w_now w) (current_lease F w) h (w_dir w h) (Read f n current)"
    by (auto split: option.splits)
  then show ?thesis
    unfolding read(1) by (rule lease_inv_set_proc [OF inv proc_ok_pc [OF lease_inv_proc [OF inv]]])
next
  case (free h f n current)
  have "pc_ok F (w_now w) (current_lease F w) h (w_dir w h) (Read f n current)"
    using lease_inv_proc [OF inv, of h] free(2) by (simp add: proc_ok_def)
  then have "pc_ok F (w_now w) (current_lease F w) h (w_dir w h) (Ready f n current)"
    using free(3) by (rule free_ok)
  then show ?thesis
    unfolding free(1) by (rule lease_inv_set_proc [OF inv proc_ok_pc [OF lease_inv_proc [OF inv]]])
next
  case (cached h f n st ms d e)
  have ok: "proc_ok F (w_now w) (current_lease F w) h (w_dir w h) (Read f n (Some st))"
    using lease_inv_proc [OF inv, of h] cached(2) by simp
  then obtain c s where cur: "current_lease F w = Some (c, s)" "sl_version st = sl_version s \<longrightarrow> st = s"
    by (auto simp: proc_ok_def snapshot_ok_def)
  have "expired_for F (w_now w) (current_lease F w) h" if "ms = 0" "sl_version st = sl_version (snd (the (current_lease F w)))"
  proof (rule cached_expired [OF _ _ cur(1)])
    show "obs_ok F (w_now w) (current_lease F w) h (w_dir w h)" using ok by (simp add: proc_ok_def)
    show "cached_remaining_ms (w_dir w h) (fl_path F) s (w_now w) = Some 0" using cached(4) that cur by simp
  qed
  with ready_ok [OF ok cached(5)] show ?thesis
    unfolding cached(1) by (blast intro: lease_inv_set_proc [OF inv])
next
  case (probe h f n st)
  let ?d = "(w_dir w h)\<lparr> ld_clock_probe := ld_clock_probe (w_dir w h) + 1 \<rparr>"
  have ok: "proc_ok F (w_now w) (current_lease F w) h (w_dir w h) (Read f n (Some st))"
    using lease_inv_proc [OF inv, of h] probe(2) by simp
  have obj: "object_ok F w" using inv by (simp add: lease_inv_def)
  have "dir_le F (w_dir w h) ?d"
    using proc_ok_dir [OF ok] by (simp add: dir_le_def dir_ok_def)
  then have "proc_ok F (w_now w) (current_lease F w) h ?d (Read f n (Some st))"
    using ok by (rule proc_ok_dir_le)
  moreover obtain c s where cur: "current_lease F w = Some (c, s)" and snap: "snapshot_ok (current_lease F w) st"
    using ok by (auto simp: proc_ok_def snapshot_ok_def)
  have "pc_ok F (w_now w) (current_lease F w) h ?d (Probing f n st (w_now w))"
    using snap current_facts(1) [OF obj cur] by (simp add: cur)
  ultimately have "proc_ok F (w_now w) (current_lease F w) h ?d (Probing f n st (w_now w))"
    by (rule proc_ok_pc)
  then show ?thesis
    unfolding probe(1) by (rule lease_inv_set_proc [OF inv])
next
  case (probed h f n st now \<tau> d ms d' e)
  have ok: "proc_ok F (w_now w) (current_lease F w) h (w_dir w h) (Probing f n st now)"
    using lease_inv_proc [OF inv, of h] probed(2) by simp
  have obj: "object_ok F w" using inv by (simp add: lease_inv_def)
  have facts: "sl_last_modified_ms s = fl_stamp F c \<and> unat (sl_heartbeat s) = Suc (sl_version s) \<and>
      lease_len F (sl_holder_id s) < sl_duration s + 1000000" if "current_lease F w = Some (c, s)" for c s
    using current_facts(2,3,7) [OF obj that] by simp
  note p = probed_ok [OF ok clock facts probed(3) probed(5) probed(6)]
  from ready_ok [OF p(1) probed(7) p(2)] show ?thesis
    unfolding probed(1) by (rule lease_inv_set_proc [OF inv])
next
  case (send h f n current intent)
  have "proc_ok F (w_now w) (current_lease F w) h (w_dir w h) (Ready f n current)"
    using lease_inv_proc [OF inv, of h] send(2) by simp
  from send_ok [OF this send(3)] show ?thesis
    unfolding send(1) by (rule lease_inv_set_proc [OF inv])
next
  case (commit h f n intent ws)
  then show ?thesis
    using commit_inv [OF inv] few by (simp add: countable_writes_def)
next
  case (written h f n intent ws d r)
  have "proc_ok F (w_now w) (current_lease F w) h d Idle"
    using written_ok [OF _ written(3), of "current_lease F w" h n] lease_inv_proc [OF inv, of h] written(2) by simp
  then have "proc_ok F (w_now w) (current_lease F w) h d (case r of None \<Rightarrow> Reading f n | Some _ \<Rightarrow> Idle)"
    by (rule proc_ok_pc) (simp split: option.splits)
  then show ?thesis
    unfolding written(1) by (rule lease_inv_set_proc [OF inv])
next
  case (conflict h f n intent ws)
  show ?thesis
    unfolding conflict(1) by (rule lease_inv_set_proc [OF inv proc_ok_pc [OF lease_inv_proc [OF inv]]]) simp
next
  case (fail h)
  show ?thesis
    unfolding fail by (rule lease_inv_set_proc [OF inv proc_ok_pc [OF lease_inv_proc [OF inv]]]) simp
next
  case (release h d lease)
  have ok: "proc_ok F (w_now w) (current_lease F w) h (w_dir w h) Idle"
    using lease_inv_proc [OF inv, of h] release(2) by simp
  have le: "dir_le F (w_dir w h) d" "no_entries F d"
    using dir_le_release [OF release(3) proc_ok_dir [OF ok]] by simp_all
  show ?thesis
    unfolding release(1) using proc_ok_dir_le [OF le(1) ok] le(2)
    by (intro lease_inv_set_proc [OF inv]) (simp add: proc_ok_def)
next
  case (release_read h g n st hb dur payload)
  have ok: "proc_ok F (w_now w) (current_lease F w) h (w_dir w h) (Rel_Reading g (Suc n))"
    using lease_inv_proc [OF inv, of h] release_read(2) by simp
  have obj: "object_ok F w" using inv by (simp add: lease_inv_def)
  obtain c where "current_lease F w = Some (c, st)"
    using read_current [OF obj release_read(3)] by auto
  then have "release_ok F (current_lease F w) h g hb dur payload (sl_version st)"
    using release_read(4) proc_ok_dir [OF ok]
    by (auto simp: release_check_def release_ok_def dir_ok_def Let_def and_then_def split: if_splits sum.splits)
  then show ?thesis
    unfolding release_read(1) using ok by (intro lease_inv_set_proc [OF inv]) (simp add: proc_ok_def)
next
  case (release_commit h g n hb dur payload v ws)
  then show ?thesis
    using release_commit_inv [OF inv] few by (simp add: countable_writes_def)
next
  case (release_written h g hb dur ws)
  have "proc_ok F (w_now w) (current_lease F w) h (w_dir w h) (Rel_Written g hb dur ws)"
    using lease_inv_proc [OF inv, of h] release_written(2) by simp
  from release_written_ok [OF this] show ?thesis
    unfolding release_written(1) by (rule lease_inv_set_proc [OF inv])
next
  case (release_conflict h g n hb dur payload v ws)
  have "no_entries F (w_dir w h)"
    using lease_inv_proc [OF inv, of h] release_conflict(2) by (simp add: proc_ok_def)
  then show ?thesis
    unfolding release_conflict(1)
    by (intro lease_inv_set_proc [OF inv proc_ok_pc [OF lease_inv_proc [OF inv]]]) simp
next
  case (abandon h scope node)
  then show ?thesis
    using lease_inv_proc [OF inv, of h] abandon_ok by (simp add: lease_inv_set_proc [OF inv])
next
  case (elsewhere h d)
  show ?thesis
    unfolding elsewhere(1)
    by (rule lease_inv_set_proc [OF inv proc_ok_dir_le [OF dir_le_elsewhere [OF elsewhere(2)] lease_inv_proc [OF inv]]])
qed

lemma countable_step: "lease_step F w w' \<Longrightarrow> countable_writes w' \<Longrightarrow> countable_writes w"
  by (induction rule: lease_step.cases)
    (auto simp: countable_writes_def put_object_def split: option.splits)

lemma lease_inv_start: "lease_inv F (lease_start F base)"
  by (auto simp: lease_inv_def lease_start_def object_ok_def proc_ok_def dir_ok_def entries_ok_def obs_ok_def
      with_duration_and_holder_def lease_len_def)

lemma lease_reach_inv:
  assumes "lease_reach F w" "countable_writes w" "clock_ok F resolution"
  shows "lease_inv F w"
  using assms(1,2)
proof (induction rule: lease_reach.induct)
  case (step w w')
  then show ?case
    using lease_step_inv [OF step.hyps(2) _ step.prems assms(3)] countable_step [OF step.hyps(2) step.prems] by blast
qed (rule lease_inv_start)

text \<open>A process believes it may write: a valid lease of its own, live or parked.\<close>

definition has_authority :: "lease_directory \<Rightarrow> string \<Rightarrow> string \<Rightarrow> duration \<Rightarrow> bool" where
  "has_authority d path node now \<longleftrightarrow>
     holds_valid_local d path node now \<or> snd (holds_abandoned_local d path node now)"

lemma authority_held:
  assumes "lease_inv F w" "has_authority (w_dir w h) (fl_path F) node (w_now w)"
  shows "held_by (current_lease F w) h"
proof -
  obtain l where "bt_get (ld_local (w_dir w h)) (fl_path F) = Some l \<or> bt_get (ld_abandoned (w_dir w h)) (fl_path F) = Some l"
    "w_now w < ll_valid_until l"
    using assms(2)
    by (auto simp: has_authority_def holds_valid_local_def holds_abandoned_local_def lease_valid_def
        split: option.splits if_splits)
  then have "w_now w < horizon F (w_now w) (current_lease F w) h"
    using lease_inv_proc [OF assms(1), of h] by (auto simp: proc_ok_def entries_ok_def intro: less_le_trans)
  then show ?thesis
    by (simp add: horizon_def split: if_splits)
qed

text \<open>The first process to ask gets the lease.\<close>

lemma first_acquire:
  assumes valid: "valid_component (fl_cell F)" "valid_component (fl_node F h)" "valid_component h"
    and len: "as_millis (lease_len F h) < 2 ^ 64"
  obtains w where "lease_reach F w" "has_authority (w_dir w h) (fl_path F) (fl_node F h) (w_now w)"
    "countable_writes w"
proof -
  let ?w0 = "lease_start F []" and ?path = "fl_path F" and ?n = "fl_node F h"
  let ?d = "with_duration_and_holder [] (fl_duration F h) h"
  have d: "w_dir ?w0 h = ?d" "w_pc ?w0 h = Idle" "w_now ?w0 = 0" "w_object ?w0 = None"
    "ld_holder_id ?d = h" "ld_lease_duration ?d = lease_len F h" "ld_local ?d = []"
    by (simp_all add: lease_start_def with_duration_and_holder_def lease_len_def)
  obtain payload where enc: "encode_writer_lease ?n h 1 1 (lease_len F h) False = Inr payload"
    using encode_writer_lease_ok [OF valid(2,3) len] by blast
  let ?i = "\<lparr> li_same_holder = False, li_generation = 1, li_heartbeat = 1, li_payload = payload,
      li_mode = Put_Create :: nat put_mode \<rparr>"
  have starts: "acquire_begin ?d ?path (fl_cell F) ?n False 0 = (?d, None)"
    using valid by (simp add: acquire_begin_def and_then_def validate_component_def valid_component_def d)
  let ?w1 = "set_proc h ?d (Reading False MAX_WRITER_LEASE_CAS_ATTEMPTS) ?w0"
  have r1: "lease_reach F ?w1"
    by (rule lease_reach.step [OF lease_reach.init lease_step.start]) (use starts d in simp_all)
  let ?w2 = "set_proc h (w_dir ?w1 h) (Read False 15 None) ?w1"
  have r2: "lease_reach F ?w2"
    by (rule lease_reach.step [OF r1 lease_step.read])
      (simp_all add: d get_outcome_def read_stored_def MAX_WRITER_LEASE_CAS_ATTEMPTS_def)
  let ?w3 = "set_proc h (w_dir ?w2 h) (Ready False 15 None) ?w2"
  have r3: "lease_reach F ?w3"
    by (rule lease_reach.step [OF r2 lease_step.free]) simp_all
  let ?w4 = "set_proc h (w_dir ?w3 h) (Writing False 15 ?i (w_now ?w3)) ?w3"
  have r4: "lease_reach F ?w4"
    by (rule lease_reach.step [OF r3 lease_step.send [of _ _ _ _ None]])
      (simp_all add: acquire_intent_def and_then_def d enc Let_def)
  let ?w5 = "set_proc h (w_dir ?w4 h) (Written False 15 ?i 0) (put_object payload ?w4)"
  have r5: "lease_reach F ?w5"
    using lease_reach.step [OF r4 lease_step.commit [of ?w4 h False 15 ?i 0]]
    by (simp add: d cas_accepts_def)
  let ?l = "\<lparr> ll_scope = fl_scope F, ll_cell_id = fl_cell F, ll_node_id = ?n, ll_generation = 1,
      ll_valid_until = lease_len F h \<rparr>"
  obtain d' where wr: "acquire_written ?d ?path (fl_scope F) (fl_cell F) ?n False ?i 0 0 = (d', Some (Inr 1))"
    and l: "bt_get (ld_local d') ?path = Some ?l"
    by (simp add: acquire_written_def Let_def d observe_successful_write_def lease_len_def)
  let ?w6 = "set_proc h d' Idle ?w5"
  have "lease_reach F ?w6"
    using lease_reach.step [OF r5 lease_step.written [of ?w5 h False 15 ?i 0 F d' "Some (Inr 1)"]] wr
    by (simp add: d)
  moreover have "has_authority (w_dir ?w6 h) ?path ?n (w_now ?w6)"
    using l by (simp add: has_authority_def holds_valid_local_def lease_valid_def d lease_len_def less_max_iff_disj)
  moreover have "countable_writes ?w6"
    by (simp add: countable_writes_def put_object_def d)
  ultimately show thesis by (rule that)
qed

definition sample_fleet :: lease_fleet where
  "sample_fleet = \<lparr> fl_path = ''p'', fl_scope = default_graph_scope, fl_cell = ''c'', fl_node = (\<lambda>h. ''n''),
     fl_duration = (\<lambda>h. 2000000000), fl_stamp = (\<lambda>t. int (t div 1000000)), fl_latency = 900000000 \<rparr>"

lemma sample_clock: "clock_ok sample_fleet 1000000"
proof -
  have "int (t' div 1000000) * 1000000 - int (t div 1000000) * 1000000 \<le> int (t' - t) + 1000000" if "t \<le> t'" for t t' :: nat
  proof -
    have "t' div 1000000 * 1000000 \<le> t'" "t < t div 1000000 * 1000000 + 1000000"
      using dividend_less_div_times [of 1000000 t] by simp_all
    with that show ?thesis by linarith
  qed
  then show ?thesis
    by (simp add: clock_ok_def sample_fleet_def SERVER_TIMESTAMP_RESOLUTION_GUARD_def left_diff_distrib)
qed

subsection \<open>Properties\<close>



text \<open>
  C39.  Why the probe must be fast.  The observation is stamped with the time before the clock probe
  but carries the remaining time measured after it, so a probe that takes \<open>L\<close> milliseconds makes
  the observer see the lease expire \<open>L\<close> milliseconds early: with any \<open>L\<close> above the one-second guard
  there is a moment at which the observer's cached answer is zero while the holder, whose write
  started at the very time the server stamped on it, still holds a valid local lease.
\<close>

theorem slow_probe_expires_early:
  assumes stored: "sl_last_modified_ms stored = int c" "sl_duration stored = D * 1000000"
    and probe: "c \<le> a" "1000 < L" "a + L \<le> c + D" "c + D < 2 ^ 63"
    and maps: "bt_inv (ld_observed d)" "bt_inv (ld_local holder)"
    and hold: "ld_lease_duration holder = D * 1000000" "reply < (c + D) * 1000000"
    and t: "t = c + D + 1000 - L"
  shows "cached_remaining_ms (fst (observe_remaining d path stored (a * 1000000) (int (a + L)))) path stored (t * 1000000)
           = Some 0 \<and>
         holds_valid_local (fst (acquire_written holder path scope cell node False intent (c * 1000000) reply))
           path node (t * 1000000)"
proof -
  have sat: "saturating_sub_i64 (int (a + L)) (int c) = int (a + L - c)"
    using probe by (simp add: saturating_sub_i64_def)
  have "durable_remaining stored (int (a + L)) = D * 1000000 + 1000000000 - (a + L - c) * 1000000"
    unfolding durable_remaining_def stored SERVER_TIMESTAMP_RESOLUTION_GUARD_def sat by simp
  then have rem: "durable_remaining stored (int (a + L)) - (t * 1000000 - a * 1000000) = 0"
    using probe t by simp
  have "cached_remaining_ms (fst (observe_remaining d path stored (a * 1000000) (int (a + L)))) path stored (t * 1000000)
      = Some (millis_u64 (durable_remaining stored (int (a + L)) - (t * 1000000 - a * 1000000)))"
    using maps(1)
    by (simp add: observe_remaining_def cached_remaining_ms_def remaining_after_elapsed_def bt_inv_evict Let_def)
  moreover have "t * 1000000 < c * 1000000 + ld_lease_duration holder"
    using probe t hold(1) by simp
  ultimately show ?thesis
    using rem millis_u64_zero [of 0]
      acquire_written_holds(2) [of holder reply "c * 1000000" False scope node path cell intent "t * 1000000"] maps(2) hold
    by (simp add: algebra_simps)
qed

theorem slow_probe_expires_early_witness:
  "let stored = \<lparr> sl_node_id = ''n1'', sl_holder_id = ''h1'', sl_generation = 1, sl_heartbeat = 1,
         sl_duration = 30000 * 1000000, sl_version = (0 :: nat), sl_last_modified_ms = 0, sl_released = False \<rparr>;
       observer = with_duration_and_holder [] (30000 * 1000000) ''h2'';
       holder = with_duration_and_holder [] (30000 * 1000000) ''h1'';
       intent = \<lparr> li_same_holder = False, li_generation = 1, li_heartbeat = 1, li_payload = [], li_mode = Put_Create :: nat put_mode \<rparr> in
   cached_remaining_ms (fst (observe_remaining observer ''p'' stored 0 10000)) ''p'' stored (21000 * 1000000) = Some 0 \<and>
   holds_valid_local (fst (acquire_written holder ''p'' default_graph_scope ''c'' ''n1'' False intent 0 0)) ''p'' ''n1''
     (21000 * 1000000)"
  using slow_probe_expires_early [of
      "\<lparr> sl_node_id = ''n1'', sl_holder_id = ''h1'', sl_generation = 1, sl_heartbeat = 1,
         sl_duration = 30000 * 1000000, sl_version = (0 :: nat), sl_last_modified_ms = 0, sl_released = False \<rparr>"
      0 30000 0 10000 "with_duration_and_holder [] (30000 * 1000000) ''h2''" "with_duration_and_holder [] (30000 * 1000000) ''h1''"
      0 21000 "''p''" default_graph_scope "''c''" "''n1''"]
  by (simp add: with_duration_and_holder_def Let_def)

end
