(* ===== verification/Codec_Idempotency.thy ===== *)
theory Codec_Idempotency
  imports Codec_Records
begin

text \<open>
  The idempotency records of \<open>src/codec.rs\<close>: what a write stores under its idempotency key, and
  what a replay of the key reads back.  Every decoder is characterised completely on the records
  its encoder writes: a replay of the same request returns the first result, any other request
  under the same key is an \<open>IdempotencyConflict\<close>.  The locale \<open>idempotency_codec\<close> states that
  contract once; the nine record kinds interpret it.
\<close>

record segment_compaction_result =
  scr_compacted_through_epoch :: storage_sequence
  scr_source_segments :: u64
  scr_deleted_segment_keys :: u64
  scr_deleted_tombstone_keys :: u64
  scr_input_edges :: u64
  scr_output_edges :: u64

subsection \<open>Tab-separated records\<close>

definition encode_fields :: "string list \<Rightarrow> bytes" where
  "encode_fields fs = join_char tab fs @ [newline]"

definition fields_of :: "string \<Rightarrow> bytes \<Rightarrow> string list result" where
  "fields_of key v = and_then (text_of key v) (\<lambda>s. Inr (split_char tab (trim_end newline s)))"

definition field_text :: "string \<Rightarrow> bool" where
  "field_text f \<longleftrightarrow> tab \<notin> set f \<and> newline \<notin> set f \<and> ascii f"

lemma field_text_simps [simp]:
  "field_text (show_u64 w)" "field_text (show_bool_u8 b)"
  by (simp_all add: field_text_def)

lemma valid_component_field [simp]: "valid_component v \<Longrightarrow> field_text v"
  by (simp add: field_text_def valid_component_notin valid_component_ascii)

lemma join_tab_text:
  "\<forall>f \<in> set fs. field_text f \<Longrightarrow> ascii (join_char tab fs) \<and> newline \<notin> set (join_char tab fs)"
  by (induction tab fs rule: join_char.induct) (auto simp: field_text_def nat_of_byte_def)

lemma fields_of_encode:
  assumes "fs \<noteq> []" "\<forall>f \<in> set fs. field_text f"
  shows "fields_of key (encode_fields fs) = Inr fs"
proof -
  have "ascii (encode_fields fs)"
    using join_tab_text [OF assms(2)] by (simp add: encode_fields_def nat_of_byte_def)
  moreover have "trim_end newline (encode_fields fs) = join_char tab fs"
    using join_tab_text [OF assms(2)] by (simp add: encode_fields_def trim_end_free)
  moreover have "split_char tab (join_char tab fs) = fs"
    using assms by (intro split_join_char) (auto simp: field_text_def)
  ultimately show ?thesis
    by (simp add: fields_of_def text_of_def from_utf8_ascii)
qed

subsection \<open>Edge create and delete\<close>

definition ensure_idempotent_edge ::
    "string \<Rightarrow> string \<Rightarrow> edge_mutation \<Rightarrow> string list \<Rightarrow> unit result" where
  "ensure_idempotent_edge key operation mutation ident =
     (let conflict = Inl (IdempotencyConflict operation (mut_idempotency_key mutation)
            ''this key already stored a result for a different edge'') in
      case ident of
        [cell_id, edge_type, src, dst] \<Rightarrow>
          if cell_id \<noteq> mut_cell_id mutation \<or> edge_type \<noteq> mut_edge_type mutation then conflict
          else and_then (parse_u64 key src ''src'') (\<lambda>s.
            if s \<noteq> mut_src mutation then conflict
            else and_then (parse_u64 key dst ''dst'') (\<lambda>d.
              if d \<noteq> mut_dst mutation then conflict else Inr ()))
      | _ \<Rightarrow> Inl (CorruptValue key ''expected idempotency edge identity''))"

definition encode_commit_idempotency :: "edge_mutation \<Rightarrow> commit_result \<Rightarrow> bytes" where
  "encode_commit_idempotency mutation result =
     encode_fields
       [''graph-commit-idempotency-v1'', show_u64 (cr_epoch result),
        show_bool_u8 (cr_already_existed result), mut_cell_id mutation, mut_edge_type mutation,
        show_u64 (mut_src mutation), show_u64 (mut_dst mutation)]"

definition decode_commit_idempotency :: "string \<Rightarrow> edge_mutation \<Rightarrow> bytes \<Rightarrow> commit_result result" where
  "decode_commit_idempotency key mutation v =
     and_then (fields_of key v) (\<lambda>parts.
     if length parts \<noteq> 7 \<or> parts ! 0 \<noteq> ''graph-commit-idempotency-v1'' then
       Inl (CorruptValue key ''expected graph-commit-idempotency-v1 record with 7 fields'')
     else
       and_then (ensure_idempotent_edge key ''create'' mutation (drop 3 parts)) (\<lambda>_.
       and_then (decode_bool_flag key (parts ! 2) ''already_existed'') (\<lambda>already_existed.
       and_then (parse_u64 key (parts ! 1) ''epoch'') (\<lambda>epoch.
       Inr \<lparr> cr_epoch = epoch, cr_already_existed = already_existed \<rparr>))))"

definition encode_delete_idempotency :: "edge_mutation \<Rightarrow> delete_result \<Rightarrow> bytes" where
  "encode_delete_idempotency mutation result =
     encode_fields
       [''graph-delete-idempotency-v1'', show_u64 (dr_epoch result),
        show_bool_u8 (dr_deleted result), mut_cell_id mutation, mut_edge_type mutation,
        show_u64 (mut_src mutation), show_u64 (mut_dst mutation)]"

definition decode_delete_idempotency :: "string \<Rightarrow> edge_mutation \<Rightarrow> bytes \<Rightarrow> delete_result result" where
  "decode_delete_idempotency key mutation v =
     and_then (fields_of key v) (\<lambda>parts.
     if length parts \<noteq> 7 \<or> parts ! 0 \<noteq> ''graph-delete-idempotency-v1'' then
       Inl (CorruptValue key ''expected graph-delete-idempotency-v1 record with 7 fields'')
     else
       and_then (ensure_idempotent_edge key ''delete'' mutation (drop 3 parts)) (\<lambda>_.
       and_then (decode_bool_flag key (parts ! 2) ''deleted'') (\<lambda>deleted.
       and_then (parse_u64 key (parts ! 1) ''epoch'') (\<lambda>epoch.
       Inr \<lparr> dr_epoch = epoch, dr_deleted = deleted \<rparr>))))"

subsection \<open>Relationships\<close>

definition encode_relationship_delete_idempotency ::
    "edge_mutation \<Rightarrow> relationship_id \<Rightarrow> delete_result \<Rightarrow> bytes" where
  "encode_relationship_delete_idempotency mutation relationship_id result =
     encode_fields
       [''relationship_delete1'', show_u64 (dr_epoch result), show_bool_u8 (dr_deleted result),
        mut_cell_id mutation, mut_edge_type mutation, show_u64 (mut_src mutation),
        show_u64 (mut_dst mutation), show_u64 relationship_id]"

definition decode_relationship_delete_idempotency ::
    "string \<Rightarrow> edge_mutation \<Rightarrow> relationship_id \<Rightarrow> bytes \<Rightarrow> delete_result result" where
  "decode_relationship_delete_idempotency key mutation relationship_id v =
     and_then (fields_of key v) (\<lambda>parts.
     let conflict = Inl (IdempotencyConflict ''relationship-delete'' (mut_idempotency_key mutation)
           ''this key already stored a result for a different relationship'') in
     if length parts \<noteq> 8 \<or> parts ! 0 \<noteq> ''relationship_delete1'' then
       Inl (CorruptValue key ''expected relationship_delete1 record with 8 fields'')
     else if parts ! 3 \<noteq> mut_cell_id mutation \<or> parts ! 4 \<noteq> mut_edge_type mutation then conflict
     else and_then (parse_u64 key (parts ! 5) ''src'') (\<lambda>src.
     if src \<noteq> mut_src mutation then conflict
     else and_then (parse_u64 key (parts ! 6) ''dst'') (\<lambda>dst.
     if dst \<noteq> mut_dst mutation then conflict
     else and_then (parse_u64 key (parts ! 7) ''relationship_id'') (\<lambda>r.
     if r \<noteq> relationship_id then conflict
     else
       and_then (parse_u64 key (parts ! 1) ''epoch'') (\<lambda>epoch.
       and_then (parse_bool_u8 key (parts ! 2) ''deleted'') (\<lambda>deleted.
       Inr \<lparr> dr_epoch = epoch, dr_deleted = deleted \<rparr>))))))"

definition encode_relationship_create_idempotency ::
    "edge_mutation \<Rightarrow> u64 \<Rightarrow> relationship_create_result \<Rightarrow> bytes" where
  "encode_relationship_create_idempotency mutation fingerprint result =
     encode_fields
       [''relationship_create1'', show_u64 (rcr_epoch result), show_u64 (rcr_relationship_id result),
        show_bool_u8 (rcr_structural_edge_inserted result), show_bool_u8 (rcr_already_created result),
        show_u64 fingerprint, mut_cell_id mutation, mut_edge_type mutation,
        show_u64 (mut_src mutation), show_u64 (mut_dst mutation)]"

definition decode_relationship_create_idempotency ::
    "string \<Rightarrow> edge_mutation \<Rightarrow> u64 \<Rightarrow> bytes \<Rightarrow> relationship_create_result result" where
  "decode_relationship_create_idempotency key mutation fingerprint v =
     and_then (fields_of key v) (\<lambda>parts.
     let conflict = Inl (IdempotencyConflict ''relationship-create'' (mut_idempotency_key mutation)
           ''this key already stored a result for a different edge or payload'') in
     if length parts \<noteq> 10 \<or> parts ! 0 \<noteq> ''relationship_create1'' then
       Inl (CorruptValue key ''expected relationship_create1 record with 10 fields'')
     else and_then (parse_u64 key (parts ! 5) ''fingerprint'') (\<lambda>f.
     if f \<noteq> fingerprint \<or> parts ! 6 \<noteq> mut_cell_id mutation \<or> parts ! 7 \<noteq> mut_edge_type mutation
     then conflict
     else and_then (parse_u64 key (parts ! 8) ''src'') (\<lambda>src.
     if src \<noteq> mut_src mutation then conflict
     else and_then (parse_u64 key (parts ! 9) ''dst'') (\<lambda>dst.
     if dst \<noteq> mut_dst mutation then conflict
     else
       and_then (parse_u64 key (parts ! 1) ''epoch'') (\<lambda>epoch.
       and_then (parse_u64 key (parts ! 2) ''relationship_id'') (\<lambda>r.
       and_then (parse_bool_u8 key (parts ! 3) ''structural_edge_inserted'') (\<lambda>ins.
       and_then (parse_bool_u8 key (parts ! 4) ''already_created'') (\<lambda>cre.
       Inr \<lparr> rcr_epoch = epoch, rcr_relationship_id = r, rcr_structural_edge_inserted = ins,
             rcr_already_created = cre \<rparr>))))))))"

definition encode_relationship_import_idempotency ::
    "string \<Rightarrow> u64 \<Rightarrow> relationship_import_result \<Rightarrow> bytes" where
  "encode_relationship_import_idempotency idempotency_key fingerprint result =
     encode_fields
       [''relationship_import1'', show_u64 (rir_start_epoch result), show_u64 (rir_end_epoch result),
        show_u64 (rir_relationships_inserted result), show_u64 (rir_relationships_already_existed result),
        show_u64 (rir_structural_edges_inserted result),
        show_u64 (rir_structural_edges_already_existed result), show_u64 fingerprint, idempotency_key]"

definition decode_relationship_import_idempotency ::
    "string \<Rightarrow> string \<Rightarrow> u64 \<Rightarrow> bytes \<Rightarrow> relationship_import_result result" where
  "decode_relationship_import_idempotency key idempotency_key fingerprint v =
     and_then (fields_of key v) (\<lambda>parts.
     if length parts \<noteq> 9 \<or> parts ! 0 \<noteq> ''relationship_import1'' then
       Inl (CorruptValue key ''expected relationship_import1 record with 9 fields'')
     else if parts ! 8 \<noteq> idempotency_key then
       Inl (IdempotencyConflict ''relationship-import'' idempotency_key
         ''the stored record names a different key'')
     else and_then (parse_u64 key (parts ! 7) ''fingerprint'') (\<lambda>f.
     if f \<noteq> fingerprint then
       Inl (IdempotencyConflict ''relationship-import'' idempotency_key
         ''this key already stored a result for a different payload'')
     else
       and_then (parse_u64 key (parts ! 1) ''start_epoch'') (\<lambda>a.
       and_then (parse_u64 key (parts ! 2) ''end_epoch'') (\<lambda>b.
       and_then (parse_u64 key (parts ! 3) ''relationships_inserted'') (\<lambda>c.
       and_then (parse_u64 key (parts ! 4) ''relationships_already_existed'') (\<lambda>d.
       and_then (parse_u64 key (parts ! 5) ''structural_edges_inserted'') (\<lambda>e.
       and_then (parse_u64 key (parts ! 6) ''structural_edges_already_existed'') (\<lambda>g.
       Inr \<lparr> rir_start_epoch = a, rir_end_epoch = b, rir_relationships_inserted = c,
             rir_relationships_already_existed = d, rir_structural_edges_inserted = e,
             rir_structural_edges_already_existed = g \<rparr>))))))))"

subsection \<open>Vertices, cells, imports and compaction\<close>

definition encode_vertex_delete_idempotency ::
    "string \<Rightarrow> vertex_id \<Rightarrow> vertex_delete_result \<Rightarrow> bytes" where
  "encode_vertex_delete_idempotency cell_id vertex_id result =
     encode_fields
       [''vertex_delete1'', show_u64 (vdr_epoch result), show_bool_u8 (vdr_vertex_deleted result),
        show_u64 (vdr_incident_edges_deleted result), show_u64 (vdr_relationships_deleted result),
        cell_id, show_u64 vertex_id]"

definition decode_vertex_delete_idempotency ::
    "string \<Rightarrow> string \<Rightarrow> vertex_id \<Rightarrow> string \<Rightarrow> bytes \<Rightarrow> vertex_delete_result result" where
  "decode_vertex_delete_idempotency key cell_id vertex_id idempotency_key v =
     and_then (fields_of key v) (\<lambda>parts.
     let conflict = Inl (IdempotencyConflict ''vertex-delete'' idempotency_key
           ''this key already stored a result for a different vertex'') in
     if length parts \<noteq> 7 \<or> parts ! 0 \<noteq> ''vertex_delete1'' then
       Inl (CorruptValue key ''expected vertex_delete1 record with 7 fields'')
     else if parts ! 5 \<noteq> cell_id then conflict
     else and_then (parse_u64 key (parts ! 6) ''vertex_id'') (\<lambda>w.
     if w \<noteq> vertex_id then conflict
     else
       and_then (parse_u64 key (parts ! 1) ''epoch'') (\<lambda>a.
       and_then (parse_bool_u8 key (parts ! 2) ''vertex_deleted'') (\<lambda>b.
       and_then (parse_u64 key (parts ! 3) ''incident_edges_deleted'') (\<lambda>c.
       and_then (parse_u64 key (parts ! 4) ''relationships_deleted'') (\<lambda>d.
       Inr \<lparr> vdr_epoch = a, vdr_vertex_deleted = b, vdr_incident_edges_deleted = c,
             vdr_relationships_deleted = d \<rparr>))))))"

definition encode_cell_drop_idempotency ::
    "string \<Rightarrow> string \<Rightarrow> graph_cell_drop_result \<Rightarrow> bytes" where
  "encode_cell_drop_idempotency cell_id idempotency_key result =
     encode_fields
       [''cell_drop1'', show_u64 (gcd_marker_epoch result), show_u64 (gcd_deleted_keys result),
        show_u64 (gcd_batches result), show_bool_u8 (gcd_already_dropped result),
        cell_id, idempotency_key]"

definition decode_cell_drop_idempotency ::
    "string \<Rightarrow> string \<Rightarrow> string \<Rightarrow> bytes \<Rightarrow> graph_cell_drop_result result" where
  "decode_cell_drop_idempotency key cell_id idempotency_key v =
     and_then (fields_of key v) (\<lambda>parts.
     if length parts \<noteq> 7 \<or> parts ! 0 \<noteq> ''cell_drop1'' then
       Inl (CorruptValue key ''expected cell_drop1 record with 7 fields'')
     else if parts ! 5 \<noteq> cell_id \<or> parts ! 6 \<noteq> idempotency_key then
       Inl (IdempotencyConflict ''cell-drop'' idempotency_key
         ''this key already stored a result for a different cell'')
     else
       and_then (parse_u64 key (parts ! 1) ''marker_epoch'') (\<lambda>a.
       and_then (parse_u64 key (parts ! 2) ''deleted_keys'') (\<lambda>b.
       and_then (parse_u64 key (parts ! 3) ''batches'') (\<lambda>c.
       and_then (parse_bool_u8 key (parts ! 4) ''already_dropped'') (\<lambda>d.
       Inr \<lparr> gcd_marker_epoch = a, gcd_deleted_keys = b, gcd_batches = c,
             gcd_already_dropped = d \<rparr>)))))"

definition encode_bulk_import_idempotency :: "string \<Rightarrow> u64 \<Rightarrow> bulk_import_result \<Rightarrow> bytes" where
  "encode_bulk_import_idempotency idempotency_key fingerprint result =
     encode_fields
       [''bulk_import1'', show_u64 (bir_start_epoch result), show_u64 (bir_end_epoch result),
        show_u64 (bir_inserted result), show_u64 (bir_already_existed result),
        show_u64 fingerprint, idempotency_key]"

definition decode_bulk_import_idempotency ::
    "string \<Rightarrow> string \<Rightarrow> u64 \<Rightarrow> bytes \<Rightarrow> bulk_import_result result" where
  "decode_bulk_import_idempotency key idempotency_key fingerprint v =
     and_then (fields_of key v) (\<lambda>parts.
     if length parts \<noteq> 7 \<or> parts ! 0 \<noteq> ''bulk_import1'' then
       Inl (CorruptValue key ''expected bulk_import1 record with 7 fields'')
     else if parts ! 6 \<noteq> idempotency_key then
       Inl (IdempotencyConflict ''bulk-import'' idempotency_key
         ''the stored record names a different key'')
     else and_then (parse_u64 key (parts ! 5) ''fingerprint'') (\<lambda>f.
     if f \<noteq> fingerprint then
       Inl (IdempotencyConflict ''bulk-import'' idempotency_key
         ''this key already stored a result for a different payload'')
     else
       and_then (parse_u64 key (parts ! 1) ''start_epoch'') (\<lambda>a.
       and_then (parse_u64 key (parts ! 2) ''end_epoch'') (\<lambda>b.
       and_then (parse_u64 key (parts ! 3) ''inserted'') (\<lambda>c.
       and_then (parse_u64 key (parts ! 4) ''already_existed'') (\<lambda>d.
       Inr \<lparr> bir_start_epoch = a, bir_end_epoch = b, bir_inserted = c,
             bir_already_existed = d \<rparr>))))))"

definition encode_segment_compaction_idempotency ::
    "string \<Rightarrow> segment_compaction_result \<Rightarrow> bytes" where
  "encode_segment_compaction_idempotency idempotency_key result =
     encode_fields
       [''segment_compact1'', show_u64 (scr_compacted_through_epoch result),
        show_u64 (scr_source_segments result), show_u64 (scr_deleted_segment_keys result),
        show_u64 (scr_deleted_tombstone_keys result), show_u64 (scr_input_edges result),
        show_u64 (scr_output_edges result), idempotency_key]"

definition decode_segment_compaction_idempotency ::
    "string \<Rightarrow> string \<Rightarrow> storage_sequence \<Rightarrow> bytes \<Rightarrow> segment_compaction_result result" where
  "decode_segment_compaction_idempotency key idempotency_key compacted_through_epoch v =
     and_then (fields_of key v) (\<lambda>parts.
     if length parts \<noteq> 8 \<or> parts ! 0 \<noteq> ''segment_compact1'' then
       Inl (CorruptValue key ''expected segment_compact1 record with 8 fields'')
     else if parts ! 7 \<noteq> idempotency_key then
       Inl (IdempotencyConflict ''segment-compact'' idempotency_key
         ''the stored record names a different key'')
     else and_then (parse_u64 key (parts ! 1) ''compacted_through_epoch'') (\<lambda>recorded_epoch.
     if recorded_epoch \<noteq> compacted_through_epoch then
       Inl (IdempotencyConflict ''segment-compact'' idempotency_key
         ''a stored result for this key compacted through a different epoch'')
     else
       and_then (parse_u64 key (parts ! 2) ''source_segments'') (\<lambda>a.
       and_then (parse_u64 key (parts ! 3) ''deleted_segment_keys'') (\<lambda>b.
       and_then (parse_u64 key (parts ! 4) ''deleted_tombstone_keys'') (\<lambda>c.
       and_then (parse_u64 key (parts ! 5) ''input_edges'') (\<lambda>d.
       and_then (parse_u64 key (parts ! 6) ''output_edges'') (\<lambda>e.
       Inr \<lparr> scr_compacted_through_epoch = recorded_epoch, scr_source_segments = a,
             scr_deleted_segment_keys = b, scr_deleted_tombstone_keys = c, scr_input_edges = d,
             scr_output_edges = e \<rparr>)))))))"

subsection \<open>Replays\<close>

lemma flag_names_free:
  "field_text ''graph-commit-idempotency-v1''" "field_text ''graph-delete-idempotency-v1''"
  "field_text ''relationship_delete1''" "field_text ''relationship_create1''"
  "field_text ''relationship_import1''" "field_text ''vertex_delete1''" "field_text ''cell_drop1''"
  "field_text ''bulk_import1''" "field_text ''segment_compact1''"
  by code_simp+

lemmas decoders =
  decode_commit_idempotency_def decode_delete_idempotency_def
  decode_relationship_delete_idempotency_def decode_relationship_create_idempotency_def
  decode_relationship_import_idempotency_def decode_vertex_delete_idempotency_def
  decode_cell_drop_idempotency_def decode_bulk_import_idempotency_def
  decode_segment_compaction_idempotency_def

lemmas encoders =
  encode_commit_idempotency_def encode_delete_idempotency_def
  encode_relationship_delete_idempotency_def encode_relationship_create_idempotency_def
  encode_relationship_import_idempotency_def encode_vertex_delete_idempotency_def
  encode_cell_drop_idempotency_def encode_bulk_import_idempotency_def
  encode_segment_compaction_idempotency_def

definition mutation_ok :: "edge_mutation \<Rightarrow> bool" where
  "mutation_ok m \<longleftrightarrow> valid_component (mut_cell_id m) \<and> valid_component (mut_edge_type m)"

definition same_edge :: "edge_mutation \<Rightarrow> edge_mutation \<Rightarrow> bool" where
  "same_edge m n \<longleftrightarrow>
     mut_cell_id m = mut_cell_id n \<and> mut_edge_type m = mut_edge_type n \<and>
     mut_src m = mut_src n \<and> mut_dst m = mut_dst n"

lemmas replay_simps =
  decoders encoders fields_of_encode flag_names_free mutation_ok_def same_edge_def
  ensure_idempotent_edge_def numeral_eq_Suc Let_def

lemma replay_commit:
  assumes "mutation_ok m"
  shows "decode_commit_idempotency key n (encode_commit_idempotency m r) =
    (if same_edge m n then Inr r
     else Inl (IdempotencyConflict ''create'' (mut_idempotency_key n)
       ''this key already stored a result for a different edge''))"
  using assms by (auto simp: replay_simps)

lemma replay_delete:
  assumes "mutation_ok m"
  shows "decode_delete_idempotency key n (encode_delete_idempotency m r) =
    (if same_edge m n then Inr r
     else Inl (IdempotencyConflict ''delete'' (mut_idempotency_key n)
       ''this key already stored a result for a different edge''))"
  using assms by (auto simp: replay_simps)

lemma replay_relationship_delete:
  assumes "mutation_ok m"
  shows "decode_relationship_delete_idempotency key n rid'
      (encode_relationship_delete_idempotency m rid r) =
    (if same_edge m n \<and> rid = rid' then Inr r
     else Inl (IdempotencyConflict ''relationship-delete'' (mut_idempotency_key n)
       ''this key already stored a result for a different relationship''))"
  using assms by (auto simp: replay_simps)

lemma replay_relationship_create:
  assumes "mutation_ok m"
  shows "decode_relationship_create_idempotency key n fp'
      (encode_relationship_create_idempotency m fp r) =
    (if same_edge m n \<and> fp = fp' then Inr r
     else Inl (IdempotencyConflict ''relationship-create'' (mut_idempotency_key n)
       ''this key already stored a result for a different edge or payload''))"
  using assms by (auto simp: replay_simps)

lemma replay_relationship_import:
  assumes "valid_component i"
  shows "decode_relationship_import_idempotency key j fp'
      (encode_relationship_import_idempotency i fp r) =
    (if i \<noteq> j then
       Inl (IdempotencyConflict ''relationship-import'' j ''the stored record names a different key'')
     else if fp \<noteq> fp' then
       Inl (IdempotencyConflict ''relationship-import'' j
         ''this key already stored a result for a different payload'')
     else Inr r)"
  using assms by (auto simp: replay_simps)

lemma replay_bulk_import:
  assumes "valid_component i"
  shows "decode_bulk_import_idempotency key j fp' (encode_bulk_import_idempotency i fp r) =
    (if i \<noteq> j then
       Inl (IdempotencyConflict ''bulk-import'' j ''the stored record names a different key'')
     else if fp \<noteq> fp' then
       Inl (IdempotencyConflict ''bulk-import'' j
         ''this key already stored a result for a different payload'')
     else Inr r)"
  using assms by (auto simp: replay_simps)

lemma replay_vertex_delete:
  assumes "valid_component c"
  shows "decode_vertex_delete_idempotency key c' w' j (encode_vertex_delete_idempotency c w r) =
    (if c = c' \<and> w = w' then Inr r
     else Inl (IdempotencyConflict ''vertex-delete'' j
       ''this key already stored a result for a different vertex''))"
  using assms by (auto simp: replay_simps)

lemma replay_cell_drop:
  assumes "valid_component c" "valid_component i"
  shows "decode_cell_drop_idempotency key c' j (encode_cell_drop_idempotency c i r) =
    (if c = c' \<and> i = j then Inr r
     else Inl (IdempotencyConflict ''cell-drop'' j
       ''this key already stored a result for a different cell''))"
  using assms by (auto simp: replay_simps)

lemma replay_segment_compaction:
  assumes "valid_component i"
  shows "decode_segment_compaction_idempotency key j epoch
      (encode_segment_compaction_idempotency i r) =
    (if i \<noteq> j then
       Inl (IdempotencyConflict ''segment-compact'' j ''the stored record names a different key'')
     else if scr_compacted_through_epoch r \<noteq> epoch then
       Inl (IdempotencyConflict ''segment-compact'' j
         ''a stored result for this key compacted through a different epoch'')
     else Inr r)"
  using assms by (auto simp: replay_simps)

subsection \<open>The replay contract\<close>

lemma class_index_conflict: "class_index (IdempotencyConflict op k why) = CLASS_CONTENTION"
  by (simp add: class_index_def)

locale idempotency_codec =
  fixes encode :: "'i \<Rightarrow> 'r \<Rightarrow> bytes"
    and decode :: "string \<Rightarrow> 'i \<Rightarrow> bytes \<Rightarrow> 'r result"
    and same :: "'i \<Rightarrow> 'i \<Rightarrow> bool"
    and ok :: "'i \<Rightarrow> 'r \<Rightarrow> bool"
  assumes same_refl: "same i i"
    and replay: "ok i r \<Longrightarrow> same i j \<Longrightarrow> decode key j (encode i r) = Inr r"
    and conflict: "ok i r \<Longrightarrow> \<not> same i j \<Longrightarrow>
      \<exists>op k why. decode key j (encode i r) = Inl (IdempotencyConflict op k why)"
begin

lemma replay_same: "ok i r \<Longrightarrow> decode key i (encode i r) = Inr r"
  by (simp add: replay same_refl)

lemma replay_sound: "ok i r \<Longrightarrow> decode key j (encode i r) = Inr r' \<Longrightarrow> same i j \<and> r' = r"
  by (metis Inl_Inr_False Inr_inject conflict replay)

lemma replay_fails: "ok i r \<Longrightarrow> decode key j (encode i r) = Inl e \<Longrightarrow>
    \<not> same i j \<and> class_index e = CLASS_CONTENTION"
  by (metis Inl_Inr_False class_index_conflict conflict replay sum.inject(1))

lemma result_determined: "ok i r \<Longrightarrow> ok i r' \<Longrightarrow> encode i r = encode i r' \<Longrightarrow> r = r'"
  by (metis Inr_inject replay_same)

end

interpretation commit_replay: idempotency_codec encode_commit_idempotency decode_commit_idempotency
    same_edge "\<lambda>m r. mutation_ok m"
  by unfold_locales (auto simp: replay_commit same_edge_def [of i i for i])

interpretation delete_replay: idempotency_codec encode_delete_idempotency decode_delete_idempotency
    same_edge "\<lambda>m r. mutation_ok m"
  by unfold_locales (auto simp: replay_delete same_edge_def [of i i for i])

interpretation relationship_delete_replay: idempotency_codec
    "\<lambda>(m, rid). encode_relationship_delete_idempotency m rid"
    "\<lambda>key (m, rid). decode_relationship_delete_idempotency key m rid"
    "\<lambda>(m, rid) (n, rid'). same_edge m n \<and> rid = rid'" "\<lambda>(m, _) r. mutation_ok m"
  by unfold_locales (auto simp: replay_relationship_delete same_edge_def [of i i for i])

interpretation relationship_create_replay: idempotency_codec
    "\<lambda>(m, fp). encode_relationship_create_idempotency m fp"
    "\<lambda>key (m, fp). decode_relationship_create_idempotency key m fp"
    "\<lambda>(m, fp) (n, fp'). same_edge m n \<and> fp = fp'" "\<lambda>(m, _) r. mutation_ok m"
  by unfold_locales (auto simp: replay_relationship_create same_edge_def [of i i for i])

interpretation relationship_import_replay: idempotency_codec
    "\<lambda>(i, fp). encode_relationship_import_idempotency i fp"
    "\<lambda>key (i, fp). decode_relationship_import_idempotency key i fp"
    "(=)" "\<lambda>(i, _) r. valid_component i"
  by unfold_locales (auto simp: replay_relationship_import)

interpretation bulk_import_replay: idempotency_codec
    "\<lambda>(i, fp). encode_bulk_import_idempotency i fp"
    "\<lambda>key (i, fp). decode_bulk_import_idempotency key i fp"
    "(=)" "\<lambda>(i, _) r. valid_component i"
  by unfold_locales (auto simp: replay_bulk_import)

interpretation vertex_delete_replay: idempotency_codec
    "\<lambda>(c, w, i). encode_vertex_delete_idempotency c w"
    "\<lambda>key (c, w, i). decode_vertex_delete_idempotency key c w i"
    "\<lambda>(c, w, i) (c', w', j). c = c' \<and> w = w'" "\<lambda>(c, _, _) r. valid_component c"
  by unfold_locales (auto simp: replay_vertex_delete)

interpretation cell_drop_replay: idempotency_codec
    "\<lambda>(c, i). encode_cell_drop_idempotency c i"
    "\<lambda>key (c, i). decode_cell_drop_idempotency key c i"
    "(=)" "\<lambda>(c, i) r. valid_component c \<and> valid_component i"
  by unfold_locales (auto simp: replay_cell_drop)

interpretation segment_compaction_replay: idempotency_codec
    "\<lambda>(i, epoch). encode_segment_compaction_idempotency i"
    "\<lambda>key (i, epoch). decode_segment_compaction_idempotency key i epoch"
    "(=)" "\<lambda>(i, epoch) r. valid_component i \<and> scr_compacted_through_epoch r = epoch"
  by unfold_locales (auto simp: replay_segment_compaction)

subsection \<open>Properties\<close>

text \<open>
  C20.  Edge creates and deletes are exactly-once under their idempotency key: reading back the
  record of a request returns that request's first result when the replay names the same edge, and
  an \<open>IdempotencyConflict\<close> when it names another.
\<close>

theorem edge_replay_exact:
  "mutation_ok m \<Longrightarrow>
    decode_commit_idempotency key n (encode_commit_idempotency m r) =
      (if same_edge m n then Inr r
       else Inl (IdempotencyConflict ''create'' (mut_idempotency_key n)
         ''this key already stored a result for a different edge'')) \<and>
    decode_delete_idempotency key n (encode_delete_idempotency m d) =
      (if same_edge m n then Inr d
       else Inl (IdempotencyConflict ''delete'' (mut_idempotency_key n)
         ''this key already stored a result for a different edge''))"
  by (simp add: replay_commit replay_delete)

theorem edge_replay_exact_witness:
  "decode_commit_idempotency ''k''
     \<lparr> mut_cell_id = ''c1'', mut_edge_type = ''KNOWS'', mut_src = 7, mut_dst = 9, mut_idempotency_key = ''i'' \<rparr>
     (encode_commit_idempotency
       \<lparr> mut_cell_id = ''c1'', mut_edge_type = ''KNOWS'', mut_src = 7, mut_dst = 8, mut_idempotency_key = ''i'' \<rparr>
       \<lparr> cr_epoch = 4, cr_already_existed = False \<rparr>) =
   Inl (IdempotencyConflict ''create'' ''i'' ''this key already stored a result for a different edge'')"
proof -
  have "mutation_ok
      \<lparr> mut_cell_id = ''c1'', mut_edge_type = ''KNOWS'', mut_src = 7, mut_dst = 8, mut_idempotency_key = ''i'' \<rparr>"
    by code_simp
  from edge_replay_exact [OF this] show ?thesis by (simp add: same_edge_def)
qed



end
