(* ===== verification/Graph_Txn.thy ===== *)
theory Graph_Txn
  imports Codec_Idempotency
begin

text \<open>
  Transactions over the storage engine, as \<open>src/codec.rs\<close> and \<open>src/shard/write.rs\<close> use them: the
  reads a mutation makes, the records and secondary indexes it maintains, and the commit.

  SlateDB is third-party code, so the operations the shard calls on a transaction are the fields of
  a record \<open>kv_db\<close> that every definition takes as an argument; the locale \<open>kv_store\<close> states what
  the code relies on.  A store is the content a transaction sees, its own writes included, so
  \<open>txn.put\<close> and \<open>txn.delete\<close> return the store that later reads of the same transaction see.
  \<open>graph_view\<close> reads a store at a key of the key space, and the lemmas of the locale turn every
  write into an update of that view.
\<close>

subsection \<open>The storage engine\<close>

record 's kv_db =
  kv_get :: "'s \<Rightarrow> string \<Rightarrow> bytes option"
  kv_put :: "'s \<Rightarrow> string \<Rightarrow> bytes \<Rightarrow> 's"
  kv_delete :: "'s \<Rightarrow> string \<Rightarrow> 's"
  kv_scan_prefix :: "'s \<Rightarrow> string \<Rightarrow> (string \<times> bytes) list"
  kv_seqnum :: "'s \<Rightarrow> storage_sequence"
  kv_commit :: "'s \<Rightarrow> storage_sequence \<Rightarrow> 's result"

text \<open>
  The documented behaviour: point reads see the latest write; a prefix scan returns the entries
  under the prefix in key order; buffered writes leave the sequence of the snapshot alone; and a
  commit that succeeds publishes the content at exactly the requested sequence.
\<close>

locale kv_store =
  fixes db :: "'s kv_db"
  assumes get_put: "kv_get db (kv_put db s k v) k' = (if k' = k then Some v else kv_get db s k')"
    and get_delete: "kv_get db (kv_delete db s k) k' = (if k' = k then None else kv_get db s k')"
    and scan_sorted: "bt_inv (kv_scan_prefix db s p)"
    and scan_entries: "(k, v) \<in> set (kv_scan_prefix db s p) \<longleftrightarrow> prefix p k \<and> kv_get db s k = Some v"
    and seqnum_put: "kv_seqnum db (kv_put db s k v) = kv_seqnum db s"
    and seqnum_delete: "kv_seqnum db (kv_delete db s k) = kv_seqnum db s"
    and commit_content: "kv_commit db s q = Inr s' \<Longrightarrow> kv_get db s' = kv_get db s"
    and commit_seqnum: "kv_commit db s q = Inr s' \<Longrightarrow> kv_seqnum db s' = q"

text \<open>An engine that keeps its content in one ordered map and never refuses a commit.\<close>

typedef ordered_bytes = "{m :: (string, bytes) btree_map. bt_inv m}"
  by (rule exI [of _ "[]"]) simp

setup_lifting type_definition_ordered_bytes

lift_definition ob_get :: "ordered_bytes \<Rightarrow> string \<Rightarrow> bytes option" is bt_get .

lift_definition ob_put :: "ordered_bytes \<Rightarrow> string \<Rightarrow> bytes \<Rightarrow> ordered_bytes" is
  "\<lambda>m k v. bt_insert k v m" by simp

lift_definition ob_delete :: "ordered_bytes \<Rightarrow> string \<Rightarrow> ordered_bytes" is
  "\<lambda>m k. bt_remove k m" by simp

lift_definition ob_scan :: "ordered_bytes \<Rightarrow> string \<Rightarrow> (string \<times> bytes) list" is
  "\<lambda>m p. filter (\<lambda>(k, v). prefix p k) m" .

lift_definition ob_empty :: ordered_bytes is "[]" by simp

type_synonym mem_store = "ordered_bytes \<times> storage_sequence"

definition mem_db :: "mem_store kv_db" where
  "mem_db = \<lparr> kv_get = (\<lambda>(m, q). ob_get m), kv_put = (\<lambda>(m, q) k v. (ob_put m k v, q)),
     kv_delete = (\<lambda>(m, q) k. (ob_delete m k, q)), kv_scan_prefix = (\<lambda>(m, q). ob_scan m),
     kv_seqnum = snd, kv_commit = (\<lambda>(m, q) q'. Inr (m, q')) \<rparr>"

lemma ob_laws [simp]:
  "ob_get (ob_put m k v) k' = (if k' = k then Some v else ob_get m k')"
  "ob_get (ob_delete m k) k' = (if k' = k then None else ob_get m k')"
  "bt_inv (ob_scan m p)"
  "(k, v) \<in> set (ob_scan m p) \<longleftrightarrow> prefix p k \<and> ob_get m k = Some v"
  "ob_get ob_empty k = None" "ob_scan ob_empty p = []"
  by (transfer; auto simp: bt_inv_filter bt_get_Some_set)+

interpretation mem: kv_store mem_db
  by unfold_locales (auto simp: mem_db_def)

subsection \<open>The shard's part of a transaction\<close>

datatype write_authority = WA_ReadOnly | WA_Promotable | WA_Writer

text \<open>
  The fields of \<open>GraphShard\<close> the write path reads: the index policy, the write authority, whether
  the storage handle has an open writer, whether the call runs inside the write pipeline, and the
  process-local cache of edge types whose changelog floor is known to be stored.
\<close>

datatype graph_index_policy = Full_Index | OutboundOnly_Index

record graph_shard =
  sh_index_policy :: graph_index_policy
  sh_write_authority :: write_authority
  sh_open_writer :: bool
  sh_pipelined :: bool
  sh_xlog_floor_ensured :: "string btree_set"

definition write_reverse_index :: "graph_index_policy \<Rightarrow> bool" where
  "write_reverse_index p = (case p of Full_Index \<Rightarrow> True | OutboundOnly_Index \<Rightarrow> False)"

definition writes_reverse_index :: "graph_shard \<Rightarrow> bool" where
  "writes_reverse_index shard = write_reverse_index (sh_index_policy shard)"

definition db_writer :: "graph_shard \<Rightarrow> unit result" where
  "db_writer shard = (if sh_open_writer shard then Inr () else Inl ReadOnlyShardStorage)"

definition ensure_write_authority :: "graph_shard \<Rightarrow> string \<Rightarrow> string \<Rightarrow> unit result" where
  "ensure_write_authority shard cell_id operation =
     (case sh_write_authority shard of
        WA_ReadOnly \<Rightarrow> Inl (WriteRequiresWriter operation cell_id)
      | WA_Promotable \<Rightarrow> db_writer shard
      | WA_Writer \<Rightarrow> db_writer shard)"

subsection \<open>Reads\<close>

definition read_txn_remote :: "'s kv_db \<Rightarrow> 's \<Rightarrow> graph_key \<Rightarrow> bytes option" where
  "read_txn_remote db s k = kv_get db s (render k)"

definition txn_put :: "'s kv_db \<Rightarrow> 's \<Rightarrow> graph_key \<Rightarrow> bytes \<Rightarrow> 's" where
  "txn_put db s k v = kv_put db s (render k) v"

definition txn_delete :: "'s kv_db \<Rightarrow> 's \<Rightarrow> graph_key \<Rightarrow> 's" where
  "txn_delete db s k = kv_delete db s (render k)"

definition txn_scan_prefix :: "'s kv_db \<Rightarrow> 's \<Rightarrow> key_prefix \<Rightarrow> (string \<times> bytes) list" where
  "txn_scan_prefix db s p = kv_scan_prefix db s (render_prefix p)"

definition validate_write_fence_txn ::
    "'s kv_db \<Rightarrow> graph_shard \<Rightarrow> 's \<Rightarrow> string \<Rightarrow> string \<Rightarrow> unit result" where
  "validate_write_fence_txn db shard s cell_id operation =
     (if operation \<noteq> ''drop_cell'' \<and>
         (read_txn_remote db s (K_CellDropMarker cell_id) \<noteq> None \<or>
          read_txn_remote db s (K_CellDropPendingMarker cell_id) \<noteq> None)
      then Inl (CellDropped operation cell_id)
      else ensure_write_authority shard cell_id operation)"

definition read_counter_txn :: "'s kv_db \<Rightarrow> 's \<Rightarrow> graph_key \<Rightarrow> u64 result" where
  "read_counter_txn db s k =
     (case read_txn_remote db s k of
        Some v \<Rightarrow> decode_u64 (render k) v
      | None \<Rightarrow> Inr 0)"

definition next_epoch_txn :: "'s kv_db \<Rightarrow> 's \<Rightarrow> string \<Rightarrow> storage_sequence result" where
  "next_epoch_txn db s cell_id =
     ok_or (CorruptValue (''cell/'' @ cell_id @ ''/storage_sequence'') ''SlateDB storage sequence overflow'')
       (checked_add_u64 (kv_seqnum db s) 1)"

definition commit_txn_strict :: "'s kv_db \<Rightarrow> 's \<Rightarrow> 's result" where
  "commit_txn_strict db s =
     and_then (ok_or (CorruptValue ''storage_sequence'' ''SlateDB storage sequence overflow'')
       (checked_add_u64 (kv_seqnum db s) 1)) (\<lambda>sequence.
     kv_commit db s sequence)"

subsection \<open>Adjacency\<close>

text \<open>
  The keys of the store are the rendered keys of the key space, which are UTF-8 text, so
  \<open>from_utf8_lossy\<close> of a scanned key is the key.
\<close>

text \<open>The first loop of \<open>out_segment_edges_for_src_txn\<close>: tombstones no newer than the read.\<close>

definition segment_tombstone_step ::
    "string \<Rightarrow> string \<Rightarrow> vertex_id \<Rightarrow> storage_sequence \<Rightarrow>
     (vertex_id, storage_sequence) btree_map \<Rightarrow> string \<times> bytes \<Rightarrow>
     (vertex_id, storage_sequence) btree_map result" where
  "segment_tombstone_step cell_id edge_type src read_epoch tombstones = (\<lambda>(key, v).
     and_then (parse_out_edge_segment_tombstone_key key) (\<lambda>(key_cell_id, key_edge_type, key_src, dst).
     if key_cell_id \<noteq> cell_id \<or> key_edge_type \<noteq> edge_type \<or> key_src \<noteq> src
     then Inl (CorruptValue key ''segment tombstone identity does not match scan prefix'')
     else
       and_then (decode_u64 key v) (\<lambda>epoch.
       Inr (if epoch \<le> read_epoch then bt_insert dst epoch tombstones else tombstones))))"

text \<open>
  The second loop: segments come in the order of their sequence, so the first one above the read
  ends the scan; a destination keeps the greatest sequence it is visible at.
\<close>

definition segment_edge_insert ::
    "(vertex_id, storage_sequence) btree_map \<Rightarrow> storage_sequence \<Rightarrow>
     (vertex_id, storage_sequence) btree_map \<Rightarrow> vertex_id \<Rightarrow> (vertex_id, storage_sequence) btree_map" where
  "segment_edge_insert tombstones sequence edges dst =
     (if segment_edge_visible sequence (bt_get tombstones dst)
      then bt_insert dst
             (case bt_get edges dst of Some current \<Rightarrow> max current sequence | None \<Rightarrow> sequence) edges
      else edges)"

fun segment_edge_scan ::
    "storage_sequence \<Rightarrow> (vertex_id, storage_sequence) btree_map \<Rightarrow>
     (vertex_id, storage_sequence) btree_map \<Rightarrow> (string \<times> bytes) list \<Rightarrow>
     (vertex_id, storage_sequence) btree_map result" where
  "segment_edge_scan read_epoch tombstones edges [] = Inr edges"
| "segment_edge_scan read_epoch tombstones edges ((key, v) # kvs) =
     and_then (decode_out_edge_segment key v) (\<lambda>segment.
     if read_epoch < oes_storage_sequence segment then Inr edges
     else segment_edge_scan read_epoch tombstones
            (foldl (segment_edge_insert tombstones (oes_storage_sequence segment)) edges
               (oes_destinations segment)) kvs)"

definition out_segment_edges_for_src_txn ::
    "'s kv_db \<Rightarrow> 's \<Rightarrow> string \<Rightarrow> string \<Rightarrow> vertex_id \<Rightarrow> storage_sequence \<Rightarrow>
     (vertex_id, storage_sequence) btree_map result" where
  "out_segment_edges_for_src_txn db s cell_id edge_type src read_epoch =
     and_then (fold_res (segment_tombstone_step cell_id edge_type src read_epoch) []
        (txn_scan_prefix db s (P_OutSegmentTombstoneSrcPrefix cell_id edge_type src))) (\<lambda>tombstones.
     segment_edge_scan read_epoch tombstones []
        (txn_scan_prefix db s (P_OutSegmentSrcPrefix cell_id edge_type src)))"

definition out_segment_neighbors_for_src_txn ::
    "'s kv_db \<Rightarrow> 's \<Rightarrow> string \<Rightarrow> string \<Rightarrow> vertex_id \<Rightarrow> storage_sequence \<Rightarrow> vertex_id btree_set result" where
  "out_segment_neighbors_for_src_txn db s cell_id edge_type src read_epoch =
     map_ok bt_keys (out_segment_edges_for_src_txn db s cell_id edge_type src read_epoch)"

definition out_neighbors_for_src_txn ::
    "'s kv_db \<Rightarrow> 's \<Rightarrow> string \<Rightarrow> string \<Rightarrow> vertex_id \<Rightarrow> storage_sequence \<Rightarrow> vertex_id btree_set result" where
  "out_neighbors_for_src_txn db s cell_id edge_type src read_epoch =
     and_then (fold_res (\<lambda>neighbors (key, v).
          and_then (decode_edge_record key v) (\<lambda>record. Inr (bs_insert (er_dst record) neighbors))) []
        (txn_scan_prefix db s (P_OutPrefix cell_id edge_type src))) (\<lambda>neighbors.
     map_ok (bs_extend neighbors)
       (out_segment_neighbors_for_src_txn db s cell_id edge_type src read_epoch))"

definition edge_epoch_at_txn ::
    "'s kv_db \<Rightarrow> 's \<Rightarrow> string \<Rightarrow> string \<Rightarrow> vertex_id \<Rightarrow> vertex_id \<Rightarrow> storage_sequence \<Rightarrow>
     storage_sequence option result" where
  "edge_epoch_at_txn db s cell_id edge_type src dst read_epoch =
     (let edge_key = K_OutEdge cell_id edge_type src dst in
      case read_txn_remote db s edge_key of
        Some v \<Rightarrow> and_then (decode_edge_record (render edge_key) v) (\<lambda>_. Inr (Some read_epoch))
      | None \<Rightarrow> map_ok (\<lambda>edges. bt_get edges dst)
                  (out_segment_edges_for_src_txn db s cell_id edge_type src read_epoch))"

text \<open>The reads of \<open>src/shard/query.rs\<close> the delete path makes, without a query budget.\<close>

definition out_segment_tombstone_epoch_at ::
    "'s kv_db \<Rightarrow> 's \<Rightarrow> string \<Rightarrow> string \<Rightarrow> vertex_id \<Rightarrow> vertex_id \<Rightarrow> storage_sequence \<Rightarrow>
     storage_sequence option result" where
  "out_segment_tombstone_epoch_at db s cell_id edge_type src dst read_epoch =
     (let k = K_OutSegmentTombstone cell_id edge_type src dst in
      case read_txn_remote db s k of
        None \<Rightarrow> Inr None
      | Some v \<Rightarrow> and_then (decode_u64 (render k) v) (\<lambda>epoch.
          Inr (if epoch \<le> read_epoch then Some epoch else None)))"

fun segment_records_scan ::
    "storage_sequence \<Rightarrow> (string \<times> bytes) list \<Rightarrow> (storage_sequence \<times> edge_record) list result" where
  "segment_records_scan read_epoch [] = Inr []"
| "segment_records_scan read_epoch ((key, v) # kvs) =
     and_then (decode_out_edge_segment key v) (\<lambda>segment.
     if read_epoch < oes_storage_sequence segment then Inr []
     else map_ok (\<lambda>rest. map (\<lambda>dst. (oes_storage_sequence segment,
              \<lparr> er_cell_id = oes_cell_id segment, er_edge_type = oes_edge_type segment,
                er_src = oes_src segment, er_dst = dst \<rparr>)) (oes_destinations segment) @ rest)
            (segment_records_scan read_epoch kvs))"

definition scan_out_segments_for_src_at ::
    "'s kv_db \<Rightarrow> 's \<Rightarrow> string \<Rightarrow> string \<Rightarrow> vertex_id \<Rightarrow> storage_sequence \<Rightarrow>
     (storage_sequence \<times> edge_record) list result" where
  "scan_out_segments_for_src_at db s cell_id edge_type src read_epoch =
     segment_records_scan read_epoch (txn_scan_prefix db s (P_OutSegmentSrcPrefix cell_id edge_type src))"

definition out_segment_edge_record_at ::
    "'s kv_db \<Rightarrow> 's \<Rightarrow> string \<Rightarrow> string \<Rightarrow> vertex_id \<Rightarrow> vertex_id \<Rightarrow> storage_sequence \<Rightarrow>
     (storage_sequence \<times> edge_record) option result" where
  "out_segment_edge_record_at db s cell_id edge_type src dst read_epoch =
     and_then (out_segment_tombstone_epoch_at db s cell_id edge_type src dst read_epoch) (\<lambda>tombstone_epoch.
     and_then (scan_out_segments_for_src_at db s cell_id edge_type src read_epoch) (\<lambda>edges.
     Inr (foldl (\<lambda>latest (sequence, edge).
            if er_dst edge = dst \<and> segment_edge_visible sequence tombstone_epoch
            then Some (sequence, edge) else latest) None edges)))"

subsection \<open>Vertex and edge metadata\<close>

definition validate_vertex_metadata :: "vertex_metadata \<Rightarrow> unit result" where
  "validate_vertex_metadata metadata =
     and_then (fold_res (\<lambda>_ label. validate_component ''label'' label) () (vm_labels metadata)) (\<lambda>_.
     fold_res (\<lambda>_ property. validate_component ''property'' property) ()
       (bt_keys (vm_properties metadata)))"

definition validate_edge_metadata :: "edge_metadata \<Rightarrow> unit result" where
  "validate_edge_metadata metadata =
     fold_res (\<lambda>_ property. validate_component ''property'' property) ()
       (bt_keys (em_properties metadata))"

definition merge_vertex_metadata :: "vertex_metadata \<Rightarrow> vertex_metadata \<Rightarrow> vertex_metadata" where
  "merge_vertex_metadata previous requested =
     \<lparr> vm_labels = bs_extend (vm_labels previous) (vm_labels requested),
       vm_properties = bt_extend (vm_properties previous) (vm_properties requested) \<rparr>"

definition merge_edge_metadata :: "edge_metadata \<Rightarrow> edge_metadata \<Rightarrow> edge_metadata" where
  "merge_edge_metadata previous requested =
     \<lparr> em_properties = bt_extend (em_properties previous) (em_properties requested) \<rparr>"

definition put_vertex_metadata_indexes_txn ::
    "'s kv_db \<Rightarrow> string \<Rightarrow> vertex_id \<Rightarrow> vertex_metadata \<Rightarrow> 's \<Rightarrow> 's" where
  "put_vertex_metadata_indexes_txn db cell_id vertex_id metadata s =
     foldl (\<lambda>s (property, v).
         txn_put db s
           (K_VertexPropertyIndex cell_id property (encode_vertex_property_value_key v) vertex_id)
           (encode_u64 vertex_id))
       (foldl (\<lambda>s label. txn_put db s (K_VertexLabel cell_id label vertex_id) (encode_u64 vertex_id)) s
          (vm_labels metadata))
       (vm_properties metadata)"

definition delete_vertex_metadata_indexes_txn ::
    "'s kv_db \<Rightarrow> string \<Rightarrow> vertex_id \<Rightarrow> vertex_metadata \<Rightarrow> 's \<Rightarrow> 's" where
  "delete_vertex_metadata_indexes_txn db cell_id vertex_id metadata s =
     foldl (\<lambda>s (property, v).
         txn_delete db s
           (K_VertexPropertyIndex cell_id property (encode_vertex_property_value_key v) vertex_id))
       (foldl (\<lambda>s label. txn_delete db s (K_VertexLabel cell_id label vertex_id)) s
          (vm_labels metadata))
       (vm_properties metadata)"

definition apply_vertex_metadata_update_txn ::
    "'s kv_db \<Rightarrow> string \<Rightarrow> vertex_id \<Rightarrow> vertex_metadata \<Rightarrow> vertex_metadata \<Rightarrow> 's \<Rightarrow> 's result" where
  "apply_vertex_metadata_update_txn db cell_id vertex_id previous new s =
     and_then (validate_vertex_metadata new) (\<lambda>_.
     Inr (put_vertex_metadata_indexes_txn db cell_id vertex_id new
       (txn_put db (delete_vertex_metadata_indexes_txn db cell_id vertex_id previous s)
         (K_Vertex cell_id vertex_id) (encode_vertex_metadata new))))"

definition delete_vertex_record_txn ::
    "'s kv_db \<Rightarrow> string \<Rightarrow> vertex_id \<Rightarrow> vertex_metadata \<Rightarrow> 's \<Rightarrow> 's" where
  "delete_vertex_record_txn db cell_id vertex_id previous s =
     txn_delete db (delete_vertex_metadata_indexes_txn db cell_id vertex_id previous s)
       (K_Vertex cell_id vertex_id)"

definition decode_vertex_record :: "string \<Rightarrow> bytes option \<Rightarrow> vertex_metadata option result" where
  "decode_vertex_record key v =
     (case v of None \<Rightarrow> Inr None | Some v \<Rightarrow> map_ok Some (decode_vertex_metadata key v))"

definition read_txn_remote_many ::
    "'s kv_db \<Rightarrow> 's \<Rightarrow> string btree_set \<Rightarrow> (string, bytes option) btree_map" where
  "read_txn_remote_many db s ks = bt_extend [] (map (\<lambda>k. (k, kv_get db s k)) ks)"

text \<open>
  The endpoints of inserted edges that have no record get an empty one; the reads come first, so
  they see the store before the writes.
\<close>

definition ensure_vertex_records_txn ::
    "'s kv_db \<Rightarrow> string \<Rightarrow> vertex_id list \<Rightarrow> vertex_id btree_set \<Rightarrow> bool \<Rightarrow> 's \<Rightarrow> 's \<times> nat" where
  "ensure_vertex_records_txn db cell_id endpoints skip fresh s =
     (let pending = bs_of_list (map (\<lambda>v. render (K_Vertex cell_id v))
            (filter (\<lambda>v. v \<notin> set skip) endpoints));
          existing = (if fresh then [] else read_txn_remote_many db s pending);
          empty_record = encode_vertex_metadata default_vertex_metadata
      in foldl (\<lambda>(s, created) key.
            if Option.bind (bt_get existing key) id = None
            then (kv_put db s key empty_record, created + 1)
            else (s, created)) (s, 0) pending)"

definition put_edge_metadata_indexes_txn ::
    "'s kv_db \<Rightarrow> string \<Rightarrow> string \<Rightarrow> vertex_id \<Rightarrow> vertex_id \<Rightarrow> edge_metadata \<Rightarrow> 's \<Rightarrow> 's" where
  "put_edge_metadata_indexes_txn db cell_id edge_type src dst metadata s =
     foldl (\<lambda>s (property, v).
         txn_put db s
           (K_EdgePropertyIndex cell_id edge_type property (encode_vertex_property_value_key v) src dst)
           (encode_u64 dst)) s (em_properties metadata)"

definition delete_edge_metadata_indexes_txn ::
    "'s kv_db \<Rightarrow> string \<Rightarrow> string \<Rightarrow> vertex_id \<Rightarrow> vertex_id \<Rightarrow> edge_metadata \<Rightarrow> 's \<Rightarrow> 's" where
  "delete_edge_metadata_indexes_txn db cell_id edge_type src dst metadata s =
     foldl (\<lambda>s (property, v).
         txn_delete db s
           (K_EdgePropertyIndex cell_id edge_type property (encode_vertex_property_value_key v) src dst))
       s (em_properties metadata)"

definition apply_edge_metadata_update_txn ::
    "'s kv_db \<Rightarrow> string \<Rightarrow> string \<Rightarrow> vertex_id \<Rightarrow> vertex_id \<Rightarrow> edge_metadata \<Rightarrow> edge_metadata \<Rightarrow>
     's \<Rightarrow> 's result" where
  "apply_edge_metadata_update_txn db cell_id edge_type src dst previous new s =
     and_then (validate_edge_metadata new) (\<lambda>_.
     let s = delete_edge_metadata_indexes_txn db cell_id edge_type src dst previous s;
         k = K_EdgeMetadata cell_id edge_type src dst
     in Inr (if em_properties new = [] then txn_delete db s k
             else put_edge_metadata_indexes_txn db cell_id edge_type src dst new
                    (txn_put db s k (encode_edge_metadata new))))"

subsection \<open>Relationships of a structural edge\<close>

definition RELATIONSHIP_IDENTITY_PROPERTY :: string where
  "RELATIONSHIP_IDENTITY_PROPERTY = ''id''"

definition relationship_property_index_key ::
    "relationship_record \<Rightarrow> string \<Rightarrow> vertex_property_value \<Rightarrow> graph_key" where
  "relationship_property_index_key record property v =
     K_RelationshipPropertyIndex (rr_cell_id record) (rr_edge_type record) property
       (encode_vertex_property_value_key v) (rr_src record) (rr_dst record) (rr_relationship_id record)"

definition delete_merge_pointer ::
    "'s kv_db \<Rightarrow> relationship_record \<Rightarrow> edge_metadata \<Rightarrow> 's \<Rightarrow> 's" where
  "delete_merge_pointer db record metadata s =
     (case bt_get (em_properties metadata) RELATIONSHIP_IDENTITY_PROPERTY of
        None \<Rightarrow> s
      | Some v \<Rightarrow> txn_delete db s
          (K_RelationshipMergeIndex (rr_cell_id record) (rr_edge_type record)
             RELATIONSHIP_IDENTITY_PROPERTY (encode_vertex_property_value_key v)
             (rr_src record) (rr_dst record)))"

definition put_relationship_property_indexes_txn :: "'s kv_db \<Rightarrow> relationship_record \<Rightarrow> 's \<Rightarrow> 's" where
  "put_relationship_property_indexes_txn db record s =
     delete_merge_pointer db record (rr_metadata record)
       (foldl (\<lambda>s (property, v).
           txn_put db s (relationship_property_index_key record property v)
             (encode_u64 (rr_relationship_id record))) s (em_properties (rr_metadata record)))"

definition delete_relationship_property_indexes_txn ::
    "'s kv_db \<Rightarrow> relationship_record \<Rightarrow> edge_metadata \<Rightarrow> 's \<Rightarrow> 's" where
  "delete_relationship_property_indexes_txn db record metadata s =
     delete_merge_pointer db record metadata
       (foldl (\<lambda>s (property, v). txn_delete db s (relationship_property_index_key record property v))
          s (em_properties metadata))"

definition live_relationships_for_edge_txn ::
    "'s kv_db \<Rightarrow> 's \<Rightarrow> string \<Rightarrow> string \<Rightarrow> vertex_id \<Rightarrow> vertex_id \<Rightarrow> relationship_record list result" where
  "live_relationships_for_edge_txn db s cell_id edge_type src dst =
     map_res (\<lambda>(key, v). decode_relationship_record key v)
       (txn_scan_prefix db s (P_RelationshipEdgePrefix cell_id edge_type src dst))"

fun surviving_scan :: "relationship_id btree_set \<Rightarrow> (string \<times> bytes) list \<Rightarrow> bool result" where
  "surviving_scan deleting [] = Inr False"
| "surviving_scan deleting ((key, v) # kvs) =
     and_then (decode_relationship_record key v) (\<lambda>record.
     if rr_relationship_id record \<notin> set deleting then Inr True
     else surviving_scan deleting kvs)"

definition has_surviving_relationship_txn ::
    "'s kv_db \<Rightarrow> 's \<Rightarrow> string \<Rightarrow> string \<Rightarrow> vertex_id \<Rightarrow> vertex_id \<Rightarrow> relationship_id btree_set \<Rightarrow>
     bool result" where
  "has_surviving_relationship_txn db s cell_id edge_type src dst deleting =
     surviving_scan deleting
       (txn_scan_prefix db s (P_RelationshipEdgePrefix cell_id edge_type src dst))"

definition delete_relationship_row_txn :: "'s kv_db \<Rightarrow> 's \<Rightarrow> relationship_record \<Rightarrow> 's" where
  "delete_relationship_row_txn db s record =
     delete_relationship_property_indexes_txn db record (rr_metadata record)
       (txn_delete db
         (txn_delete db s
           (K_Relationship (rr_cell_id record) (rr_edge_type record) (rr_src record) (rr_dst record)
             (rr_relationship_id record)))
         (K_RelationshipId (rr_cell_id record) (rr_relationship_id record)))"

definition delete_prepared_relationships_for_structural_edge_txn ::
    "'s kv_db \<Rightarrow> edge_mutation \<Rightarrow> relationship_record list \<Rightarrow> 's \<Rightarrow> ('s \<times> u64) result" where
  "delete_prepared_relationships_for_structural_edge_txn db mutation relationships s =
     (let s = txn_delete db (foldl (delete_relationship_row_txn db) s relationships)
            (K_RelationshipCount (mut_cell_id mutation) (mut_edge_type mutation) (mut_src mutation)
               (mut_dst mutation))
      in Inr (s, of_nat (length relationships)))"

definition delete_relationships_for_structural_edge_txn ::
    "'s kv_db \<Rightarrow> edge_mutation \<Rightarrow> 's \<Rightarrow> ('s \<times> u64) result" where
  "delete_relationships_for_structural_edge_txn db mutation s =
     and_then (live_relationships_for_edge_txn db s (mut_cell_id mutation) (mut_edge_type mutation)
        (mut_src mutation) (mut_dst mutation)) (\<lambda>relationships.
     delete_prepared_relationships_for_structural_edge_txn db mutation relationships s)"

subsection \<open>The topology changelog\<close>

definition xlog_value :: "bool \<Rightarrow> bytes" where
  "xlog_value exists = (if exists then [CHR 0x01] else [CHR 0x00])"

definition xlog_floor_token :: "string \<Rightarrow> string \<Rightarrow> string" where
  "xlog_floor_token cell_id edge_type = cell_id @ ''/'' @ edge_type"

text \<open>
  The coverage floor: absent, it is set to the epoch of this change; present outside the write
  pipeline, the shard caches that it is stored.
\<close>

definition ensure_xlog_floor ::
    "'s kv_db \<Rightarrow> graph_shard \<Rightarrow> string \<Rightarrow> string \<Rightarrow> storage_sequence \<Rightarrow> 's \<Rightarrow> graph_shard \<times> 's" where
  "ensure_xlog_floor db shard cell_id edge_type epoch s =
     (let floor_token = xlog_floor_token cell_id edge_type;
          low_key = K_XlogLowWater cell_id edge_type
      in if floor_token \<in> set (sh_xlog_floor_ensured shard) then (shard, s)
         else
           case read_txn_remote db s low_key of
             Some _ \<Rightarrow>
               (if sh_pipelined shard then shard
                else shard\<lparr> sh_xlog_floor_ensured := bs_insert floor_token (sh_xlog_floor_ensured shard) \<rparr>, s)
           | None \<Rightarrow> (shard, txn_put db s low_key (encode_u64 epoch)))"

definition mark_topology_change_txn ::
    "'s kv_db \<Rightarrow> graph_shard \<Rightarrow> string \<Rightarrow> string \<Rightarrow> storage_sequence \<Rightarrow>
     (vertex_id \<times> vertex_id \<times> bool) list \<Rightarrow> 's \<Rightarrow> graph_shard \<times> 's" where
  "mark_topology_change_txn db shard cell_id edge_type epoch changes s =
     (let s = txn_put db s (K_MatrixDirty cell_id edge_type) (encode_u64 epoch);
          s = txn_put db s (K_AdjacencyGeneration cell_id edge_type) (encode_u64 epoch)
      in if changes = [] then (shard, s)
         else
           (case ensure_xlog_floor db shard cell_id edge_type epoch s of (shard, s) \<Rightarrow>
             (shard, foldl (\<lambda>s (src, dst, exists).
                txn_put db s (K_XlogEntry cell_id edge_type epoch src dst) (xlog_value exists)) s changes)))"

subsection \<open>The logical view of a store\<close>

definition graph_view :: "'s kv_db \<Rightarrow> 's \<Rightarrow> graph_key \<Rightarrow> bytes option" where
  "graph_view db s k = (if valid_key k then kv_get db s (render k) else None)"

context kv_store
begin

lemma view_put [simp]:
  "valid_key k \<Longrightarrow> graph_view db (txn_put db s k v) = (graph_view db s)(k \<mapsto> v)"
  by (rule ext) (auto simp: graph_view_def txn_put_def get_put render_inject)

lemma view_delete [simp]:
  "valid_key k \<Longrightarrow> graph_view db (txn_delete db s k) = (graph_view db s)(k := None)"
  by (rule ext) (auto simp: graph_view_def txn_delete_def get_delete render_inject)

lemma read_view: "valid_key k \<Longrightarrow> read_txn_remote db s k = graph_view db s k"
  by (simp add: read_txn_remote_def graph_view_def)

lemma seqnum_txn [simp]:
  "kv_seqnum db (txn_put db s k v) = kv_seqnum db s"
  "kv_seqnum db (txn_delete db s k) = kv_seqnum db s"
  by (simp_all add: txn_put_def txn_delete_def seqnum_put seqnum_delete)

lemma view_commit: "kv_commit db s q = Inr s' \<Longrightarrow> graph_view db s' = graph_view db s"
  by (rule ext) (simp add: graph_view_def commit_content)

lemma view_puts:
  "\<forall>x \<in> set xs. valid_key (f x) \<Longrightarrow>
    graph_view db (foldl (\<lambda>s x. txn_put db s (f x) (g x)) s xs) =
      foldl (\<lambda>m x. m(f x \<mapsto> g x)) (graph_view db s) xs"
  by (induction xs arbitrary: s) auto

lemma view_deletes:
  "\<forall>x \<in> set xs. valid_key (f x) \<Longrightarrow>
    graph_view db (foldl (\<lambda>s x. txn_delete db s (f x)) s xs) =
      (\<lambda>k. if k \<in> f ` set xs then None else graph_view db s k)"
  by (induction xs arbitrary: s) auto

lemma seqnum_foldl:
  "(\<And>s x. kv_seqnum db (h s x) = kv_seqnum db s) \<Longrightarrow> kv_seqnum db (foldl h s xs) = kv_seqnum db s"
  by (induction xs arbitrary: s) auto

end

end
