(* ===== verification/Edge_Writes.thy ===== *)
theory Edge_Writes
  imports Graph_Txn
begin

text \<open>
  The transactions of \<open>src/shard/write.rs\<close> that change edges, relationships and vertices one at a
  time: \<open>write_edge\<close> with its metadata variants, \<open>delete_edge\<close>, the append of an adjacency segment,
  \<open>create_relationship\<close>, \<open>set_relationship_metadata\<close>, \<open>delete_relationship\<close> and
  \<open>set_vertex_metadata\<close>, and the retry loop their callers run them in.

  A transaction takes the shard and the store it begins on and returns the shard -- whose changelog
  floor cache it may extend even when it fails -- with either an error, which leaves the committed
  store as it was, or its result and the store it committed.
\<close>

subsection \<open>Parts shared by the transactions\<close>

text \<open>The question-mark operator of a step that carries the shard.\<close>

definition try_with :: "graph_shard \<Rightarrow> 'a result \<Rightarrow> ('a \<Rightarrow> graph_shard \<times> 'b result) \<Rightarrow> graph_shard \<times> 'b result" where
  "try_with shard r f = (case r of Inl e \<Rightarrow> (shard, Inl e) | Inr x \<Rightarrow> f x)"

lemma try_with_simps [simp]:
  "try_with shard (Inl e) f = (shard, Inl e)"
  "try_with shard (Inr x) f = f x"
  by (simp_all add: try_with_def)

text \<open>\<open>writer()?.begin(..)\<close> and the fence check every transaction opens with.\<close>

definition begin_fenced :: "'s kv_db \<Rightarrow> graph_shard \<Rightarrow> 's \<Rightarrow> string \<Rightarrow> string \<Rightarrow> unit result" where
  "begin_fenced db shard s cell_id operation =
     and_then (db_writer shard) (\<lambda>_. validate_write_fence_txn db shard s cell_id operation)"

definition commit_result_with :: "'s kv_db \<Rightarrow> 'r \<Rightarrow> 's \<Rightarrow> ('r \<times> 's) result" where
  "commit_result_with db r s = map_ok (Pair r) (commit_txn_strict db s)"

definition changed_vertex_metadata ::
    "'s kv_db \<Rightarrow> 's \<Rightarrow> string \<Rightarrow> (vertex_id \<times> vertex_metadata) list \<Rightarrow>
     (vertex_id \<times> vertex_metadata \<times> vertex_metadata) list result" where
  "changed_vertex_metadata db s cell_id metadata_updates =
     fold_res (\<lambda>changed (vertex_id, requested).
         let vertex_key = K_Vertex cell_id vertex_id in
         and_then (decode_vertex_record (render vertex_key) (read_txn_remote db s vertex_key)) (\<lambda>existing.
         let previous = (case existing of Some m \<Rightarrow> m | None \<Rightarrow> default_vertex_metadata);
             new = merge_vertex_metadata previous requested
         in Inr (if previous \<noteq> new \<or> existing = None then changed @ [(vertex_id, previous, new)]
                 else changed))) [] metadata_updates"

definition apply_changed_vertex_metadata ::
    "'s kv_db \<Rightarrow> string \<Rightarrow> (vertex_id \<times> vertex_metadata \<times> vertex_metadata) list \<Rightarrow> 's \<Rightarrow> 's result" where
  "apply_changed_vertex_metadata db cell_id changed s =
     fold_res (\<lambda>s (vertex_id, previous, new).
        apply_vertex_metadata_update_txn db cell_id vertex_id previous new s) s changed"

definition read_edge_metadata_txn ::
    "'s kv_db \<Rightarrow> 's \<Rightarrow> string \<Rightarrow> string \<Rightarrow> vertex_id \<Rightarrow> vertex_id \<Rightarrow> edge_metadata result" where
  "read_edge_metadata_txn db s cell_id edge_type src dst =
     (let k = K_EdgeMetadata cell_id edge_type src dst in
      case read_txn_remote db s k of
        Some v \<Rightarrow> decode_edge_metadata (render k) v
      | None \<Rightarrow> Inr default_edge_metadata)"

text \<open>
  The insertion of a structural edge that \<open>write_edge\<close> and \<open>create_relationship\<close> share: the
  counters are read after the changelog entry and written after the edge.  \<open>+ 1\<close> wraps in a
  release build.
\<close>

definition insert_structural_edge_txn ::
    "'s kv_db \<Rightarrow> graph_shard \<Rightarrow> edge_mutation \<Rightarrow> storage_sequence \<Rightarrow> 's \<Rightarrow> graph_shard \<times> 's result" where
  "insert_structural_edge_txn db shard mutation epoch s =
     (let c = mut_cell_id mutation; t = mut_edge_type mutation;
          src = mut_src mutation; dst = mut_dst mutation;
          edge_value = encode_edge_record \<lparr> er_cell_id = c, er_edge_type = t, er_src = src, er_dst = dst \<rparr>
      in case mark_topology_change_txn db shard c t epoch [(src, dst, True)] s of (shard, s) \<Rightarrow>
        try_with shard (read_counter_txn db s (K_DegreeOut c t src)) (\<lambda>out_count.
        try_with shard (if writes_reverse_index shard
                        then map_ok (\<lambda>n. Some (n + 1)) (read_counter_txn db s (K_DegreeIn c t dst))
                        else Inr None) (\<lambda>in_degree.
        let s = txn_put db s (K_OutEdge c t src dst) edge_value;
            s = (if writes_reverse_index shard then txn_put db s (K_InEdge c t dst src) edge_value else s);
            s = txn_put db s (K_DegreeOut c t src) (encode_u64 (out_count + 1));
            s = (case in_degree of Some n \<Rightarrow> txn_put db s (K_DegreeIn c t dst) (encode_u64 n) | None \<Rightarrow> s)
        in (shard, Inr s))))"

subsection \<open>\<open>write_edge\<close>\<close>

definition write_edge_txn_locked_with_metadata ::
    "'s kv_db \<Rightarrow> graph_shard \<Rightarrow> edge_mutation \<Rightarrow> (vertex_id \<times> vertex_metadata) list \<Rightarrow>
     edge_metadata \<Rightarrow> string \<Rightarrow> 's \<Rightarrow> graph_shard \<times> (commit_result \<times> 's) result" where
  "write_edge_txn_locked_with_metadata db shard mutation metadata_updates edge_metadata operation s =
     (let c = mut_cell_id mutation; t = mut_edge_type mutation;
          src = mut_src mutation; dst = mut_dst mutation;
          idem_key = K_Idempotency c ''create'' (mut_idempotency_key mutation)
      in try_with shard (begin_fenced db shard s c operation) (\<lambda>_.
      case read_txn_remote db s idem_key of
        Some v \<Rightarrow> (shard, map_ok (\<lambda>r. (r, s)) (decode_commit_idempotency (render idem_key) mutation v))
      | None \<Rightarrow>
        let current_epoch = kv_seqnum db s in
        try_with shard (edge_epoch_at_txn db s c t src dst current_epoch) (\<lambda>existing_edge_epoch.
        try_with shard (changed_vertex_metadata db s c metadata_updates) (\<lambda>changed_metadata.
        try_with shard (read_edge_metadata_txn db s c t src dst) (\<lambda>previous_edge_metadata.
        let next_edge_metadata = merge_edge_metadata previous_edge_metadata edge_metadata;
            edge_metadata_changed = (previous_edge_metadata \<noteq> next_edge_metadata)
        in if existing_edge_epoch \<noteq> None \<and> changed_metadata = [] \<and> \<not> edge_metadata_changed then
             (let r = \<lparr> cr_epoch = the existing_edge_epoch, cr_already_existed = True \<rparr>
              in (shard, commit_result_with db r
                   (txn_put db s idem_key (encode_commit_idempotency mutation r))))
           else
             try_with shard (ok_or (CorruptValue ''storage_sequence'' ''epoch overflow'')
               (checked_add_u64 current_epoch 1)) (\<lambda>epoch.
             let r = \<lparr> cr_epoch = epoch, cr_already_existed = existing_edge_epoch \<noteq> None \<rparr> in
             try_with shard (apply_changed_vertex_metadata db c changed_metadata s) (\<lambda>s.
             try_with shard (if edge_metadata_changed
                             then apply_edge_metadata_update_txn db c t src dst previous_edge_metadata
                                    next_edge_metadata s
                             else Inr s) (\<lambda>s.
             if existing_edge_epoch \<noteq> None then
               (shard, commit_result_with db r
                  (txn_put db s idem_key (encode_commit_idempotency mutation r)))
             else
               case insert_structural_edge_txn db shard mutation epoch
                      (fst (ensure_vertex_records_txn db c [src, dst]
                         (bs_of_list (map fst metadata_updates)) False s)) of
                 (shard, inserted) \<Rightarrow>
                   try_with shard inserted (\<lambda>s.
                   (shard, commit_result_with db r
                      (txn_put db s idem_key (encode_commit_idempotency mutation r))))))))))))"

definition write_edge_txn_locked ::
    "'s kv_db \<Rightarrow> graph_shard \<Rightarrow> edge_mutation \<Rightarrow> 's \<Rightarrow> graph_shard \<times> (commit_result \<times> 's) result" where
  "write_edge_txn_locked db shard mutation s =
     write_edge_txn_locked_with_metadata db shard mutation [] default_edge_metadata ''write_edge'' s"

subsection \<open>\<open>delete_edge\<close>\<close>

definition clear_edge_metadata_txn ::
    "'s kv_db \<Rightarrow> edge_mutation \<Rightarrow> edge_metadata \<Rightarrow> 's \<Rightarrow> 's result" where
  "clear_edge_metadata_txn db mutation previous s =
     (if em_properties previous \<noteq> []
      then apply_edge_metadata_update_txn db (mut_cell_id mutation) (mut_edge_type mutation)
             (mut_src mutation) (mut_dst mutation) previous default_edge_metadata s
      else Inr s)"

definition delete_noop_txn ::
    "'s kv_db \<Rightarrow> edge_mutation \<Rightarrow> graph_key \<Rightarrow> 's \<Rightarrow> (delete_result \<times> 's) result" where
  "delete_noop_txn db mutation idem_key s =
     (let r = \<lparr> dr_epoch = kv_seqnum db s, dr_deleted = False \<rparr>
      in commit_result_with db r (txn_put db s idem_key (encode_delete_idempotency mutation r)))"

text \<open>
  The branch for an edge that has no record of its own: with the outbound-only policy it may live in
  an adjacency segment, and is then hidden by a tombstone at the new epoch.
\<close>

definition delete_segment_edge_txn ::
    "'s kv_db \<Rightarrow> graph_shard \<Rightarrow> edge_mutation \<Rightarrow> graph_key \<Rightarrow> 's \<Rightarrow>
     graph_shard \<times> (delete_result \<times> 's) result" where
  "delete_segment_edge_txn db shard mutation idem_key s =
     (let c = mut_cell_id mutation; t = mut_edge_type mutation;
          src = mut_src mutation; dst = mut_dst mutation;
          current_epoch = kv_seqnum db s;
          tombstone_key = K_OutSegmentTombstone c t src dst
      in try_with shard (if writes_reverse_index shard then Inr None
                         else out_segment_edge_record_at db s c t src dst current_epoch) (\<lambda>segment_edge.
      case segment_edge of
        None \<Rightarrow> (shard, delete_noop_txn db mutation idem_key s)
      | Some (segment_sequence, _) \<Rightarrow>
        try_with shard (case read_txn_remote db s tombstone_key of
            None \<Rightarrow> Inr None
          | Some v \<Rightarrow> map_ok Some (decode_u64 (render tombstone_key) v)) (\<lambda>tombstone.
        if tombstone \<noteq> None \<and> \<not> segment_edge_visible segment_sequence tombstone then
          (shard, delete_noop_txn db mutation idem_key s)
        else
          try_with shard (ok_or (CorruptValue ''storage_sequence'' ''epoch overflow'')
            (checked_add_u64 current_epoch 1)) (\<lambda>epoch.
          let r = \<lparr> dr_epoch = epoch, dr_deleted = True \<rparr> in
          case mark_topology_change_txn db shard c t epoch [(src, dst, False)] s of (shard, s) \<Rightarrow>
          try_with shard (read_counter_txn db s (K_DegreeOut c t src)) (\<lambda>out_count.
          try_with shard (read_edge_metadata_txn db s c t src dst) (\<lambda>previous_edge_metadata.
          try_with shard (delete_relationships_for_structural_edge_txn db mutation s) (\<lambda>(s, _).
          try_with shard (clear_edge_metadata_txn db mutation previous_edge_metadata s) (\<lambda>s.
          let s = txn_put db s tombstone_key (encode_u64 epoch);
              s = txn_put db s (K_DegreeOut c t src) (encode_u64 (saturating_sub_u64 out_count 1));
              s = txn_put db s idem_key (encode_delete_idempotency mutation r)
          in (shard, commit_result_with db r s)))))))))"

definition delete_edge_txn_locked ::
    "'s kv_db \<Rightarrow> graph_shard \<Rightarrow> edge_mutation \<Rightarrow> 's \<Rightarrow> graph_shard \<times> (delete_result \<times> 's) result" where
  "delete_edge_txn_locked db shard mutation s =
     (let c = mut_cell_id mutation; t = mut_edge_type mutation;
          src = mut_src mutation; dst = mut_dst mutation;
          idem_key = K_Idempotency c ''delete'' (mut_idempotency_key mutation);
          edge_key = K_OutEdge c t src dst
      in try_with shard (begin_fenced db shard s c ''delete_edge'') (\<lambda>_.
      case read_txn_remote db s idem_key of
        Some v \<Rightarrow> (shard, map_ok (\<lambda>r. (r, s)) (decode_delete_idempotency (render idem_key) mutation v))
      | None \<Rightarrow>
      case read_txn_remote db s edge_key of
        None \<Rightarrow> delete_segment_edge_txn db shard mutation idem_key s
      | Some existing \<Rightarrow>
        try_with shard (decode_edge_record (render edge_key) existing) (\<lambda>_.
        try_with shard (next_epoch_txn db s c) (\<lambda>epoch.
        let r = \<lparr> dr_epoch = epoch, dr_deleted = True \<rparr> in
        case mark_topology_change_txn db shard c t epoch [(src, dst, False)] s of (shard, s) \<Rightarrow>
        try_with shard (read_counter_txn db s (K_DegreeOut c t src)) (\<lambda>out_count.
        try_with shard (if writes_reverse_index shard
                        then map_ok (\<lambda>n. Some (saturating_sub_u64 n 1)) (read_counter_txn db s (K_DegreeIn c t dst))
                        else Inr None) (\<lambda>in_degree.
        try_with shard (read_edge_metadata_txn db s c t src dst) (\<lambda>previous_edge_metadata.
        try_with shard (delete_relationships_for_structural_edge_txn db mutation s) (\<lambda>(s, _).
        try_with shard (clear_edge_metadata_txn db mutation previous_edge_metadata s) (\<lambda>s.
        let s = txn_delete db s (K_Edge c t src dst);
            s = txn_delete db s (K_OutEdge c t src dst);
            s = txn_delete db s (K_InEdge c t dst src);
            s = txn_put db s (K_DegreeOut c t src) (encode_u64 (saturating_sub_u64 out_count 1));
            s = (case in_degree of Some n \<Rightarrow> txn_put db s (K_DegreeIn c t dst) (encode_u64 n) | None \<Rightarrow> s);
            s = txn_put db s idem_key (encode_delete_idempotency mutation r)
        in (shard, commit_result_with db r s))))))))))"

subsection \<open>Adjacency segments\<close>

text \<open>\<open>dsts.len()\<close> is a \<open>usize\<close>, so its conversions to \<open>u64\<close> succeed.\<close>

definition bulk_append_out_adjacency_segment_trusted_txn_locked ::
    "'s kv_db \<Rightarrow> graph_shard \<Rightarrow> string \<Rightarrow> string \<Rightarrow> vertex_id \<Rightarrow> vertex_id list \<Rightarrow> string \<Rightarrow> u64 \<Rightarrow> 's \<Rightarrow>
     graph_shard \<times> (bulk_import_result \<times> 's) result" where
  "bulk_append_out_adjacency_segment_trusted_txn_locked db shard cell_id edge_type src dsts
      idempotency_key fingerprint s =
     (let idem_key = K_Idempotency cell_id ''segment-import'' idempotency_key
      in try_with shard (begin_fenced db shard s cell_id ''bulk_append_out_adjacency_segment_trusted'') (\<lambda>_.
      case read_txn_remote db s idem_key of
        Some v \<Rightarrow> (shard, map_ok (\<lambda>r. (r, s))
          (decode_bulk_import_idempotency (render idem_key) idempotency_key fingerprint v))
      | None \<Rightarrow>
        let current_epoch = kv_seqnum db s in
        try_with shard (out_neighbors_for_src_txn db s cell_id edge_type src current_epoch) (\<lambda>existing.
        let inserted_dsts = filter (\<lambda>dst. dst \<notin> set existing) dsts;
            inserted = of_nat (length inserted_dsts)
        in
        try_with shard (if inserted_dsts = [] then Inr current_epoch
          else ok_or (CorruptValue ''segment_import''
                 ''SlateDB storage sequence overflow during segment import'')
               (checked_add_u64 current_epoch 1)) (\<lambda>start_epoch.
        let r = \<lparr> bir_start_epoch = start_epoch, bir_end_epoch = start_epoch, bir_inserted = inserted,
                  bir_already_existed = of_nat (length dsts - length inserted_dsts) \<rparr>;
            finish = (\<lambda>shard s. (shard, commit_result_with db r
              (txn_put db s idem_key (encode_bulk_import_idempotency idempotency_key fingerprint r))))
        in if inserted_dsts = [] then finish shard s
           else
             case mark_topology_change_txn db shard cell_id edge_type start_epoch
                    (map (\<lambda>dst. (src, dst, True)) inserted_dsts)
                    (fst (ensure_vertex_records_txn db cell_id (src # inserted_dsts) []
                       (current_epoch = 0) s)) of (shard, s) \<Rightarrow>
             let s = foldl (\<lambda>s dst. txn_delete db s (K_OutSegmentTombstone cell_id edge_type src dst)) s
                       inserted_dsts;
                 s = txn_put db s (K_OutSegment cell_id edge_type src start_epoch idempotency_key)
                       (encode_out_edge_segment_records inserted_dsts)
             in try_with shard (if current_epoch = 0 then Inr 0
                                else read_counter_txn db s (K_DegreeOut cell_id edge_type src)) (\<lambda>base.
                finish shard (txn_put db s (K_DegreeOut cell_id edge_type src) (encode_u64 (base + inserted))))))))"

subsection \<open>Relationships\<close>

lemma checked_add_measure:
  "checked_add_u64 a 1 = Some b \<Longrightarrow> 2 ^ 64 - unat b < 2 ^ 64 - unat a"
  using checked_add_u64_Some [of a 1 b] unat_u64_bound [of b] by simp

text \<open>
  The loop of \<open>create_relationship\<close> that looks for an unused relationship id; it ends because the
  id grows and the checked addition fails at the end of the range.
\<close>

function free_relationship_id ::
    "'s kv_db \<Rightarrow> 's \<Rightarrow> string \<Rightarrow> relationship_id \<Rightarrow> relationship_id result" where
  "free_relationship_id db s cell_id relationship_id =
     (if read_txn_remote db s (K_RelationshipId cell_id relationship_id) = None then Inr relationship_id
      else case checked_add_u64 relationship_id 1 of
        None \<Rightarrow> Inl (CorruptValue (render (K_LastRelationshipId cell_id)) ''relationship id overflow'')
      | Some next_id \<Rightarrow> free_relationship_id db s cell_id next_id)"
  by pat_completeness auto

termination
  by (relation "measure (\<lambda>(db, s, c, relationship_id). 2 ^ 64 - unat relationship_id)")
    (auto dest: checked_add_measure)

declare free_relationship_id.simps [simp del]

definition create_relationship_txn_locked ::
    "'s kv_db \<Rightarrow> graph_shard \<Rightarrow> edge_mutation \<Rightarrow> (vertex_id \<times> vertex_metadata) list \<Rightarrow>
     edge_metadata \<Rightarrow> u64 \<Rightarrow> 's \<Rightarrow> graph_shard \<times> (relationship_create_result \<times> 's) result" where
  "create_relationship_txn_locked db shard mutation metadata_updates edge_metadata fingerprint s =
     (let c = mut_cell_id mutation; t = mut_edge_type mutation;
          src = mut_src mutation; dst = mut_dst mutation;
          idem_key = K_Idempotency c ''relationship-create'' (mut_idempotency_key mutation)
      in try_with shard (begin_fenced db shard s c ''create_relationship'') (\<lambda>_.
      case read_txn_remote db s idem_key of
        Some v \<Rightarrow> (shard, map_ok (\<lambda>r. (r, s))
          (decode_relationship_create_idempotency (render idem_key) mutation fingerprint v))
      | None \<Rightarrow>
        let current_epoch = kv_seqnum db s in
        try_with shard (edge_epoch_at_txn db s c t src dst current_epoch) (\<lambda>existing_edge_epoch.
        try_with shard (ok_or (CorruptValue ''storage_sequence'' ''epoch overflow during relationship create'')
          (checked_add_u64 current_epoch 1)) (\<lambda>epoch.
        try_with shard (read_counter_txn db s (K_LastRelationshipId c)) (\<lambda>last_id.
        try_with shard (ok_or (CorruptValue (render (K_LastRelationshipId c)) ''relationship id overflow'')
          (checked_add_u64 last_id 1)) (\<lambda>first_id.
        try_with shard (free_relationship_id db s c first_id) (\<lambda>relationship_id.
        try_with shard (changed_vertex_metadata db s c metadata_updates) (\<lambda>changed_metadata.
        try_with shard (apply_changed_vertex_metadata db c changed_metadata
          (txn_put db s (K_LastRelationshipId c) (encode_u64 relationship_id))) (\<lambda>s.
        let s = fst (ensure_vertex_records_txn db c [src, dst] (bs_of_list (map fst metadata_updates)) False s)
        in
        case (if existing_edge_epoch = None then insert_structural_edge_txn db shard mutation epoch s
              else (shard, Inr s)) of (shard, inserted) \<Rightarrow>
        try_with shard inserted (\<lambda>s.
        let record = \<lparr> rr_cell_id = c, rr_edge_type = t, rr_src = src, rr_dst = dst,
              rr_relationship_id = relationship_id, rr_metadata = edge_metadata \<rparr>;
            relationship_key = K_Relationship c t src dst relationship_id;
            s = txn_put db s relationship_key (encode_relationship_record record);
            s = txn_put db s (K_RelationshipId c relationship_id) (render relationship_key)
        in try_with shard (read_counter_txn db s (K_RelationshipCount c t src dst)) (\<lambda>relationship_count.
        let s = txn_put db s (K_RelationshipCount c t src dst) (encode_u64 (relationship_count + 1));
            s = put_relationship_property_indexes_txn db record s;
            r = \<lparr> rcr_epoch = epoch, rcr_relationship_id = relationship_id,
                  rcr_structural_edge_inserted = (existing_edge_epoch = None), rcr_already_created = False \<rparr>
        in (shard, commit_result_with db r
             (txn_put db s idem_key (encode_relationship_create_idempotency mutation fingerprint r))))))))))))))"

definition set_relationship_metadata_txn_locked ::
    "'s kv_db \<Rightarrow> graph_shard \<Rightarrow> string \<Rightarrow> string \<Rightarrow> vertex_id \<Rightarrow> vertex_id \<Rightarrow> relationship_id \<Rightarrow>
     edge_metadata \<Rightarrow> 's \<Rightarrow> (bool \<times> 's) result" where
  "set_relationship_metadata_txn_locked db shard cell_id edge_type src dst relationship_id metadata s =
     and_then (begin_fenced db shard s cell_id ''set_relationship_metadata'') (\<lambda>_.
     let k = K_Relationship cell_id edge_type src dst relationship_id in
     case read_txn_remote db s k of
       None \<Rightarrow> Inl (UnsupportedQuery ''GraphQuery'' ''cannot set metadata for a missing relationship'' QF_Mutation)
     | Some v \<Rightarrow>
       and_then (decode_relationship_record (render k) v) (\<lambda>record.
       if rr_metadata record = metadata then Inr (False, s)
       else
         let previous = rr_metadata record;
             record = record\<lparr> rr_metadata := metadata \<rparr>;
             s = txn_put db s k (encode_relationship_record record);
             s = delete_relationship_property_indexes_txn db record previous s;
             s = put_relationship_property_indexes_txn db record s
         in commit_result_with db True s))"

definition delete_structural_edge_txn ::
    "'s kv_db \<Rightarrow> graph_shard \<Rightarrow> edge_mutation \<Rightarrow> storage_sequence \<Rightarrow> 's \<Rightarrow>
     graph_shard \<times> (bool \<times> 's) result" where
  "delete_structural_edge_txn db shard mutation epoch s =
     (let c = mut_cell_id mutation; t = mut_edge_type mutation;
          src = mut_src mutation; dst = mut_dst mutation
      in if read_txn_remote db s (K_OutEdge c t src dst) = None then (shard, Inr (False, s))
      else
        case mark_topology_change_txn db shard c t epoch [(src, dst, False)] s of (shard, s) \<Rightarrow>
        try_with shard (read_counter_txn db s (K_DegreeOut c t src)) (\<lambda>out_count.
        try_with shard (if writes_reverse_index shard
                        then map_ok (\<lambda>n. Some (saturating_sub_u64 n 1)) (read_counter_txn db s (K_DegreeIn c t dst))
                        else Inr None) (\<lambda>in_degree.
        try_with shard (read_edge_metadata_txn db s c t src dst) (\<lambda>previous_edge_metadata.
        try_with shard (clear_edge_metadata_txn db mutation previous_edge_metadata s) (\<lambda>s.
        let s = txn_delete db s (K_Edge c t src dst);
            s = txn_delete db s (K_OutEdge c t src dst);
            s = (if writes_reverse_index shard then txn_delete db s (K_InEdge c t dst src) else s);
            s = txn_put db s (K_DegreeOut c t src) (encode_u64 (saturating_sub_u64 out_count 1));
            s = (case in_degree of Some n \<Rightarrow> txn_put db s (K_DegreeIn c t dst) (encode_u64 n) | None \<Rightarrow> s)
        in (shard, Inr (True, s)))))))"

definition delete_relationship_txn_locked ::
    "'s kv_db \<Rightarrow> graph_shard \<Rightarrow> edge_mutation \<Rightarrow> relationship_id \<Rightarrow> 's \<Rightarrow>
     graph_shard \<times> (delete_result \<times> 's) result" where
  "delete_relationship_txn_locked db shard mutation relationship_id s =
     (let c = mut_cell_id mutation; t = mut_edge_type mutation;
          src = mut_src mutation; dst = mut_dst mutation;
          idem_key = K_Idempotency c ''relationship-delete'' (mut_idempotency_key mutation);
          k = K_Relationship c t src dst relationship_id;
          count_key = K_RelationshipCount c t src dst
      in try_with shard (begin_fenced db shard s c ''delete_relationship'') (\<lambda>_.
      case read_txn_remote db s idem_key of
        Some v \<Rightarrow> (shard, map_ok (\<lambda>r. (r, s))
          (decode_relationship_delete_idempotency (render idem_key) mutation relationship_id v))
      | None \<Rightarrow>
        let current_epoch = kv_seqnum db s in
        case read_txn_remote db s k of
          None \<Rightarrow>
            (let r = \<lparr> dr_epoch = current_epoch, dr_deleted = False \<rparr>
             in (shard, commit_result_with db r
                  (txn_put db s idem_key (encode_relationship_delete_idempotency mutation relationship_id r))))
        | Some v \<Rightarrow>
          try_with shard (decode_relationship_record (render k) v) (\<lambda>record.
          try_with shard (ok_or (CorruptValue ''storage_sequence'' ''epoch overflow during relationship delete'')
            (checked_add_u64 current_epoch 1)) (\<lambda>epoch.
          try_with shard (live_relationships_for_edge_txn db s c t src dst) (\<lambda>live.
          let other_live_relationships = (\<exists>other \<in> set live. rr_relationship_id other \<noteq> relationship_id);
              s = txn_delete db s k;
              s = txn_delete db s (K_RelationshipId c relationship_id)
          in try_with shard (read_counter_txn db s count_key) (\<lambda>relationship_count.
          let left = saturating_sub_u64 relationship_count 1;
              s = (if left = 0 then txn_delete db s count_key else txn_put db s count_key (encode_u64 left));
              s = delete_relationship_property_indexes_txn db record (rr_metadata record) s
          in case (if other_live_relationships then (shard, Inr (False, s))
                   else delete_structural_edge_txn db shard mutation epoch s) of (shard, structural) \<Rightarrow>
          try_with shard structural (\<lambda>(_, s).
          let r = \<lparr> dr_epoch = epoch, dr_deleted = True \<rparr>
          in (shard, commit_result_with db r
               (txn_put db s idem_key (encode_relationship_delete_idempotency mutation relationship_id r))))))))))"

subsection \<open>Vertex metadata\<close>

text \<open>
  \<open>noop_fence\<close> and \<open>changing_fence\<close> are the outcomes of \<open>refresh_writer_fence\<close> and
  \<open>validate_changing_write\<close>, which ask the storage handle whether it still owns the writer epoch.
\<close>

definition set_vertex_metadata_txn_locked ::
    "'s kv_db \<Rightarrow> graph_shard \<Rightarrow> unit result \<Rightarrow> unit result \<Rightarrow> string \<Rightarrow> vertex_id \<Rightarrow> vertex_metadata \<Rightarrow>
     's \<Rightarrow> 's result" where
  "set_vertex_metadata_txn_locked db shard noop_fence changing_fence cell_id vertex_id metadata s =
     and_then (begin_fenced db shard s cell_id ''set_vertex_metadata'') (\<lambda>_.
     let vertex_key = K_Vertex cell_id vertex_id in
     and_then (decode_vertex_record (render vertex_key) (read_txn_remote db s vertex_key)) (\<lambda>existing.
     if existing = Some metadata then map_ok (\<lambda>_. s) noop_fence
     else
       let previous = (case existing of Some m \<Rightarrow> m | None \<Rightarrow> default_vertex_metadata) in
       and_then changing_fence (\<lambda>_.
       and_then (next_epoch_txn db s cell_id) (\<lambda>epoch.
       and_then (apply_vertex_metadata_update_txn db cell_id vertex_id previous metadata s) (\<lambda>s.
       commit_txn_strict db s)))))"

subsection \<open>The public operations and their retries\<close>

definition GRAPH_TXN_MAX_RETRIES :: nat where
  "GRAPH_TXN_MAX_RETRIES = 32"

definition is_retryable_write_conflict :: "graph_error \<Rightarrow> bool" where
  "is_retryable_write_conflict err =
     (case err of
        Slate e \<Rightarrow> (case se_kind e of SK_Transaction \<Rightarrow> True | SK_Invalid \<Rightarrow> True | _ \<Rightarrow> False)
      | _ \<Rightarrow> False)"

text \<open>
  The loop of the \<open>_inline\<close> functions.  \<open>run attempt\<close> is what the transaction returns on the
  attempt, which begins on whatever other writers have committed by then.
\<close>

fun retry_loop :: "(nat \<Rightarrow> 'r result) \<Rightarrow> nat \<Rightarrow> nat \<Rightarrow> 'r result" where
  "retry_loop run attempt 0 = Inl (RetryExhausted ''graph transaction'' GRAPH_TXN_MAX_RETRIES)"
| "retry_loop run attempt (Suc left) =
     (case run attempt of
        Inl err \<Rightarrow>
          if is_retryable_write_conflict err \<and> attempt + 1 < GRAPH_TXN_MAX_RETRIES
          then retry_loop run (attempt + 1) left
          else Inl err
      | Inr r \<Rightarrow> Inr r)"

definition graph_txn_retries :: "(nat \<Rightarrow> 'r result) \<Rightarrow> 'r result" where
  "graph_txn_retries run = retry_loop run 0 GRAPH_TXN_MAX_RETRIES"

definition validate_edge_mutation :: "edge_mutation \<Rightarrow> unit result" where
  "validate_edge_mutation mutation =
     and_then (validate_component ''cell_id'' (mut_cell_id mutation)) (\<lambda>_.
     and_then (validate_component ''edge_type'' (mut_edge_type mutation)) (\<lambda>_.
     validate_component ''idempotency_key'' (mut_idempotency_key mutation)))"

definition write_edge ::
    "'s kv_db \<Rightarrow> graph_shard \<Rightarrow> (nat \<Rightarrow> graph_shard \<times> 's) \<Rightarrow> edge_mutation \<Rightarrow> (commit_result \<times> 's) result" where
  "write_edge db shard attempts mutation =
     and_then (validate_edge_mutation mutation) (\<lambda>_.
     and_then (ensure_write_authority shard (mut_cell_id mutation) ''write_edge'') (\<lambda>_.
     graph_txn_retries (\<lambda>i. case attempts i of (sh, s) \<Rightarrow> snd (write_edge_txn_locked db sh mutation s))))"

definition delete_edge ::
    "'s kv_db \<Rightarrow> graph_shard \<Rightarrow> (nat \<Rightarrow> graph_shard \<times> 's) \<Rightarrow> edge_mutation \<Rightarrow> (delete_result \<times> 's) result" where
  "delete_edge db shard attempts mutation =
     and_then (validate_edge_mutation mutation) (\<lambda>_.
     and_then (ensure_write_authority shard (mut_cell_id mutation) ''delete_edge'') (\<lambda>_.
     graph_txn_retries (\<lambda>i. case attempts i of (sh, s) \<Rightarrow> snd (delete_edge_txn_locked db sh mutation s))))"

text \<open>
  The two endpoints' updates as one update per vertex; a self-loop that gives one property two
  values is refused.
\<close>

definition coalesce_property_step ::
    "vertex_id \<Rightarrow> (string, vertex_property_value) btree_map \<Rightarrow> string \<times> vertex_property_value \<Rightarrow>
     (string, vertex_property_value) btree_map result" where
  "coalesce_property_step vertex_id properties = (\<lambda>(property, v).
     case bt_get properties property of
       Some existing \<Rightarrow>
         if existing \<noteq> v
         then Inl (BatchValueConflict (''vertex '' @ show_u64 vertex_id @ '' property '' @ property))
         else Inr (bt_insert property v properties)
     | None \<Rightarrow> Inr (bt_insert property v properties))"

definition coalesce_vertex_metadata_updates ::
    "(vertex_id \<times> vertex_metadata) list \<Rightarrow> (vertex_id \<times> vertex_metadata) list result" where
  "coalesce_vertex_metadata_updates updates =
     fold_res (\<lambda>by_vertex (vertex_id, metadata).
        and_then (validate_vertex_metadata metadata) (\<lambda>_.
        let entry = (case bt_get by_vertex vertex_id of Some m \<Rightarrow> m | None \<Rightarrow> default_vertex_metadata) in
        and_then (fold_res (coalesce_property_step vertex_id) (vm_properties entry) (vm_properties metadata))
          (\<lambda>properties.
        Inr (bt_insert vertex_id
               \<lparr> vm_labels = bs_extend (vm_labels entry) (vm_labels metadata), vm_properties = properties \<rparr>
               by_vertex)))) [] updates"

definition write_edge_with_full_metadata ::
    "'s kv_db \<Rightarrow> graph_shard \<Rightarrow> (nat \<Rightarrow> graph_shard \<times> 's) \<Rightarrow> edge_mutation \<Rightarrow> vertex_metadata \<Rightarrow>
     vertex_metadata \<Rightarrow> edge_metadata \<Rightarrow> (commit_result \<times> 's) result" where
  "write_edge_with_full_metadata db shard attempts mutation src_metadata dst_metadata edge_metadata =
     and_then (validate_edge_mutation mutation) (\<lambda>_.
     and_then (validate_vertex_metadata src_metadata) (\<lambda>_.
     and_then (validate_vertex_metadata dst_metadata) (\<lambda>_.
     and_then (validate_edge_metadata edge_metadata) (\<lambda>_.
     and_then (ensure_write_authority shard (mut_cell_id mutation) ''write_edge_with_full_metadata'') (\<lambda>_.
     and_then (coalesce_vertex_metadata_updates
       [(mut_src mutation, src_metadata), (mut_dst mutation, dst_metadata)]) (\<lambda>metadata_updates.
     graph_txn_retries (\<lambda>i. case attempts i of (sh, s) \<Rightarrow>
       snd (write_edge_txn_locked_with_metadata db sh mutation metadata_updates edge_metadata
              ''write_edge_with_full_metadata'' s))))))))"

end
