(* ===== verification/Graph_State.thy ===== *)
theory Graph_State
  imports Edge_Writes
begin

text \<open>
  What a store means.  \<open>store_typed\<close> says that every entry is a key of the key space with a value its
  decoder accepts; \<open>has_edge\<close> says which edges a store holds, as edge records or as destinations of
  an adjacency segment that no tombstone hides.  The reads of the transactions are shown to compute
  exactly that, so the later theories reason about the logical view only.
\<close>

declare render.simps [simp del] and render_prefix.simps [simp del]

subsection \<open>Typed stores\<close>

fun value_ok :: "graph_key \<Rightarrow> bytes \<Rightarrow> bool" where
  "value_ok (K_Edge c t s d) v \<longleftrightarrow> v = ''graph-edge'' @ [newline]"
| "value_ok (K_OutEdge c t s d) v \<longleftrightarrow> v = ''graph-edge'' @ [newline]"
| "value_ok (K_InEdge c t d s) v \<longleftrightarrow> v = ''graph-edge'' @ [newline]"
| "value_ok (K_OutSegment c t s q g) v \<longleftrightarrow> is_ok (decode_out_edge_segment (render (K_OutSegment c t s q g)) v)"
| "value_ok (K_OutSegmentTombstone c t s d) v \<longleftrightarrow> length v = 8"
| "value_ok (K_EdgeMetadata c t s d) v \<longleftrightarrow>
     (case decode_edge_metadata (render (K_EdgeMetadata c t s d)) v of
        Inl _ \<Rightarrow> False | Inr m \<Rightarrow> edge_metadata_ok m)"
| "value_ok (K_Relationship c t s d r) v \<longleftrightarrow>
     (case decode_relationship_record (render (K_Relationship c t s d r)) v of
        Inl _ \<Rightarrow> False
      | Inr x \<Rightarrow> edge_metadata_ok (rr_metadata x) \<and>
          (rr_cell_id x, rr_edge_type x, rr_src x, rr_dst x, rr_relationship_id x) = (c, t, s, d, r))"
| "value_ok (K_RelationshipCount c t s d) v \<longleftrightarrow> length v = 8"
| "value_ok (K_LastRelationshipId c) v \<longleftrightarrow> length v = 8"
| "value_ok (K_DegreeOut c t s) v \<longleftrightarrow> length v = 8"
| "value_ok (K_DegreeIn c t d) v \<longleftrightarrow> length v = 8"
| "value_ok (K_Vertex c w) v \<longleftrightarrow>
     (case decode_vertex_metadata (render (K_Vertex c w)) v of
        Inl _ \<Rightarrow> False | Inr m \<Rightarrow> vertex_metadata_ok m)"
| "value_ok (K_XlogEntry c t q s d) v \<longleftrightarrow> v = [CHR 0x00] \<or> v = [CHR 0x01]"
| "value_ok (K_XlogLowWater c t) v \<longleftrightarrow> length v = 8"
| "value_ok (K_MatrixDirty c t) v \<longleftrightarrow> length v = 8"
| "value_ok (K_AdjacencyGeneration c t) v \<longleftrightarrow> length v = 8"
| "value_ok _ v \<longleftrightarrow> True"

definition store_typed :: "'s kv_db \<Rightarrow> 's \<Rightarrow> bool" where
  "store_typed db s \<longleftrightarrow>
     (\<forall>key v. kv_get db s key = Some v \<longrightarrow> (\<exists>k. valid_key k \<and> key = render k \<and> value_ok k v))"

lemma value_ok_u64:
  "length v = 8 \<Longrightarrow> \<exists>w. decode_u64 key v = Inr w"
  by (simp add: decode_u64_def)

lemma encode_u64_length [simp]: "length (encode_u64 w) = 8"
  by (simp add: encode_u64_def)

context kv_store
begin

lemma typed_value: "store_typed db s \<Longrightarrow> graph_view db s k = Some v \<Longrightarrow> valid_key k \<and> value_ok k v"
  unfolding store_typed_def graph_view_def
  by (metis option.distinct(1) render_inject)

lemma typed_put:
  "store_typed db s \<Longrightarrow> valid_key k \<Longrightarrow> value_ok k v \<Longrightarrow> store_typed db (txn_put db s k v)"
  unfolding store_typed_def txn_put_def get_put by auto

lemma typed_delete: "store_typed db s \<Longrightarrow> store_typed db (txn_delete db s k)"
  unfolding store_typed_def txn_delete_def get_delete by auto

lemma typed_commit: "store_typed db s \<Longrightarrow> kv_commit db s q = Inr s' \<Longrightarrow> store_typed db s'"
  by (simp add: store_typed_def commit_content)

lemma typed_foldl:
  "(\<And>s x. x \<in> set xs \<Longrightarrow> store_typed db s \<Longrightarrow> store_typed db (h s x)) \<Longrightarrow> store_typed db s \<Longrightarrow>
    store_typed db (foldl h s xs)"
  by (induction xs arbitrary: s) auto

text \<open>A prefix scan of a typed store is the family of the prefix, in key order.\<close>

lemma scan_view:
  assumes "store_typed db s" "valid_prefix p"
  shows "(key, v) \<in> set (txn_scan_prefix db s p) \<longleftrightarrow>
    (\<exists>k. key = render k \<and> in_family p k \<and> graph_view db s k = Some v)"
proof
  assume "(key, v) \<in> set (txn_scan_prefix db s p)"
  then have *: "prefix (render_prefix p) key" "kv_get db s key = Some v"
    by (auto simp: txn_scan_prefix_def scan_entries)
  then obtain k where "valid_key k" "key = render k"
    using assms(1) unfolding store_typed_def by blast
  then show "\<exists>k. key = render k \<and> in_family p k \<and> graph_view db s k = Some v"
    using * prefix_in_family [OF assms(2)] by (auto simp: graph_view_def)
next
  assume "\<exists>k. key = render k \<and> in_family p k \<and> graph_view db s k = Some v"
  then obtain k where "key = render k" "in_family p k" "graph_view db s k = Some v"
    by blast
  then show "(key, v) \<in> set (txn_scan_prefix db s p)"
    using prefix_in_family [OF assms(2), of k]
    by (auto simp: txn_scan_prefix_def scan_entries graph_view_def split: if_splits)
qed

end

subsection \<open>Which edges a store holds\<close>

type_synonym graph_contents = "graph_key \<Rightarrow> bytes option"

definition segment_of ::
    "graph_contents \<Rightarrow> string \<Rightarrow> string \<Rightarrow> vertex_id \<Rightarrow> storage_sequence \<Rightarrow> string \<Rightarrow> vertex_id list" where
  "segment_of view c t src q g =
     (case view (K_OutSegment c t src q g) of
        None \<Rightarrow> []
      | Some v \<Rightarrow>
          (case decode_out_edge_segment (render (K_OutSegment c t src q g)) v of
             Inl _ \<Rightarrow> [] | Inr seg \<Rightarrow> oes_destinations seg))"

definition tombstone_of ::
    "graph_contents \<Rightarrow> string \<Rightarrow> string \<Rightarrow> vertex_id \<Rightarrow> vertex_id \<Rightarrow> storage_sequence option" where
  "tombstone_of view c t src dst = map_option from_be_bytes (view (K_OutSegmentTombstone c t src dst))"

definition seg_edge :: "graph_contents \<Rightarrow> string \<Rightarrow> string \<Rightarrow> vertex_id \<Rightarrow> vertex_id \<Rightarrow> bool" where
  "seg_edge view c t src dst \<longleftrightarrow>
     (\<exists>q g. dst \<in> set (segment_of view c t src q g) \<and>
            segment_edge_visible q (tombstone_of view c t src dst))"

definition has_edge :: "graph_contents \<Rightarrow> string \<Rightarrow> string \<Rightarrow> vertex_id \<Rightarrow> vertex_id \<Rightarrow> bool" where
  "has_edge view c t src dst \<longleftrightarrow> view (K_OutEdge c t src dst) \<noteq> None \<or> seg_edge view c t src dst"

text \<open>Segments and tombstones were committed by transactions of the past.\<close>

definition sequences_ok :: "graph_contents \<Rightarrow> storage_sequence \<Rightarrow> bool" where
  "sequences_ok view now \<longleftrightarrow>
     (\<forall>c t src q g. view (K_OutSegment c t src q g) \<noteq> None \<longrightarrow> q \<le> now) \<and>
     (\<forall>c t src dst e. tombstone_of view c t src dst = Some e \<longrightarrow> e \<le> now)"

lemma sequences_segment:
  "sequences_ok view now \<Longrightarrow> view (K_OutSegment c t src q g) = Some v \<Longrightarrow> q \<le> now"
  unfolding sequences_ok_def by (metis option.distinct(1))

lemma sequences_tombstone:
  "sequences_ok view now \<Longrightarrow> view (K_OutSegmentTombstone c t src dst) = Some v \<Longrightarrow> from_be_bytes v \<le> now"
  unfolding sequences_ok_def tombstone_of_def by (metis option.simps(9))

lemma in_segment_of:
  "d \<in> set (segment_of view c t src q g) \<longleftrightarrow>
    (\<exists>v seg. view (K_OutSegment c t src q g) = Some v \<and>
       decode_out_edge_segment (render (K_OutSegment c t src q g)) v = Inr seg \<and> d \<in> set (oes_destinations seg))"
proof (cases "view (K_OutSegment c t src q g)")
  case (Some v)
  then show ?thesis
    by (cases "decode_out_edge_segment (render (K_OutSegment c t src q g)) v") (auto simp: segment_of_def)
qed (simp add: segment_of_def)

lemma decode_segment_fields:
  assumes "valid_key (K_OutSegment c t src q g)"
    and "decode_out_edge_segment (render (K_OutSegment c t src q g)) v = Inr seg"
  shows "oes_storage_sequence seg = q" "oes_src seg = src"
  using assms split_render [OF assms(1)]
  by (auto simp: decode_out_edge_segment_def parse_out_edge_segment_key_def and_then_eq_Inr Let_def
      split: option.splits if_splits)

lemma parse_tombstone_render:
  "valid_component c \<Longrightarrow> valid_component t \<Longrightarrow>
    parse_out_edge_segment_tombstone_key (render (K_OutSegmentTombstone c t src dst)) = Inr (c, t, src, dst)"
  by (simp add: render.simps parse_segment_keys)

lemma decode_edge_record_render:
  "valid_component c \<Longrightarrow> valid_component t \<Longrightarrow>
    decode_edge_record (render (K_OutEdge c t src dst)) (''graph-edge'' @ [newline]) =
      Inr \<lparr> er_cell_id = c, er_edge_type = t, er_src = src, er_dst = dst \<rparr>"
  by (simp add: render.simps decode_edge_record_def parse_edge_keys)

lemma in_family_cases:
  "in_family (P_OutSegmentTombstoneSrcPrefix c t src) k \<longleftrightarrow> (\<exists>dst. k = K_OutSegmentTombstone c t src dst)"
  "in_family (P_OutSegmentSrcPrefix c t src) k \<longleftrightarrow> (\<exists>q g. k = K_OutSegment c t src q g)"
  "in_family (P_OutPrefix c t src) k \<longleftrightarrow> (\<exists>dst. k = K_OutEdge c t src dst)"
  "in_family (P_RelationshipEdgePrefix c t src dst) k \<longleftrightarrow> (\<exists>r. k = K_Relationship c t src dst r)"
  by (cases k; auto)+

declare in_family.simps [simp del]

lemma tombstone_fold:
  assumes "valid_component c" "valid_component t" and "distinct (map fst kvs)" "bt_inv acc"
    and "\<And>key v. (key, v) \<in> set kvs \<Longrightarrow>
      \<exists>dst. key = render (K_OutSegmentTombstone c t src dst) \<and> length v = 8 \<and> from_be_bytes v \<le> now"
  shows "\<exists>m. fold_res (segment_tombstone_step c t src now) acc kvs = Inr m \<and> bt_inv m \<and>
    (\<forall>dst. bt_get m dst =
      (case map_of kvs (render (K_OutSegmentTombstone c t src dst)) of
         Some v \<Rightarrow> Some (from_be_bytes v) | None \<Rightarrow> bt_get acc dst))"
  using assms(3-5)
proof (induction kvs arbitrary: acc)
  case (Cons kv kvs)
  obtain key v where kv: "kv = (key, v)" by (cases kv)
  obtain d where key: "key = render (K_OutSegmentTombstone c t src d)" "length v = 8" "from_be_bytes v \<le> now"
    using Cons.prems(3) [of key v] kv by auto
  have step: "segment_tombstone_step c t src now acc kv = Inr (bt_insert d (from_be_bytes v) acc)"
    using key kv assms(1,2)
    by (simp add: segment_tombstone_step_def parse_tombstone_render decode_u64_def)
  have "\<exists>m. fold_res (segment_tombstone_step c t src now) (bt_insert d (from_be_bytes v) acc) kvs = Inr m \<and>
    bt_inv m \<and> (\<forall>dst. bt_get m dst =
      (case map_of kvs (render (K_OutSegmentTombstone c t src dst)) of
         Some v \<Rightarrow> Some (from_be_bytes v) | None \<Rightarrow> bt_get (bt_insert d (from_be_bytes v) acc) dst))"
    by (rule Cons.IH) (use Cons.prems kv in auto)
  then obtain m where m: "fold_res (segment_tombstone_step c t src now) (bt_insert d (from_be_bytes v) acc) kvs = Inr m"
      "bt_inv m"
      "\<And>dst. bt_get m dst =
        (case map_of kvs (render (K_OutSegmentTombstone c t src dst)) of
           Some v \<Rightarrow> Some (from_be_bytes v) | None \<Rightarrow> bt_get (bt_insert d (from_be_bytes v) acc) dst)"
    by blast
  have inj: "render (K_OutSegmentTombstone c t src dst) = key \<longleftrightarrow> dst = d" for dst
    using assms(1,2) key(1) render_inject [of "K_OutSegmentTombstone c t src dst" "K_OutSegmentTombstone c t src d"]
    by simp
  have "map_of kvs key = None"
    using Cons.prems(1) kv by (simp add: map_of_eq_None_iff)
  then have "bt_get m dst =
      (case map_of (kv # kvs) (render (K_OutSegmentTombstone c t src dst)) of
         Some v \<Rightarrow> Some (from_be_bytes v) | None \<Rightarrow> bt_get acc dst)" for dst
    using m(3) [of dst] Cons.prems(2) kv inj [of dst] by (auto split: option.splits)
  then show ?case using m step by auto
qed simp

lemma segment_edge_insert_fold:
  "bt_inv edges \<Longrightarrow>
    bt_inv (foldl (segment_edge_insert tombs q) edges ds) \<and>
    (bt_get (foldl (segment_edge_insert tombs q) edges ds) d \<noteq> None \<longleftrightarrow>
      bt_get edges d \<noteq> None \<or> d \<in> set ds \<and> segment_edge_visible q (bt_get tombs d))"
proof (induction ds arbitrary: edges)
  case (Cons x ds)
  have inv: "bt_inv (segment_edge_insert tombs q edges x)"
    using Cons.prems by (simp add: segment_edge_insert_def)
  have "bt_get (segment_edge_insert tombs q edges x) d \<noteq> None \<longleftrightarrow>
      bt_get edges d \<noteq> None \<or> d = x \<and> segment_edge_visible q (bt_get tombs d)"
    using Cons.prems by (auto simp: segment_edge_insert_def)
  with Cons.IH [OF inv] show ?case by auto
qed simp

definition segment_hit ::
    "(string \<times> bytes) list \<Rightarrow> (vertex_id, storage_sequence) btree_map \<Rightarrow> vertex_id \<Rightarrow> bool" where
  "segment_hit kvs tombs d \<longleftrightarrow>
     (\<exists>key v seg. (key, v) \<in> set kvs \<and> decode_out_edge_segment key v = Inr seg \<and>
        d \<in> set (oes_destinations seg) \<and>
        segment_edge_visible (oes_storage_sequence seg) (bt_get tombs d))"

lemma segment_hit_Nil [simp]: "\<not> segment_hit [] tombs d"
  by (simp add: segment_hit_def)

lemma segment_hit_Cons:
  "decode_out_edge_segment key v = Inr seg \<Longrightarrow>
    segment_hit ((key, v) # kvs) tombs d \<longleftrightarrow>
      d \<in> set (oes_destinations seg) \<and> segment_edge_visible (oes_storage_sequence seg) (bt_get tombs d) \<or>
      segment_hit kvs tombs d"
  unfolding segment_hit_def by (auto intro: exI)

lemma segment_edge_scan_ok:
  assumes "bt_inv edges"
    and "\<And>key v. (key, v) \<in> set kvs \<Longrightarrow>
      \<exists>seg. decode_out_edge_segment key v = Inr seg \<and> oes_storage_sequence seg \<le> now"
  shows "\<exists>m. segment_edge_scan now tombs edges kvs = Inr m \<and> bt_inv m \<and>
    (\<forall>d. bt_get m d \<noteq> None \<longleftrightarrow> bt_get edges d \<noteq> None \<or>
      segment_hit kvs tombs d)"
  using assms
proof (induction kvs arbitrary: edges)
  case (Cons kv kvs)
  obtain key v where kv: "kv = (key, v)" by (cases kv)
  obtain seg where seg: "decode_out_edge_segment key v = Inr seg" "oes_storage_sequence seg \<le> now"
    using Cons.prems(2) [of key v] kv by auto
  let ?q = "oes_storage_sequence seg"
  let ?edges = "foldl (segment_edge_insert tombs ?q) edges (oes_destinations seg)"
  note ins = segment_edge_insert_fold [OF Cons.prems(1), of tombs ?q "oes_destinations seg"]
  have "\<exists>m. segment_edge_scan now tombs ?edges kvs = Inr m \<and> bt_inv m \<and>
    (\<forall>d. bt_get m d \<noteq> None \<longleftrightarrow> bt_get ?edges d \<noteq> None \<or>
      segment_hit kvs tombs d)"
    using ins Cons.prems(2) by (intro Cons.IH) auto
  then obtain m where m: "segment_edge_scan now tombs ?edges kvs = Inr m" "bt_inv m"
    and get: "\<And>d. bt_get m d \<noteq> None \<longleftrightarrow> bt_get ?edges d \<noteq> None \<or>
      segment_hit kvs tombs d"
    by blast
  have "segment_edge_scan now tombs edges (kv # kvs) = Inr m"
    using m seg kv by (simp add: leD)
  moreover have "bt_get m d \<noteq> None \<longleftrightarrow> bt_get edges d \<noteq> None \<or>
      segment_hit (kv # kvs) tombs d" for d
    unfolding get kv segment_hit_Cons [OF seg(1)] using ins [of d] by blast
  ultimately show ?case using m(2) by blast
qed simp

context kv_store
begin

lemma scan_map_of:
  assumes "store_typed db s" "valid_prefix p" "valid_key k" "in_family p k"
  shows "map_of (txn_scan_prefix db s p) (render k) = graph_view db s k"
proof -
  have "map_of (txn_scan_prefix db s p) (render k) = Some v \<longleftrightarrow> graph_view db s k = Some v" for v
    using scan_view [OF assms(1,2), of "render k" v] assms(3,4) typed_value [OF assms(1)]
      bt_inv_distinct [OF scan_sorted [of s "render_prefix p"]]
    unfolding txn_scan_prefix_def [symmetric]
    by (metis map_of_eq_Some_iff render_inject)
  then show ?thesis by (metis not_None_eq)
qed

lemma scan_distinct: "distinct (map fst (txn_scan_prefix db s p))"
  unfolding txn_scan_prefix_def by (rule bt_inv_distinct [OF scan_sorted])

lemma segment_entry:
  assumes "store_typed db s" "sequences_ok (graph_view db s) now"
    and "valid_component c" "valid_component t"
    and "(key, v) \<in> set (txn_scan_prefix db s (P_OutSegmentSrcPrefix c t src))"
  obtains q g seg where "key = render (K_OutSegment c t src q g)" "graph_view db s (K_OutSegment c t src q g) = Some v"
    "decode_out_edge_segment key v = Inr seg" "oes_storage_sequence seg = q" "q \<le> now"
    "segment_of (graph_view db s) c t src q g = oes_destinations seg"
proof -
  obtain q g where k: "key = render (K_OutSegment c t src q g)"
      "graph_view db s (K_OutSegment c t src q g) = Some v"
    using assms scan_view [OF assms(1), of "P_OutSegmentSrcPrefix c t src" key v]
    by (auto simp: in_family_cases)
  moreover obtain seg where seg: "decode_out_edge_segment key v = Inr seg"
    using typed_value [OF assms(1) k(2)] k(1)
    by (cases "decode_out_edge_segment key v") auto
  ultimately show ?thesis
    using that [of q g seg] typed_value [OF assms(1) k(2)] decode_segment_fields(1)
      sequences_segment [OF assms(2) k(2)]
    by (simp add: segment_of_def)
qed

lemma segment_tombstones:
  assumes "store_typed db s" "sequences_ok (graph_view db s) now"
    and "valid_component c" "valid_component t"
  obtains tombs where
    "fold_res (segment_tombstone_step c t src now) []
       (txn_scan_prefix db s (P_OutSegmentTombstoneSrcPrefix c t src)) = Inr tombs"
    "bt_inv tombs" "\<And>dst. bt_get tombs dst = tombstone_of (graph_view db s) c t src dst"
proof -
  let ?p = "P_OutSegmentTombstoneSrcPrefix c t src"
  have p: "valid_prefix ?p" using assms by simp
  have entry: "\<exists>dst. key = render (K_OutSegmentTombstone c t src dst) \<and> length v = 8 \<and> from_be_bytes v \<le> now"
    if entry: "(key, v) \<in> set (txn_scan_prefix db s ?p)" for key v
  proof -
    obtain dst where k: "key = render (K_OutSegmentTombstone c t src dst)"
        "graph_view db s (K_OutSegmentTombstone c t src dst) = Some v"
      using entry unfolding scan_view [OF assms(1) p] in_family_cases by blast
    then show ?thesis
      using typed_value [OF assms(1) k(2)] sequences_tombstone [OF assms(2) k(2)] by auto
  qed
  obtain tombs where t: "fold_res (segment_tombstone_step c t src now) [] (txn_scan_prefix db s ?p) = Inr tombs"
      "bt_inv tombs"
      "\<And>dst. bt_get tombs dst = (case map_of (txn_scan_prefix db s ?p) (render (K_OutSegmentTombstone c t src dst)) of
          Some v \<Rightarrow> Some (from_be_bytes v) | None \<Rightarrow> bt_get [] dst)"
    using tombstone_fold [OF assms(3,4) scan_distinct bt_inv_simps(1) entry] by metis
  have "bt_get tombs dst = tombstone_of (graph_view db s) c t src dst" for dst
    using t(3) [of dst] scan_map_of [OF assms(1) p, of "K_OutSegmentTombstone c t src dst"] assms(3,4)
    by (auto simp: tombstone_of_def in_family_cases split: option.splits)
  with t show ?thesis using that by blast
qed

lemma out_segment_edges_ok:
  assumes "store_typed db s" "sequences_ok (graph_view db s) now"
    and "valid_component c" "valid_component t"
  obtains m where "out_segment_edges_for_src_txn db s c t src now = Inr m" "bt_inv m"
    "\<And>dst. bt_get m dst \<noteq> None \<longleftrightarrow> seg_edge (graph_view db s) c t src dst"
proof -
  let ?kvs = "txn_scan_prefix db s (P_OutSegmentSrcPrefix c t src)"
  obtain tombs where tombs:
    "fold_res (segment_tombstone_step c t src now) []
       (txn_scan_prefix db s (P_OutSegmentTombstoneSrcPrefix c t src)) = Inr tombs"
    "\<And>dst. bt_get tombs dst = tombstone_of (graph_view db s) c t src dst"
    using segment_tombstones [OF assms] by metis
  have "\<exists>seg. decode_out_edge_segment key v = Inr seg \<and> oes_storage_sequence seg \<le> now"
    if "(key, v) \<in> set ?kvs" for key v
    using segment_entry [OF assms that] by blast
  then obtain m where m: "segment_edge_scan now tombs [] ?kvs = Inr m" "bt_inv m"
    and get: "\<And>d. bt_get m d \<noteq> None \<longleftrightarrow> segment_hit ?kvs tombs d"
    using segment_edge_scan_ok [of "[]" ?kvs now tombs] by auto
  have "segment_hit ?kvs tombs d \<longleftrightarrow> seg_edge (graph_view db s) c t src d" for d
  proof
    assume "segment_hit ?kvs tombs d"
    then obtain key v seg where e: "(key, v) \<in> set ?kvs" "decode_out_edge_segment key v = Inr seg"
        "d \<in> set (oes_destinations seg)" "segment_edge_visible (oes_storage_sequence seg) (bt_get tombs d)"
      unfolding segment_hit_def by blast
    obtain q g seg' where "decode_out_edge_segment key v = Inr seg'" "oes_storage_sequence seg' = q"
        "segment_of (graph_view db s) c t src q g = oes_destinations seg'"
      using segment_entry [OF assms e(1)] by metis
    then show "seg_edge (graph_view db s) c t src d"
      unfolding seg_edge_def using e tombs(2) by (intro exI [of _ q] exI [of _ g]) simp
  next
    assume "seg_edge (graph_view db s) c t src d"
    then obtain q g where e: "d \<in> set (segment_of (graph_view db s) c t src q g)"
        "segment_edge_visible q (bt_get tombs d)"
      by (auto simp: seg_edge_def tombs)
    then obtain v seg where v: "graph_view db s (K_OutSegment c t src q g) = Some v"
        "decode_out_edge_segment (render (K_OutSegment c t src q g)) v = Inr seg" "d \<in> set (oes_destinations seg)"
      unfolding in_segment_of by blast
    have "(render (K_OutSegment c t src q g), v) \<in> set ?kvs"
      using scan_view [OF assms(1), of "P_OutSegmentSrcPrefix c t src"] assms(3,4) v(1)
      by (auto simp: in_family_cases)
    then show "segment_hit ?kvs tombs d"
      unfolding segment_hit_def
      using v e(2) decode_segment_fields(1) typed_value [OF assms(1) v(1)] by blast
  qed
  with m get tombs(1) show ?thesis
    using that [of m] by (simp add: out_segment_edges_for_src_txn_def)
qed

end

definition segment_records :: "string \<times> bytes \<Rightarrow> (storage_sequence \<times> edge_record) list" where
  "segment_records = (\<lambda>(key, v).
     case decode_out_edge_segment key v of
       Inl _ \<Rightarrow> []
     | Inr seg \<Rightarrow> map (\<lambda>dst. (oes_storage_sequence seg, \<lparr> er_cell_id = oes_cell_id seg,
         er_edge_type = oes_edge_type seg, er_src = oes_src seg, er_dst = dst \<rparr>)) (oes_destinations seg))"

lemma segment_records_scan_ok:
  assumes "\<And>key v. (key, v) \<in> set kvs \<Longrightarrow>
      \<exists>seg. decode_out_edge_segment key v = Inr seg \<and> oes_storage_sequence seg \<le> now"
  shows "segment_records_scan now kvs = Inr (concat (map segment_records kvs))"
  using assms
proof (induction kvs)
  case (Cons kv kvs)
  obtain key v where kv: "kv = (key, v)" by (cases kv)
  obtain seg where seg: "decode_out_edge_segment key v = Inr seg" "oes_storage_sequence seg \<le> now"
    using Cons.prems [of key v] kv by auto
  have "segment_records_scan now kvs = Inr (concat (map segment_records kvs))"
    by (rule Cons.IH, rule Cons.prems) simp
  then show ?case
    using seg kv by (simp add: leD segment_records_def)
qed simp

lemma in_segment_records:
  "(\<exists>e. (q, e) \<in> set (concat (map segment_records kvs)) \<and> er_dst e = d) \<longleftrightarrow>
    (\<exists>key v seg. (key, v) \<in> set kvs \<and> decode_out_edge_segment key v = Inr seg \<and>
       oes_storage_sequence seg = q \<and> d \<in> set (oes_destinations seg))" (is "?l \<longleftrightarrow> ?r")
proof
  assume ?l
  then obtain key v e where "(key, v) \<in> set kvs" "(q, e) \<in> set (segment_records (key, v))" "er_dst e = d"
    by auto
  moreover from this obtain seg where "decode_out_edge_segment key v = Inr seg"
      "oes_storage_sequence seg = q" "d \<in> set (oes_destinations seg)"
    by (cases "decode_out_edge_segment key v") (auto simp: segment_records_def)
  ultimately show ?r by blast
next
  assume ?r
  then obtain key v seg where e: "(key, v) \<in> set kvs" "decode_out_edge_segment key v = Inr seg"
      "oes_storage_sequence seg = q" "d \<in> set (oes_destinations seg)" by blast
  let ?e = "\<lparr> er_cell_id = oes_cell_id seg, er_edge_type = oes_edge_type seg, er_src = oes_src seg, er_dst = d \<rparr>"
  have "(q, ?e) \<in> set (segment_records (key, v))"
    using e by (auto simp: segment_records_def)
  then have "(q, ?e) \<in> set (concat (map segment_records kvs))" using e(1) by auto
  then show ?l by (intro exI [of _ ?e]) simp
qed

lemma last_match:
  "foldl (\<lambda>latest x. if P x then Some x else latest) None xs =
    (if filter P xs = [] then None else Some (last (filter P xs)))"
  by (induction xs rule: rev_induct) auto

context kv_store
begin

lemma read_tombstone:
  assumes "store_typed db s" "sequences_ok (graph_view db s) now" "valid_component c" "valid_component t"
  shows "out_segment_tombstone_epoch_at db s c t src dst now = Inr (tombstone_of (graph_view db s) c t src dst)"
proof (cases "graph_view db s (K_OutSegmentTombstone c t src dst)")
  case (Some v)
  then have "length v = 8" "from_be_bytes v \<le> now"
    using typed_value [OF assms(1) Some] sequences_tombstone [OF assms(2) Some] by simp_all
  then show ?thesis
    using Some assms(3,4)
    by (simp add: out_segment_tombstone_epoch_at_def read_view tombstone_of_def decode_u64_def)
qed (use assms(3,4) in \<open>simp add: out_segment_tombstone_epoch_at_def read_view tombstone_of_def\<close>)

lemma edge_record_at_ok:
  assumes "store_typed db s" "sequences_ok (graph_view db s) now" "valid_component c" "valid_component t"
  obtains latest where "out_segment_edge_record_at db s c t src dst now = Inr latest"
    "latest \<noteq> None \<longleftrightarrow> seg_edge (graph_view db s) c t src dst"
    "\<And>q e. latest = Some (q, e) \<Longrightarrow> segment_edge_visible q (tombstone_of (graph_view db s) c t src dst)"
proof -
  let ?kvs = "txn_scan_prefix db s (P_OutSegmentSrcPrefix c t src)"
  let ?tomb = "tombstone_of (graph_view db s) c t src dst"
  have "\<exists>seg. decode_out_edge_segment key v = Inr seg \<and> oes_storage_sequence seg \<le> now"
    if "(key, v) \<in> set ?kvs" for key v
    using segment_entry [OF assms that] by blast
  then have edges: "segment_records_scan now ?kvs = Inr (concat (map segment_records ?kvs))"
    by (rule segment_records_scan_ok)
  define edges where "edges = concat (map segment_records ?kvs)"
  note mem = in_segment_records [of _ ?kvs, folded edges_def]
  have seg: "seg_edge (graph_view db s) c t src dst \<longleftrightarrow>
      (\<exists>(q, e) \<in> set edges. er_dst e = dst \<and> segment_edge_visible q ?tomb)"
  proof -
    have "(\<exists>key v seg. (key, v) \<in> set ?kvs \<and> decode_out_edge_segment key v = Inr seg \<and>
         oes_storage_sequence seg = q \<and> dst \<in> set (oes_destinations seg)) \<longleftrightarrow>
      (\<exists>g. dst \<in> set (segment_of (graph_view db s) c t src q g))" for q
    proof
      assume "\<exists>key v seg. (key, v) \<in> set ?kvs \<and> decode_out_edge_segment key v = Inr seg \<and>
         oes_storage_sequence seg = q \<and> dst \<in> set (oes_destinations seg)"
      then obtain key v seg where e: "(key, v) \<in> set ?kvs" "decode_out_edge_segment key v = Inr seg"
          "oes_storage_sequence seg = q" "dst \<in> set (oes_destinations seg)" by blast
      then show "\<exists>g. dst \<in> set (segment_of (graph_view db s) c t src q g)"
        using segment_entry [OF assms e(1)] by (metis sum.inject(2))
    next
      assume "\<exists>g. dst \<in> set (segment_of (graph_view db s) c t src q g)"
      then obtain g v seg where v: "graph_view db s (K_OutSegment c t src q g) = Some v"
          "decode_out_edge_segment (render (K_OutSegment c t src q g)) v = Inr seg" "dst \<in> set (oes_destinations seg)"
        unfolding in_segment_of by blast
      moreover have "(render (K_OutSegment c t src q g), v) \<in> set ?kvs"
        using scan_view [OF assms(1), of "P_OutSegmentSrcPrefix c t src"] assms(3,4) v(1)
        by (auto simp: in_family_cases)
      ultimately show "\<exists>key v seg. (key, v) \<in> set ?kvs \<and> decode_out_edge_segment key v = Inr seg \<and>
         oes_storage_sequence seg = q \<and> dst \<in> set (oes_destinations seg)"
        using decode_segment_fields(1) typed_value [OF assms(1) v(1)] by blast
    qed
    then show ?thesis unfolding seg_edge_def using mem by blast
  qed
  let ?P = "\<lambda>(q, e). er_dst e = dst \<and> segment_edge_visible q ?tomb"
  let ?latest = "if filter ?P edges = [] then None else Some (last (filter ?P edges))"
  have step: "(\<lambda>latest (q, e). if er_dst e = dst \<and> segment_edge_visible q ?tomb then Some (q, e) else latest) =
      (\<lambda>latest x. if ?P x then Some x else latest)"
    by (simp add: fun_eq_iff)
  have "out_segment_edge_record_at db s c t src dst now =
      Inr (foldl (\<lambda>latest (q, e). if er_dst e = dst \<and> segment_edge_visible q ?tomb
                    then Some (q, e) else latest) None edges)"
    unfolding out_segment_edge_record_at_def scan_out_segments_for_src_at_def
      read_tombstone [OF assms] edges edges_def and_then_simps ..
  then have "out_segment_edge_record_at db s c t src dst now = Inr ?latest"
    unfolding step last_match .
  moreover have "?latest \<noteq> None \<longleftrightarrow> seg_edge (graph_view db s) c t src dst"
    unfolding seg by (auto simp: filter_empty_conv)
  moreover have "segment_edge_visible q ?tomb" if "?latest = Some (q, e)" for q e
  proof -
    have "filter ?P edges \<noteq> []" "last (filter ?P edges) = (q, e)"
      using that by (auto split: if_splits)
    then have "(q, e) \<in> set (filter ?P edges)" using last_in_set by metis
    then show ?thesis by simp
  qed
  ultimately show ?thesis using that by blast
qed

lemma edge_epoch_ok:
  assumes "store_typed db s" "sequences_ok (graph_view db s) now" "valid_component c" "valid_component t"
  obtains e where "edge_epoch_at_txn db s c t src dst now = Inr e"
    "e \<noteq> None \<longleftrightarrow> has_edge (graph_view db s) c t src dst"
proof (cases "graph_view db s (K_OutEdge c t src dst)")
  case None
  obtain m where "out_segment_edges_for_src_txn db s c t src now = Inr m"
    "\<And>dst. bt_get m dst \<noteq> None \<longleftrightarrow> seg_edge (graph_view db s) c t src dst"
    using out_segment_edges_ok [OF assms] by metis
  then show ?thesis
    using None assms(3,4) that [of "bt_get m dst"]
    by (simp add: edge_epoch_at_txn_def read_view has_edge_def)
next
  case (Some v)
  then have "v = ''graph-edge'' @ [newline]"
    using typed_value [OF assms(1) Some] by simp
  then show ?thesis
    using Some assms(3,4) that [of "Some now"] decode_edge_record_render [OF assms(3,4)]
    by (simp add: edge_epoch_at_txn_def read_view has_edge_def)
qed

lemma out_neighbors_ok:
  assumes "store_typed db s" "sequences_ok (graph_view db s) now" "valid_component c" "valid_component t"
  obtains ns where "out_neighbors_for_src_txn db s c t src now = Inr ns" "bs_inv ns"
    "set ns = {dst. has_edge (graph_view db s) c t src dst}"
proof -
  let ?kvs = "txn_scan_prefix db s (P_OutPrefix c t src)"
  let ?step = "\<lambda>neighbors (key, v).
      and_then (decode_edge_record key v) (\<lambda>record. Inr (bs_insert (er_dst record) neighbors))"
  have kvs: "(key, v) \<in> set ?kvs \<longleftrightarrow>
      (\<exists>dst. key = render (K_OutEdge c t src dst) \<and> graph_view db s (K_OutEdge c t src dst) = Some v)" for key v
    using scan_view [OF assms(1), of "P_OutPrefix c t src" key v] assms(3,4)
    by (auto simp: in_family_cases)
  have decode: "decode_edge_record key v = Inr \<lparr> er_cell_id = c, er_edge_type = t, er_src = src, er_dst = dst \<rparr>"
    if "key = render (K_OutEdge c t src dst)" "graph_view db s (K_OutEdge c t src dst) = Some v" for key v dst
    using that typed_value [OF assms(1) that(2)] decode_edge_record_render [OF assms(3,4)] by simp
  have "\<exists>ns. fold_res ?step acc xs = Inr ns \<and> bs_inv ns \<and>
      set ns = set acc \<union> {dst. \<exists>v. (render (K_OutEdge c t src dst), v) \<in> set xs}"
    if "bs_inv acc" "set xs \<subseteq> set ?kvs" for acc xs
    using that
  proof (induction xs arbitrary: acc)
    case (Cons kv xs)
    obtain key v dst where kv: "kv = (key, v)" "key = render (K_OutEdge c t src dst)"
        "graph_view db s (K_OutEdge c t src dst) = Some v"
      using Cons.prems(2) kvs by (cases kv) auto
    have step: "?step acc kv = Inr (bs_insert dst acc)"
      using decode [OF kv(2,3)] kv(1) by simp
    have inj: "render (K_OutEdge c t src d) = key \<longleftrightarrow> d = dst" for d
      using kv(2) assms(3,4) render_inject [of "K_OutEdge c t src d" "K_OutEdge c t src dst"] by simp
    obtain ns where "fold_res ?step (bs_insert dst acc) xs = Inr ns" "bs_inv ns"
        "set ns = set (bs_insert dst acc) \<union> {dst. \<exists>v. (render (K_OutEdge c t src dst), v) \<in> set xs}"
      using Cons.IH [of "bs_insert dst acc"] Cons.prems by auto
    then show ?case using step kv(1) inj by auto
  qed simp
  from this [of "[]" ?kvs] obtain ns where ns: "fold_res ?step [] ?kvs = Inr ns" "bs_inv ns"
      "set ns = {dst. graph_view db s (K_OutEdge c t src dst) \<noteq> None}"
    using kvs assms(3,4) render_inject by (auto simp: graph_view_def)
  obtain m where m: "out_segment_edges_for_src_txn db s c t src now = Inr m" "bt_inv m"
    "\<And>dst. bt_get m dst \<noteq> None \<longleftrightarrow> seg_edge (graph_view db s) c t src dst"
    using out_segment_edges_ok [OF assms] by metis
  have "set (bt_keys m) = {dst. seg_edge (graph_view db s) c t src dst}"
    using m(3) by (auto simp: bt_keys_def bt_get_None image_iff)
  then show ?thesis
    using that [of "bs_extend ns (bt_keys m)"] ns m(1)
    by (auto simp: out_neighbors_for_src_txn_def out_segment_neighbors_for_src_txn_def has_edge_def)
qed

end

end
