(* ===== verification/Txn_Effects.thy ===== *)
theory Txn_Effects
  imports Graph_State
begin

text \<open>
  What the parts of a transaction do to the logical view of the store: each helper touches the keys
  of its own class only, keeps the store typed, and on a typed store never fails.
\<close>

subsection \<open>Classes of keys\<close>

datatype key_class =
    KC_Log | KC_Idem | KC_Edge | KC_Segment | KC_EdgeMeta | KC_Rel | KC_Degree | KC_Vertex | KC_Other

fun class_of :: "graph_key \<Rightarrow> key_class" where
  "class_of (K_MatrixDirty _ _) = KC_Log"
| "class_of (K_AdjacencyGeneration _ _) = KC_Log"
| "class_of (K_XlogEntry _ _ _ _ _) = KC_Log"
| "class_of (K_XlogLowWater _ _) = KC_Log"
| "class_of (K_Idempotency _ _ _) = KC_Idem"
| "class_of (K_Edge _ _ _ _) = KC_Edge"
| "class_of (K_OutEdge _ _ _ _) = KC_Edge"
| "class_of (K_InEdge _ _ _ _) = KC_Edge"
| "class_of (K_OutSegment _ _ _ _ _) = KC_Segment"
| "class_of (K_OutSegmentTombstone _ _ _ _) = KC_Segment"
| "class_of (K_EdgeMetadata _ _ _ _) = KC_EdgeMeta"
| "class_of (K_EdgePropertyIndex _ _ _ _ _ _) = KC_EdgeMeta"
| "class_of (K_Relationship _ _ _ _ _) = KC_Rel"
| "class_of (K_RelationshipId _ _) = KC_Rel"
| "class_of (K_RelationshipCount _ _ _ _) = KC_Rel"
| "class_of (K_RelationshipPropertyIndex _ _ _ _ _ _ _) = KC_Rel"
| "class_of (K_RelationshipMergeIndex _ _ _ _ _ _) = KC_Rel"
| "class_of (K_LastRelationshipId _) = KC_Rel"
| "class_of (K_DegreeOut _ _ _) = KC_Degree"
| "class_of (K_DegreeIn _ _ _) = KC_Degree"
| "class_of (K_Vertex _ _) = KC_Vertex"
| "class_of (K_VertexLabel _ _ _) = KC_Vertex"
| "class_of (K_VertexPropertyIndex _ _ _ _) = KC_Vertex"
| "class_of _ = KC_Other"

definition agree :: "key_class set \<Rightarrow> graph_contents \<Rightarrow> graph_contents \<Rightarrow> bool" where
  "agree S v w \<longleftrightarrow> (\<forall>k. class_of k \<in> S \<longrightarrow> v k = w k)"

lemma agreeD: "agree S v w \<Longrightarrow> class_of k \<in> S \<Longrightarrow> v k = w k"
  by (simp add: agree_def)

lemma agree_refl [simp]: "agree S v v"
  by (simp add: agree_def)

lemma agree_trans [trans]: "agree S u v \<Longrightarrow> agree S v w \<Longrightarrow> agree S u w"
  by (simp add: agree_def)

lemma agree_sym: "agree S u v \<Longrightarrow> agree S v u"
  by (simp add: agree_def)

lemma agree_mono: "agree S u v \<Longrightarrow> T \<subseteq> S \<Longrightarrow> agree T u v"
  by (auto simp: agree_def)

lemma agree_upd [simp]:
  "class_of k \<notin> S \<Longrightarrow> agree S (v(k := x)) w \<longleftrightarrow> agree S v w"
  by (auto simp: agree_def)

lemma agree_upd2 [simp]:
  "class_of k \<notin> S \<Longrightarrow> agree S v (w(k := x)) \<longleftrightarrow> agree S v w"
  by (auto simp: agree_def)

lemma segment_of_agree: "agree {KC_Segment} v w \<Longrightarrow> segment_of v c t src q g = segment_of w c t src q g"
  using agreeD [of "{KC_Segment}" v w "K_OutSegment c t src q g"] by (simp add: segment_of_def)

lemma tombstone_of_agree: "agree {KC_Segment} v w \<Longrightarrow> tombstone_of v c t src d = tombstone_of w c t src d"
  using agreeD [of "{KC_Segment}" v w "K_OutSegmentTombstone c t src d"] by (simp add: tombstone_of_def)

lemma seg_edge_agree: "agree {KC_Segment} v w \<Longrightarrow> seg_edge v c t src d = seg_edge w c t src d"
  by (simp add: seg_edge_def segment_of_agree [of v w] tombstone_of_agree [of v w])

lemma has_edge_agree: "agree {KC_Edge, KC_Segment} v w \<Longrightarrow> has_edge v c t src d = has_edge w c t src d"
  using agreeD [of "{KC_Edge, KC_Segment}" v w "K_OutEdge c t src d"] seg_edge_agree [of v w]
    agree_mono [of "{KC_Edge, KC_Segment}" v w "{KC_Segment}"]
  by (simp add: has_edge_def)

lemma sequences_ok_agree:
  assumes "agree {KC_Segment} v w" "sequences_ok v now" "now \<le> now'"
  shows "sequences_ok w now'"
proof -
  have "v (K_OutSegment c t src q g) = w (K_OutSegment c t src q g)" for c t src q g
    using agreeD [OF assms(1), of "K_OutSegment c t src q g"] by simp
  then show ?thesis
    using assms(2,3) order_trans unfolding sequences_ok_def tombstone_of_agree [OF assms(1)]
    by (metis (no_types, lifting))
qed

subsection \<open>Counters\<close>

definition counter :: "graph_contents \<Rightarrow> graph_key \<Rightarrow> u64" where
  "counter view k = (case view k of None \<Rightarrow> 0 | Some v \<Rightarrow> from_be_bytes v)"

lemma counter_encode [simp]: "counter (v(k \<mapsto> encode_u64 w)) k = w"
  by (simp add: counter_def encode_u64_def)

lemma counter_other [simp]: "k \<noteq> k' \<Longrightarrow> counter (v(k' := x)) k = counter v k"
  by (simp add: counter_def)

lemma counter_eqI: "v k = w k \<Longrightarrow> counter v k = counter w k"
  by (simp add: counter_def)

context kv_store
begin

lemma read_counter_ok:
  assumes "store_typed db s" "valid_key k" "\<And>v. value_ok k v \<longleftrightarrow> length v = 8"
  shows "read_counter_txn db s k = Inr (counter (graph_view db s) k)"
  using assms typed_value [OF assms(1), of k]
  by (auto simp: read_counter_txn_def read_view counter_def decode_u64_def split: option.splits)

lemma commit_effect:
  assumes "commit_result_with db r s = Inr (r', s')"
  shows "r' = r" "graph_view db s' = graph_view db s" "store_typed db s \<Longrightarrow> store_typed db s'"
    "kv_seqnum db s' = kv_seqnum db s + 1" "unat (kv_seqnum db s') = unat (kv_seqnum db s) + 1"
proof -
  obtain q where q: "checked_add_u64 (kv_seqnum db s) 1 = Some q" "kv_commit db s q = Inr s'" "r' = r"
    using assms by (auto simp: commit_result_with_def commit_txn_strict_def and_then_eq_Inr map_ok_eq_Inr)
  then show "r' = r" "graph_view db s' = graph_view db s" "store_typed db s \<Longrightarrow> store_typed db s'"
    by (simp_all add: view_commit typed_commit)
  show "kv_seqnum db s' = kv_seqnum db s + 1" "unat (kv_seqnum db s') = unat (kv_seqnum db s) + 1"
    using q checked_add_u64_Some [OF q(1)] commit_seqnum [OF q(2)]
    by (auto simp: checked_add_u64_def split: if_splits)
qed

subsection \<open>The changelog\<close>

lemma view_puts_const:
  "\<forall>x \<in> set xs. valid_key (f x) \<Longrightarrow>
    graph_view db (foldl (\<lambda>s x. txn_put db s (f x) b) s xs) =
      (\<lambda>k. if k \<in> f ` set xs then Some b else graph_view db s k)"
  by (induction xs arbitrary: s) (auto simp: fun_eq_iff)

lemma floor_effect:
  assumes "valid_component c" "valid_component t"
    and "ensure_xlog_floor db shard c t e s = (shard', s')"
    and "xlog_floor_token c t \<in> set (sh_xlog_floor_ensured shard) \<longrightarrow>
      graph_view db s (K_XlogLowWater c t) \<noteq> None"
  shows "graph_view db s' = (if graph_view db s (K_XlogLowWater c t) = None
      then (graph_view db s)(K_XlogLowWater c t \<mapsto> encode_u64 e) else graph_view db s)"
    "kv_seqnum db s' = kv_seqnum db s"
    "store_typed db s \<Longrightarrow> store_typed db s'"
    "shard' = shard\<lparr> sh_xlog_floor_ensured := sh_xlog_floor_ensured shard' \<rparr>"
    "set (sh_xlog_floor_ensured shard') \<subseteq> insert (xlog_floor_token c t) (set (sh_xlog_floor_ensured shard))"
  using assms
  by (auto simp: ensure_xlog_floor_def Let_def read_view typed_put split: if_splits option.splits)

end

text \<open>The cache never runs ahead of the store: a cached token has its floor stored.\<close>

definition floor_cache_ok :: "graph_shard \<Rightarrow> graph_contents \<Rightarrow> bool" where
  "floor_cache_ok shard view \<longleftrightarrow>
     (\<forall>c t. valid_component c \<longrightarrow> valid_component t \<longrightarrow>
        xlog_floor_token c t \<in> set (sh_xlog_floor_ensured shard) \<longrightarrow> view (K_XlogLowWater c t) \<noteq> None)"

lemma xlog_floor_token_inject:
  assumes "valid_component c" "valid_component c'"
  shows "xlog_floor_token c t = xlog_floor_token c' t' \<longleftrightarrow> c = c' \<and> t = t'"
proof -
  have "CHR ''/'' \<notin> set c" "CHR ''/'' \<notin> set c'"
    using assms by (auto simp: valid_component_notin)
  then have "split_char (CHR ''/'') (c @ CHR ''/'' # t) = c # split_char (CHR ''/'') t"
      "split_char (CHR ''/'') (c' @ CHR ''/'' # t') = c' # split_char (CHR ''/'') t'"
    by (simp_all add: split_char_append)
  then show ?thesis
    unfolding xlog_floor_token_def by (metis append_Cons append_Nil append_same_eq list.inject same_append_eq)
qed

definition logged :: "graph_contents \<Rightarrow> string \<Rightarrow> string \<Rightarrow> storage_sequence \<Rightarrow> graph_contents" where
  "logged view c t e =
     (let v = view(K_MatrixDirty c t \<mapsto> encode_u64 e, K_AdjacencyGeneration c t \<mapsto> encode_u64 e)
      in if view (K_XlogLowWater c t) = None then v(K_XlogLowWater c t \<mapsto> encode_u64 e) else v)"

lemma logged_agree: "KC_Log \<notin> S \<Longrightarrow> agree S (logged view c t e) w \<longleftrightarrow> agree S view w"
  by (simp add: logged_def Let_def)

lemma logged_low_water:
  "logged view c t e (K_XlogLowWater c' t') =
    (if c' = c \<and> t' = t \<and> view (K_XlogLowWater c t) = None then Some (encode_u64 e)
     else view (K_XlogLowWater c' t'))"
  by (auto simp: logged_def Let_def)

context kv_store
begin

lemma mark_effect:
  assumes v: "valid_component c" "valid_component t" and "store_typed db s"
    and "floor_cache_ok shard (graph_view db s)" and "pairs \<noteq> []"
    and m: "mark_topology_change_txn db shard c t e (map (\<lambda>(src, dst). (src, dst, b)) pairs) s = (shard', s')"
  shows "graph_view db s' = (\<lambda>k. if k \<in> (\<lambda>(src, dst). K_XlogEntry c t e src dst) ` set pairs
      then Some (xlog_value b) else logged (graph_view db s) c t e k)"
    "kv_seqnum db s' = kv_seqnum db s" "store_typed db s'"
    "shard' = shard\<lparr> sh_xlog_floor_ensured := sh_xlog_floor_ensured shard' \<rparr>"
    "set (sh_xlog_floor_ensured shard') \<subseteq> insert (xlog_floor_token c t) (set (sh_xlog_floor_ensured shard))"
proof -
  define s1 where "s1 = txn_put db (txn_put db s (K_MatrixDirty c t) (encode_u64 e))
      (K_AdjacencyGeneration c t) (encode_u64 e)"
  obtain shard2 s2 where f: "ensure_xlog_floor db shard c t e s1 = (shard2, s2)" by force
  let ?put = "\<lambda>s (src, dst). txn_put db s (K_XlogEntry c t e src dst) (xlog_value b)"
  have s': "shard' = shard2" "s' = foldl ?put s2 pairs"
    using m f \<open>pairs \<noteq> []\<close>
    by (auto simp: mark_topology_change_txn_def Let_def s1_def foldl_map case_prod_unfold)
  have v1: "graph_view db s1 = (graph_view db s)(K_MatrixDirty c t \<mapsto> encode_u64 e,
      K_AdjacencyGeneration c t \<mapsto> encode_u64 e)"
    using v by (simp add: s1_def)
  have t1: "store_typed db s1" "kv_seqnum db s1 = kv_seqnum db s"
    using assms by (simp_all add: s1_def typed_put)
  have "xlog_floor_token c t \<in> set (sh_xlog_floor_ensured shard) \<longrightarrow> graph_view db s1 (K_XlogLowWater c t) \<noteq> None"
    using assms by (simp add: v1 floor_cache_ok_def)
  note fl = floor_effect [OF v f this]
  have v2: "graph_view db s2 = logged (graph_view db s) c t e"
    using fl(1) v1 by (auto simp: logged_def Let_def)
  have put: "?put = (\<lambda>s p. txn_put db s ((\<lambda>(src, dst). K_XlogEntry c t e src dst) p) (xlog_value b))"
    by (simp add: fun_eq_iff case_prod_unfold)
  have "graph_view db s' = (\<lambda>k. if k \<in> (\<lambda>(src, dst). K_XlogEntry c t e src dst) ` set pairs
      then Some (xlog_value b) else graph_view db s2 k)"
    unfolding s'(2) put by (rule view_puts_const) (use v in auto)
  then show "graph_view db s' = (\<lambda>k. if k \<in> (\<lambda>(src, dst). K_XlogEntry c t e src dst) ` set pairs
      then Some (xlog_value b) else logged (graph_view db s) c t e k)"
    unfolding v2 .
  show "kv_seqnum db s' = kv_seqnum db s"
    unfolding s'(2) using fl(2) t1(2) by (subst seqnum_foldl) (auto simp: case_prod_unfold)
  show "store_typed db s'"
    unfolding s'(2) using fl(3) [OF t1(1)] v
    by (intro typed_foldl) (auto simp: case_prod_unfold xlog_value_def intro!: typed_put)
  show "shard' = shard\<lparr> sh_xlog_floor_ensured := sh_xlog_floor_ensured shard' \<rparr>"
    "set (sh_xlog_floor_ensured shard') \<subseteq> insert (xlog_floor_token c t) (set (sh_xlog_floor_ensured shard))"
    unfolding s'(1) by (rule fl(4), rule fl(5))
qed

lemma mark_floor_cache:
  assumes v: "valid_component c" "valid_component t"
    and "floor_cache_ok shard view" "set (sh_xlog_floor_ensured shard') \<subseteq>
      insert (xlog_floor_token c t) (set (sh_xlog_floor_ensured shard))"
    and "\<And>c' t'. view (K_XlogLowWater c' t') \<noteq> None \<Longrightarrow> view' (K_XlogLowWater c' t') \<noteq> None"
    and "view' (K_XlogLowWater c t) \<noteq> None"
  shows "floor_cache_ok shard' view'"
  unfolding floor_cache_ok_def
proof (intro allI impI)
  fix c' t'
  assume v': "valid_component c'" "valid_component t'"
    and "xlog_floor_token c' t' \<in> set (sh_xlog_floor_ensured shard')"
  then have "xlog_floor_token c' t' = xlog_floor_token c t \<or> xlog_floor_token c' t' \<in> set (sh_xlog_floor_ensured shard)"
    using assms(4) by blast
  then show "view' (K_XlogLowWater c' t') \<noteq> None"
    using v v' assms(3,5,6) xlog_floor_token_inject [of c' c] unfolding floor_cache_ok_def by metis
qed

end

subsection \<open>Steps and what they touch\<close>

definition touches :: "'s kv_db \<Rightarrow> key_class set \<Rightarrow> 's \<Rightarrow> 's \<Rightarrow> bool" where
  "touches db S s s' \<longleftrightarrow>
     (store_typed db s \<longrightarrow> store_typed db s') \<and> kv_seqnum db s' = kv_seqnum db s \<and>
     agree (- S) (graph_view db s) (graph_view db s')"

lemma touchesD:
  assumes "touches db S s s'"
  shows "store_typed db s \<Longrightarrow> store_typed db s'" "kv_seqnum db s' = kv_seqnum db s"
    "T \<inter> S = {} \<Longrightarrow> agree T (graph_view db s) (graph_view db s')"
  using assms by (auto simp: touches_def elim!: agree_mono)

lemma touches_refl [simp]: "touches db S s s"
  by (simp add: touches_def)

lemma touches_trans: "touches db S s s1 \<Longrightarrow> touches db S s1 s2 \<Longrightarrow> touches db S s s2"
  by (auto simp: touches_def elim: agree_trans)

lemma touches_mono: "touches db S s s' \<Longrightarrow> S \<subseteq> T \<Longrightarrow> touches db T s s'"
  by (auto simp: touches_def elim!: agree_mono)

lemma touches_foldl:
  "(\<And>s x. x \<in> set xs \<Longrightarrow> touches db S s (h s x)) \<Longrightarrow> touches db S s (foldl h s xs)"
proof (induction xs arbitrary: s)
  case (Cons x xs)
  then show ?case
    using touches_trans [of db S s "h s x" "foldl h (h s x) xs"] by simp
qed simp

context kv_store
begin

lemma touches_put:
  "valid_key k \<Longrightarrow> value_ok k v \<Longrightarrow> class_of k \<in> S \<Longrightarrow> touches db S s (txn_put db s k v)"
  by (simp add: touches_def typed_put)

lemma touches_delete:
  "valid_key k \<Longrightarrow> class_of k \<in> S \<Longrightarrow> touches db S s (txn_delete db s k)"
  by (simp add: touches_def typed_delete)

end

end
