(* ===== verification/Index_Effects.thy ===== *)
theory Index_Effects
  imports Txn_Effects
begin

text \<open>
  Secondary indexes.  A vertex, a structural edge and a relationship each have a record and index
  entries derived from it; an index is exact when its entries are those of the records.  The locale
  \<open>secondary_index\<close> proves once that replacing a record together with its entries keeps the index
  exact; it is interpreted for the three indexes, and the helpers that maintain them are shown to
  make such a replacement.
\<close>

subsection \<open>Exact indexes\<close>

definition keys_opt :: "('o \<Rightarrow> 'm \<Rightarrow> graph_key set) \<Rightarrow> 'o \<Rightarrow> 'm option \<Rightarrow> graph_key set" where
  "keys_opt keys_of ow m = (case m of None \<Rightarrow> {} | Some x \<Rightarrow> keys_of ow x)"

lemma keys_opt_simps [simp]:
  "keys_opt keys_of ow None = {}" "keys_opt keys_of ow (Some x) = keys_of ow x"
  by (simp_all add: keys_opt_def)

definition index_exact ::
    "(graph_key \<Rightarrow> 'o option) \<Rightarrow> ('o \<Rightarrow> 'm \<Rightarrow> graph_key set) \<Rightarrow> (graph_contents \<Rightarrow> 'o \<Rightarrow> 'm option) \<Rightarrow>
     graph_contents \<Rightarrow> bool" where
  "index_exact owner keys_of rec view \<longleftrightarrow>
     (\<forall>k ow. owner k = Some ow \<longrightarrow> (view k \<noteq> None \<longleftrightarrow> k \<in> keys_opt keys_of ow (rec view ow)))"

locale secondary_index =
  fixes owner :: "graph_key \<Rightarrow> 'o option"
    and keys_of :: "'o \<Rightarrow> 'm \<Rightarrow> graph_key set"
    and rec :: "graph_contents \<Rightarrow> 'o \<Rightarrow> 'm option"
  assumes owner_keys: "k \<in> keys_of ow m \<Longrightarrow> owner k = Some ow"
begin

lemma owner_keys_opt: "k \<in> keys_opt keys_of ow m \<Longrightarrow> owner k = Some ow"
  by (cases m) (auto simp: owner_keys)

lemma exact_same:
  assumes "index_exact owner keys_of rec view"
    and "\<And>k. owner k \<noteq> None \<Longrightarrow> view' k = view k" "\<And>ow. rec view' ow = rec view ow"
  shows "index_exact owner keys_of rec view'"
  using assms unfolding index_exact_def by (metis option.distinct(1))

lemma exact_update:
  assumes exact: "index_exact owner keys_of rec view"
    and keys: "\<And>k. owner k \<noteq> None \<Longrightarrow> view' k =
      (if k \<in> keys_opt keys_of ow new then Some b
       else if k \<in> keys_opt keys_of ow (rec view ow) then None else view k)"
    and recs: "\<And>ow'. rec view' ow' = (if ow' = ow then new else rec view ow')"
  shows "index_exact owner keys_of rec view'"
  unfolding index_exact_def
proof (intro allI impI)
  fix k ow'
  assume k: "owner k = Some ow'"
  then have old: "view k \<noteq> None \<longleftrightarrow> k \<in> keys_opt keys_of ow' (rec view ow')"
    using exact by (simp add: index_exact_def)
  show "view' k \<noteq> None \<longleftrightarrow> k \<in> keys_opt keys_of ow' (rec view' ow')"
  proof (cases "ow' = ow")
    case True
    then show ?thesis using keys [of k] recs [of ow'] k old by auto
  next
    case False
    then have "k \<notin> keys_opt keys_of ow new" "k \<notin> keys_opt keys_of ow (rec view ow)"
      using owner_keys_opt k by fastforce+
    then show ?thesis using keys [of k] recs [of ow'] k old False by auto
  qed
qed

end

subsection \<open>Vertices\<close>

fun vertex_owner :: "graph_key \<Rightarrow> (string \<times> vertex_id) option" where
  "vertex_owner (K_VertexLabel c l v) = Some (c, v)"
| "vertex_owner (K_VertexPropertyIndex c p e v) = Some (c, v)"
| "vertex_owner _ = None"

fun vertex_index_keys :: "string \<times> vertex_id \<Rightarrow> vertex_metadata \<Rightarrow> graph_key set" where
  "vertex_index_keys (c, v) m =
     (\<lambda>l. K_VertexLabel c l v) ` set (vm_labels m) \<union>
     (\<lambda>(p, x). K_VertexPropertyIndex c p (encode_vertex_property_value_key x) v) ` set (vm_properties m)"

fun vertex_meta :: "graph_contents \<Rightarrow> string \<times> vertex_id \<Rightarrow> vertex_metadata option" where
  "vertex_meta view (c, v) =
     (case view (K_Vertex c v) of
        None \<Rightarrow> None
      | Some b \<Rightarrow> (case decode_vertex_metadata (render (K_Vertex c v)) b of Inl _ \<Rightarrow> None | Inr m \<Rightarrow> Some m))"

definition vertex_index_ok :: "graph_contents \<Rightarrow> bool" where
  "vertex_index_ok = index_exact vertex_owner vertex_index_keys vertex_meta"

interpretation vertex_index: secondary_index vertex_owner vertex_index_keys vertex_meta
  by unfold_locales (auto simp: split: prod.splits elim!: vertex_index_keys.elims)

lemma vertex_owner_class: "vertex_owner k \<noteq> None \<Longrightarrow> class_of k = KC_Vertex"
  by (cases k) auto

lemma vertex_owner_vertex [simp]: "vertex_owner (K_Vertex c v) = None"
  by simp

lemma vertex_meta_agree: "agree {KC_Vertex} v w \<Longrightarrow> vertex_meta v ow = vertex_meta w ow"
  by (cases ow) (simp add: agreeD [of "{KC_Vertex}" v w])

lemma vertex_index_agree: "agree {KC_Vertex} v w \<Longrightarrow> vertex_index_ok v \<Longrightarrow> vertex_index_ok w"
  unfolding vertex_index_ok_def
  by (erule vertex_index.exact_same)
    (use vertex_owner_class in \<open>auto simp: agree_def vertex_meta_agree\<close>)

lemma vertex_keys_valid:
  "valid_component c \<Longrightarrow> vertex_metadata_ok m \<Longrightarrow> k \<in> vertex_index_keys (c, v) m \<Longrightarrow> valid_key k"
  by (auto simp: vertex_metadata_ok_def properties_ok_def encode_value_key_slash_free)

lemma vertex_entries_valid:
  assumes "valid_component c" "vertex_metadata_ok m"
  shows "\<forall>l \<in> set (vm_labels m). valid_key (K_VertexLabel c l v)"
    "\<forall>x \<in> set (vm_properties m). valid_key ((\<lambda>(p, x). K_VertexPropertyIndex c p (encode_vertex_property_value_key x) v) x)"
  using assms by (auto simp: vertex_metadata_ok_def properties_ok_def encode_value_key_slash_free)

lemma vertex_index_keys_default [simp]: "vertex_index_keys ow default_vertex_metadata = {}"
  by (cases ow) (simp add: default_vertex_metadata_def)

lemma default_vertex_metadata_ok [simp]: "vertex_metadata_ok default_vertex_metadata"
  by (simp add: vertex_metadata_ok_def default_vertex_metadata_def vertex_metadata_inv_def properties_ok_def)

lemma validate_components_fold:
  "fold_res (\<lambda>_ x. validate_component n x) () xs = Inr u \<longleftrightarrow> (\<forall>x \<in> set xs. valid_component x)"
  by (induction xs) (auto simp: validate_component_Inr and_then_eq_Inr)

lemma validate_vertex_metadata_Inr:
  "validate_vertex_metadata m = Inr u \<longleftrightarrow>
    (\<forall>l \<in> set (vm_labels m). valid_component l) \<and> (\<forall>p \<in> set (bt_keys (vm_properties m)). valid_component p)"
  by (auto simp: validate_vertex_metadata_def and_then_eq_Inr validate_components_fold)

lemma validate_vertex_metadata_ok: "vertex_metadata_ok m \<Longrightarrow> validate_vertex_metadata m = Inr ()"
  by (auto simp: validate_vertex_metadata_Inr vertex_metadata_ok_def properties_ok_def bt_keys_def)

context kv_store
begin

lemma put_vertex_indexes_view:
  assumes "valid_component c" "vertex_metadata_ok m"
  shows "graph_view db (put_vertex_metadata_indexes_txn db c v m s) =
    (\<lambda>k. if k \<in> vertex_index_keys (c, v) m then Some (encode_u64 v) else graph_view db s k)"
proof -
  note puts = view_puts_const [OF vertex_entries_valid(1) [OF assms]] view_puts_const [OF vertex_entries_valid(2) [OF assms]]
  have eq: "(\<lambda>s (property, x). txn_put db s
        (K_VertexPropertyIndex c property (encode_vertex_property_value_key x) v) (encode_u64 v)) =
      (\<lambda>s x. txn_put db s ((\<lambda>(p, x). K_VertexPropertyIndex c p (encode_vertex_property_value_key x) v) x) (encode_u64 v))"
    by (simp add: fun_eq_iff case_prod_unfold)
  show ?thesis
    unfolding put_vertex_metadata_indexes_txn_def eq puts by (auto simp: fun_eq_iff)
qed

lemma delete_vertex_indexes_view:
  assumes "valid_component c" "vertex_metadata_ok m"
  shows "graph_view db (delete_vertex_metadata_indexes_txn db c v m s) =
    (\<lambda>k. if k \<in> vertex_index_keys (c, v) m then None else graph_view db s k)"
proof -
  note dels = view_deletes [OF vertex_entries_valid(1) [OF assms]] view_deletes [OF vertex_entries_valid(2) [OF assms]]
  have eq: "(\<lambda>s (property, x). txn_delete db s
        (K_VertexPropertyIndex c property (encode_vertex_property_value_key x) v)) =
      (\<lambda>s x. txn_delete db s ((\<lambda>(p, x). K_VertexPropertyIndex c p (encode_vertex_property_value_key x) v) x))"
    by (simp add: fun_eq_iff case_prod_unfold)
  show ?thesis
    unfolding delete_vertex_metadata_indexes_txn_def eq dels by (auto simp: fun_eq_iff)
qed

end

context kv_store
begin

lemma touches_put_vertex_indexes:
  "valid_component c \<Longrightarrow> vertex_metadata_ok m \<Longrightarrow>
    touches db {KC_Vertex} s (put_vertex_metadata_indexes_txn db c v m s)"
  unfolding put_vertex_metadata_indexes_txn_def
  by (rule touches_trans; rule touches_foldl)
    (use vertex_entries_valid [of c m v] in \<open>auto intro!: touches_put\<close>)

lemma touches_delete_vertex_indexes:
  "valid_component c \<Longrightarrow> vertex_metadata_ok m \<Longrightarrow>
    touches db {KC_Vertex} s (delete_vertex_metadata_indexes_txn db c v m s)"
  unfolding delete_vertex_metadata_indexes_txn_def
  by (rule touches_trans; rule touches_foldl)
    (use vertex_entries_valid [of c m v] in \<open>auto intro!: touches_delete\<close>)

lemma vertex_value_ok: "vertex_metadata_ok m \<Longrightarrow> value_ok (K_Vertex c v) (encode_vertex_metadata m)"
  by (simp add: decode_encode_vertex_metadata)

text \<open>
  Replacing a vertex's metadata: \<open>previous\<close> is what is stored (or the empty metadata), \<open>new\<close>
  is stored afterwards, and the label and property indexes follow.
\<close>

lemma apply_vertex_update:
  assumes c: "valid_component c" and ok: "vertex_metadata_ok previous" "vertex_metadata_ok new"
    and prev: "previous = (case vertex_meta (graph_view db s) (c, v) of Some m \<Rightarrow> m | None \<Rightarrow> default_vertex_metadata)"
  obtains s' where "apply_vertex_metadata_update_txn db c v previous new s = Inr s'"
    "touches db {KC_Vertex} s s'"
    "\<And>ow. vertex_meta (graph_view db s') ow =
      (if ow = (c, v) then Some new else vertex_meta (graph_view db s) ow)"
    "\<And>c' v'. graph_view db s' (K_Vertex c' v') =
      (if (c', v') = (c, v) then Some (encode_vertex_metadata new) else graph_view db s (K_Vertex c' v'))"
    "vertex_index_ok (graph_view db s) \<Longrightarrow> vertex_index_ok (graph_view db s')"
proof -
  define s1 where "s1 = delete_vertex_metadata_indexes_txn db c v previous s"
  define s2 where "s2 = txn_put db s1 (K_Vertex c v) (encode_vertex_metadata new)"
  define s3 where "s3 = put_vertex_metadata_indexes_txn db c v new s2"
  have run: "apply_vertex_metadata_update_txn db c v previous new s = Inr s3"
    by (simp add: apply_vertex_metadata_update_txn_def validate_vertex_metadata_ok [OF ok(2)] s1_def s2_def s3_def)
  have "touches db {KC_Vertex} s s1" "touches db {KC_Vertex} s1 s2" "touches db {KC_Vertex} s2 s3"
    unfolding s1_def s2_def s3_def using c ok
    by (auto intro!: touches_put_vertex_indexes touches_delete_vertex_indexes touches_put
        simp: decode_encode_vertex_metadata)
  then have t: "touches db {KC_Vertex} s s3" by (blast intro: touches_trans)
  have view: "graph_view db s3 = (\<lambda>k. if k \<in> vertex_index_keys (c, v) new then Some (encode_u64 v)
      else if k = K_Vertex c v then Some (encode_vertex_metadata new)
      else if k \<in> vertex_index_keys (c, v) previous then None else graph_view db s k)"
    unfolding s3_def put_vertex_indexes_view [OF c ok(2)] s2_def s1_def
    using c by (auto simp: fun_eq_iff delete_vertex_indexes_view [OF c ok(1)])
  have rec: "graph_view db s3 (K_Vertex c' v') =
      (if (c', v') = (c, v) then Some (encode_vertex_metadata new) else graph_view db s (K_Vertex c' v'))" for c' v'
    unfolding view by auto
  have meta: "vertex_meta (graph_view db s3) ow =
      (if ow = (c, v) then Some new else vertex_meta (graph_view db s) ow)" for ow
    using rec by (cases ow) (auto simp: decode_encode_vertex_metadata [OF ok(2)])
  have "vertex_index_ok (graph_view db s3)" if "vertex_index_ok (graph_view db s)"
    unfolding vertex_index_ok_def
  proof (rule vertex_index.exact_update [where ow = "(c, v)" and new = "Some new" and b = "encode_u64 v"])
    show "index_exact vertex_owner vertex_index_keys vertex_meta (graph_view db s)"
      using that by (simp add: vertex_index_ok_def)
    have prev_keys: "keys_opt vertex_index_keys (c, v) (vertex_meta (graph_view db s) (c, v)) =
        vertex_index_keys (c, v) previous"
      unfolding prev
      by (cases "vertex_meta (graph_view db s) (c, v)")
        (simp_all del: vertex_meta.simps vertex_index_keys.simps)
    show "graph_view db s3 k =
        (if k \<in> keys_opt vertex_index_keys (c, v) (Some new) then Some (encode_u64 v)
         else if k \<in> keys_opt vertex_index_keys (c, v) (vertex_meta (graph_view db s) (c, v)) then None
         else graph_view db s k)" if "vertex_owner k \<noteq> None" for k
      unfolding view prev_keys using that by auto
  qed (rule meta)
  with run t meta rec show ?thesis using that by blast
qed

end

definition stored_meta :: "graph_contents \<Rightarrow> string \<Rightarrow> vertex_id \<Rightarrow> vertex_metadata" where
  "stored_meta view c v =
     (case vertex_meta view (c, v) of Some m \<Rightarrow> m | None \<Rightarrow> default_vertex_metadata)"

text \<open>The updates a write has to apply: those that change a record or create one.\<close>

definition vertex_change :: "graph_contents \<Rightarrow> string \<Rightarrow> vertex_id \<times> vertex_metadata \<Rightarrow>
    (vertex_id \<times> vertex_metadata \<times> vertex_metadata) list" where
  "vertex_change view c = (\<lambda>(v, requested).
     let previous = stored_meta view c v; new = merge_vertex_metadata previous requested
     in if previous \<noteq> new \<or> view (K_Vertex c v) = None then [(v, previous, new)] else [])"

lemma fold_res_concat:
  "(\<And>acc x. x \<in> set xs \<Longrightarrow> step acc x = Inr (acc @ f x)) \<Longrightarrow>
    fold_res step acc xs = Inr (acc @ concat (map f xs))"
  by (induction xs arbitrary: acc) simp_all

lemma merge_vertex_metadata_ok:
  assumes "vertex_metadata_ok a" "vertex_metadata_ok b"
  shows "vertex_metadata_ok (merge_vertex_metadata a b)"
proof -
  let ?m = "merge_vertex_metadata a b"
  have inv: "bs_inv (vm_labels ?m)" "bt_inv (vm_properties ?m)"
    using assms by (simp_all add: merge_vertex_metadata_def vertex_metadata_ok_def vertex_metadata_inv_def)
  have "valid_component p \<and> value_canonical x" if "(p, x) \<in> set (vm_properties ?m)" for p x
  proof -
    have a: "bt_inv (vm_properties a)"
      using assms by (simp add: vertex_metadata_ok_def vertex_metadata_inv_def)
    have "bt_get (vm_properties ?m) p = Some x"
      using that bt_get_Some_set [OF inv(2)] by simp
    then have "map_of (rev (vm_properties b)) p = Some x \<or> bt_get (vm_properties a) p = Some x"
      using bt_get_extend [OF a, of "vm_properties b" p]
      by (auto simp: merge_vertex_metadata_def split: option.splits)
    then have "(p, x) \<in> set (vm_properties b) \<or> (p, x) \<in> set (vm_properties a)"
      using bt_get_Some_set [OF a] map_of_SomeD by fastforce
    then show ?thesis using assms by (auto simp: vertex_metadata_ok_def properties_ok_def)
  qed
  moreover have "set (vm_labels ?m) = set (vm_labels a) \<union> set (vm_labels b)"
    by (simp add: merge_vertex_metadata_def)
  ultimately show ?thesis
    using assms inv by (auto simp: vertex_metadata_ok_def vertex_metadata_inv_def properties_ok_def)
qed

context kv_store
begin

lemma stored_meta_ok: "store_typed db s \<Longrightarrow> vertex_metadata_ok (stored_meta (graph_view db s) c v)"
  using typed_value [of s "K_Vertex c v"]
  by (auto simp: stored_meta_def split: option.splits sum.splits)

lemma decode_vertex_record_ok:
  "store_typed db s \<Longrightarrow> valid_component c \<Longrightarrow>
    decode_vertex_record (render (K_Vertex c v)) (read_txn_remote db s (K_Vertex c v)) =
      Inr (vertex_meta (graph_view db s) (c, v))"
  using typed_value [of s "K_Vertex c v"]
  by (auto simp: decode_vertex_record_def read_view split: option.splits sum.splits)

lemma vertex_meta_None:
  "store_typed db s \<Longrightarrow> vertex_meta (graph_view db s) (c, v) = None \<longleftrightarrow> graph_view db s (K_Vertex c v) = None"
  using typed_value [of s "K_Vertex c v"] by (auto split: option.splits sum.splits)

lemma changed_vertex_metadata_ok:
  assumes "store_typed db s" "valid_component c"
  shows "changed_vertex_metadata db s c updates = Inr (concat (map (vertex_change (graph_view db s) c) updates))"
proof -
  let ?step = "\<lambda>changed (v, requested).
     let vertex_key = K_Vertex c v in
     and_then (decode_vertex_record (render vertex_key) (read_txn_remote db s vertex_key)) (\<lambda>existing.
     let previous = (case existing of Some m \<Rightarrow> m | None \<Rightarrow> default_vertex_metadata);
         new = merge_vertex_metadata previous requested
     in Inr (if previous \<noteq> new \<or> existing = None then changed @ [(v, previous, new)] else changed))"
  have step: "?step changed u = Inr (changed @ vertex_change (graph_view db s) c u)" for changed u
    by (cases u) (simp add: decode_vertex_record_ok [OF assms] vertex_change_def Let_def
        stored_meta_def vertex_meta_None [OF assms(1)] del: vertex_meta.simps)
  show ?thesis
    unfolding changed_vertex_metadata_def using fold_res_concat [of updates ?step, OF step] by simp
qed

lemma apply_vertex_updates:
  assumes "store_typed db s" "valid_component c" "distinct (map fst updates)"
    and "\<And>v m. (v, m) \<in> set updates \<Longrightarrow> vertex_metadata_ok m"
    and "\<And>v m. (v, m) \<in> set updates \<Longrightarrow> graph_view db s' (K_Vertex c v) = graph_view db s (K_Vertex c v)"
    and "store_typed db s'"
  obtains s'' where
    "apply_changed_vertex_metadata db c (concat (map (vertex_change (graph_view db s) c) updates)) s' = Inr s''"
    "touches db {KC_Vertex} s' s''"
    "\<And>c' v'. vertex_meta (graph_view db s'') (c', v') =
      (case map_of updates v' of
         Some m \<Rightarrow> if c' = c then Some (merge_vertex_metadata (stored_meta (graph_view db s) c v') m)
                   else vertex_meta (graph_view db s') (c', v')
       | None \<Rightarrow> vertex_meta (graph_view db s') (c', v'))"
    "vertex_index_ok (graph_view db s') \<Longrightarrow> vertex_index_ok (graph_view db s'')"
  using assms(3-6)
proof (induction updates arbitrary: s' thesis)
  case Nil
  then show ?case by (simp add: apply_changed_vertex_metadata_def del: vertex_meta.simps)
next
  case (Cons u updates)
  obtain v m where u: "u = (v, m)" by (cases u)
  let ?prev = "stored_meta (graph_view db s) c v"
  let ?new = "merge_vertex_metadata ?prev m"
  have ok: "vertex_metadata_ok ?prev" "vertex_metadata_ok ?new"
    using stored_meta_ok [OF assms(1)] merge_vertex_metadata_ok Cons.prems(3) [of v m] u by simp_all
  have here: "vertex_meta (graph_view db s') (c, v) = vertex_meta (graph_view db s) (c, v)"
    using Cons.prems(4) [of v m] u by simp
  obtain s1 where s1: "apply_changed_vertex_metadata db c (vertex_change (graph_view db s) c u) s' = Inr s1"
      "touches db {KC_Vertex} s' s1"
      "\<And>ow. vertex_meta (graph_view db s1) ow = (if ow = (c, v) then Some ?new else vertex_meta (graph_view db s') ow)"
      "\<And>v'. v' \<noteq> v \<Longrightarrow> graph_view db s1 (K_Vertex c v') = graph_view db s' (K_Vertex c v')"
      "vertex_index_ok (graph_view db s') \<Longrightarrow> vertex_index_ok (graph_view db s1)"
  proof (cases "?prev \<noteq> ?new \<or> graph_view db s (K_Vertex c v) = None")
    case True
    have prev: "?prev = (case vertex_meta (graph_view db s') (c, v) of Some m \<Rightarrow> m | None \<Rightarrow> default_vertex_metadata)"
      unfolding here by (simp add: stored_meta_def)
    obtain s1 where
      "apply_vertex_metadata_update_txn db c v ?prev ?new s' = Inr s1" "touches db {KC_Vertex} s' s1"
      "\<And>ow. vertex_meta (graph_view db s1) ow = (if ow = (c, v) then Some ?new else vertex_meta (graph_view db s') ow)"
      "\<And>c' v'. graph_view db s1 (K_Vertex c' v') =
        (if (c', v') = (c, v) then Some (encode_vertex_metadata ?new) else graph_view db s' (K_Vertex c' v'))"
      "vertex_index_ok (graph_view db s') \<Longrightarrow> vertex_index_ok (graph_view db s1)"
      by (rule apply_vertex_update [OF assms(2) ok prev]) (rule that)
    then show ?thesis
      using that [of s1] True u
      by (simp add: vertex_change_def Let_def apply_changed_vertex_metadata_def del: vertex_meta.simps)
  next
    case False
    then have "vertex_meta (graph_view db s') (c, v) = Some ?new"
      using here vertex_meta_None [OF assms(1), of c v]
      by (auto simp: stored_meta_def simp del: vertex_meta.simps split: option.splits)
    then show ?thesis
      using that [of s'] False u
      by (auto simp: vertex_change_def Let_def apply_changed_vertex_metadata_def simp del: vertex_meta.simps)
  qed
  have fresh: "v \<notin> fst ` set updates" using Cons.prems(2) u by simp
  obtain s2 where s2: "apply_changed_vertex_metadata db c (concat (map (vertex_change (graph_view db s) c) updates)) s1 = Inr s2"
      "touches db {KC_Vertex} s1 s2"
      "\<And>c' v'. vertex_meta (graph_view db s2) (c', v') =
        (case map_of updates v' of
           Some m \<Rightarrow> if c' = c then Some (merge_vertex_metadata (stored_meta (graph_view db s) c v') m)
                     else vertex_meta (graph_view db s1) (c', v')
         | None \<Rightarrow> vertex_meta (graph_view db s1) (c', v'))"
      "vertex_index_ok (graph_view db s1) \<Longrightarrow> vertex_index_ok (graph_view db s2)"
  proof (rule Cons.IH [of s1])
    show "distinct (map fst updates)" using Cons.prems(2) by simp
    show "vertex_metadata_ok m'" if "(v', m') \<in> set updates" for v' m' using Cons.prems(3) that by auto
    show "graph_view db s1 (K_Vertex c v') = graph_view db s (K_Vertex c v')" if "(v', m') \<in> set updates" for v' m'
      using s1(4) [of v'] Cons.prems(4) [of v' m'] that fresh by force
    show "store_typed db s1" using touchesD(1) [OF s1(2)] Cons.prems(5) .
  qed blast
  have none: "map_of updates v = None" using fresh by (simp add: map_of_eq_None_iff)
  show ?case
  proof (rule Cons.prems(1))
    show "apply_changed_vertex_metadata db c (concat (map (vertex_change (graph_view db s) c) (u # updates))) s' = Inr s2"
      using s1(1) s2(1) by (simp add: apply_changed_vertex_metadata_def fold_res_append)
    show "touches db {KC_Vertex} s' s2" using s1(2) s2(2) by (rule touches_trans)
    show "vertex_meta (graph_view db s2) (c', v') =
      (case map_of (u # updates) v' of
         Some m \<Rightarrow> if c' = c then Some (merge_vertex_metadata (stored_meta (graph_view db s) c v') m)
                   else vertex_meta (graph_view db s') (c', v')
       | None \<Rightarrow> vertex_meta (graph_view db s') (c', v'))" for c' v'
      using s2(3) [of c' v'] s1(3) none u
      by (auto simp del: vertex_meta.simps split: option.splits)
  qed (use s1(5) s2(4) in blast)
qed

end

subsection \<open>Endpoint records\<close>

definition with_vertices :: "graph_contents \<Rightarrow> string \<Rightarrow> vertex_id set \<Rightarrow> graph_contents" where
  "with_vertices view c vs =
     (\<lambda>k. if k \<in> K_Vertex c ` vs then Some (encode_vertex_metadata default_vertex_metadata) else view k)"

lemma with_vertices_upd:
  "with_vertices (view(K_Vertex c v \<mapsto> encode_vertex_metadata default_vertex_metadata)) c vs =
    with_vertices view c (insert v vs)"
  by (auto simp: with_vertices_def fun_eq_iff)

lemma with_vertices_empty [simp]: "with_vertices view c {} = view"
  by (simp add: with_vertices_def)

lemma with_vertices_agree: "KC_Vertex \<notin> S \<Longrightarrow> agree S (with_vertices view c vs) w \<longleftrightarrow> agree S view w"
  by (auto simp: with_vertices_def agree_def)

lemma with_vertices_meta:
  "vertex_meta (with_vertices view c vs) (c', v) =
    (if c' = c \<and> v \<in> vs then Some default_vertex_metadata else vertex_meta view (c', v))"
  by (auto simp: with_vertices_def decode_encode_vertex_metadata)

lemma with_vertices_index:
  assumes "vertex_index_ok view" "\<And>v. v \<in> vs \<Longrightarrow> vertex_meta view (c, v) = None"
  shows "vertex_index_ok (with_vertices view c vs)"
proof -
  have "keys_opt vertex_index_keys ow (vertex_meta (with_vertices view c vs) ow) =
      keys_opt vertex_index_keys ow (vertex_meta view ow)" for ow
    using assms(2) by (cases ow) (auto simp: with_vertices_meta simp del: vertex_meta.simps vertex_index_keys.simps)
  moreover have "with_vertices view c vs k = view k" if "vertex_owner k = Some ow" for k ow
    using that by (auto simp: with_vertices_def)
  ultimately show ?thesis
    using assms(1) by (simp add: vertex_index_ok_def index_exact_def)
qed

lemma bt_get_read_many:
  assumes "k \<in> set ks"
  shows "bt_get (read_txn_remote_many db s ks) k = Some (kv_get db s k)"
proof -
  have "map_of (rev (map (\<lambda>k. (k, kv_get db s k)) ks)) k = Some (kv_get db s k)"
    using assms by (simp add: rev_map map_of_map_restrict [unfolded comp_def] restrict_map_def)
  then show ?thesis
    by (simp add: read_txn_remote_many_def bt_get_extend)
qed

context kv_store
begin

lemma ensure_fold:
  assumes "valid_component c" "set ks \<subseteq> (\<lambda>v. render (K_Vertex c v)) ` UNIV"
    and "foldl (\<lambda>(s, created) key. if P key
        then (kv_put db s key (encode_vertex_metadata default_vertex_metadata), created + 1)
        else (s, created)) (s, n) ks = (s', n')"
  shows "touches db {KC_Vertex} s s' \<and>
    graph_view db s' = with_vertices (graph_view db s) c
      {v. render (K_Vertex c v) \<in> set ks \<and> P (render (K_Vertex c v))}"
  using assms(2,3)
proof (induction ks arbitrary: s n)
  case (Cons key ks)
  obtain v where key: "key = render (K_Vertex c v)" using Cons.prems(1) by auto
  have inj: "render (K_Vertex c w) = key \<longleftrightarrow> w = v" for w
    using assms(1) key render_inject [of "K_Vertex c w" "K_Vertex c v"] by simp
  let ?d = "encode_vertex_metadata default_vertex_metadata"
  show ?case
  proof (cases "P key")
    case True
    let ?s = "txn_put db s (K_Vertex c v) ?d"
    have tail: "touches db {KC_Vertex} ?s s' \<and> graph_view db s' = with_vertices (graph_view db ?s) c
        {v. render (K_Vertex c v) \<in> set ks \<and> P (render (K_Vertex c v))}"
      by (rule Cons.IH) (use Cons.prems True in \<open>auto simp: txn_put_def key\<close>)
    have head: "touches db {KC_Vertex} s ?s"
      using assms(1) by (simp add: touches_put decode_encode_vertex_metadata)
    have keys: "{w. render (K_Vertex c w) \<in> set (key # ks) \<and> P (render (K_Vertex c w))} =
        insert v {w. render (K_Vertex c w) \<in> set ks \<and> P (render (K_Vertex c w))}"
      using inj True key by auto
    have "graph_view db ?s = (graph_view db s)(K_Vertex c v \<mapsto> ?d)"
      using assms(1) by simp
    then show ?thesis
      unfolding keys using tail touches_trans [OF head, of s'] by (simp add: with_vertices_upd)
  next
    case False
    have "touches db {KC_Vertex} s s' \<and> graph_view db s' = with_vertices (graph_view db s) c
        {v. render (K_Vertex c v) \<in> set ks \<and> P (render (K_Vertex c v))}"
      by (rule Cons.IH) (use Cons.prems False in auto)
    moreover have "{w. render (K_Vertex c w) \<in> set (key # ks) \<and> P (render (K_Vertex c w))} =
        {w. render (K_Vertex c w) \<in> set ks \<and> P (render (K_Vertex c w))}"
      using inj False key by auto
    ultimately show ?thesis by simp
  qed
qed simp

lemma ensure_effect:
  assumes "valid_component c"
    and "ensure_vertex_records_txn db c endpoints skip fresh s = (s', n)"
    and "fresh \<Longrightarrow> \<forall>v. graph_view db s (K_Vertex c v) = None"
  shows "touches db {KC_Vertex} s s'"
    "graph_view db s' = with_vertices (graph_view db s) c
      {v \<in> set endpoints - set skip. graph_view db s (K_Vertex c v) = None}"
proof -
  let ?ks = "bs_of_list (map (\<lambda>v. render (K_Vertex c v)) (filter (\<lambda>v. v \<notin> set skip) endpoints))"
  let ?existing = "if fresh then [] else read_txn_remote_many db s ?ks"
  let ?P = "\<lambda>key. Option.bind (bt_get ?existing key) id = None"
  have inj: "render (K_Vertex c a) = render (K_Vertex c b) \<longleftrightarrow> a = b" for a b
    using assms(1) by (simp add: render_inject)
  have mem: "render (K_Vertex c v) \<in> set ?ks \<longleftrightarrow> v \<in> set endpoints - set skip" for v
    by (auto simp: inj)
  have P: "?P (render (K_Vertex c v)) \<longleftrightarrow> graph_view db s (K_Vertex c v) = None"
    if "render (K_Vertex c v) \<in> set ?ks" for v
    using assms(1,3) bt_get_read_many [OF that, of db s] by (auto simp: graph_view_def)
  have eff: "touches db {KC_Vertex} s s' \<and>
    graph_view db s' = with_vertices (graph_view db s) c
      {v. render (K_Vertex c v) \<in> set ?ks \<and> ?P (render (K_Vertex c v))}"
    by (rule ensure_fold [OF assms(1) _ assms(2) [unfolded ensure_vertex_records_txn_def Let_def]]) auto
  moreover have "{v. render (K_Vertex c v) \<in> set ?ks \<and> ?P (render (K_Vertex c v))} =
      {v \<in> set endpoints - set skip. graph_view db s (K_Vertex c v) = None}"
    using mem P by blast
  ultimately show "touches db {KC_Vertex} s s'"
    "graph_view db s' = with_vertices (graph_view db s) c
      {v \<in> set endpoints - set skip. graph_view db s (K_Vertex c v) = None}"
    by simp_all
qed

end

subsection \<open>Structural edges\<close>

type_synonym edge_id = "string \<times> string \<times> vertex_id \<times> vertex_id"

fun edge_owner :: "graph_key \<Rightarrow> edge_id option" where
  "edge_owner (K_EdgePropertyIndex c t p e src dst) = Some (c, t, src, dst)"
| "edge_owner _ = None"

fun edge_index_keys :: "edge_id \<Rightarrow> edge_metadata \<Rightarrow> graph_key set" where
  "edge_index_keys (c, t, src, dst) m =
     (\<lambda>(p, x). K_EdgePropertyIndex c t p (encode_vertex_property_value_key x) src dst) ` set (em_properties m)"

fun edge_meta :: "graph_contents \<Rightarrow> edge_id \<Rightarrow> edge_metadata option" where
  "edge_meta view (c, t, src, dst) =
     (case view (K_EdgeMetadata c t src dst) of
        None \<Rightarrow> None
      | Some b \<Rightarrow> (case decode_edge_metadata (render (K_EdgeMetadata c t src dst)) b of
          Inl _ \<Rightarrow> None | Inr m \<Rightarrow> Some m))"

definition edge_index_ok :: "graph_contents \<Rightarrow> bool" where
  "edge_index_ok = index_exact edge_owner edge_index_keys edge_meta"

interpretation edge_index: secondary_index edge_owner edge_index_keys edge_meta
  by unfold_locales (auto split: prod.splits elim!: edge_index_keys.elims)

lemma edge_owner_class: "edge_owner k \<noteq> None \<Longrightarrow> class_of k = KC_EdgeMeta"
  by (cases k) auto

lemma edge_meta_agree: "agree {KC_EdgeMeta} v w \<Longrightarrow> edge_meta v ow = edge_meta w ow"
  by (cases ow) (simp add: agreeD [of "{KC_EdgeMeta}" v w])

lemma edge_index_agree: "agree {KC_EdgeMeta} v w \<Longrightarrow> edge_index_ok v \<Longrightarrow> edge_index_ok w"
  unfolding edge_index_ok_def
  by (erule edge_index.exact_same) (use edge_owner_class in \<open>auto simp: agree_def edge_meta_agree\<close>)

definition stored_edge_meta :: "graph_contents \<Rightarrow> edge_id \<Rightarrow> edge_metadata" where
  "stored_edge_meta view ow = (case edge_meta view ow of Some m \<Rightarrow> m | None \<Rightarrow> default_edge_metadata)"

definition keep_edge_meta :: "edge_metadata \<Rightarrow> edge_metadata option" where
  "keep_edge_meta m = (if em_properties m = [] then None else Some m)"

lemma default_edge_metadata_ok [simp]: "edge_metadata_ok default_edge_metadata"
  by (simp add: edge_metadata_ok_def default_edge_metadata_def edge_metadata_inv_def properties_ok_def)

lemma edge_index_keys_default [simp]: "edge_index_keys ow default_edge_metadata = {}"
  by (cases ow) (simp add: default_edge_metadata_def)

lemma edge_entries_valid:
  assumes "valid_component c" "valid_component t" "edge_metadata_ok m"
  shows "\<forall>x \<in> set (em_properties m). valid_key ((\<lambda>(p, x).
    K_EdgePropertyIndex c t p (encode_vertex_property_value_key x) src dst) x)"
  using assms by (auto simp: edge_metadata_ok_def properties_ok_def encode_value_key_slash_free)

lemma validate_edge_metadata_ok: "edge_metadata_ok m \<Longrightarrow> validate_edge_metadata m = Inr ()"
  using validate_components_fold [of "''property''" "bt_keys (em_properties m)" "()"]
  by (auto simp: validate_edge_metadata_def edge_metadata_ok_def properties_ok_def bt_keys_def)

lemma merge_edge_metadata_ok:
  assumes "edge_metadata_ok a" "edge_metadata_ok b"
  shows "edge_metadata_ok (merge_edge_metadata a b)"
proof -
  let ?v = "\<lambda>m. \<lparr> vm_labels = [], vm_properties = em_properties m \<rparr>"
  have "vertex_metadata_ok (merge_vertex_metadata (?v a) (?v b))"
    by (rule merge_vertex_metadata_ok)
      (use assms in \<open>simp_all add: vertex_metadata_ok_def vertex_metadata_inv_def edge_metadata_ok_def edge_metadata_inv_def\<close>)
  then show ?thesis
    by (simp add: vertex_metadata_ok_def vertex_metadata_inv_def edge_metadata_ok_def
        edge_metadata_inv_def merge_vertex_metadata_def merge_edge_metadata_def)
qed

context kv_store
begin

lemma read_edge_metadata_ok:
  assumes "store_typed db s" "valid_component c" "valid_component t"
  shows "read_edge_metadata_txn db s c t src dst = Inr (stored_edge_meta (graph_view db s) (c, t, src, dst))"
    "edge_metadata_ok (stored_edge_meta (graph_view db s) (c, t, src, dst))"
  using assms typed_value [of s "K_EdgeMetadata c t src dst"]
  by (auto simp: read_edge_metadata_txn_def read_view stored_edge_meta_def split: option.splits sum.splits)

lemma edge_put_indexes_eq:
  "put_edge_metadata_indexes_txn db c t src dst m s =
    foldl (\<lambda>s x. txn_put db s ((\<lambda>(p, x). K_EdgePropertyIndex c t p (encode_vertex_property_value_key x) src dst) x)
      (encode_u64 dst)) s (em_properties m)"
  by (simp add: put_edge_metadata_indexes_txn_def case_prod_unfold)

lemma edge_delete_indexes_eq:
  "delete_edge_metadata_indexes_txn db c t src dst m s =
    foldl (\<lambda>s x. txn_delete db s ((\<lambda>(p, x). K_EdgePropertyIndex c t p (encode_vertex_property_value_key x) src dst) x))
      s (em_properties m)"
  by (simp add: delete_edge_metadata_indexes_txn_def case_prod_unfold)

lemma edge_indexes_view:
  assumes "valid_component c" "valid_component t" "edge_metadata_ok m"
  shows "graph_view db (put_edge_metadata_indexes_txn db c t src dst m s) =
      (\<lambda>k. if k \<in> edge_index_keys (c, t, src, dst) m then Some (encode_u64 dst) else graph_view db s k)"
    "graph_view db (delete_edge_metadata_indexes_txn db c t src dst m s) =
      (\<lambda>k. if k \<in> edge_index_keys (c, t, src, dst) m then None else graph_view db s k)"
    "touches db {KC_EdgeMeta} s (put_edge_metadata_indexes_txn db c t src dst m s)"
    "touches db {KC_EdgeMeta} s (delete_edge_metadata_indexes_txn db c t src dst m s)"
  unfolding edge_put_indexes_eq edge_delete_indexes_eq
    view_puts_const [OF edge_entries_valid [OF assms]] view_deletes [OF edge_entries_valid [OF assms]]
  using edge_entries_valid [OF assms, of src dst]
  by (auto intro!: touches_foldl touches_put touches_delete)

lemma apply_edge_update:
  assumes v: "valid_component c" "valid_component t" and "edge_metadata_ok previous" "edge_metadata_ok new"
    and prev: "previous = stored_edge_meta (graph_view db s) (c, t, src, dst)"
  obtains s' where "apply_edge_metadata_update_txn db c t src dst previous new s = Inr s'"
    "touches db {KC_EdgeMeta} s s'"
    "\<And>ow. edge_meta (graph_view db s') ow =
      (if ow = (c, t, src, dst) then keep_edge_meta new else edge_meta (graph_view db s) ow)"
    "edge_index_ok (graph_view db s) \<Longrightarrow> edge_index_ok (graph_view db s')"
proof -
  let ?ow = "(c, t, src, dst)"
  define s1 where "s1 = delete_edge_metadata_indexes_txn db c t src dst previous s"
  define s2 where "s2 = (if em_properties new = [] then txn_delete db s1 (K_EdgeMetadata c t src dst)
      else put_edge_metadata_indexes_txn db c t src dst new
             (txn_put db s1 (K_EdgeMetadata c t src dst) (encode_edge_metadata new)))"
  have run: "apply_edge_metadata_update_txn db c t src dst previous new s = Inr s2"
    by (simp add: apply_edge_metadata_update_txn_def validate_edge_metadata_ok [OF assms(4)] Let_def s1_def s2_def)
  have "touches db {KC_EdgeMeta} s s1"
    unfolding s1_def by (rule edge_indexes_view(4) [OF v assms(3)])
  moreover have "touches db {KC_EdgeMeta} s1 s2"
  proof (cases "em_properties new = []")
    case True
    then show ?thesis using v by (simp add: s2_def touches_delete)
  next
    case False
    have "touches db {KC_EdgeMeta} s1 (txn_put db s1 (K_EdgeMetadata c t src dst) (encode_edge_metadata new))"
      using v assms(4) by (intro touches_put) (simp_all add: decode_encode_edge_metadata)
    from touches_trans [OF this edge_indexes_view(3) [OF v assms(4)]] show ?thesis
      unfolding s2_def using False by simp
  qed
  ultimately have t: "touches db {KC_EdgeMeta} s s2" by (rule touches_trans)
  have view: "graph_view db s2 = (\<lambda>k. if k \<in> edge_index_keys ?ow new then Some (encode_u64 dst)
      else if k = K_EdgeMetadata c t src dst then map_option encode_edge_metadata (keep_edge_meta new)
      else if k \<in> edge_index_keys ?ow previous then None else graph_view db s k)"
  proof (cases "em_properties new = []")
    case True
    then have "edge_index_keys ?ow new = {}" by simp
    then show ?thesis
      unfolding s2_def s1_def keep_edge_meta_def using v True
      by (simp add: fun_eq_iff edge_indexes_view(2) [OF v assms(3)] del: edge_index_keys.simps)
  next
    case False
    then show ?thesis
      unfolding s2_def s1_def keep_edge_meta_def using v
      by (simp add: fun_eq_iff edge_indexes_view(1) [OF v assms(4)] edge_indexes_view(2) [OF v assms(3)]
          del: edge_index_keys.simps)
  qed
  have meta: "edge_meta (graph_view db s2) ow =
      (if ow = ?ow then keep_edge_meta new else edge_meta (graph_view db s) ow)" for ow
    unfolding view
    by (cases ow) (auto simp: keep_edge_meta_def decode_encode_edge_metadata [OF assms(4)])
  have keys: "keys_opt edge_index_keys ?ow (keep_edge_meta new) = edge_index_keys ?ow new"
    by (simp add: keep_edge_meta_def)
  have prev_keys: "keys_opt edge_index_keys ?ow (edge_meta (graph_view db s) ?ow) = edge_index_keys ?ow previous"
    unfolding prev stored_edge_meta_def
    by (cases "edge_meta (graph_view db s) ?ow") (simp_all del: edge_meta.simps edge_index_keys.simps)
  have "edge_index_ok (graph_view db s2)" if "edge_index_ok (graph_view db s)"
    unfolding edge_index_ok_def
    by (rule edge_index.exact_update [where ow = ?ow and new = "keep_edge_meta new" and b = "encode_u64 dst",
          OF that [unfolded edge_index_ok_def] _ meta])
      (unfold keys prev_keys, auto simp: view)
  with run t meta show ?thesis using that by blast
qed

lemma clear_edge_metadata:
  assumes v: "valid_component (mut_cell_id mutation)" "valid_component (mut_edge_type mutation)"
    and "store_typed db s"
    and ow: "ow = (mut_cell_id mutation, mut_edge_type mutation, mut_src mutation, mut_dst mutation)"
  obtains s' where "clear_edge_metadata_txn db mutation (stored_edge_meta (graph_view db s) ow) s = Inr s'"
    "touches db {KC_EdgeMeta} s s'"
    "\<And>ow'. ow' \<noteq> ow \<Longrightarrow> edge_meta (graph_view db s') ow' = edge_meta (graph_view db s) ow'"
    "edge_index_ok (graph_view db s) \<Longrightarrow> edge_index_ok (graph_view db s')"
proof (cases "em_properties (stored_edge_meta (graph_view db s) ow) = []")
  case True
  then show ?thesis using that [of s] by (simp add: clear_edge_metadata_txn_def)
next
  case False
  obtain s' where "apply_edge_metadata_update_txn db (mut_cell_id mutation) (mut_edge_type mutation)
      (mut_src mutation) (mut_dst mutation) (stored_edge_meta (graph_view db s) ow) default_edge_metadata s = Inr s'"
    "touches db {KC_EdgeMeta} s s'"
    "\<And>ow'. edge_meta (graph_view db s') ow' =
      (if ow' = ow then keep_edge_meta default_edge_metadata else edge_meta (graph_view db s) ow')"
    "edge_index_ok (graph_view db s) \<Longrightarrow> edge_index_ok (graph_view db s')"
    unfolding ow
    by (rule apply_edge_update [OF v, where previous = "stored_edge_meta (graph_view db s) ow"
          and new = default_edge_metadata and s = s and src = "mut_src mutation" and dst = "mut_dst mutation"])
      (use read_edge_metadata_ok [OF assms(3) v] ow in simp_all)
  with False show ?thesis using that [of s'] by (simp add: clear_edge_metadata_txn_def del: edge_meta.simps)
qed

end

subsection \<open>Relationships\<close>

type_synonym rel_id = "string \<times> string \<times> vertex_id \<times> vertex_id \<times> relationship_id"

fun rel_owner :: "graph_key \<Rightarrow> rel_id option" where
  "rel_owner (K_RelationshipPropertyIndex c t p e src dst r) = Some (c, t, src, dst, r)"
| "rel_owner _ = None"

fun rel_index_keys :: "rel_id \<Rightarrow> edge_metadata \<Rightarrow> graph_key set" where
  "rel_index_keys (c, t, src, dst, r) m =
     (\<lambda>(p, x). K_RelationshipPropertyIndex c t p (encode_vertex_property_value_key x) src dst r) ` set (em_properties m)"

fun rel_meta :: "graph_contents \<Rightarrow> rel_id \<Rightarrow> edge_metadata option" where
  "rel_meta view (c, t, src, dst, r) =
     (case view (K_Relationship c t src dst r) of
        None \<Rightarrow> None
      | Some b \<Rightarrow> (case decode_relationship_record (render (K_Relationship c t src dst r)) b of
          Inl _ \<Rightarrow> None | Inr x \<Rightarrow> Some (rr_metadata x)))"

definition rel_index_ok :: "graph_contents \<Rightarrow> bool" where
  "rel_index_ok = index_exact rel_owner rel_index_keys rel_meta"

interpretation rel_index: secondary_index rel_owner rel_index_keys rel_meta
  by unfold_locales (auto split: prod.splits elim!: rel_index_keys.elims)

lemma rel_owner_class: "rel_owner k \<noteq> None \<Longrightarrow> class_of k = KC_Rel"
  by (cases k) auto

lemma rel_meta_agree: "agree {KC_Rel} v w \<Longrightarrow> rel_meta v ow = rel_meta w ow"
  by (cases ow) (simp add: agreeD [of "{KC_Rel}" v w])

lemma rel_index_agree: "agree {KC_Rel} v w \<Longrightarrow> rel_index_ok v \<Longrightarrow> rel_index_ok w"
  unfolding rel_index_ok_def
  by (erule rel_index.exact_same) (use rel_owner_class in \<open>auto simp: agree_def rel_meta_agree\<close>)

definition rel_record :: "rel_id \<Rightarrow> edge_metadata \<Rightarrow> relationship_record" where
  "rel_record = (\<lambda>(c, t, src, dst, r) m. \<lparr> rr_cell_id = c, rr_edge_type = t, rr_src = src, rr_dst = dst,
     rr_relationship_id = r, rr_metadata = m \<rparr>)"

fun valid_rel :: "rel_id \<Rightarrow> bool" where
  "valid_rel (c, t, src, dst, r) \<longleftrightarrow> valid_component c \<and> valid_component t"

fun rel_key :: "rel_id \<Rightarrow> graph_key" where
  "rel_key (c, t, src, dst, r) = K_Relationship c t src dst r"

fun rel_id_key :: "rel_id \<Rightarrow> graph_key" where
  "rel_id_key (c, t, src, dst, r) = K_RelationshipId c r"

lemma rel_value_ok:
  "valid_rel ow \<Longrightarrow> edge_metadata_ok m \<Longrightarrow>
    decode_relationship_record (render (rel_key ow)) (encode_relationship_record (rel_record ow m)) = Inr (rel_record ow m)"
  by (cases ow) (auto simp: rel_record_def render.simps intro!: decode_encode_relationship_record)

lemma rel_entries_valid:
  assumes "valid_rel ow" "edge_metadata_ok m"
  shows "\<forall>x \<in> set (em_properties m). valid_key ((\<lambda>(p, x). relationship_property_index_key (rel_record ow m') p x) x)"
  using assms
  by (cases ow) (auto simp: rel_record_def relationship_property_index_key_def edge_metadata_ok_def properties_ok_def
      encode_value_key_slash_free)

lemma rel_entries_keys:
  "(\<lambda>(p, x). relationship_property_index_key (rel_record ow m') p x) ` set (em_properties m) = rel_index_keys ow m"
  by (cases ow) (simp add: rel_record_def relationship_property_index_key_def)

fun is_merge_key :: "graph_key \<Rightarrow> bool" where
  "is_merge_key (K_RelationshipMergeIndex c t p e src dst) = True"
| "is_merge_key _ = False"

context kv_store
begin

text \<open>The merge pointers are hints: writes only ever delete them here.\<close>

lemma delete_merge_pointer_effect:
  assumes "valid_rel ow" "edge_metadata_ok m"
  shows "touches db {KC_Rel} s (delete_merge_pointer db (rel_record ow m') m s)"
    "\<not> is_merge_key k \<Longrightarrow> graph_view db (delete_merge_pointer db (rel_record ow m') m s) k = graph_view db s k"
proof -
  have valid: "valid_key (K_RelationshipMergeIndex (rr_cell_id (rel_record ow m')) (rr_edge_type (rel_record ow m'))
      RELATIONSHIP_IDENTITY_PROPERTY (encode_vertex_property_value_key x) src dst)" for x src dst
    using assms(1)
    by (cases ow) (simp add: rel_record_def RELATIONSHIP_IDENTITY_PROPERTY_def encode_value_key_slash_free, code_simp)
  show "touches db {KC_Rel} s (delete_merge_pointer db (rel_record ow m') m s)"
    by (auto simp: delete_merge_pointer_def intro!: touches_delete valid split: option.split)
  show "\<not> is_merge_key k \<Longrightarrow> graph_view db (delete_merge_pointer db (rel_record ow m') m s) k = graph_view db s k"
    using valid by (auto simp: delete_merge_pointer_def simp del: valid_key.simps split: option.split)
qed

lemma rel_put_indexes:
  assumes "valid_rel ow" "edge_metadata_ok m"
  shows "touches db {KC_Rel} s (put_relationship_property_indexes_txn db (rel_record ow m) s)"
    "\<not> is_merge_key k \<Longrightarrow> graph_view db (put_relationship_property_indexes_txn db (rel_record ow m) s) k =
      (if k \<in> rel_index_keys ow m then Some (encode_u64 (rr_relationship_id (rel_record ow m))) else graph_view db s k)"
proof -
  let ?f = "\<lambda>x. (\<lambda>(p, x). relationship_property_index_key (rel_record ow m) p x) x"
  let ?b = "encode_u64 (rr_relationship_id (rel_record ow m))"
  have meta: "rr_metadata (rel_record ow m) = m" by (cases ow) (simp add: rel_record_def)
  have eq: "put_relationship_property_indexes_txn db (rel_record ow m) s =
      delete_merge_pointer db (rel_record ow m) m (foldl (\<lambda>s x. txn_put db s (?f x) ?b) s (em_properties m))"
    by (simp add: put_relationship_property_indexes_txn_def meta case_prod_unfold)
  note valid = rel_entries_valid [OF assms, of m]
  have "touches db {KC_Rel} s (foldl (\<lambda>s x. txn_put db s (?f x) ?b) s (em_properties m))"
    using valid by (intro touches_foldl touches_put) (auto simp: relationship_property_index_key_def)
  from touches_trans [OF this delete_merge_pointer_effect(1) [OF assms]]
  show "touches db {KC_Rel} s (put_relationship_property_indexes_txn db (rel_record ow m) s)"
    unfolding eq .
  show "\<not> is_merge_key k \<Longrightarrow> graph_view db (put_relationship_property_indexes_txn db (rel_record ow m) s) k =
      (if k \<in> rel_index_keys ow m then Some ?b else graph_view db s k)"
    unfolding eq delete_merge_pointer_effect(2) [OF assms] view_puts_const [OF valid] rel_entries_keys ..
qed

lemma rel_delete_indexes:
  assumes "valid_rel ow" "edge_metadata_ok m"
  shows "touches db {KC_Rel} s (delete_relationship_property_indexes_txn db (rel_record ow m') m s)"
    "\<not> is_merge_key k \<Longrightarrow> graph_view db (delete_relationship_property_indexes_txn db (rel_record ow m') m s) k =
      (if k \<in> rel_index_keys ow m then None else graph_view db s k)"
proof -
  let ?f = "\<lambda>x. (\<lambda>(p, x). relationship_property_index_key (rel_record ow m') p x) x"
  have eq: "delete_relationship_property_indexes_txn db (rel_record ow m') m s =
      delete_merge_pointer db (rel_record ow m') m (foldl (\<lambda>s x. txn_delete db s (?f x)) s (em_properties m))"
    by (simp add: delete_relationship_property_indexes_txn_def case_prod_unfold)
  note valid = rel_entries_valid [OF assms, of m']
  have "touches db {KC_Rel} s (foldl (\<lambda>s x. txn_delete db s (?f x)) s (em_properties m))"
    using valid by (intro touches_foldl touches_delete) (auto simp: relationship_property_index_key_def)
  from touches_trans [OF this delete_merge_pointer_effect(1) [OF assms]]
  show "touches db {KC_Rel} s (delete_relationship_property_indexes_txn db (rel_record ow m') m s)"
    unfolding eq .
  show "\<not> is_merge_key k \<Longrightarrow> graph_view db (delete_relationship_property_indexes_txn db (rel_record ow m') m s) k =
      (if k \<in> rel_index_keys ow m then None else graph_view db s k)"
    unfolding eq delete_merge_pointer_effect(2) [OF assms] view_deletes [OF valid] rel_entries_keys ..
qed

end

end
