(* ===== verification/Edge_Effects.thy ===== *)
theory Edge_Effects
  imports Index_Effects
begin

text \<open>
  The larger steps of the transactions -- deleting the relationships of an edge, inserting a
  structural edge, removing one -- on typed stores: they succeed, and their effect on the logical
  view is given class by class.
\<close>

subsection \<open>Deleting relationships\<close>

context kv_store
begin

lemma rel_meta_Some:
  assumes "store_typed db s" "rel_meta (graph_view db s) ow = Some m"
  shows "valid_rel ow" "edge_metadata_ok m"
    "\<exists>v. graph_view db s (rel_key ow) = Some v \<and> decode_relationship_record (render (rel_key ow)) v = Inr (rel_record ow m)"
proof -
  obtain c t src dst r where ow: "ow = (c, t, src, dst, r)" by (cases ow)
  obtain v where v: "graph_view db s (K_Relationship c t src dst r) = Some v"
    using assms(2) ow by (auto split: option.splits)
  note ty = typed_value [OF assms(1) v]
  then show "valid_rel ow" using ow by simp
  obtain x where x: "decode_relationship_record (render (K_Relationship c t src dst r)) v = Inr x"
    using ty by (auto split: sum.splits)
  then have "x = rel_record ow m"
    using assms(2) ty v ow by (auto simp: rel_record_def)
  then show "edge_metadata_ok m"
    "\<exists>v. graph_view db s (rel_key ow) = Some v \<and> decode_relationship_record (render (rel_key ow)) v = Inr (rel_record ow m)"
    using ty v x ow by (auto simp: rel_record_def)
qed

lemma rel_meta_None:
  "store_typed db s \<Longrightarrow> rel_meta (graph_view db s) ow = None \<longleftrightarrow> graph_view db s (rel_key ow) = None"
  using typed_value [of s "rel_key ow"]
  by (cases ow) (auto split: option.splits sum.splits)

lemma delete_row_effect:
  assumes "store_typed db s" "rel_meta (graph_view db s) ow = Some m"
  shows "touches db {KC_Rel} s (delete_relationship_row_txn db s (rel_record ow m))"
    "\<not> is_merge_key k \<Longrightarrow> graph_view db (delete_relationship_row_txn db s (rel_record ow m)) k =
      (if k \<in> rel_index_keys ow m \<or> k = rel_key ow \<or> k = rel_id_key ow then None else graph_view db s k)"
proof -
  note row = rel_meta_Some [OF assms]
  let ?s1 = "txn_delete db s (rel_key ow)"
  let ?s2 = "txn_delete db ?s1 (rel_id_key ow)"
  have eq: "delete_relationship_row_txn db s (rel_record ow m) =
      delete_relationship_property_indexes_txn db (rel_record ow m) m ?s2"
    by (cases ow) (simp add: delete_relationship_row_txn_def rel_record_def)
  have valid: "valid_key (rel_key ow)" "valid_key (rel_id_key ow)"
    "class_of (rel_key ow) = KC_Rel" "class_of (rel_id_key ow) = KC_Rel"
    using row(1) by (cases ow; simp)+
  have "touches db {KC_Rel} s ?s2"
    using touches_trans [OF touches_delete touches_delete] valid by blast
  from touches_trans [OF this rel_delete_indexes(1) [OF row(1,2)]]
  show "touches db {KC_Rel} s (delete_relationship_row_txn db s (rel_record ow m))"
    unfolding eq .
  show "\<not> is_merge_key k \<Longrightarrow> graph_view db (delete_relationship_row_txn db s (rel_record ow m)) k =
      (if k \<in> rel_index_keys ow m \<or> k = rel_key ow \<or> k = rel_id_key ow then None else graph_view db s k)"
    unfolding eq rel_delete_indexes(2) [OF row(1,2)] using valid by auto
qed

lemma rel_key_inject: "rel_key ow = rel_key ow' \<longleftrightarrow> ow = ow'"
  by (cases ow; cases ow') auto

lemma delete_row_meta:
  assumes "store_typed db s" "rel_meta (graph_view db s) ow = Some m"
  defines "s' \<equiv> delete_relationship_row_txn db s (rel_record ow m)"
  shows "rel_meta (graph_view db s') ow' = (if ow' = ow then None else rel_meta (graph_view db s) ow')"
    "rel_index_ok (graph_view db s) \<Longrightarrow> rel_index_ok (graph_view db s')"
proof -
  note eff = delete_row_effect [OF assms(1,2), folded s'_def]
  have row: "graph_view db s' (rel_key o') = (if o' = ow then None else graph_view db s (rel_key o'))" for o'
  proof -
    have "\<not> is_merge_key (rel_key o')" "rel_key o' \<notin> rel_index_keys ow m" "rel_key o' \<noteq> rel_id_key ow"
      by (cases o'; cases ow; auto)+
    then show ?thesis using eff(2) [of "rel_key o'"] by (simp add: rel_key_inject)
  qed
  have meta: "rel_meta (graph_view db s') o' = (if o' = ow then None else rel_meta (graph_view db s) o')" for o'
    using row [of o'] by (cases o') simp
  then show "rel_meta (graph_view db s') ow' = (if ow' = ow then None else rel_meta (graph_view db s) ow')" .
  assume ok: "rel_index_ok (graph_view db s)"
  show "rel_index_ok (graph_view db s')"
    unfolding rel_index_ok_def
  proof (rule rel_index.exact_update [where ow = ow and new = None, OF ok [unfolded rel_index_ok_def] _ meta])
    fix k
    assume "rel_owner k \<noteq> None"
    then have "\<not> is_merge_key k" "k \<noteq> rel_key ow" "k \<noteq> rel_id_key ow"
      by (cases k; cases ow; simp)+
    then show "graph_view db s' k = (if k \<in> keys_opt rel_index_keys ow None then Some []
        else if k \<in> keys_opt rel_index_keys ow (rel_meta (graph_view db s) ow) then None else graph_view db s k)"
      using eff(2) [of k] assms(2) by (simp del: rel_meta.simps rel_index_keys.simps)
  qed
qed

end

text \<open>Some rows of one structural edge are gone, with their ids and index entries.\<close>

definition rows_removed :: "edge_id \<Rightarrow> relationship_id set \<Rightarrow> graph_contents \<Rightarrow> graph_contents \<Rightarrow> bool" where
  "rows_removed = (\<lambda>(c, t, src, dst) rs v w.
     (\<forall>ow. rel_meta w ow = (if ow \<in> (\<lambda>r. (c, t, src, dst, r)) ` rs then None else rel_meta v ow)) \<and>
     (\<forall>c' r. w (K_RelationshipId c' r) = (if c' = c \<and> r \<in> rs then None else v (K_RelationshipId c' r))) \<and>
     (\<forall>c' t' a b. w (K_RelationshipCount c' t' a b) = v (K_RelationshipCount c' t' a b)) \<and>
     (\<forall>c'. w (K_LastRelationshipId c') = v (K_LastRelationshipId c')) \<and>
     (rel_index_ok v \<longrightarrow> rel_index_ok w))"

lemma rows_removed_none: "rows_removed e {} v v"
  by (cases e) (simp add: rows_removed_def)

lemma rows_removed_trans:
  "rows_removed e rs u v \<Longrightarrow> rows_removed e rs' v w \<Longrightarrow> rows_removed e (rs \<union> rs') u w"
  by (cases e) (auto simp: rows_removed_def simp del: rel_meta.simps)

context kv_store
begin

lemma delete_row_removed:
  assumes "store_typed db s" "rel_meta (graph_view db s) (c, t, src, dst, r) = Some m"
  shows "rows_removed (c, t, src, dst) {r} (graph_view db s)
    (graph_view db (delete_relationship_row_txn db s (rel_record (c, t, src, dst, r) m)))"
  using delete_row_meta [OF assms] delete_row_effect(2) [OF assms]
  by (auto simp: rows_removed_def simp del: rel_meta.simps)

lemma delete_rows:
  assumes "store_typed db s" "distinct rs"
    and "\<And>r. r \<in> set rs \<Longrightarrow> rel_meta (graph_view db s) (c, t, src, dst, r) = Some (ms r)"
  defines "del \<equiv> \<lambda>s rs. foldl (delete_relationship_row_txn db) s (map (\<lambda>r. rel_record (c, t, src, dst, r) (ms r)) rs)"
  shows "touches db {KC_Rel} s (del s rs)"
    "rows_removed (c, t, src, dst) (set rs) (graph_view db s) (graph_view db (del s rs))"
proof -
  have "touches db {KC_Rel} s (del s rs) \<and>
      rows_removed (c, t, src, dst) (set rs) (graph_view db s) (graph_view db (del s rs))"
    using assms(1-3)
  proof (induction rs arbitrary: s)
    case Nil
    then show ?case by (simp add: del_def rows_removed_none)
  next
    case (Cons r rs)
    let ?ow = "(c, t, src, dst, r)"
    let ?s1 = "delete_relationship_row_txn db s (rel_record ?ow (ms r))"
    have m: "rel_meta (graph_view db s) ?ow = Some (ms r)" using Cons.prems(3) by simp
    note eff = delete_row_effect(1) [OF Cons.prems(1) m]
    have "touches db {KC_Rel} ?s1 (del ?s1 rs) \<and>
        rows_removed (c, t, src, dst) (set rs) (graph_view db ?s1) (graph_view db (del ?s1 rs))"
    proof (rule Cons.IH)
      show "store_typed db ?s1" using touchesD(1) [OF eff] Cons.prems(1) .
      show "rel_meta (graph_view db ?s1) (c, t, src, dst, r') = Some (ms r')" if "r' \<in> set rs" for r'
        unfolding delete_row_meta(1) [OF Cons.prems(1) m] using Cons.prems(2,3) that by auto
    qed (use Cons.prems(2) in simp)
    then show ?case
      using touches_trans [OF eff] rows_removed_trans [OF delete_row_removed [OF Cons.prems(1) m]]
      by (simp add: del_def)
  qed
  then show "touches db {KC_Rel} s (del s rs)"
    "rows_removed (c, t, src, dst) (set rs) (graph_view db s) (graph_view db (del s rs))" by simp_all
qed

end

definition rel_rows :: "graph_contents \<Rightarrow> edge_id \<Rightarrow> relationship_id set" where
  "rel_rows view = (\<lambda>(c, t, src, dst). {r. view (K_Relationship c t src dst r) \<noteq> None})"

context kv_store
begin

lemma live_relationships_ok:
  assumes ty: "store_typed db s" and v: "valid_component c" "valid_component t"
  obtains rs ms where
    "live_relationships_for_edge_txn db s c t src dst = Inr (map (\<lambda>r. rel_record (c, t, src, dst, r) (ms r)) rs)"
    "distinct rs" "set rs = rel_rows (graph_view db s) (c, t, src, dst)"
    "\<And>r. r \<in> set rs \<Longrightarrow> rel_meta (graph_view db s) (c, t, src, dst, r) = Some (ms r)"
proof -
  let ?kvs = "txn_scan_prefix db s (P_RelationshipEdgePrefix c t src dst)"
  define ms where "ms r = the (rel_meta (graph_view db s) (c, t, src, dst, r))" for r
  define rid where "rid = (\<lambda>(key, v). case decode_relationship_record key v of
      Inl _ \<Rightarrow> 0 | Inr x \<Rightarrow> rr_relationship_id x)"
  have row: "rel_meta (graph_view db s) (c, t, src, dst, r) = Some (ms r)"
    if "graph_view db s (K_Relationship c t src dst r) \<noteq> None" for r
    using that rel_meta_None [OF ty, of "(c, t, src, dst, r)"] by (auto simp: ms_def simp del: rel_meta.simps)
  have kvs: "(key, b) \<in> set ?kvs \<longleftrightarrow>
      (\<exists>r. key = render (K_Relationship c t src dst r) \<and> graph_view db s (K_Relationship c t src dst r) = Some b)" for key b
    using scan_view [OF ty, of "P_RelationshipEdgePrefix c t src dst" key b] v by (auto simp: in_family_cases)
  have dec: "decode_relationship_record (render (K_Relationship c t src dst r)) b = Inr (rel_record (c, t, src, dst, r) (ms r))"
    if "graph_view db s (K_Relationship c t src dst r) = Some b" for r b
    using rel_meta_Some(3) [OF ty row, of r] that by auto
  have rid: "rid (render (K_Relationship c t src dst r), b) = r"
    if "graph_view db s (K_Relationship c t src dst r) = Some b" for r b
    using dec [OF that] by (simp add: rid_def rel_record_def)
  have entry: "(\<lambda>(key, v). decode_relationship_record key v) kv =
      Inr (rel_record (c, t, src, dst, rid kv) (ms (rid kv))) \<and> fst kv = render (K_Relationship c t src dst (rid kv))"
    if "kv \<in> set ?kvs" for kv
  proof -
    obtain key b where kv: "kv = (key, b)" by (cases kv)
    with that have "(key, b) \<in> set ?kvs" by simp
    then obtain r where "key = render (K_Relationship c t src dst r)"
        "graph_view db s (K_Relationship c t src dst r) = Some b"
      unfolding kvs by blast
    then show ?thesis using kv dec rid by simp
  qed
  have "live_relationships_for_edge_txn db s c t src dst =
      Inr (map (\<lambda>kv. rel_record (c, t, src, dst, rid kv) (ms (rid kv))) ?kvs)"
    unfolding live_relationships_for_edge_txn_def by (rule map_res_all_ok) (rule entry [THEN conjunct1])
  moreover have "distinct (map rid ?kvs)"
  proof -
    have "inj_on fst (set ?kvs)"
      using scan_distinct [of s "P_RelationshipEdgePrefix c t src dst"] by (simp add: distinct_map)
    moreover have "fst x = fst y" if "x \<in> set ?kvs" "y \<in> set ?kvs" "rid x = rid y" for x y
      using entry [OF that(1)] entry [OF that(2)] that(3) by simp
    ultimately have "inj_on rid (set ?kvs)"
      unfolding inj_on_def by blast
    then show ?thesis
      using scan_distinct [of s "P_RelationshipEdgePrefix c t src dst"] by (simp add: distinct_map)
  qed
  moreover have "set (map rid ?kvs) = rel_rows (graph_view db s) (c, t, src, dst)"
  proof -
    have "rid ` set ?kvs = {r. graph_view db s (K_Relationship c t src dst r) \<noteq> None}"
    proof (intro set_eqI iffI)
      fix r assume "r \<in> rid ` set ?kvs"
      then obtain key b where "(key, b) \<in> set ?kvs" "r = rid (key, b)" by force
      then show "r \<in> {r. graph_view db s (K_Relationship c t src dst r) \<noteq> None}"
        using kvs rid by fastforce
    next
      fix r assume "r \<in> {r. graph_view db s (K_Relationship c t src dst r) \<noteq> None}"
      then obtain b where "graph_view db s (K_Relationship c t src dst r) = Some b" by auto
      then show "r \<in> rid ` set ?kvs" using kvs rid by (metis imageI)
    qed
    then show ?thesis by (simp add: rel_rows_def)
  qed
  ultimately show ?thesis
    using that [of ms "map rid ?kvs"] row by (auto simp: rel_rows_def comp_def simp del: rel_meta.simps)
qed

lemma delete_relationships_effect:
  assumes ty: "store_typed db s"
    and v: "valid_component (mut_cell_id mutation)" "valid_component (mut_edge_type mutation)"
    and e: "e = (mut_cell_id mutation, mut_edge_type mutation, mut_src mutation, mut_dst mutation)"
  obtains s1 s2 n where "delete_relationships_for_structural_edge_txn db mutation s = Inr (s2, n)"
    "touches db {KC_Rel} s s2"
    "rows_removed e (rel_rows (graph_view db s) e) (graph_view db s) (graph_view db s1)"
    "graph_view db s2 = (graph_view db s1)
      (K_RelationshipCount (mut_cell_id mutation) (mut_edge_type mutation) (mut_src mutation) (mut_dst mutation) := None)"
proof -
  let ?c = "mut_cell_id mutation" and ?t = "mut_edge_type mutation"
  let ?src = "mut_src mutation" and ?dst = "mut_dst mutation"
  obtain rs ms where rs:
    "live_relationships_for_edge_txn db s ?c ?t ?src ?dst = Inr (map (\<lambda>r. rel_record (?c, ?t, ?src, ?dst, r) (ms r)) rs)"
    "distinct rs" "set rs = rel_rows (graph_view db s) (?c, ?t, ?src, ?dst)"
    "\<And>r. r \<in> set rs \<Longrightarrow> rel_meta (graph_view db s) (?c, ?t, ?src, ?dst, r) = Some (ms r)"
    by (rule live_relationships_ok [OF ty v, where src = ?src and dst = ?dst]) (rule that)
  define s1 where "s1 = foldl (delete_relationship_row_txn db) s (map (\<lambda>r. rel_record (?c, ?t, ?src, ?dst, r) (ms r)) rs)"
  note rows = delete_rows [OF ty rs(2,4), folded s1_def]
  let ?s2 = "txn_delete db s1 (K_RelationshipCount ?c ?t ?src ?dst)"
  have "touches db {KC_Rel} s1 ?s2" using v by (simp add: touches_delete)
  note t = touches_trans [OF rows(1) this]
  have "delete_relationships_for_structural_edge_txn db mutation s = Inr (?s2, of_nat (length rs))"
    by (simp add: delete_relationships_for_structural_edge_txn_def rs(1) Let_def
        delete_prepared_relationships_for_structural_edge_txn_def s1_def)
  then show ?thesis
    using that [of ?s2 "of_nat (length rs)" s1] t rows(2) rs(3) v e by simp
qed

end

subsection \<open>Inserting a structural edge\<close>

abbreviation edge_bytes :: bytes where
  "edge_bytes \<equiv> ''graph-edge'' @ [newline]"

definition inserted_view ::
    "bool \<Rightarrow> string \<Rightarrow> string \<Rightarrow> vertex_id \<Rightarrow> vertex_id \<Rightarrow> storage_sequence \<Rightarrow> graph_contents \<Rightarrow> graph_contents" where
  "inserted_view reverse c t src dst e view =
     (let v = (logged view c t e)
           (K_XlogEntry c t e src dst \<mapsto> xlog_value True,
            K_OutEdge c t src dst \<mapsto> edge_bytes,
            K_DegreeOut c t src \<mapsto> encode_u64 (counter view (K_DegreeOut c t src) + 1))
      in if reverse then v(K_InEdge c t dst src \<mapsto> edge_bytes,
             K_DegreeIn c t dst \<mapsto> encode_u64 (counter view (K_DegreeIn c t dst) + 1))
         else v)"

definition same_shard :: "string \<Rightarrow> string \<Rightarrow> graph_shard \<Rightarrow> graph_shard \<Rightarrow> bool" where
  "same_shard c t shard shard' \<longleftrightarrow>
     shard' = shard\<lparr> sh_xlog_floor_ensured := sh_xlog_floor_ensured shard' \<rparr> \<and>
     set (sh_xlog_floor_ensured shard') \<subseteq> insert (xlog_floor_token c t) (set (sh_xlog_floor_ensured shard))"

lemma same_shard_refl [simp]: "same_shard c t shard shard"
  by (auto simp: same_shard_def)

lemma same_shard_policy: "same_shard c t shard shard' \<Longrightarrow> writes_reverse_index shard' = writes_reverse_index shard"
  unfolding same_shard_def writes_reverse_index_def by (metis graph_shard.select_convs(1) graph_shard.surjective graph_shard.update_convs(5))

context kv_store
begin

lemma mark_one:
  assumes v: "valid_component c" "valid_component t" and "store_typed db s"
    and "floor_cache_ok shard (graph_view db s)"
  obtains shard' s' where
    "mark_topology_change_txn db shard c t e [(src, dst, b)] s = (shard', s')"
    "graph_view db s' = (logged (graph_view db s) c t e)(K_XlogEntry c t e src dst \<mapsto> xlog_value b)"
    "kv_seqnum db s' = kv_seqnum db s" "store_typed db s'" "same_shard c t shard shard'"
    "writes_reverse_index shard' = writes_reverse_index shard"
proof -
  obtain shard' s' where m: "mark_topology_change_txn db shard c t e [(src, dst, b)] s = (shard', s')"
    by force
  have "mark_topology_change_txn db shard c t e (map (\<lambda>(src, dst). (src, dst, b)) [(src, dst)]) s = (shard', s')"
    using m by simp
  note eff = mark_effect [OF assms list.distinct(2) this]
  have "same_shard c t shard shard'" using eff(4,5) by (simp add: same_shard_def)
  moreover have "graph_view db s' = (logged (graph_view db s) c t e)(K_XlogEntry c t e src dst \<mapsto> xlog_value b)"
    using eff(1) by (auto simp: fun_eq_iff)
  ultimately show ?thesis using that m eff(2,3) same_shard_policy by blast
qed

lemma insert_effect:
  assumes v: "valid_component (mut_cell_id mutation)" "valid_component (mut_edge_type mutation)"
    and "store_typed db s" "floor_cache_ok shard (graph_view db s)"
  obtains shard' s' where "insert_structural_edge_txn db shard mutation e s = (shard', Inr s')"
    "graph_view db s' = inserted_view (writes_reverse_index shard) (mut_cell_id mutation)
       (mut_edge_type mutation) (mut_src mutation) (mut_dst mutation) e (graph_view db s)"
    "kv_seqnum db s' = kv_seqnum db s" "store_typed db s'"
    "same_shard (mut_cell_id mutation) (mut_edge_type mutation) shard shard'"
proof -
  let ?c = "mut_cell_id mutation" and ?t = "mut_edge_type mutation"
  let ?src = "mut_src mutation" and ?dst = "mut_dst mutation"
  let ?rev = "writes_reverse_index shard" and ?view = "graph_view db s"
  obtain shard' s1 where m: "mark_topology_change_txn db shard ?c ?t e [(?src, ?dst, True)] s = (shard', s1)"
    and v1: "graph_view db s1 = (logged ?view ?c ?t e)(K_XlogEntry ?c ?t e ?src ?dst \<mapsto> xlog_value True)"
    and t1: "kv_seqnum db s1 = kv_seqnum db s" "store_typed db s1" "same_shard ?c ?t shard shard'"
      "writes_reverse_index shard' = ?rev"
    by (rule mark_one [OF v assms(3,4), where src = ?src and dst = ?dst and b = True]) (rule that)
  have cnt: "counter (graph_view db s1) (K_DegreeOut ?c ?t ?src) = counter ?view (K_DegreeOut ?c ?t ?src)"
    "counter (graph_view db s1) (K_DegreeIn ?c ?t ?dst) = counter ?view (K_DegreeIn ?c ?t ?dst)"
    unfolding v1 by (intro counter_eqI; simp add: logged_def Let_def)+
  have read: "read_counter_txn db s1 (K_DegreeOut ?c ?t ?src) = Inr (counter ?view (K_DegreeOut ?c ?t ?src))"
    "read_counter_txn db s1 (K_DegreeIn ?c ?t ?dst) = Inr (counter ?view (K_DegreeIn ?c ?t ?dst))"
    using read_counter_ok [OF t1(2), of "K_DegreeOut ?c ?t ?src"] read_counter_ok [OF t1(2), of "K_DegreeIn ?c ?t ?dst"]
      v cnt by simp_all
  define s2 where "s2 = txn_put db s1 (K_OutEdge ?c ?t ?src ?dst) edge_bytes"
  define s3 where "s3 = (if ?rev then txn_put db s2 (K_InEdge ?c ?t ?dst ?src) edge_bytes else s2)"
  define s4 where "s4 = txn_put db s3 (K_DegreeOut ?c ?t ?src) (encode_u64 (counter ?view (K_DegreeOut ?c ?t ?src) + 1))"
  define s5 where "s5 = (if ?rev then txn_put db s4 (K_DegreeIn ?c ?t ?dst)
      (encode_u64 (counter ?view (K_DegreeIn ?c ?t ?dst) + 1)) else s4)"
  have run: "insert_structural_edge_txn db shard mutation e s = (shard', Inr s5)"
    by (simp add: insert_structural_edge_txn_def m Let_def read t1(4) encode_edge_record_def
        s2_def s3_def s4_def s5_def)
  have view: "graph_view db s5 = inserted_view ?rev ?c ?t ?src ?dst e ?view"
    using v by (cases ?rev) (simp_all add: s2_def s3_def s4_def s5_def v1 inserted_view_def Let_def fun_upd_twist)
  have "store_typed db s5" "kv_seqnum db s5 = kv_seqnum db s"
    using v t1 by (auto simp: s2_def s3_def s4_def s5_def intro!: typed_put)
  with run view t1(3) show ?thesis using that by blast
qed

end

end
