(* ===== verification/Edge_Removal.thy ===== *)
theory Edge_Removal
  imports Edge_Effects
begin

text \<open>
  What removing a structural edge writes: the changelog entry, the degree
  counters, the deleted rows and the metadata index entries that go with them.
\<close>

subsection \<open>Removing a structural edge\<close>

definition removed_view ::
    "bool \<Rightarrow> string \<Rightarrow> string \<Rightarrow> vertex_id \<Rightarrow> vertex_id \<Rightarrow> storage_sequence \<Rightarrow> graph_contents \<Rightarrow> graph_contents" where
  "removed_view reverse c t src dst e view =
     (let v = (logged view c t e)
           (K_XlogEntry c t e src dst \<mapsto> xlog_value False,
            K_Edge c t src dst := None,
            K_OutEdge c t src dst := None,
            K_DegreeOut c t src \<mapsto> encode_u64 (saturating_sub_u64 (counter view (K_DegreeOut c t src)) 1))
      in if reverse then v(K_InEdge c t dst src := None,
             K_DegreeIn c t dst \<mapsto> encode_u64 (saturating_sub_u64 (counter view (K_DegreeIn c t dst)) 1))
         else v)"

definition rels_cleared :: "edge_id \<Rightarrow> graph_contents \<Rightarrow> graph_contents \<Rightarrow> bool" where
  "rels_cleared e v w \<longleftrightarrow>
     (\<exists>u. rows_removed e (rel_rows v e) v u \<and>
        agree {KC_Rel} w (u((\<lambda>(c, t, src, dst). K_RelationshipCount c t src dst) e := None)))"

definition meta_cleared :: "edge_id \<Rightarrow> graph_contents \<Rightarrow> graph_contents \<Rightarrow> bool" where
  "meta_cleared e v w \<longleftrightarrow>
     (\<forall>e'. e' \<noteq> e \<longrightarrow> edge_meta w e' = edge_meta v e') \<and> (edge_index_ok v \<longrightarrow> edge_index_ok w)"

lemma meta_cleared_agree:
  "meta_cleared e v w \<Longrightarrow> agree {KC_EdgeMeta} v v' \<Longrightarrow> agree {KC_EdgeMeta} w w' \<Longrightarrow> meta_cleared e v' w'"
  unfolding meta_cleared_def
  using edge_meta_agree [of v v'] edge_meta_agree [of w w'] edge_index_agree [of w w']
    edge_index_agree [of v' v] agree_sym [of "{KC_EdgeMeta}" v v']
  by auto

lemma stored_edge_meta_agree:
  "agree {KC_EdgeMeta} v w \<Longrightarrow> stored_edge_meta v e = stored_edge_meta w e"
  by (simp add: stored_edge_meta_def edge_meta_agree [of v w] del: edge_meta.simps)

lemma rel_rows_agree: "agree {KC_Rel} v w \<Longrightarrow> rel_rows v e = rel_rows w e"
  by (cases e) (simp add: rel_rows_def agreeD [of "{KC_Rel}" v w])

lemma rows_removed_agree: "rows_removed e rs v w \<Longrightarrow> agree {KC_Rel} v v' \<Longrightarrow> rows_removed e rs v' w"
  using rel_meta_agree [of v v'] rel_index_agree [of v' v] agree_sym [of "{KC_Rel}" v v']
  by (cases e) (simp add: rows_removed_def agreeD [of "{KC_Rel}" v v'] del: rel_meta.simps)

lemma rels_cleared_agree:
  "rels_cleared e v w \<Longrightarrow> agree {KC_Rel} v v' \<Longrightarrow> agree {KC_Rel} w w' \<Longrightarrow> rels_cleared e v' w'"
proof -
  assume a: "rels_cleared e v w" "agree {KC_Rel} v v'" "agree {KC_Rel} w w'"
  let ?k = "(\<lambda>(c, t, src, dst). K_RelationshipCount c t src dst) e"
  from a(1) obtain u where u: "rows_removed e (rel_rows v e) v u" "agree {KC_Rel} w (u(?k := None))"
    unfolding rels_cleared_def by (elim exE conjE)
  have "rows_removed e (rel_rows v' e) v' u"
    using rows_removed_agree [OF u(1) a(2)] rel_rows_agree [OF a(2), of e] by simp
  moreover have "agree {KC_Rel} w' (u(?k := None))"
    by (rule agree_trans [OF agree_sym [OF a(3)] u(2)])
  ultimately show ?thesis unfolding rels_cleared_def by (intro exI conjI)
qed

abbreviation "mut_edge m \<equiv> (mut_cell_id m, mut_edge_type m, mut_src m, mut_dst m)"

context kv_store
begin

lemma delete_structural_effect:
  assumes v: "valid_component (mut_cell_id mutation)" "valid_component (mut_edge_type mutation)"
    and "store_typed db s" "floor_cache_ok shard (graph_view db s)"
    and "graph_view db s (K_OutEdge (mut_cell_id mutation) (mut_edge_type mutation) (mut_src mutation) (mut_dst mutation)) \<noteq> None"
  obtains shard' s' where "delete_structural_edge_txn db shard mutation e s = (shard', Inr (True, s'))"
    "agree (- {KC_EdgeMeta}) (graph_view db s') (removed_view (writes_reverse_index shard) (mut_cell_id mutation)
       (mut_edge_type mutation) (mut_src mutation) (mut_dst mutation) e (graph_view db s))"
    "meta_cleared (mut_edge mutation) (graph_view db s) (graph_view db s')"
    "kv_seqnum db s' = kv_seqnum db s" "store_typed db s'"
    "same_shard (mut_cell_id mutation) (mut_edge_type mutation) shard shard'"
proof -
  let ?c = "mut_cell_id mutation" and ?t = "mut_edge_type mutation"
  let ?src = "mut_src mutation" and ?dst = "mut_dst mutation"
  let ?rev = "writes_reverse_index shard" and ?view = "graph_view db s"
  obtain shard' s1 where m: "mark_topology_change_txn db shard ?c ?t e [(?src, ?dst, False)] s = (shard', s1)"
    and v1: "graph_view db s1 = (logged ?view ?c ?t e)(K_XlogEntry ?c ?t e ?src ?dst \<mapsto> xlog_value False)"
    and t1: "kv_seqnum db s1 = kv_seqnum db s" "store_typed db s1" "same_shard ?c ?t shard shard'"
      "writes_reverse_index shard' = ?rev"
    by (rule mark_one [OF v assms(3,4), where src = ?src and dst = ?dst and b = False]) (rule that)
  have cnt: "counter (graph_view db s1) (K_DegreeOut ?c ?t ?src) = counter ?view (K_DegreeOut ?c ?t ?src)"
    "counter (graph_view db s1) (K_DegreeIn ?c ?t ?dst) = counter ?view (K_DegreeIn ?c ?t ?dst)"
    unfolding v1 by (intro counter_eqI; simp add: logged_def Let_def)+
  have read: "read_counter_txn db s1 (K_DegreeOut ?c ?t ?src) = Inr (counter ?view (K_DegreeOut ?c ?t ?src))"
    "read_counter_txn db s1 (K_DegreeIn ?c ?t ?dst) = Inr (counter ?view (K_DegreeIn ?c ?t ?dst))"
    using read_counter_ok [OF t1(2), of "K_DegreeOut ?c ?t ?src"] read_counter_ok [OF t1(2), of "K_DegreeIn ?c ?t ?dst"]
      v cnt by simp_all
  note meta = read_edge_metadata_ok(1) [OF t1(2) v, of ?src ?dst]
  obtain s2 where s2: "clear_edge_metadata_txn db mutation (stored_edge_meta (graph_view db s1) (mut_edge mutation)) s1 = Inr s2"
    "touches db {KC_EdgeMeta} s1 s2"
    "\<And>ow'. ow' \<noteq> mut_edge mutation \<Longrightarrow> edge_meta (graph_view db s2) ow' = edge_meta (graph_view db s1) ow'"
    "edge_index_ok (graph_view db s1) \<Longrightarrow> edge_index_ok (graph_view db s2)"
    by (rule clear_edge_metadata [OF v t1(2) refl]) (rule that)
  define s3 where "s3 = txn_delete db (txn_delete db s2 (K_Edge ?c ?t ?src ?dst)) (K_OutEdge ?c ?t ?src ?dst)"
  define s4 where "s4 = (if ?rev then txn_delete db s3 (K_InEdge ?c ?t ?dst ?src) else s3)"
  define s5 where "s5 = txn_put db s4 (K_DegreeOut ?c ?t ?src)
      (encode_u64 (saturating_sub_u64 (counter ?view (K_DegreeOut ?c ?t ?src)) 1))"
  define s6 where "s6 = (if ?rev then txn_put db s5 (K_DegreeIn ?c ?t ?dst)
      (encode_u64 (saturating_sub_u64 (counter ?view (K_DegreeIn ?c ?t ?dst)) 1)) else s5)"
  have run: "delete_structural_edge_txn db shard mutation e s = (shard', Inr (True, s6))"
    using assms(5) v
    by (simp add: delete_structural_edge_txn_def read_view m Let_def read t1(4) meta s2(1)
        s3_def s4_def s5_def s6_def)
  have a2: "agree (- {KC_EdgeMeta}) (graph_view db s2) (graph_view db s1)"
    using touchesD(3) [OF s2(2), of "- {KC_EdgeMeta}"] by (simp add: agree_sym)
  have view: "agree (- {KC_EdgeMeta}) (graph_view db s6) (removed_view ?rev ?c ?t ?src ?dst e ?view)"
  proof -
    have "graph_view db s6 k = removed_view ?rev ?c ?t ?src ?dst e ?view k" if "class_of k \<noteq> KC_EdgeMeta" for k
      using agreeD [OF a2, of k] that v
      by (cases ?rev) (auto simp: s3_def s4_def s5_def s6_def v1 removed_view_def Let_def)
    then show ?thesis by (simp add: agree_def)
  qed
  have m1: "agree {KC_EdgeMeta} (graph_view db s1) ?view"
    unfolding v1 by (simp add: logged_agree)
  have m2: "agree {KC_EdgeMeta} (graph_view db s2) (graph_view db s6)"
    using v by (cases ?rev) (simp_all add: s3_def s4_def s5_def s6_def)
  have "meta_cleared (mut_edge mutation) (graph_view db s1) (graph_view db s2)"
    using s2(3,4) by (simp add: meta_cleared_def del: edge_meta.simps)
  from meta_cleared_agree [OF this m1 m2]
  have "meta_cleared (mut_edge mutation) ?view (graph_view db s6)" .
  moreover have "store_typed db s6" "kv_seqnum db s6 = kv_seqnum db s"
    using v t1 touchesD(1,2) [OF s2(2)] by (auto simp: s3_def s4_def s5_def s6_def intro!: typed_put typed_delete)
  ultimately show ?thesis using that [OF run view] t1(3) by simp
qed

end

text \<open>The steps both branches of \<open>delete_edge\<close> begin with.\<close>

context kv_store
begin

lemma remove_prologue:
  assumes v: "valid_component (mut_cell_id mutation)" "valid_component (mut_edge_type mutation)"
    and "store_typed db s" "floor_cache_ok shard (graph_view db s)"
  defines "c \<equiv> mut_cell_id mutation" and "t \<equiv> mut_edge_type mutation"
    and "src \<equiv> mut_src mutation" and "dst \<equiv> mut_dst mutation" and "view \<equiv> graph_view db s"
  obtains shard' s1 s2 s3 n m where
    "mark_topology_change_txn db shard c t e [(src, dst, False)] s = (shard', s1)"
    "read_counter_txn db s1 (K_DegreeOut c t src) = Inr (counter view (K_DegreeOut c t src))"
    "read_counter_txn db s1 (K_DegreeIn c t dst) = Inr (counter view (K_DegreeIn c t dst))"
    "read_edge_metadata_txn db s1 c t src dst = Inr m"
    "delete_relationships_for_structural_edge_txn db mutation s1 = Inr (s2, n)"
    "clear_edge_metadata_txn db mutation m s2 = Inr s3"
    "agree (- {KC_EdgeMeta, KC_Rel}) (graph_view db s3)
      ((logged view c t e)(K_XlogEntry c t e src dst \<mapsto> xlog_value False))"
    "meta_cleared (c, t, src, dst) view (graph_view db s3)"
    "rels_cleared (c, t, src, dst) view (graph_view db s3)"
    "kv_seqnum db s3 = kv_seqnum db s" "store_typed db s3" "same_shard c t shard shard'"
    "writes_reverse_index shard' = writes_reverse_index shard"
proof -
  note folds = c_def [symmetric] t_def [symmetric] src_def [symmetric] dst_def [symmetric] view_def [symmetric]
  note v = v [unfolded folds]
  obtain shard' s1 where m: "mark_topology_change_txn db shard c t e [(src, dst, False)] s = (shard', s1)"
    and v1: "graph_view db s1 = (logged view c t e)(K_XlogEntry c t e src dst \<mapsto> xlog_value False)"
    and t1: "kv_seqnum db s1 = kv_seqnum db s" "store_typed db s1" "same_shard c t shard shard'"
      "writes_reverse_index shard' = writes_reverse_index shard"
    by (rule mark_one [OF v assms(3,4), where src = src and dst = dst and b = False, unfolded folds]) (rule that)
  have cnt: "counter (graph_view db s1) (K_DegreeOut c t src) = counter view (K_DegreeOut c t src)"
    "counter (graph_view db s1) (K_DegreeIn c t dst) = counter view (K_DegreeIn c t dst)"
    unfolding v1 by (intro counter_eqI; simp add: logged_def Let_def)+
  have read: "read_counter_txn db s1 (K_DegreeOut c t src) = Inr (counter view (K_DegreeOut c t src))"
    "read_counter_txn db s1 (K_DegreeIn c t dst) = Inr (counter view (K_DegreeIn c t dst))"
    using read_counter_ok [OF t1(2), of "K_DegreeOut c t src"] read_counter_ok [OF t1(2), of "K_DegreeIn c t dst"]
      v cnt by simp_all
  obtain u s2 n where r: "delete_relationships_for_structural_edge_txn db mutation s1 = Inr (s2, n)"
    "touches db {KC_Rel} s1 s2"
    "rows_removed (c, t, src, dst) (rel_rows (graph_view db s1) (c, t, src, dst)) (graph_view db s1) (graph_view db u)"
    "graph_view db s2 = (graph_view db u)(K_RelationshipCount c t src dst := None)"
    by (rule delete_relationships_effect [OF t1(2) assms(1,2) refl, unfolded folds]) (rule that)
  note t2 = touchesD(1) [OF r(2) t1(2)] touchesD(2) [OF r(2)]
  have a2: "agree (- {KC_Rel}) (graph_view db s1) (graph_view db s2)"
    by (rule touchesD(3) [OF r(2)]) simp
  have "stored_edge_meta (graph_view db s1) (c, t, src, dst) = stored_edge_meta (graph_view db s2) (c, t, src, dst)"
    by (intro stored_edge_meta_agree agree_mono [OF a2]) simp
  then have meta: "read_edge_metadata_txn db s1 c t src dst = Inr (stored_edge_meta (graph_view db s2) (c, t, src, dst))"
    using read_edge_metadata_ok(1) [OF t1(2) v, of src dst] by simp
  obtain s3 where s3: "clear_edge_metadata_txn db mutation (stored_edge_meta (graph_view db s2) (c, t, src, dst)) s2 = Inr s3"
    "touches db {KC_EdgeMeta} s2 s3"
    "\<And>ow'. ow' \<noteq> (c, t, src, dst) \<Longrightarrow> edge_meta (graph_view db s3) ow' = edge_meta (graph_view db s2) ow'"
    "edge_index_ok (graph_view db s2) \<Longrightarrow> edge_index_ok (graph_view db s3)"
    by (rule clear_edge_metadata [OF assms(1,2) t2(1) refl, unfolded folds]) (rule that)
  have a3: "agree (- {KC_EdgeMeta}) (graph_view db s2) (graph_view db s3)"
    by (rule touchesD(3) [OF s3(2)]) simp
  have "agree (- {KC_EdgeMeta, KC_Rel}) (graph_view db s1) (graph_view db s3)"
    by (rule agree_trans [OF agree_mono [OF a2] agree_mono [OF a3]]) auto
  note view = agree_sym [OF this, unfolded v1]
  have m1: "agree {KC_EdgeMeta} (graph_view db s2) view"
    by (rule agree_trans [OF agree_sym [OF agree_mono [OF a2]]]) (simp_all add: v1 logged_agree)
  have "meta_cleared (c, t, src, dst) (graph_view db s2) (graph_view db s3)"
    using s3(3,4) by (simp add: meta_cleared_def del: edge_meta.simps)
  note meta' = meta_cleared_agree [OF this m1 agree_refl]
  have "rels_cleared (c, t, src, dst) (graph_view db s1) (graph_view db s2)"
    using r(3,4) by (auto simp: rels_cleared_def)
  moreover have "agree {KC_Rel} (graph_view db s1) view" by (simp add: v1 logged_agree)
  moreover have "agree {KC_Rel} (graph_view db s2) (graph_view db s3)" by (rule agree_mono [OF a3]) simp
  ultimately have rels: "rels_cleared (c, t, src, dst) view (graph_view db s3)" by (rule rels_cleared_agree)
  have "kv_seqnum db s3 = kv_seqnum db s" "store_typed db s3"
    using t1 t2 touchesD(1,2) [OF s3(2)] by simp_all
  from that [OF m read meta r(1) s3(1) view meta' rels this t1(3,4)] show ?thesis .
qed

end

end
