(* ===== verification/Topology.thy ===== *)
theory Topology
  imports Edge_Removal
begin

text \<open>
  The invariant of a store's topology: edge records, adjacency segments and tombstones, degree
  counters and the changelog describe one edge set.  It is stated on the logical view, and each
  structural change a transaction can make -- inserting a record, removing one, hiding a segment
  edge, appending a segment -- is shown to preserve it and to change the edge set as intended.
\<close>

subsection \<open>The invariant\<close>

definition edges_of :: "graph_contents \<Rightarrow> string \<Rightarrow> string \<Rightarrow> (vertex_id \<times> vertex_id) set" where
  "edges_of view c t = {(src, dst). has_edge view c t src dst}"

text \<open>
  Every changelog entry lies in the past, and the newest entry of a pair says whether the pair is an
  edge now.
\<close>

definition log_ok :: "storage_sequence \<Rightarrow> graph_contents \<Rightarrow> bool" where
  "log_ok now view \<longleftrightarrow>
     (\<forall>c t q src dst v. view (K_XlogEntry c t q src dst) = Some v \<longrightarrow> q \<le> now \<and>
        ((\<forall>q' > q. view (K_XlogEntry c t q' src dst) = None) \<longrightarrow>
           v = xlog_value (has_edge view c t src dst)))"

text \<open>
  The retention floor: every logged pair has one, it is no later than the store, and no entry is below it.
\<close>

definition floor_ok :: "storage_sequence \<Rightarrow> graph_contents \<Rightarrow> bool" where
  "floor_ok now view \<longleftrightarrow>
     (\<forall>c t v. view (K_XlogLowWater c t) = Some v \<longrightarrow> (\<exists>low \<le> now. v = encode_u64 low \<and>
        (\<forall>q a b. view (K_XlogEntry c t q a b) \<noteq> None \<longrightarrow> low \<le> q))) \<and>
     (\<forall>c t q a b. view (K_XlogLowWater c t) = None \<longrightarrow> view (K_XlogEntry c t q a b) = None)"

definition degrees_ok :: "bool \<Rightarrow> graph_contents \<Rightarrow> bool" where
  "degrees_ok reverse view \<longleftrightarrow>
     (\<forall>c t src. counter view (K_DegreeOut c t src) = of_nat (card {dst. has_edge view c t src dst})) \<and>
     (reverse \<longrightarrow>
        (\<forall>c t dst. counter view (K_DegreeIn c t dst) = of_nat (card {src. has_edge view c t src dst})))"

text \<open>
  Which keys hold an edge: a record excludes a visible segment edge; a shard with a reverse index has
  no segments, and its reverse records mirror the forward ones; other shards have none.
\<close>

definition records_ok :: "bool \<Rightarrow> graph_contents \<Rightarrow> bool" where
  "records_ok reverse view \<longleftrightarrow>
     (\<forall>c t src dst. view (K_OutEdge c t src dst) \<noteq> None \<longrightarrow> \<not> seg_edge view c t src dst) \<and>
     (reverse \<longrightarrow> (\<forall>c t src q g. view (K_OutSegment c t src q g) = None)) \<and>
     (\<forall>c t src dst. view (K_InEdge c t dst src) \<noteq> None \<longleftrightarrow> reverse \<and> view (K_OutEdge c t src dst) \<noteq> None)"

text \<open>\<open>spare\<close> is a vertex id no edge uses, so that no degree reaches \<open>2 ^ 64\<close>.\<close>

definition topology_ok :: "bool \<Rightarrow> vertex_id \<Rightarrow> storage_sequence \<Rightarrow> graph_contents \<Rightarrow> bool" where
  "topology_ok reverse spare now view \<longleftrightarrow>
     sequences_ok view now \<and> records_ok reverse view \<and> degrees_ok reverse view \<and> log_ok now view \<and> floor_ok now view \<and>
     (\<forall>c t src dst. has_edge view c t src dst \<longrightarrow> src \<noteq> spare \<and> dst \<noteq> spare)"

abbreviation "topology_classes \<equiv> {KC_Edge, KC_Segment, KC_Degree, KC_Log}"

lemma floor_ok_mono: "floor_ok now view \<Longrightarrow> now \<le> now' \<Longrightarrow> floor_ok now' view"
  unfolding floor_ok_def by (meson order_trans)

lemma topology_ok_agree:
  assumes a: "agree topology_classes v w" and inv: "topology_ok reverse spare now v" and "now \<le> now'"
  shows "topology_ok reverse spare now' w"
proof -
  have e: "has_edge w = has_edge v" "seg_edge w = seg_edge v"
    using has_edge_agree [of v w] seg_edge_agree [of v w] agree_mono [OF a] by (simp_all add: fun_eq_iff)
  have c: "counter w k = counter v k" if "class_of k = KC_Degree" for k
    using agreeD [OF a, of k] that by (simp add: counter_def)
  have k: "w k = v k" if "class_of k \<in> topology_classes" for k
    using agreeD [OF a that] by simp
  have "sequences_ok w now'"
    by (rule sequences_ok_agree [OF agree_mono [OF a] _ assms(3)]) (use inv in \<open>simp_all add: topology_ok_def\<close>)
  moreover have "floor_ok now' w"
    using inv floor_ok_mono [OF _ assms(3)] by (simp add: topology_ok_def floor_ok_def k)
  ultimately show ?thesis
    using inv order_trans [OF _ assms(3)]
    unfolding topology_ok_def records_ok_def degrees_ok_def log_ok_def by (auto simp: e c k)
qed

lemma topology_ok_records:
  "topology_ok reverse spare now view \<Longrightarrow> records_ok reverse view"
  "topology_ok reverse spare now view \<Longrightarrow> sequences_ok view now"
  by (simp_all add: topology_ok_def)

subsection \<open>Changing one source's edges\<close>

text \<open>
  The counters and the changelog follow the edge set whenever a set \<open>ds\<close> of destinations of one
  source changes to \<open>flag\<close> at epoch \<open>e\<close>.
\<close>

definition edges_changed ::
    "string \<Rightarrow> string \<Rightarrow> vertex_id \<Rightarrow> vertex_id set \<Rightarrow> bool \<Rightarrow> graph_contents \<Rightarrow> graph_contents \<Rightarrow> bool" where
  "edges_changed c t src ds flag view view' \<longleftrightarrow>
     (\<forall>d \<in> ds. has_edge view c t src d \<noteq> flag) \<and>
     (\<forall>c' t' a b. has_edge view' c' t' a b =
        (if c' = c \<and> t' = t \<and> a = src \<and> b \<in> ds then flag else has_edge view c' t' a b))"

definition log_changed ::
    "string \<Rightarrow> string \<Rightarrow> vertex_id \<Rightarrow> vertex_id set \<Rightarrow> bool \<Rightarrow> storage_sequence \<Rightarrow> graph_contents \<Rightarrow> graph_contents \<Rightarrow> bool" where
  "log_changed c t src ds flag e view view' \<longleftrightarrow>
     (\<forall>c' t' q a b. view' (K_XlogEntry c' t' q a b) =
        (if c' = c \<and> t' = t \<and> q = e \<and> a = src \<and> b \<in> ds then Some (xlog_value flag)
         else view (K_XlogEntry c' t' q a b))) \<and>
     (\<forall>c' t'. view' (K_XlogLowWater c' t') = view (K_XlogLowWater c' t') \<or>
        c' = c \<and> t' = t \<and> view (K_XlogLowWater c t) = None \<and> view' (K_XlogLowWater c t) = Some (encode_u64 e)) \<and>
     (ds \<noteq> {} \<longrightarrow> view' (K_XlogLowWater c t) \<noteq> None)"

lemma log_ok_changed:
  assumes "log_ok now view" "edges_changed c t src ds flag view view'"
    "log_changed c t src ds flag e view view'" "now < e"
  shows "log_ok e view'"
  unfolding log_ok_def
proof (intro allI impI)
  fix c' t' q a b v
  assume v: "view' (K_XlogEntry c' t' q a b) = Some v"
  let ?hit = "c' = c \<and> t' = t \<and> a = src \<and> b \<in> ds"
  have entry: "view' (K_XlogEntry c' t' q' a b) =
      (if ?hit \<and> q' = e then Some (xlog_value flag) else view (K_XlogEntry c' t' q' a b))" for q'
    using assms(3) by (auto simp: log_changed_def)
  have edge: "has_edge view' c' t' a b = (if ?hit then flag else has_edge view c' t' a b)"
    using assms(2) by (simp add: edges_changed_def)
  have old: "q \<le> now \<and> ((\<forall>q' > q. view (K_XlogEntry c' t' q' a b) = None) \<longrightarrow>
      v = xlog_value (has_edge view c' t' a b))" if "\<not> (?hit \<and> q = e)"
    using assms(1) v entry [of q] that unfolding log_ok_def by (auto split: if_splits)
  show "q \<le> e \<and> ((\<forall>q' > q. view' (K_XlogEntry c' t' q' a b) = None) \<longrightarrow> v = xlog_value (has_edge view' c' t' a b))"
  proof (cases "?hit \<and> q = e")
    case True
    then show ?thesis using v entry [of q] edge by auto
  next
    case False
    note old = old [OF False]
    have "q < e" using old assms(4) by auto
    moreover have "v = xlog_value (has_edge view' c' t' a b)"
      if none: "\<forall>q' > q. view' (K_XlogEntry c' t' q' a b) = None"
    proof -
      have "\<not> ?hit" using none \<open>q < e\<close> entry [of e] by auto
      then have "view' (K_XlogEntry c' t' q' a b) = view (K_XlogEntry c' t' q' a b)"
          "has_edge view' c' t' a b = has_edge view c' t' a b" for q'
        using entry [of q'] edge by auto
      then show ?thesis using none old by simp
    qed
    ultimately show ?thesis by simp
  qed
qed

lemma floor_ok_changed:
  assumes ok: "floor_ok now view" "log_ok now view" and ch: "log_changed c t src ds flag e view view'" and "now < e"
  shows "floor_ok e view'"
proof -
  have entry: "view' (K_XlogEntry c' t' q a b) \<noteq> None \<Longrightarrow>
      view (K_XlogEntry c' t' q a b) \<noteq> None \<or> c' = c \<and> t' = t \<and> q = e \<and> ds \<noteq> {}" for c' t' q a b
    using ch by (auto simp: log_changed_def split: if_splits)
  have low: "view' (K_XlogLowWater c' t') = view (K_XlogLowWater c' t') \<or>
      c' = c \<and> t' = t \<and> view (K_XlogLowWater c t) = None \<and> view' (K_XlogLowWater c t) = Some (encode_u64 e)" for c' t'
    using ch unfolding log_changed_def by blast
  have some: "ds \<noteq> {} \<Longrightarrow> view' (K_XlogLowWater c t) \<noteq> None" using ch unfolding log_changed_def by blast
  have old: "view (K_XlogLowWater c' t') = Some v \<Longrightarrow> \<exists>low \<le> now. v = encode_u64 low \<and>
      (\<forall>q a b. view (K_XlogEntry c' t' q a b) \<noteq> None \<longrightarrow> low \<le> q)"
    "view (K_XlogLowWater c' t') = None \<Longrightarrow> view (K_XlogEntry c' t' q a b) = None" for c' t' v q a b
    using ok(1) unfolding floor_ok_def by blast+
  have "\<exists>l \<le> e. v = encode_u64 l \<and> (\<forall>q a b. view' (K_XlogEntry c' t' q a b) \<noteq> None \<longrightarrow> l \<le> q)"
    if v: "view' (K_XlogLowWater c' t') = Some v" for c' t' v
  proof (cases "view (K_XlogLowWater c' t')")
    case None
    then have "c' = c" "t' = t" "v = encode_u64 e" using low [of c' t'] v by auto
    moreover have "q = e" if "view' (K_XlogEntry c t q a b) \<noteq> None" for q a b
      using entry [OF that] old(2) None \<open>c' = c\<close> \<open>t' = t\<close> by auto
    ultimately show ?thesis by (intro exI [of _ e]) auto
  next
    case (Some w)
    then have "view (K_XlogLowWater c' t') = Some v" using low [of c' t'] v by auto
    from old(1) [OF this] obtain l where l: "l \<le> now" "v = encode_u64 l"
      "\<And>q a b. view (K_XlogEntry c' t' q a b) \<noteq> None \<Longrightarrow> l \<le> q" by blast
    have "l \<le> q" if "view' (K_XlogEntry c' t' q a b) \<noteq> None" for q a b
      using entry [OF that] l(1,3) \<open>now < e\<close> by auto
    then show ?thesis using l(1,2) \<open>now < e\<close> by (intro exI [of _ l]) auto
  qed
  moreover have "view' (K_XlogEntry c' t' q a b) = None" if "view' (K_XlogLowWater c' t') = None" for c' t' q a b
  proof (rule ccontr)
    assume "view' (K_XlogEntry c' t' q a b) \<noteq> None"
    from entry [OF this] show False
    proof
      assume "view (K_XlogEntry c' t' q a b) \<noteq> None"
      with old(2) [of c' t' q a b] low [of c' t'] that show False by auto
    next
      assume "c' = c \<and> t' = t \<and> q = e \<and> ds \<noteq> {}"
      with some that show False by simp
    qed
  qed
  ultimately show ?thesis unfolding floor_ok_def by blast
qed

lemma card_below:
  fixes A :: "u64 set"
  assumes "w \<notin> A" shows "card A < 2 ^ 64"
proof -
  have "card A < card (UNIV :: u64 set)"
    by (rule psubset_card_mono) (use assms in auto)
  then show ?thesis by (simp add: card_word)
qed

lemma saturating_sub_card:
  fixes A :: "u64 set"
  assumes "w \<notin> A" "x \<in> A"
  shows "saturating_sub_u64 (of_nat (card A)) 1 = of_nat (card (A - {x}))"
proof -
  have c: "card A = Suc (card (A - {x}))" by (rule card.remove) (use assms in auto)
  note n = unat_of_nat_u64
  have "unat (saturating_sub_u64 (of_nat (card A)) 1) = card A - 1"
    using n [OF card_below [OF assms(1)]] by (simp add: unat_saturating_sub_u64)
  also have "\<dots> = unat (of_nat (card (A - {x})) :: u64)"
    using n [of "card (A - {x})"] card_below [of w "A - {x}"] assms(1) c by simp
  finally show ?thesis by (simp only: word_unat_eq_iff)
qed

definition degrees_changed ::
    "bool \<Rightarrow> string \<Rightarrow> string \<Rightarrow> vertex_id \<Rightarrow> vertex_id set \<Rightarrow> bool \<Rightarrow> graph_contents \<Rightarrow> graph_contents \<Rightarrow> bool" where
  "degrees_changed reverse c t src ds flag view view' \<longleftrightarrow>
     (\<forall>c' t' a. counter view' (K_DegreeOut c' t' a) =
        (let n = counter view (K_DegreeOut c' t' a) in
         if c' = c \<and> t' = t \<and> a = src
         then (if flag then n + of_nat (card ds) else saturating_sub_u64 n 1) else n)) \<and>
     (reverse \<longrightarrow> (\<forall>c' t' b. counter view' (K_DegreeIn c' t' b) =
        (let n = counter view (K_DegreeIn c' t' b) in
         if c' = c \<and> t' = t \<and> b \<in> ds
         then (if flag then n + 1 else saturating_sub_u64 n 1) else n)))"

lemma degrees_ok_changed:
  assumes inv: "degrees_ok reverse view"
    and spare: "\<And>c t a b. has_edge view c t a b \<Longrightarrow> a \<noteq> spare \<and> b \<noteq> spare"
    and ch: "edges_changed c t src ds flag view view'"
    and deg: "degrees_changed reverse c t src ds flag view view'"
    and one: "flag \<or> is_singleton ds"
  shows "degrees_ok reverse view'"
proof -
  have edge: "has_edge view' c' t' a b =
      (if c' = c \<and> t' = t \<and> a = src \<and> b \<in> ds then flag else has_edge view c' t' a b)" for c' t' a b
    using ch by (simp add: edges_changed_def)
  have was: "has_edge view c t src d \<noteq> flag" if "d \<in> ds" for d
    using ch that by (simp add: edges_changed_def)
  have out: "counter view' (K_DegreeOut c' t' a) = of_nat (card {b. has_edge view' c' t' a b})" for c' t' a
  proof (cases "c' = c \<and> t' = t \<and> a = src")
    case True
    let ?old = "{b. has_edge view c t src b}"
    have n: "counter view (K_DegreeOut c t src) = of_nat (card ?old)" using inv by (simp add: degrees_ok_def)
    show ?thesis
    proof (cases flag)
      case f: True
      have "{b. has_edge view' c' t' a b} = ?old \<union> ds" using True f by (auto simp: edge)
      moreover have "?old \<inter> ds = {}" using was f by auto
      ultimately show ?thesis
        using True f deg n by (simp add: degrees_changed_def Let_def card_Un_disjoint)
    next
      case f: False
      then obtain d where d: "ds = {d}" using one by (auto simp: is_singleton_def)
      have "{b. has_edge view' c' t' a b} = ?old - {d}" using True f d by (auto simp: edge)
      moreover have "d \<in> ?old" "spare \<notin> ?old" using was d f spare by auto
      ultimately show ?thesis
        using True f deg n saturating_sub_card [of spare ?old d] by (simp add: degrees_changed_def Let_def)
    qed
  next
    case False
    then have "{b. has_edge view' c' t' a b} = {b. has_edge view c' t' a b}" by (auto simp: edge)
    moreover have "counter view' (K_DegreeOut c' t' a) = counter view (K_DegreeOut c' t' a)"
      using False deg by (auto simp: degrees_changed_def Let_def)
    ultimately show ?thesis using inv by (simp add: degrees_ok_def)
  qed
  have inn: "counter view' (K_DegreeIn c' t' b) = of_nat (card {a. has_edge view' c' t' a b})" if reverse for c' t' b
  proof (cases "c' = c \<and> t' = t \<and> b \<in> ds")
    case True
    let ?old = "{a. has_edge view c t a b}"
    have n: "counter view (K_DegreeIn c t b) = of_nat (card ?old)" using inv that by (simp add: degrees_ok_def)
    have new: "{a. has_edge view' c' t' a b} = (if flag then insert src ?old else ?old - {src})"
      using True by (auto simp: edge)
    have "src \<in> ?old \<longleftrightarrow> \<not> flag" "spare \<notin> ?old" using was True spare [of c t spare b] by auto
    then show ?thesis
      using True deg n that new saturating_sub_card [of spare ?old src]
      by (cases flag) (simp_all add: degrees_changed_def Let_def add.commute)
  next
    case False
    then have "{a. has_edge view' c' t' a b} = {a. has_edge view c' t' a b}" by (auto simp: edge)
    moreover have "counter view' (K_DegreeIn c' t' b) = counter view (K_DegreeIn c' t' b)"
      using False deg that by (auto simp: degrees_changed_def Let_def)
    ultimately show ?thesis using inv that by (simp add: degrees_ok_def)
  qed
  show ?thesis using out inn by (simp add: degrees_ok_def)
qed

lemma topology_ok_changed:
  assumes inv: "topology_ok reverse spare now view" and "now < e"
    and "sequences_ok view' e" "records_ok reverse view'"
    and ch: "edges_changed c t src ds flag view view'" and "log_changed c t src ds flag e view view'"
    and "degrees_changed reverse c t src ds flag view view'" "flag \<or> is_singleton ds"
    and fresh: "flag \<longrightarrow> src \<noteq> spare \<and> spare \<notin> ds"
  shows "topology_ok reverse spare e view'"
proof -
  have sp: "has_edge view c t a b \<Longrightarrow> a \<noteq> spare \<and> b \<noteq> spare" for c t a b
    using inv by (auto simp: topology_ok_def)
  have "degrees_ok reverse view'"
    by (rule degrees_ok_changed [OF _ sp ch assms(7,8)]) (use inv in \<open>simp add: topology_ok_def\<close>)
  moreover have "log_ok e view'"
    by (rule log_ok_changed [OF _ ch assms(6,2)]) (use inv in \<open>simp add: topology_ok_def\<close>)
  moreover have "floor_ok e view'"
    by (rule floor_ok_changed [OF _ _ assms(6,2)]) (use inv in \<open>simp_all add: topology_ok_def\<close>)
  moreover have "has_edge view' c' t' a b \<longrightarrow> a \<noteq> spare \<and> b \<noteq> spare" for c' t' a b
    using ch fresh sp [of c' t' a b] by (auto simp: edges_changed_def split: if_splits)
  ultimately show ?thesis using assms(3,4) by (simp add: topology_ok_def)
qed

subsection \<open>Inserting and removing a record\<close>

lemma has_edge_records:
  "agree {KC_Segment} v w \<Longrightarrow>
    has_edge w c t src dst \<longleftrightarrow> w (K_OutEdge c t src dst) \<noteq> None \<or> seg_edge v c t src dst"
  using seg_edge_agree [of v w c t src dst] by (simp add: has_edge_def)

lemma insert_topology:
  assumes inv: "topology_ok reverse spare now view" and "now < e"
    and new: "\<not> has_edge view c t src dst" and "src \<noteq> spare" "dst \<noteq> spare"
  defines "view' \<equiv> inserted_view reverse c t src dst e view"
  shows "topology_ok reverse spare e view'" "edges_changed c t src {dst} True view view'"
    "log_changed c t src {dst} True e view view'"
proof -
  have seg: "agree {KC_Segment} view view'"
    by (rule agree_sym) (simp add: view'_def inserted_view_def Let_def logged_agree)
  note he = has_edge_records [OF seg]
  have rec: "view' (K_OutEdge c' t' a b) =
      (if c' = c \<and> t' = t \<and> a = src \<and> b = dst then Some edge_bytes else view (K_OutEdge c' t' a b))"
    "view' (K_InEdge c' t' b a) =
      (if reverse \<and> c' = c \<and> t' = t \<and> a = src \<and> b = dst then Some edge_bytes else view (K_InEdge c' t' b a))"
    for c' t' a b
    by (simp_all add: view'_def inserted_view_def Let_def logged_def)
  show ch: "edges_changed c t src {dst} True view view'"
    using new unfolding edges_changed_def he rec by (auto simp: has_edge_def)
  show lg: "log_changed c t src {dst} True e view view'"
    by (auto simp: log_changed_def view'_def inserted_view_def Let_def logged_def)
  have dg: "degrees_changed reverse c t src {dst} True view view'"
    by (auto simp: degrees_changed_def view'_def inserted_view_def Let_def logged_def counter_def encode_u64_def)
  have "sequences_ok view' e"
    by (rule sequences_ok_agree [OF seg topology_ok_records(2) [OF inv]]) (use assms(2) in simp)
  moreover have "records_ok reverse view'"
    using topology_ok_records(1) [OF inv] new seg_edge_agree [OF seg] agreeD [OF seg]
    by (auto simp: records_ok_def rec has_edge_def)
  ultimately show "topology_ok reverse spare e view'"
    by (rule topology_ok_changed [OF inv assms(2) _ _ ch lg dg]) (use assms(4,5) in auto)
qed

lemma remove_topology:
  assumes inv: "topology_ok reverse spare now view" and "now < e"
    and old: "view (K_OutEdge c t src dst) \<noteq> None"
  defines "view' \<equiv> removed_view reverse c t src dst e view"
  shows "topology_ok reverse spare e view'" "edges_changed c t src {dst} False view view'"
    "log_changed c t src {dst} False e view view'"
proof -
  have seg: "agree {KC_Segment} view view'"
    by (rule agree_sym) (simp add: view'_def removed_view_def Let_def logged_agree)
  note he = has_edge_records [OF seg]
  have rec: "view' (K_OutEdge c' t' a b) =
      (if c' = c \<and> t' = t \<and> a = src \<and> b = dst then None else view (K_OutEdge c' t' a b))"
    "view' (K_InEdge c' t' b a) =
      (if reverse \<and> c' = c \<and> t' = t \<and> a = src \<and> b = dst then None else view (K_InEdge c' t' b a))"
    for c' t' a b
    by (simp_all add: view'_def removed_view_def Let_def logged_def)
  have hidden: "\<not> seg_edge view c t src dst"
    using topology_ok_records(1) [OF inv] old by (simp add: records_ok_def)
  show ch: "edges_changed c t src {dst} False view view'"
    using old hidden unfolding edges_changed_def he rec by (auto simp: has_edge_def)
  show lg: "log_changed c t src {dst} False e view view'"
    by (auto simp: log_changed_def view'_def removed_view_def Let_def logged_def)
  have dg: "degrees_changed reverse c t src {dst} False view view'"
    by (auto simp: degrees_changed_def view'_def removed_view_def Let_def logged_def counter_def encode_u64_def)
  have "sequences_ok view' e"
    by (rule sequences_ok_agree [OF seg topology_ok_records(2) [OF inv]]) (use assms(2) in simp)
  moreover have "records_ok reverse view'"
    using topology_ok_records(1) [OF inv] old seg_edge_agree [OF seg] agreeD [OF seg]
    by (auto simp: records_ok_def rec)
  ultimately show "topology_ok reverse spare e view'"
    by (rule topology_ok_changed [OF inv assms(2) _ _ ch lg dg]) auto
qed

subsection \<open>Hiding a segment edge and appending a segment\<close>

definition hidden_view ::
    "string \<Rightarrow> string \<Rightarrow> vertex_id \<Rightarrow> vertex_id \<Rightarrow> storage_sequence \<Rightarrow> graph_contents \<Rightarrow> graph_contents" where
  "hidden_view c t src dst e view =
     (logged view c t e)
       (K_XlogEntry c t e src dst \<mapsto> xlog_value False,
        K_OutSegmentTombstone c t src dst \<mapsto> encode_u64 e,
        K_DegreeOut c t src \<mapsto> encode_u64 (saturating_sub_u64 (counter view (K_DegreeOut c t src)) 1))"

definition appended_view ::
    "string \<Rightarrow> string \<Rightarrow> vertex_id \<Rightarrow> vertex_id list \<Rightarrow> string \<Rightarrow> storage_sequence \<Rightarrow> graph_contents \<Rightarrow> graph_contents" where
  "appended_view c t src dsts g e view =
     (\<lambda>k. if k \<in> K_XlogEntry c t e src ` set dsts then Some (xlog_value True)
          else if k \<in> K_OutSegmentTombstone c t src ` set dsts then None
          else if k = K_OutSegment c t src e g then Some (encode_out_edge_segment_records dsts)
          else if k = K_DegreeOut c t src
            then Some (encode_u64 (counter view (K_DegreeOut c t src) + of_nat (length dsts)))
          else logged view c t e k)"

lemma hide_topology:
  assumes inv: "topology_ok False spare now view" and "now < e"
    and old: "seg_edge view c t src dst" and none: "view (K_OutEdge c t src dst) = None"
  defines "view' \<equiv> hidden_view c t src dst e view"
  shows "topology_ok False spare e view'" "edges_changed c t src {dst} False view view'"
    "log_changed c t src {dst} False e view view'"
proof -
  note sq = topology_ok_records(2) [OF inv]
  have segs: "view' (K_OutSegment c' t' a q g) = view (K_OutSegment c' t' a q g)"
    "segment_of view' c' t' a q g = segment_of view c' t' a q g"
    and tomb: "tombstone_of view' c' t' a b =
      (if c' = c \<and> t' = t \<and> a = src \<and> b = dst then Some e else tombstone_of view c' t' a b)"
    and rec: "view' (K_OutEdge c' t' a b) = view (K_OutEdge c' t' a b)"
      "view' (K_InEdge c' t' b a) = view (K_InEdge c' t' b a)" for c' t' a b q g
    by (simp_all add: view'_def hidden_view_def logged_def Let_def segment_of_def tombstone_of_def encode_u64_def)
  have late: "q < e" if "d \<in> set (segment_of view c t src q g)" for d q g
  proof -
    have "view (K_OutSegment c t src q g) \<noteq> None" using that
      by (intro notI) (simp add: segment_of_def)
    then show ?thesis using sequences_segment [OF sq, of c t src q g] assms(2) by auto
  qed
  have seg: "seg_edge view' c' t' a b \<longleftrightarrow> \<not> (c' = c \<and> t' = t \<and> a = src \<and> b = dst) \<and> seg_edge view c' t' a b"
    for c' t' a b
  proof (cases "c' = c \<and> t' = t \<and> a = src \<and> b = dst")
    case True
    then have "\<not> segment_edge_visible q (tombstone_of view' c' t' a b)"
      if "b \<in> set (segment_of view' c' t' a q g)" for q g
      using late [of b q g] that by (simp add: segs tomb segment_edge_visible_def)
    then show ?thesis using True unfolding seg_edge_def by auto
  next
    case False
    then have "tombstone_of view' c' t' a b = tombstone_of view c' t' a b" by (auto simp: tomb)
    then show ?thesis using False unfolding seg_edge_def segs by auto
  qed
  show ch: "edges_changed c t src {dst} False view view'"
    using old none by (auto simp: edges_changed_def has_edge_def seg rec)
  show lg: "log_changed c t src {dst} False e view view'"
    by (auto simp: log_changed_def view'_def hidden_view_def logged_def Let_def)
  have dg: "degrees_changed False c t src {dst} False view view'"
    by (auto simp: degrees_changed_def view'_def hidden_view_def Let_def logged_def counter_def encode_u64_def)
  have "sequences_ok view' e"
    using sequences_ok_agree [OF agree_refl sq less_imp_le [OF assms(2)]]
    unfolding sequences_ok_def segs tomb by (auto split: if_splits)
  moreover have "records_ok False view'"
    using topology_ok_records(1) [OF inv] by (auto simp: records_ok_def rec seg)
  ultimately show "topology_ok False spare e view'"
    by (rule topology_ok_changed [OF inv assms(2) _ _ ch lg dg]) auto
qed

lemma append_topology:
  assumes inv: "topology_ok False spare now view" and "now < e" 
    and v: "valid_component c" "valid_component t" "valid_component g"
    and new: "\<And>d. d \<in> set dsts \<Longrightarrow> \<not> has_edge view c t src d" and "distinct dsts" "length dsts < 2 ^ 61"
    and "src \<noteq> spare" "spare \<notin> set dsts"
  defines "view' \<equiv> appended_view c t src dsts g e view"
  shows "topology_ok False spare e view'" "edges_changed c t src (set dsts) True view view'"
    "log_changed c t src (set dsts) True e view view'"
proof -
  note sq = topology_ok_records(2) [OF inv]
  have dec: "decode_out_edge_segment (render (K_OutSegment c t src e g)) (encode_out_edge_segment_records dsts) =
      Inr \<lparr> oes_cell_id = c, oes_edge_type = t, oes_src = src, oes_storage_sequence = e, oes_destinations = dsts \<rparr>"
    using decode_encode_segment [of c t g dsts src e] v assms(8) by (simp add: render.simps)
  have segs: "view' (K_OutSegment c' t' a q h) =
      (if (c', t', a, q, h) = (c, t, src, e, g) then Some (encode_out_edge_segment_records dsts)
       else view (K_OutSegment c' t' a q h))"
    "segment_of view' c' t' a q h =
      (if (c', t', a, q, h) = (c, t, src, e, g) then dsts else segment_of view c' t' a q h)"
    and tomb: "tombstone_of view' c' t' a b =
      (if c' = c \<and> t' = t \<and> a = src \<and> b \<in> set dsts then None else tombstone_of view c' t' a b)"
    and rec: "view' (K_OutEdge c' t' a b) = view (K_OutEdge c' t' a b)"
      "view' (K_InEdge c' t' b a) = view (K_InEdge c' t' b a)" for c' t' a b q h
    by (auto simp: view'_def appended_view_def logged_def Let_def segment_of_def tombstone_of_def dec)
  have free: "segment_of view c t src e g = []"
    using sequences_segment [OF sq, of c t src e g] assms(2) by (force simp: segment_of_def split: option.splits)
  have seg: "seg_edge view' c' t' a b \<longleftrightarrow> c' = c \<and> t' = t \<and> a = src \<and> b \<in> set dsts \<or> seg_edge view c' t' a b"
    (is "_ \<longleftrightarrow> ?hit \<or> _") for c' t' a b
  proof (cases ?hit)
    case True
    then have "b \<in> set (segment_of view' c' t' a e g) \<and> segment_edge_visible e (tombstone_of view' c' t' a b)"
      by (simp add: segs tomb segment_edge_visible_def)
    then show ?thesis using True unfolding seg_edge_def by blast
  next
    case False
    then have "b \<in> set (segment_of view' c' t' a q h) \<longleftrightarrow> b \<in> set (segment_of view c' t' a q h)" for q h
      using free by (auto simp: segs)
    moreover have "tombstone_of view' c' t' a b = tombstone_of view c' t' a b" using False by (auto simp: tomb)
    ultimately show ?thesis using False unfolding seg_edge_def by auto
  qed
  show ch: "edges_changed c t src (set dsts) True view view'"
    using new by (auto simp: edges_changed_def has_edge_def seg rec)
  show lg: "log_changed c t src (set dsts) True e view view'"
    by (auto simp: log_changed_def view'_def appended_view_def logged_def Let_def)
  have dg: "degrees_changed False c t src (set dsts) True view view'"
    using distinct_card [OF assms(7)]
    by (auto simp: degrees_changed_def view'_def appended_view_def Let_def logged_def counter_def encode_u64_def)
  have "sequences_ok view' e"
    using sequences_ok_agree [OF agree_refl sq less_imp_le [OF assms(2)]]
    unfolding sequences_ok_def segs tomb by (auto split: if_splits) (metis)
  moreover have "records_ok False view'"
    using topology_ok_records(1) [OF inv] new by (auto simp: records_ok_def rec seg has_edge_def)
  ultimately show "topology_ok False spare e view'"
    by (rule topology_ok_changed [OF inv assms(2) _ _ ch lg dg]) (use assms(9,10) in auto)
qed

end
