(* ===== verification/Graph_Invariant.thy ===== *)
theory Graph_Invariant
  imports Topology
begin

text \<open>
  The invariant of a shard's store and the steps inside a transaction that leave the topology alone.
  Besides the topology it says that edges join vertices that have records, that the three property
  indexes are exact, and that relationships, their id index and their counts agree.
\<close>

subsection \<open>The invariant\<close>

definition endpoints_ok :: "graph_contents \<Rightarrow> bool" where
  "endpoints_ok view \<longleftrightarrow>
     (\<forall>c t a b. has_edge view c t a b \<longrightarrow> view (K_Vertex c a) \<noteq> None \<and> view (K_Vertex c b) \<noteq> None)"

definition rels_ok :: "graph_contents \<Rightarrow> bool" where
  "rels_ok view \<longleftrightarrow>
     (\<forall>c t a b r. view (K_Relationship c t a b r) \<noteq> None \<longrightarrow>
        has_edge view c t a b \<and> r \<noteq> 0 \<and>
        view (K_RelationshipId c r) = Some (render (K_Relationship c t a b r))) \<and>
     (\<forall>c r v. view (K_RelationshipId c r) = Some v \<longrightarrow>
        (\<exists>t a b. v = render (K_Relationship c t a b r) \<and> view (K_Relationship c t a b r) \<noteq> None)) \<and>
     (\<forall>c t a b. counter view (K_RelationshipCount c t a b) = of_nat (card (rel_rows view (c, t, a, b))))"

definition contents_ok :: "graph_contents \<Rightarrow> bool" where
  "contents_ok view \<longleftrightarrow>
     endpoints_ok view \<and> rels_ok view \<and> vertex_index_ok view \<and> edge_index_ok view \<and> rel_index_ok view"

definition graph_ok :: "'s kv_db \<Rightarrow> graph_shard \<Rightarrow> vertex_id \<Rightarrow> 's \<Rightarrow> bool" where
  "graph_ok db shard spare s \<longleftrightarrow>
     store_typed db s \<and> floor_cache_ok shard (graph_view db s) \<and>
     topology_ok (writes_reverse_index shard) spare (kv_seqnum db s) (graph_view db s) \<and>
     contents_ok (graph_view db s) \<and>
     (kv_seqnum db s = 0 \<longrightarrow> (\<forall>k. graph_view db s k = None))"

text \<open>
  What a committed transaction does to the edges and the changelog: the destinations \<open>ds\<close> of \<open>src\<close>
  become (\<open>flag\<close>) or cease to be edges, each change is logged, and nothing else changes.
\<close>

definition stepped ::
    "'s kv_db \<Rightarrow> string \<Rightarrow> string \<Rightarrow> vertex_id \<Rightarrow> vertex_id set \<Rightarrow> bool \<Rightarrow> 's \<Rightarrow> 's \<Rightarrow> bool" where
  "stepped db c t src ds flag s s' \<longleftrightarrow>
     edges_changed c t src ds flag (graph_view db s) (graph_view db s') \<and>
     log_changed c t src ds flag (kv_seqnum db s') (graph_view db s) (graph_view db s')"

lemma rels_ok_agree:
  assumes "agree {KC_Rel} v w" "rels_ok v" "\<And>c t a b. has_edge v c t a b \<Longrightarrow> has_edge w c t a b"
  shows "rels_ok w"
proof -
  have k: "w k = v k" if "class_of k = KC_Rel" for k using agreeD [OF assms(1), of k] that by simp
  have "counter w k = counter v k" if "class_of k = KC_Rel" for k using k [OF that] by (simp add: counter_def)
  then show ?thesis
    using assms(2,3) rel_rows_agree [OF assms(1)] unfolding rels_ok_def by (simp add: k)
qed

subsection \<open>Steps that leave the topology alone\<close>

definition meta_step :: "'s kv_db \<Rightarrow> 's \<Rightarrow> 's \<Rightarrow> bool" where
  "meta_step db s s' \<longleftrightarrow>
     touches db {KC_Vertex, KC_EdgeMeta, KC_Idem} s s' \<and>
     (\<forall>c v. graph_view db s (K_Vertex c v) \<noteq> None \<longrightarrow> graph_view db s' (K_Vertex c v) \<noteq> None) \<and>
     (vertex_index_ok (graph_view db s) \<longrightarrow> vertex_index_ok (graph_view db s')) \<and>
     (edge_index_ok (graph_view db s) \<longrightarrow> edge_index_ok (graph_view db s'))"

lemma meta_step_refl [simp]: "meta_step db s s"
  by (simp add: meta_step_def)

lemma meta_step_trans: "meta_step db s s' \<Longrightarrow> meta_step db s' s'' \<Longrightarrow> meta_step db s s''"
  using touches_trans [of db "{KC_Vertex, KC_EdgeMeta, KC_Idem}" s s' s''] by (simp add: meta_step_def)

lemma meta_stepD:
  assumes "meta_step db s s'"
  shows "store_typed db s \<Longrightarrow> store_typed db s'" "kv_seqnum db s' = kv_seqnum db s"
    "agree (topology_classes \<union> {KC_Rel}) (graph_view db s) (graph_view db s')"
proof -
  have t: "touches db {KC_Vertex, KC_EdgeMeta, KC_Idem} s s'" using assms by (simp add: meta_step_def)
  show "store_typed db s \<Longrightarrow> store_typed db s'" "kv_seqnum db s' = kv_seqnum db s"
    using touchesD(1,2) [OF t] by simp_all
  show "agree (topology_classes \<union> {KC_Rel}) (graph_view db s) (graph_view db s')"
    by (rule touchesD(3) [OF t]) simp
qed

lemma meta_step_has_edge:
  assumes "meta_step db s s'" shows "has_edge (graph_view db s') = has_edge (graph_view db s)"
proof -
  have "agree {KC_Edge, KC_Segment} (graph_view db s) (graph_view db s')"
    by (rule agree_mono [OF meta_stepD(3) [OF assms]]) auto
  from has_edge_agree [OF this] show ?thesis by (simp add: fun_eq_iff)
qed

lemma meta_step_contents:
  assumes m: "meta_step db s s'" and "contents_ok (graph_view db s)"
  shows "contents_ok (graph_view db s')"
proof -
  have r: "agree {KC_Rel} (graph_view db s) (graph_view db s')"
    by (rule agree_mono [OF meta_stepD(3) [OF m]]) auto
  note he = meta_step_has_edge [OF m]
  have "endpoints_ok (graph_view db s')"
    using assms by (auto simp: contents_ok_def endpoints_ok_def he meta_step_def)
  moreover have "rels_ok (graph_view db s')"
    by (rule rels_ok_agree [OF r]) (use assms in \<open>simp_all add: contents_ok_def he\<close>)
  ultimately show ?thesis
    using assms rel_index_agree [OF r] by (simp add: contents_ok_def meta_step_def)
qed

context kv_store
begin

lemma meta_step_idem:
  assumes "valid_key (K_Idempotency c w i)"
  shows "meta_step db s (txn_put db s (K_Idempotency c w i) b)"
proof -
  let ?s = "txn_put db s (K_Idempotency c w i) b"
  have "vertex_index_ok (graph_view db s) \<Longrightarrow> vertex_index_ok (graph_view db ?s)"
    using assms by (elim vertex_index_agree [rotated]) simp
  moreover have "edge_index_ok (graph_view db s) \<Longrightarrow> edge_index_ok (graph_view db ?s)"
    using assms by (elim edge_index_agree [rotated]) simp
  ultimately show ?thesis
    using assms by (simp add: meta_step_def touches_put del: valid_key.simps)
qed

lemma meta_step_vertex:
  assumes t: "touches db {KC_Vertex} s s'"
    and "\<And>c v. graph_view db s (K_Vertex c v) \<noteq> None \<Longrightarrow> graph_view db s' (K_Vertex c v) \<noteq> None"
    and "vertex_index_ok (graph_view db s) \<Longrightarrow> vertex_index_ok (graph_view db s')"
  shows "meta_step db s s'"
proof -
  have "agree {KC_EdgeMeta} (graph_view db s) (graph_view db s')" by (rule touchesD(3) [OF t]) simp
  from edge_index_agree [OF this] show ?thesis
    using assms touches_mono [OF t] by (simp add: meta_step_def)
qed

lemma meta_step_edge:
  assumes t: "touches db {KC_EdgeMeta} s s'"
    and "edge_index_ok (graph_view db s) \<Longrightarrow> edge_index_ok (graph_view db s')"
  shows "meta_step db s s'"
proof -
  have a: "agree {KC_Vertex} (graph_view db s) (graph_view db s')" by (rule touchesD(3) [OF t]) simp
  from vertex_index_agree [OF this] show ?thesis
    using assms touches_mono [OF t] agreeD [OF a] by (simp add: meta_step_def)
qed

lemma meta_step_ensure:
  assumes c: "valid_component c" and "\<And>v. fresh \<Longrightarrow> graph_view db s (K_Vertex c v) = None"
    and s'_def: "s' = fst (ensure_vertex_records_txn db c endpoints skip fresh s)"
  shows "meta_step db s s'"
    "\<And>v. v \<in> set endpoints \<Longrightarrow> v \<notin> set skip \<or> graph_view db s (K_Vertex c v) \<noteq> None \<Longrightarrow>
      graph_view db s' (K_Vertex c v) \<noteq> None"
proof -
  obtain n where "ensure_vertex_records_txn db c endpoints skip fresh s = (s', n)"
    unfolding s'_def by (metis prod.collapse)
  from ensure_effect [OF c this] assms(2)
  have eff: "touches db {KC_Vertex} s s'" "graph_view db s' = with_vertices (graph_view db s) c
      {v \<in> set endpoints - set skip. graph_view db s (K_Vertex c v) = None}"
    by simp_all
  show "\<And>v. v \<in> set endpoints \<Longrightarrow> v \<notin> set skip \<or> graph_view db s (K_Vertex c v) \<noteq> None \<Longrightarrow>
      graph_view db s' (K_Vertex c v) \<noteq> None"
    using eff by (auto simp: with_vertices_def)
  show "meta_step db s s'"
    by (rule meta_step_vertex) (use eff(1) in \<open>auto simp: eff(2) with_vertices_def intro!: with_vertices_index [unfolded with_vertices_def]\<close>)
qed

end

subsection \<open>Metadata updates and commits\<close>

context kv_store
begin

lemma vertex_updates_step:
  assumes "store_typed db s0" "valid_component c" "distinct (map fst updates)"
    and "\<And>v m. (v, m) \<in> set updates \<Longrightarrow> vertex_metadata_ok m"
    and "\<And>v. graph_view db s (K_Vertex c v) = graph_view db s0 (K_Vertex c v)" and ty: "store_typed db s"
  obtains s' where
    "apply_changed_vertex_metadata db c (concat (map (vertex_change (graph_view db s0) c) updates)) s = Inr s'"
    "meta_step db s s'" "touches db {KC_Vertex} s s'"
    "\<And>v. v \<in> fst ` set updates \<Longrightarrow> graph_view db s' (K_Vertex c v) \<noteq> None"
proof -
  obtain s' where s':
    "apply_changed_vertex_metadata db c (concat (map (vertex_change (graph_view db s0) c) updates)) s = Inr s'"
    "touches db {KC_Vertex} s s'"
    "\<And>c' v'. vertex_meta (graph_view db s') (c', v') =
      (case map_of updates v' of
         Some m \<Rightarrow> if c' = c then Some (merge_vertex_metadata (stored_meta (graph_view db s0) c v') m)
                   else vertex_meta (graph_view db s) (c', v')
       | None \<Rightarrow> vertex_meta (graph_view db s) (c', v'))"
    "vertex_index_ok (graph_view db s) \<Longrightarrow> vertex_index_ok (graph_view db s')"
  proof (rule apply_vertex_updates [of s0 c updates s])
    show "vertex_metadata_ok m" if "(v, m) \<in> set updates" for v m using that by (rule assms(4))
  qed (use assms in auto)
  note ty' = touchesD(1) [OF s'(2) ty]
  have rec: "graph_view db s' (K_Vertex c' v) \<noteq> None"
    if "graph_view db s (K_Vertex c' v) \<noteq> None \<or> c' = c \<and> v \<in> fst ` set updates" for c' v
  proof -
    have "vertex_meta (graph_view db s') (c', v) \<noteq> None"
      using that s'(3) [of c' v] vertex_meta_None [OF ty, of c' v]
      by (auto split: option.splits simp: map_of_eq_None_iff simp del: vertex_meta.simps)
    then show ?thesis using vertex_meta_None [OF ty', of c' v] by (simp del: vertex_meta.simps)
  qed
  have "meta_step db s s'"
    by (rule meta_step_vertex [OF s'(2)]) (use rec s'(4) in auto)
  with s'(1,2) rec show ?thesis using that [of s'] by blast
qed

lemma edge_update_step:
  assumes v: "valid_component c" "valid_component t" and "edge_metadata_ok new" and ty: "store_typed db s"
    and prev: "previous = stored_edge_meta (graph_view db s) (c, t, src, dst)"
  obtains s' where "apply_edge_metadata_update_txn db c t src dst previous new s = Inr s'" "meta_step db s s'"
proof -
  have "edge_metadata_ok previous" using read_edge_metadata_ok(2) [OF ty v, of src dst] prev by simp
  from apply_edge_update [OF v this assms(3) prev] obtain s' where
    "apply_edge_metadata_update_txn db c t src dst previous new s = Inr s'"
    "touches db {KC_EdgeMeta} s s'"
    "edge_index_ok (graph_view db s) \<Longrightarrow> edge_index_ok (graph_view db s')"
    by metis
  then show ?thesis using that meta_step_edge by blast
qed

lemma graph_okD:
  assumes "graph_ok db shard spare s"
  shows "store_typed db s" "floor_cache_ok shard (graph_view db s)" "contents_ok (graph_view db s)"
    "topology_ok (writes_reverse_index shard) spare (kv_seqnum db s) (graph_view db s)"
    "sequences_ok (graph_view db s) (kv_seqnum db s)"
    "kv_seqnum db s = 0 \<Longrightarrow> graph_view db s k = None"
  using assms by (simp_all add: graph_ok_def topology_ok_def)

lemma floor_cache_agree:
  "floor_cache_ok shard v \<Longrightarrow> agree {KC_Log} v w \<Longrightarrow> floor_cache_ok shard w"
  using agreeD [of "{KC_Log}" v w] unfolding floor_cache_ok_def by simp

lemma meta_step_floor:
  "meta_step db s s' \<Longrightarrow> floor_cache_ok shard (graph_view db s) \<Longrightarrow> floor_cache_ok shard (graph_view db s')"
  by (erule floor_cache_agree, rule agree_mono [OF meta_stepD(3)]) auto

lemma meta_step_topology:
  "meta_step db s s' \<Longrightarrow> topology_ok reverse spare now (graph_view db s) \<Longrightarrow> now \<le> now' \<Longrightarrow>
    topology_ok reverse spare now' (graph_view db s')"
  by (rule topology_ok_agree [OF agree_mono [OF meta_stepD(3)]]) auto

end

subsection \<open>Structural steps\<close>

text \<open>The invariant inside a transaction, where \<open>now\<close> is the epoch the store has reached.\<close>

definition staged :: "'s kv_db \<Rightarrow> graph_shard \<Rightarrow> vertex_id \<Rightarrow> storage_sequence \<Rightarrow> 's \<Rightarrow> bool" where
  "staged db shard spare now s \<longleftrightarrow>
     store_typed db s \<and> floor_cache_ok shard (graph_view db s) \<and>
     topology_ok (writes_reverse_index shard) spare now (graph_view db s) \<and> contents_ok (graph_view db s)"

definition quiet :: "graph_contents \<Rightarrow> graph_contents \<Rightarrow> bool" where
  "quiet v w \<longleftrightarrow> has_edge w = has_edge v \<and>
     (\<forall>c t q a b. w (K_XlogEntry c t q a b) = v (K_XlogEntry c t q a b)) \<and>
     (\<forall>c t. w (K_XlogLowWater c t) = v (K_XlogLowWater c t))"

lemma quiet_agree: "agree {KC_Edge, KC_Segment, KC_Log} v w \<Longrightarrow> quiet v w"
  using agreeD [of "{KC_Edge, KC_Segment, KC_Log}" v w] has_edge_agree [of v w]
    agree_mono [of "{KC_Edge, KC_Segment, KC_Log}" v w "{KC_Edge, KC_Segment}"]
  by (simp add: quiet_def fun_eq_iff)

lemma quiet_refl [simp]: "quiet v v"
  by (simp add: quiet_def)

lemma quiet_trans: "quiet u v \<Longrightarrow> quiet v w \<Longrightarrow> quiet u w"
  by (simp add: quiet_def)

lemma quiet_sym: "quiet u v \<Longrightarrow> quiet v u"
  by (simp add: quiet_def)

lemma changed_quiet:
  assumes "quiet u v" "quiet w x"
  shows "edges_changed c t src ds flag v w \<Longrightarrow> edges_changed c t src ds flag u x"
    "log_changed c t src ds flag e v w \<Longrightarrow> log_changed c t src ds flag e u x"
  using assms by (simp_all add: quiet_def edges_changed_def log_changed_def)

lemma quiet_changed: "quiet v w \<Longrightarrow> edges_changed c t src {} flag v w" "quiet v w \<Longrightarrow> log_changed c t src {} flag e v w"
  by (simp_all add: quiet_def edges_changed_def log_changed_def)

lemma stagedD:
  assumes "staged db shard spare now s"
  shows "store_typed db s" "floor_cache_ok shard (graph_view db s)" "contents_ok (graph_view db s)"
    "topology_ok (writes_reverse_index shard) spare now (graph_view db s)"
  using assms by (simp_all add: staged_def)

lemma graph_ok_staged: "graph_ok db shard spare s \<Longrightarrow> staged db shard spare (kv_seqnum db s) s"
  by (simp add: graph_ok_def staged_def)

text \<open>Adding edges between vertices that have records keeps everything outside the topology.\<close>

lemma contents_added:
  assumes ok: "contents_ok v" and other: "agree (- topology_classes) v w"
    and ch: "edges_changed c t src ds True v w" and ends: "\<forall>x \<in> insert src ds. v (K_Vertex c x) \<noteq> None"
  shows "contents_ok w"
proof -
  have he: "has_edge w c' t' a b \<longleftrightarrow> c' = c \<and> t' = t \<and> a = src \<and> b \<in> ds \<or> has_edge v c' t' a b" for c' t' a b
    using ch by (auto simp: edges_changed_def)
  have "endpoints_ok w"
    using ok ends agreeD [OF other] by (auto simp: contents_ok_def endpoints_ok_def he)
  moreover have "rels_ok w"
    by (rule rels_ok_agree [OF agree_mono [OF other]]) (use ok in \<open>auto simp: contents_ok_def he\<close>)
  moreover have "vertex_index_ok w" "edge_index_ok w" "rel_index_ok w"
    using ok vertex_index_agree [OF agree_mono [OF other]] edge_index_agree [OF agree_mono [OF other]]
      rel_index_agree [OF agree_mono [OF other]] by (simp_all add: contents_ok_def)
  ultimately show ?thesis by (simp add: contents_ok_def)
qed

lemma logged_floor:
  assumes v: "valid_component c" "valid_component t" and fl: "floor_cache_ok shard view"
    and sh: "same_shard c t shard shard'"
    and lw: "\<And>c' t'. view' (K_XlogLowWater c' t') = logged view c t e (K_XlogLowWater c' t')"
  shows "floor_cache_ok shard' view'"
  by (rule kv_store.mark_floor_cache [OF mem.kv_store_axioms v fl])
    (use sh lw in \<open>auto simp: same_shard_def logged_low_water split: if_splits\<close>)

context kv_store
begin

lemma meta_step_quiet: "meta_step db s s' \<Longrightarrow> quiet (graph_view db s) (graph_view db s')"
  by (rule quiet_agree, rule agree_mono [OF meta_stepD(3)]) auto

lemma meta_step_staged:
  "meta_step db s s' \<Longrightarrow> staged db shard spare now s \<Longrightarrow> staged db shard spare now s'"
  unfolding staged_def
  by (auto intro: meta_stepD(1) meta_step_floor meta_step_topology meta_step_contents)

lemma staged_mono:
  "staged db shard spare now s \<Longrightarrow> now \<le> now' \<Longrightarrow> staged db shard spare now' s"
  unfolding staged_def by (auto intro: topology_ok_agree [OF agree_refl])

lemma staged_commit:
  assumes "commit_result_with db r s1 = Inr (r', s')" "kv_seqnum db s1 = kv_seqnum db s"
    and st: "kv_seqnum db s < kv_seqnum db s + 1 \<Longrightarrow> staged db shard spare (kv_seqnum db s + 1) s1"
  shows "r' = r" "kv_seqnum db s' = kv_seqnum db s + 1" "graph_view db s' = graph_view db s1"
    "graph_ok db shard spare s'" "kv_seqnum db s < kv_seqnum db s'"
proof -
  note c = commit_effect [OF assms(1)]
  have "unat (kv_seqnum db s + 1) = unat (kv_seqnum db s) + 1" using c assms(2) by simp
  then have lt: "kv_seqnum db s < kv_seqnum db s + 1" by (simp add: word_less_nat_alt)
  show "r' = r" "kv_seqnum db s' = kv_seqnum db s + 1" "graph_view db s' = graph_view db s1"
    using c assms(2) by simp_all
  have "kv_seqnum db s + 1 \<noteq> 0" using lt by auto
  then show "graph_ok db shard spare s'"
    using c(2,3,4) assms(2) st [OF lt] by (simp add: graph_ok_def staged_def)
  show "kv_seqnum db s < kv_seqnum db s'" using c(4) assms(2) lt by simp
qed

lemma staged_insert:
  assumes v: "valid_component (mut_cell_id mutation)" "valid_component (mut_edge_type mutation)"
    and st: "staged db shard spare now s" and "now < e"
    and new: "\<not> has_edge (graph_view db s) (mut_cell_id mutation) (mut_edge_type mutation) (mut_src mutation) (mut_dst mutation)"
    and ends: "\<forall>w \<in> {mut_src mutation, mut_dst mutation}. graph_view db s (K_Vertex (mut_cell_id mutation) w) \<noteq> None"
    and spare: "mut_src mutation \<noteq> spare" "mut_dst mutation \<noteq> spare"
  obtains shard' s' where "insert_structural_edge_txn db shard mutation e s = (shard', Inr s')"
    "staged db shard' spare e s'" "kv_seqnum db s' = kv_seqnum db s"
    "same_shard (mut_cell_id mutation) (mut_edge_type mutation) shard shard'"
    "edges_changed (mut_cell_id mutation) (mut_edge_type mutation) (mut_src mutation) {mut_dst mutation} True
       (graph_view db s) (graph_view db s')"
    "log_changed (mut_cell_id mutation) (mut_edge_type mutation) (mut_src mutation) {mut_dst mutation} True e
       (graph_view db s) (graph_view db s')"
    "agree (- topology_classes) (graph_view db s) (graph_view db s')"
proof -
  note st = stagedD [OF st]
  let ?c = "mut_cell_id mutation" and ?t = "mut_edge_type mutation"
  let ?src = "mut_src mutation" and ?dst = "mut_dst mutation" and ?view = "graph_view db s"
  obtain shard' s' where run: "insert_structural_edge_txn db shard mutation e s = (shard', Inr s')"
    and v': "graph_view db s' = inserted_view (writes_reverse_index shard) ?c ?t ?src ?dst e ?view"
    and s': "kv_seqnum db s' = kv_seqnum db s" "store_typed db s'" and sh: "same_shard ?c ?t shard shard'"
    by (rule insert_effect [OF v st(1,2)]) (rule that)
  note top = insert_topology [OF st(4) \<open>now < e\<close> new spare, folded v']
  have other: "agree (- topology_classes) ?view (graph_view db s')"
    by (rule agree_sym) (simp add: v' inserted_view_def Let_def logged_agree)
  have fl: "floor_cache_ok shard' (graph_view db s')"
    by (rule logged_floor [OF v st(2) sh]) (simp add: v' inserted_view_def Let_def)
  have "contents_ok (graph_view db s')"
    by (rule contents_added [OF st(3) other top(2)]) (use ends in simp)
  then have "staged db shard' spare e s'"
    using s'(2) fl top(1) same_shard_policy [OF sh] by (simp add: staged_def)
  from that [OF run this s'(1) sh top(2,3) other] show ?thesis .
qed

end

end
