(* ===== verification/Removal_Steps.thy ===== *)
theory Removal_Steps
  imports Graph_Invariant
begin

text \<open>
  Removing edges keeps the invariant: the relationships and the metadata of the edge go with it, and
  everything that belongs to other edges stays.
\<close>

subsection \<open>Relationships of a removed edge\<close>

lemma rels_cleared_parts:
  assumes "rels_cleared (c, t, src, dst) v w"
  shows "rel_meta w ow = (if ow \<in> (\<lambda>r. (c, t, src, dst, r)) ` rel_rows v (c, t, src, dst) then None else rel_meta v ow)"
    "w (K_RelationshipId c' r) = (if c' = c \<and> r \<in> rel_rows v (c, t, src, dst) then None else v (K_RelationshipId c' r))"
    "w (K_RelationshipCount c' t' a b) =
      (if (c', t', a, b) = (c, t, src, dst) then None else v (K_RelationshipCount c' t' a b))"
    "w (K_LastRelationshipId c') = v (K_LastRelationshipId c')"
    "rel_index_ok v \<Longrightarrow> rel_index_ok w"
proof -
  obtain u where u: "rows_removed (c, t, src, dst) (rel_rows v (c, t, src, dst)) v u"
    and a: "agree {KC_Rel} w (u(K_RelationshipCount c t src dst := None))"
    using assms unfolding rels_cleared_def by auto
  have k: "w k = (if k = K_RelationshipCount c t src dst then None else u k)" if "class_of k = KC_Rel" for k
    using agreeD [OF a, of k] that by simp
  have m: "rel_meta w ow = rel_meta u ow" for ow
    using rel_meta_agree [OF a, of ow] by (cases ow) simp
  show "rel_meta w ow = (if ow \<in> (\<lambda>r. (c, t, src, dst, r)) ` rel_rows v (c, t, src, dst) then None else rel_meta v ow)"
    using u unfolding m by (cases ow) (simp add: rows_removed_def del: rel_meta.simps)
  show "w (K_RelationshipId c' r) = (if c' = c \<and> r \<in> rel_rows v (c, t, src, dst) then None else v (K_RelationshipId c' r))"
    "w (K_RelationshipCount c' t' a b) =
      (if (c', t', a, b) = (c, t, src, dst) then None else v (K_RelationshipCount c' t' a b))"
    "w (K_LastRelationshipId c') = v (K_LastRelationshipId c')"
    using u by (simp_all add: k rows_removed_def)
  have "rel_index_ok u \<Longrightarrow> rel_index_ok w"
    unfolding rel_index_ok_def
    by (erule rel_index.exact_same [OF _ _ m]) (use rel_owner_class in \<open>auto simp: k\<close>)
  then show "rel_index_ok v \<Longrightarrow> rel_index_ok w"
    using u by (simp add: rows_removed_def)
qed

context kv_store
begin

lemma rels_ok_cleared:
  assumes ty: "store_typed db s" "store_typed db s'" and ok: "rels_ok (graph_view db s)"
    and cl: "rels_cleared (c, t, src, dst) (graph_view db s) (graph_view db s')"
    and he: "\<And>c' t' a b. has_edge (graph_view db s') c' t' a b \<longleftrightarrow>
      has_edge (graph_view db s) c' t' a b \<and> (c', t', a, b) \<noteq> (c, t, src, dst)"
  shows "rels_ok (graph_view db s')"
proof -
  let ?v = "graph_view db s" and ?w = "graph_view db s'"
  note parts = rels_cleared_parts [OF cl]
  have row: "?w (K_Relationship c' t' a b r) \<noteq> None \<longleftrightarrow>
      ?v (K_Relationship c' t' a b r) \<noteq> None \<and> (c', t', a, b) \<noteq> (c, t, src, dst)" for c' t' a b r
    using parts(1) [of "(c', t', a, b, r)"] rel_meta_None [OF ty(1), of "(c', t', a, b, r)"]
      rel_meta_None [OF ty(2), of "(c', t', a, b, r)"]
    by (auto simp: rel_rows_def simp del: rel_meta.simps split: if_splits)
  have inj: "(t, src, dst) = (t', a, b)"
    if "?v (K_Relationship c t src dst r) \<noteq> None" "?v (K_Relationship c t' a b r) \<noteq> None" for t' a b r
  proof -
    have "render (K_Relationship c t src dst r) = render (K_Relationship c t' a b r)"
      using ok that unfolding rels_ok_def by (metis option.inject)
    moreover have "valid_key (K_Relationship c t src dst r)" "valid_key (K_Relationship c t' a b r)"
      using that typed_value [OF ty(1)] by blast+
    ultimately show ?thesis by (simp add: render_inject del: valid_key.simps)
  qed
  have "has_edge ?w c' t' a b \<and> r \<noteq> 0 \<and> ?w (K_RelationshipId c' r) = Some (render (K_Relationship c' t' a b r))"
    if "?w (K_Relationship c' t' a b r) \<noteq> None" for c' t' a b r
  proof -
    have r: "?v (K_Relationship c' t' a b r) \<noteq> None" "(c', t', a, b) \<noteq> (c, t, src, dst)"
      using that unfolding row by simp_all
    have "r \<notin> rel_rows ?v (c, t, src, dst)" if "c' = c"
      using inj [of r t' a b] r that by (intro notI) (auto simp: rel_rows_def)
    then show ?thesis using ok r unfolding rels_ok_def he parts(2) by auto
  qed
  moreover have "\<exists>t' a b. x = render (K_Relationship c' t' a b r) \<and> ?w (K_Relationship c' t' a b r) \<noteq> None"
    if "?w (K_RelationshipId c' r) = Some x" for c' r x
  proof -
    have "?v (K_RelationshipId c' r) = Some x" "c' = c \<Longrightarrow> r \<notin> rel_rows ?v (c, t, src, dst)"
      using that by (auto simp: parts(2) split: if_splits)
    then show ?thesis using ok unfolding rels_ok_def row by (fastforce simp: rel_rows_def)
  qed
  moreover have "counter ?w (K_RelationshipCount c' t' a b) = of_nat (card (rel_rows ?w (c', t', a, b)))" for c' t' a b
  proof (cases "(c', t', a, b) = (c, t, src, dst)")
    case True
    then have "rel_rows ?w (c', t', a, b) = {}" using row by (auto simp: rel_rows_def)
    then show ?thesis using True by (simp add: counter_def parts(3))
  next
    case False
    then have "rel_rows ?w (c', t', a, b) = rel_rows ?v (c', t', a, b)" using row by (auto simp: rel_rows_def)
    moreover have "counter ?w (K_RelationshipCount c' t' a b) = counter ?v (K_RelationshipCount c' t' a b)"
      using False by (intro counter_eqI) (auto simp: parts(3))
    ultimately show ?thesis using ok by (simp add: rels_ok_def)
  qed
  ultimately show ?thesis unfolding rels_ok_def by blast
qed

end

lemma rels_ok_no_rows:
  assumes a: "agree {KC_Rel} v w" and ok: "rels_ok v" and none: "rel_rows v (c, t, src, dst) = {}"
    and he: "\<And>c' t' a b. has_edge w c' t' a b \<longleftrightarrow> has_edge v c' t' a b \<and> (c', t', a, b) \<noteq> (c, t, src, dst)"
  shows "rels_ok w"
proof -
  have k: "w k = v k" if "class_of k = KC_Rel" for k using agreeD [OF a, of k] that by simp
  have cnt: "counter w k = counter v k" if "class_of k = KC_Rel" for k using k [OF that] by (simp add: counter_def)
  have "(c', t', x, y) \<noteq> (c, t, src, dst)" if "v (K_Relationship c' t' x y r) \<noteq> None" for c' t' x y r
    using none that by (auto simp: rel_rows_def)
  then show ?thesis
    using ok rel_rows_agree [OF a] unfolding rels_ok_def he by (simp add: k cnt)
qed

subsection \<open>Removing inside a transaction\<close>

context kv_store
begin

lemma staged_removed:
  assumes st: "staged db shard spare now s" and ty: "store_typed db s'"
    and fl: "floor_cache_ok shard' (graph_view db s')"
    and top: "topology_ok (writes_reverse_index shard') spare e (graph_view db s')"
    and ch: "edges_changed c t src {dst} False (graph_view db s) (graph_view db s')"
    and vx: "agree {KC_Vertex} (graph_view db s) (graph_view db s')"
    and meta: "meta_cleared (c, t, src, dst) (graph_view db s) (graph_view db s')"
    and rels: "rels_cleared (c, t, src, dst) (graph_view db s) (graph_view db s') \<or>
      agree {KC_Rel} (graph_view db s) (graph_view db s') \<and> rel_rows (graph_view db s) (c, t, src, dst) = {}"
  shows "staged db shard' spare e s'"
proof -
  let ?v = "graph_view db s" and ?w = "graph_view db s'"
  note st = stagedD [OF st]
  have he: "has_edge ?w c' t' a b \<longleftrightarrow> has_edge ?v c' t' a b \<and> (c', t', a, b) \<noteq> (c, t, src, dst)" for c' t' a b
    using ch by (auto simp: edges_changed_def)
  have ok: "rels_ok ?v" "endpoints_ok ?v" "rel_index_ok ?v" "vertex_index_ok ?v" "edge_index_ok ?v"
    using st(3) by (simp_all add: contents_ok_def)
  have "rels_ok ?w \<and> rel_index_ok ?w"
    using rels
  proof
    assume cl: "rels_cleared (c, t, src, dst) ?v ?w"
    show ?thesis using rels_ok_cleared [OF st(1) ty ok(1) cl he] rels_cleared_parts(5) [OF cl] ok(3) by simp
  next
    assume a: "agree {KC_Rel} ?v ?w \<and> rel_rows ?v (c, t, src, dst) = {}"
    then show ?thesis using rels_ok_no_rows [OF _ ok(1) _ he] rel_index_agree ok(3) by blast
  qed
  moreover have "endpoints_ok ?w"
    using ok(2) agreeD [OF vx] by (auto simp: endpoints_ok_def he)
  moreover have "edge_index_ok ?w" using meta ok(5) by (simp add: meta_cleared_def)
  moreover have "vertex_index_ok ?w" by (rule vertex_index_agree [OF vx ok(4)])
  ultimately show ?thesis using ty fl top by (simp add: staged_def contents_ok_def)
qed

text \<open>The removals differ in the topology they leave (\<open>new\<close>); the rest is common.\<close>

lemma staged_removed_view:
  assumes v: "valid_component c" "valid_component t" and st: "staged db shard spare now s" and ty: "store_typed db s'"
    and sh: "same_shard c t shard shard'"
    and top: "topology_ok (writes_reverse_index shard) spare e new" "edges_changed c t src {dst} False (graph_view db s) new"
      "log_changed c t src {dst} False e (graph_view db s) new"
    and low: "\<And>c' t'. new (K_XlogLowWater c' t') = logged (graph_view db s) c t e (K_XlogLowWater c' t')"
    and vx: "agree {KC_Vertex} (graph_view db s) new"
    and eq: "\<And>k. class_of k \<notin> {KC_EdgeMeta, KC_Rel} \<Longrightarrow> graph_view db s' k = new k"
    and meta: "meta_cleared (c, t, src, dst) (graph_view db s) (graph_view db s')"
    and rels: "rels_cleared (c, t, src, dst) (graph_view db s) (graph_view db s') \<or>
      agree {KC_Rel} (graph_view db s) (graph_view db s') \<and> rel_rows (graph_view db s) (c, t, src, dst) = {}"
  shows "staged db shard' spare e s'"
    "edges_changed c t src {dst} False (graph_view db s) (graph_view db s')"
    "log_changed c t src {dst} False e (graph_view db s) (graph_view db s')"
proof -
  have eqv: "agree S new (graph_view db s')" if "KC_EdgeMeta \<notin> S" "KC_Rel \<notin> S" for S
    unfolding agree_def
  proof (intro allI impI)
    fix k assume "class_of k \<in> S"
    with that have "class_of k \<notin> {KC_EdgeMeta, KC_Rel}" by auto
    then show "new k = graph_view db s' k" by (simp add: eq)
  qed
  have "quiet new (graph_view db s')" by (rule quiet_agree [OF eqv]) simp_all
  note ch = changed_quiet [OF quiet_refl this]
  show ch': "edges_changed c t src {dst} False (graph_view db s) (graph_view db s')"
    "log_changed c t src {dst} False e (graph_view db s) (graph_view db s')"
    by (rule ch(1) [OF top(2)], rule ch(2) [OF top(3)])
  have "floor_cache_ok shard' (graph_view db s')"
    by (rule logged_floor [OF v stagedD(2) [OF st] sh]) (simp add: eq low)
  moreover have "topology_ok (writes_reverse_index shard') spare e (graph_view db s')"
    using topology_ok_agree [OF eqv top(1)] same_shard_policy [OF sh] by simp
  moreover have "agree {KC_Vertex} (graph_view db s) (graph_view db s')"
    by (rule agree_trans [OF vx eqv]) simp_all
  ultimately show "staged db shard' spare e s'"
    by (rule staged_removed [OF st ty _ _ ch'(1) _ meta rels])
qed

lemma staged_delete_structural:
  assumes v: "valid_component (mut_cell_id mutation)" "valid_component (mut_edge_type mutation)"
    and st: "staged db shard spare now s" and "now < e"
    and old: "graph_view db s (K_OutEdge (mut_cell_id mutation) (mut_edge_type mutation) (mut_src mutation) (mut_dst mutation)) \<noteq> None"
    and none: "rel_rows (graph_view db s) (mut_edge mutation) = {}"
  obtains shard' s' where "delete_structural_edge_txn db shard mutation e s = (shard', Inr (True, s'))"
    "staged db shard' spare e s'" "kv_seqnum db s' = kv_seqnum db s"
    "same_shard (mut_cell_id mutation) (mut_edge_type mutation) shard shard'"
    "edges_changed (mut_cell_id mutation) (mut_edge_type mutation) (mut_src mutation) {mut_dst mutation} False
       (graph_view db s) (graph_view db s')"
    "log_changed (mut_cell_id mutation) (mut_edge_type mutation) (mut_src mutation) {mut_dst mutation} False e
       (graph_view db s) (graph_view db s')"
proof -
  note sd = stagedD [OF st]
  let ?c = "mut_cell_id mutation" and ?t = "mut_edge_type mutation"
  let ?src = "mut_src mutation" and ?dst = "mut_dst mutation" and ?view = "graph_view db s"
  let ?new = "removed_view (writes_reverse_index shard) ?c ?t ?src ?dst e ?view"
  obtain shard' s' where run: "delete_structural_edge_txn db shard mutation e s = (shard', Inr (True, s'))"
    and view: "agree (- {KC_EdgeMeta}) (graph_view db s') ?new"
    and meta: "meta_cleared (mut_edge mutation) ?view (graph_view db s')"
    and s': "kv_seqnum db s' = kv_seqnum db s" "store_typed db s'" and sh: "same_shard ?c ?t shard shard'"
    by (rule delete_structural_effect [OF v sd(1,2) old]) (rule that)
  note top = remove_topology [OF sd(4) \<open>now < e\<close> old]
  have vx: "agree {KC_Vertex, KC_Rel} ?view ?new"
    by (rule agree_sym) (simp add: removed_view_def Let_def logged_agree)
  have "agree {KC_Rel} ?view (graph_view db s')"
    by (rule agree_trans [OF agree_mono [OF vx] agree_sym [OF agree_mono [OF view]]]) auto
  then have "staged db shard' spare e s'"
    "edges_changed ?c ?t ?src {?dst} False ?view (graph_view db s')"
    "log_changed ?c ?t ?src {?dst} False e ?view (graph_view db s')"
    using staged_removed_view [OF v st s'(2) sh top _ agree_mono [OF vx] _ meta] none agreeD [OF view]
    by (auto simp: removed_view_def Let_def)
  then show ?thesis using that [OF run _ s'(1) sh] by blast
qed

end

end
