(* ===== verification/Write_Steps.thy ===== *)
theory Write_Steps
  imports Removal_Steps
begin

text \<open>
  The edge transactions on a store that satisfies the invariant: when one returns a result, the store
  satisfies the invariant again, the edge set and the changelog changed as the result says, and a
  repeated idempotency key changes nothing.
\<close>

subsection \<open>What a transaction promises\<close>

definition committed ::
    "'s kv_db \<Rightarrow> vertex_id \<Rightarrow> string \<Rightarrow> string \<Rightarrow> vertex_id \<Rightarrow> vertex_id set \<Rightarrow> bool \<Rightarrow>
     graph_shard \<Rightarrow> 's \<Rightarrow> graph_shard \<Rightarrow> 's \<Rightarrow> bool" where
  "committed db spare c t src ds flag shard s shard' s' \<longleftrightarrow>
     graph_ok db shard' spare s' \<and> same_shard c t shard shard' \<and>
     kv_seqnum db s' = kv_seqnum db s + 1 \<and> kv_seqnum db s < kv_seqnum db s' \<and> stepped db c t src ds flag s s'"

fun valid_mutation :: "edge_mutation \<Rightarrow> bool" where
  "valid_mutation m \<longleftrightarrow>
     valid_component (mut_cell_id m) \<and> valid_component (mut_edge_type m) \<and> valid_component (mut_idempotency_key m)"

lemma checked_add_one: "checked_add_u64 a 1 = Some e \<Longrightarrow> e = a + 1 \<and> a < a + 1"
  using checked_add_u64_Some [of a 1 e]
  by (auto simp: checked_add_u64_def word_less_nat_alt split: if_splits)

context kv_store
begin

lemma quiet_commit:
  assumes ok: "graph_ok db shard spare s" and m: "meta_step db s s1"
    and commit: "commit_result_with db r s1 = Inr (r', s')"
  shows "r' = r" "committed db spare c t src {} flag shard s shard s'"
proof -
  have "staged db shard spare (kv_seqnum db s + 1) s1" if "kv_seqnum db s < kv_seqnum db s + 1"
    using staged_mono [OF meta_step_staged [OF m graph_ok_staged [OF ok]]] that by simp
  note c = staged_commit [OF commit meta_stepD(2) [OF m] this]
  show "r' = r" by (rule c)
  show "committed db spare c t src {} flag shard s shard s'"
    using c(2-5) quiet_changed [OF meta_step_quiet [OF m]] by (simp add: committed_def stepped_def)
qed

text \<open>The end of every transaction that changed the topology at \<open>s1\<close>.\<close>

lemma changed_commit:
  assumes commit: "commit_result_with db r s2 = Inr (r', s')"
    and m: "meta_step db s1 s2" and seq: "kv_seqnum db s1 = kv_seqnum db s"
    and st: "staged db shard' spare (kv_seqnum db s + 1) s1" and sh: "same_shard c t shard shard'"
    and ch: "edges_changed c t src ds flag (graph_view db s) (graph_view db s1)"
      "log_changed c t src ds flag (kv_seqnum db s + 1) (graph_view db s) (graph_view db s1)"
  shows "r' = r" "committed db spare c t src ds flag shard s shard' s'"
proof -
  have "kv_seqnum db s2 = kv_seqnum db s" using meta_stepD(2) [OF m] seq by simp
  note c = staged_commit [OF commit this meta_step_staged [OF m st]]
  show "r' = r" by (rule c)
  show "committed db spare c t src ds flag shard s shard' s'"
    using c(2-5) sh changed_quiet [OF quiet_refl meta_step_quiet [OF m]] ch
    by (simp add: committed_def stepped_def)
qed

subsection \<open>\<open>write_edge\<close>\<close>

text \<open>
  The body of the transaction once the fence and the idempotency record are read: the reads succeed,
  and the updates before the structural change leave the topology alone.
\<close>

lemma write_edge_body:
  fixes mutation
  defines "c \<equiv> mut_cell_id mutation" and "t \<equiv> mut_edge_type mutation"
    and "src \<equiv> mut_src mutation" and "dst \<equiv> mut_dst mutation"
    and "idem \<equiv> K_Idempotency (mut_cell_id mutation) ''create'' (mut_idempotency_key mutation)"
  assumes ok: "graph_ok db shard spare s" and vm: "valid_mutation mutation"
    and up: "distinct (map fst updates)" "\<And>v m. (v, m) \<in> set updates \<Longrightarrow> vertex_metadata_ok m"
    and em: "edge_metadata_ok edge_metadata" and fence: "begin_fenced db shard s c operation = Inr ()"
    and fresh: "graph_view db s idem = None"
  obtains ep same s2 s3 where "ep \<noteq> None \<longleftrightarrow> has_edge (graph_view db s) c t src dst"
    "meta_step db s s2" "meta_step db s s3" "\<forall>w \<in> {src, dst}. graph_view db s3 (K_Vertex c w) \<noteq> None"
    "write_edge_txn_locked_with_metadata db shard mutation updates edge_metadata operation s =
      (if ep \<noteq> None \<and> same
       then (shard, commit_result_with db \<lparr> cr_epoch = the ep, cr_already_existed = True \<rparr>
         (txn_put db s idem (encode_commit_idempotency mutation \<lparr> cr_epoch = the ep, cr_already_existed = True \<rparr>)))
       else try_with shard (ok_or (CorruptValue ''storage_sequence'' ''epoch overflow'') (checked_add_u64 (kv_seqnum db s) 1)) (\<lambda>e.
         let r = \<lparr> cr_epoch = e, cr_already_existed = ep \<noteq> None \<rparr> in
         if ep \<noteq> None then (shard, commit_result_with db r (txn_put db s2 idem (encode_commit_idempotency mutation r)))
         else case insert_structural_edge_txn db shard mutation e s3 of (shard, inserted) \<Rightarrow>
           try_with shard inserted
             (\<lambda>s. (shard, commit_result_with db r (txn_put db s idem (encode_commit_idempotency mutation r))))))"
proof -
  have ik: "K_Idempotency c ''create'' (mut_idempotency_key mutation) = idem" by (simp add: idem_def c_def)
  note folds = c_def [symmetric] t_def [symmetric] src_def [symmetric] dst_def [symmetric] ik
  have v: "valid_component c" "valid_component t" and vi: "valid_key idem"
    using vm by (simp_all add: c_def t_def idem_def slash_free_def)
  note sd = graph_okD [OF ok]
  let ?view = "graph_view db s"
  let ?now = "kv_seqnum db s"
  obtain ep where ep: "edge_epoch_at_txn db s c t src dst ?now = Inr ep" "ep \<noteq> None \<longleftrightarrow> has_edge ?view c t src dst"
    by (rule edge_epoch_ok [OF sd(1,5) v, where src = src and dst = dst]) (rule that)
  let ?changed = "concat (map (vertex_change ?view c) updates)"
  let ?old = "stored_edge_meta ?view (c, t, src, dst)"
  let ?new = "merge_edge_metadata ?old edge_metadata"
  note reads = ep(1) changed_vertex_metadata_ok [OF sd(1) v(1), of updates]
    read_edge_metadata_ok(1) [OF sd(1) v, of src dst]
  have new_ok: "edge_metadata_ok ?new"
    using merge_edge_metadata_ok read_edge_metadata_ok(2) [OF sd(1) v, of src dst] em by blast
  obtain s1 where s1: "apply_changed_vertex_metadata db c ?changed s = Inr s1" "meta_step db s s1"
    "touches db {KC_Vertex} s s1" "\<And>v. v \<in> fst ` set updates \<Longrightarrow> graph_view db s1 (K_Vertex c v) \<noteq> None"
    by (rule vertex_updates_step [OF sd(1) v(1) up _ sd(1)]) (auto intro: that)
  have "agree {KC_EdgeMeta} ?view (graph_view db s1)" by (rule touchesD(3) [OF s1(3)]) simp
  note prev = stored_edge_meta_agree [OF this, of "(c, t, src, dst)"]
  obtain s2 where s2: "(if ?old \<noteq> ?new then apply_edge_metadata_update_txn db c t src dst ?old ?new s1 else Inr s1) = Inr s2"
    "meta_step db s1 s2"
    by (cases "?old \<noteq> ?new")
      (auto intro: that edge_update_step [OF v new_ok meta_stepD(1) [OF s1(2) sd(1)] prev])
  note m2 = meta_step_trans [OF s1(2) s2(2)]
  define s3 where "s3 = fst (ensure_vertex_records_txn db c [src, dst] (bs_of_list (map fst updates)) False s2)"
  have m3: "meta_step db s s3" by (rule meta_step_trans [OF m2 meta_step_ensure(1) [OF v(1) _ s3_def]]) simp
  have ends: "\<forall>w \<in> {src, dst}. graph_view db s3 (K_Vertex c w) \<noteq> None"
    using meta_step_ensure(2) [OF v(1) _ s3_def] s1(4) s2(2) by (auto simp: meta_step_def)
  have rd: "read_txn_remote db s idem = None" using vi fresh by (simp add: read_view del: valid_key.simps)
  show thesis
    by (rule that [of ep s2 s3 "?changed = [] \<and> \<not> ?old \<noteq> ?new", OF ep(2) m2 m3 ends])
      (simp only: write_edge_txn_locked_with_metadata_def Let_def folds fence try_with_simps rd option.case
        reads s1(1) s2(1) s3_def [symmetric])
qed

lemma write_edge_metadata_ok:
  fixes mutation
  defines "c \<equiv> mut_cell_id mutation" and "t \<equiv> mut_edge_type mutation"
    and "src \<equiv> mut_src mutation" and "dst \<equiv> mut_dst mutation"
    and "idem \<equiv> K_Idempotency (mut_cell_id mutation) ''create'' (mut_idempotency_key mutation)"
  assumes ok: "graph_ok db shard spare s" and vm: "valid_mutation mutation"
    and up: "distinct (map fst updates)" "\<And>v m. (v, m) \<in> set updates \<Longrightarrow> vertex_metadata_ok m"
    and em: "edge_metadata_ok edge_metadata" and spare: "src \<noteq> spare" "dst \<noteq> spare"
    and run: "write_edge_txn_locked_with_metadata db shard mutation updates edge_metadata operation s = (shard', Inr (r, s'))"
    and fresh: "graph_view db s idem = None"
  shows "cr_already_existed r \<longleftrightarrow> has_edge (graph_view db s) c t src dst"
    "committed db spare c t src (if has_edge (graph_view db s) c t src dst then {} else {dst}) True shard s shard' s'"
    "graph_view db s' idem = Some (encode_commit_idempotency mutation r)"
proof -
  have v: "valid_component c" "valid_component t" and vi: "valid_key idem"
    using vm by (simp_all add: c_def t_def idem_def slash_free_def)
  let ?now = "kv_seqnum db s"
  let ?idem = "\<lambda>s r. txn_put db s idem (encode_commit_idempotency mutation r)"
  have fin: "meta_step db s (?idem s r)" for s r unfolding idem_def by (rule meta_step_idem) (use vi in \<open>simp add: idem_def\<close>)
  have stored: "graph_view db s' idem = Some (encode_commit_idempotency mutation x)"
    if "commit_result_with db x (?idem s0 x) = Inr (r, s')" for x s0
    using that vi by (auto simp: commit_result_with_def commit_txn_strict_def map_ok_eq_Inr and_then_eq_Inr view_commit simp del: valid_key.simps)
  have fence: "begin_fenced db shard s c operation = Inr ()"
    using run by (cases "begin_fenced db shard s c operation")
      (simp_all add: write_edge_txn_locked_with_metadata_def Let_def c_def)
  obtain ep same s2 s3 where ep: "ep \<noteq> None \<longleftrightarrow> has_edge (graph_view db s) c t src dst"
    and m2: "meta_step db s s2" and m3: "meta_step db s s3"
    and ends: "\<forall>w \<in> {src, dst}. graph_view db s3 (K_Vertex c w) \<noteq> None"
    and eq: "(shard', Inr (r, s')) =
    (if ep \<noteq> None \<and> same
     then (shard, commit_result_with db \<lparr> cr_epoch = the ep, cr_already_existed = True \<rparr>
       (?idem s \<lparr> cr_epoch = the ep, cr_already_existed = True \<rparr>))
     else try_with shard (ok_or (CorruptValue ''storage_sequence'' ''epoch overflow'') (checked_add_u64 ?now 1)) (\<lambda>e.
       let r = \<lparr> cr_epoch = e, cr_already_existed = ep \<noteq> None \<rparr> in
       if ep \<noteq> None then (shard, commit_result_with db r (?idem s2 r))
       else case insert_structural_edge_txn db shard mutation e s3 of (shard, inserted) \<Rightarrow>
         try_with shard inserted (\<lambda>s. (shard, commit_result_with db r (?idem s r)))))"
    by (rule write_edge_body [OF ok vm up em fence [unfolded c_def] fresh [unfolded idem_def],
        folded c_def t_def src_def dst_def idem_def, unfolded run]) (assumption | rule that)+
  let ?r = "\<lambda>e. \<lparr> cr_epoch = e, cr_already_existed = ep \<noteq> None \<rparr>"
  have "(cr_already_existed r \<longleftrightarrow> ep \<noteq> None) \<and> graph_view db s' idem = Some (encode_commit_idempotency mutation r) \<and>
    committed db spare c t src (if ep \<noteq> None then {} else {dst}) True shard s shard' s'"
  proof (cases "ep \<noteq> None \<and> same")
    case True
    with eq have "shard' = shard" and cm: "commit_result_with db \<lparr> cr_epoch = the ep, cr_already_existed = True \<rparr>
       (?idem s \<lparr> cr_epoch = the ep, cr_already_existed = True \<rparr>) = Inr (r, s')"
      by (simp_all only: if_True prod.inject not_False_eq_True simp_thms)
    with quiet_commit [OF ok fin cm] stored [OF cm] True show ?thesis by simp
  next
    case False
    note eq = eq [unfolded if_not_P [OF False] Let_def]
    obtain e where ce: "checked_add_u64 ?now 1 = Some e"
      using eq by (cases "checked_add_u64 ?now 1") (simp_all add: ok_or_def)
    note e = checked_add_one [OF ce]
    show ?thesis
    proof (cases "ep = None")
      case False
      with eq ce have "shard' = shard" and cm: "commit_result_with db (?r e) (?idem s2 (?r e)) = Inr (r, s')"
        by (simp_all add: ok_or_def)
      with quiet_commit [OF ok meta_step_trans [OF m2 fin] cm] stored [OF cm] False show ?thesis by simp
    next
      case True
      have new: "\<not> has_edge (graph_view db s3) c t src dst" using True ep meta_step_has_edge [OF m3] by simp
      obtain shard4 s4 where s4: "insert_structural_edge_txn db shard mutation e s3 = (shard4, Inr s4)"
        "staged db shard4 spare e s4" "kv_seqnum db s4 = kv_seqnum db s3" "same_shard c t shard shard4"
        "edges_changed c t src {dst} True (graph_view db s3) (graph_view db s4)"
        "log_changed c t src {dst} True e (graph_view db s3) (graph_view db s4)"
        by (rule staged_insert [OF v [unfolded c_def t_def] meta_step_staged [OF m3 graph_ok_staged [OF ok]],
              of e, folded c_def t_def src_def dst_def]) (use new ends spare e that in auto)
      with eq ce True have "shard' = shard4" and cm: "commit_result_with db (?r e) (?idem s4 (?r e)) = Inr (r, s')"
        by (simp_all add: ok_or_def)
      moreover note changed_commit [OF cm fin, of s shard4 spare c t shard src "{dst}" True] stored [OF cm]
      ultimately show ?thesis
        using s4 e True meta_stepD(2) [OF m3] changed_quiet [OF meta_step_quiet [OF m3] quiet_refl] by simp
    qed
  qed
  with ep show "cr_already_existed r \<longleftrightarrow> has_edge (graph_view db s) c t src dst"
    "committed db spare c t src (if has_edge (graph_view db s) c t src dst then {} else {dst}) True shard s shard' s'"
    "graph_view db s' idem = Some (encode_commit_idempotency mutation r)"
    by simp_all
qed

text \<open>An accepted write returns a result unless the engine refuses the commit.\<close>

lemma write_edge_progress:
  fixes mutation
  assumes ok: "graph_ok db shard spare s" and vm: "valid_mutation mutation"
    and up: "distinct (map fst updates)" "\<And>v m. (v, m) \<in> set updates \<Longrightarrow> vertex_metadata_ok m"
    and em: "edge_metadata_ok edge_metadata" and spare: "mut_src mutation \<noteq> spare" "mut_dst mutation \<noteq> spare"
    and fence: "begin_fenced db shard s (mut_cell_id mutation) operation = Inr ()"
    and fresh: "graph_view db s (K_Idempotency (mut_cell_id mutation) ''create'' (mut_idempotency_key mutation)) = None"
    and seq: "checked_add_u64 (kv_seqnum db s) 1 = Some e"
    and commit: "\<forall>s. kv_seqnum db s + 1 = e \<longrightarrow> is_ok (kv_commit db s e)"
  shows "is_ok (snd (write_edge_txn_locked_with_metadata db shard mutation updates edge_metadata operation s))"
proof -
  let ?i = "K_Idempotency (mut_cell_id mutation) ''create'' (mut_idempotency_key mutation)"
  have vi: "valid_key ?i" using vm by (simp add: slash_free_def)
  note e = checked_add_one [OF seq]
  have cm: "is_ok (commit_result_with db x (txn_put db s0 ?i b))" if "kv_seqnum db s0 = kv_seqnum db s" for x s0 b
  proof -
    have q: "kv_seqnum db (txn_put db s0 ?i b) = kv_seqnum db s" using that by (simp add: txn_put_def seqnum_put)
    show ?thesis
      using commit [rule_format, of "txn_put db s0 ?i b"] q seq e
      by (cases "kv_commit db (txn_put db s0 ?i b) e") (simp_all add: commit_result_with_def commit_txn_strict_def ok_or_def)
  qed
  obtain ep same s2 s3 where ep: "ep \<noteq> None \<longleftrightarrow> has_edge (graph_view db s) (mut_cell_id mutation) (mut_edge_type mutation) (mut_src mutation) (mut_dst mutation)"
    and m2: "meta_step db s s2" and m3: "meta_step db s s3"
    and ends: "\<forall>w \<in> {mut_src mutation, mut_dst mutation}. graph_view db s3 (K_Vertex (mut_cell_id mutation) w) \<noteq> None"
    and eq: "write_edge_txn_locked_with_metadata db shard mutation updates edge_metadata operation s =
    (if ep \<noteq> None \<and> same
     then (shard, commit_result_with db \<lparr> cr_epoch = the ep, cr_already_existed = True \<rparr>
       (txn_put db s ?i (encode_commit_idempotency mutation \<lparr> cr_epoch = the ep, cr_already_existed = True \<rparr>)))
     else try_with shard (ok_or (CorruptValue ''storage_sequence'' ''epoch overflow'') (checked_add_u64 (kv_seqnum db s) 1)) (\<lambda>e.
       let r = \<lparr> cr_epoch = e, cr_already_existed = ep \<noteq> None \<rparr> in
       if ep \<noteq> None then (shard, commit_result_with db r (txn_put db s2 ?i (encode_commit_idempotency mutation r)))
       else case insert_structural_edge_txn db shard mutation e s3 of (shard, inserted) \<Rightarrow>
         try_with shard inserted (\<lambda>s. (shard, commit_result_with db r (txn_put db s ?i (encode_commit_idempotency mutation r))))))"
    by (rule write_edge_body [OF ok vm up em fence fresh]) (assumption | rule that)+
  show ?thesis
  proof (cases "ep = None")
    case False
    then show ?thesis using eq seq cm [OF refl] cm [OF meta_stepD(2) [OF m2]] by (cases same) (simp_all add: ok_or_def Let_def)
  next
    case True
    have new: "\<not> has_edge (graph_view db s3) (mut_cell_id mutation) (mut_edge_type mutation) (mut_src mutation) (mut_dst mutation)"
      using True ep meta_step_has_edge [OF m3] by simp
    obtain shard4 s4 where "insert_structural_edge_txn db shard mutation e s3 = (shard4, Inr s4)" "kv_seqnum db s4 = kv_seqnum db s3"
      by (rule staged_insert [OF _ _ meta_step_staged [OF m3 graph_ok_staged [OF ok]], of mutation e])
        (use vm new ends spare e that in auto)
    then show ?thesis using True eq seq cm meta_stepD(2) [OF m3] by (simp add: ok_or_def Let_def)
  qed
qed

end

subsection \<open>\<open>delete_edge\<close>\<close>

context kv_store
begin

text \<open>The record branch, after the prologue.\<close>

lemma staged_delete_record:
  fixes mutation
  defines "c \<equiv> mut_cell_id mutation" and "t \<equiv> mut_edge_type mutation"
    and "src \<equiv> mut_src mutation" and "dst \<equiv> mut_dst mutation"
  assumes v: "valid_component c" "valid_component t" and st: "staged db shard spare now s" and "now < e"
    and old: "graph_view db s (K_OutEdge c t src dst) \<noteq> None" and ty: "store_typed db s3"
    and v3: "agree (- {KC_EdgeMeta, KC_Rel}) (graph_view db s3)
      ((logged (graph_view db s) c t e)(K_XlogEntry c t e src dst \<mapsto> xlog_value False))"
    and meta: "meta_cleared (c, t, src, dst) (graph_view db s) (graph_view db s3)"
    and rels: "rels_cleared (c, t, src, dst) (graph_view db s) (graph_view db s3)"
    and sh: "same_shard c t shard shard'"
  defines "s4 \<equiv> txn_put db (txn_delete db (txn_delete db (txn_delete db s3 (K_Edge c t src dst))
      (K_OutEdge c t src dst)) (K_InEdge c t dst src)) (K_DegreeOut c t src)
      (encode_u64 (saturating_sub_u64 (counter (graph_view db s) (K_DegreeOut c t src)) 1))"
  defines "s5 \<equiv> if writes_reverse_index shard then txn_put db s4 (K_DegreeIn c t dst)
      (encode_u64 (saturating_sub_u64 (counter (graph_view db s) (K_DegreeIn c t dst)) 1)) else s4"
  shows "staged db shard' spare e s5" "kv_seqnum db s5 = kv_seqnum db s3"
    "edges_changed c t src {dst} False (graph_view db s) (graph_view db s5)"
    "log_changed c t src {dst} False e (graph_view db s) (graph_view db s5)"
proof -
  note sd = stagedD [OF st]
  let ?view = "graph_view db s" and ?rev = "writes_reverse_index shard"
  let ?new = "removed_view ?rev c t src dst e ?view"
  note top = remove_topology [OF sd(4) \<open>now < e\<close> old]
  have rev_row: "?view (K_InEdge c t dst src) = None" if "\<not> ?rev"
    using topology_ok_records(1) [OF sd(4)] that unfolding records_ok_def by blast
  have eq: "graph_view db s5 k = ?new k" if "class_of k \<notin> {KC_EdgeMeta, KC_Rel}" for k
    using agreeD [OF v3, of k] that v rev_row
    by (cases ?rev) (auto simp: s4_def s5_def removed_view_def Let_def logged_def)
  have keep: "agree {KC_EdgeMeta, KC_Rel} (graph_view db s3) (graph_view db s5)"
    using v by (cases ?rev) (simp_all add: s4_def s5_def)
  show "kv_seqnum db s5 = kv_seqnum db s3" by (simp add: s4_def s5_def)
  have "store_typed db s5" using v ty by (auto simp: s4_def s5_def intro!: typed_put typed_delete)
  moreover have "agree {KC_Vertex} ?view ?new"
    by (rule agree_sym) (simp add: removed_view_def Let_def logged_agree)
  moreover have "meta_cleared (c, t, src, dst) ?view (graph_view db s5)"
    by (rule meta_cleared_agree [OF meta agree_refl agree_mono [OF keep]]) simp
  moreover have "rels_cleared (c, t, src, dst) ?view (graph_view db s5)"
    by (rule rels_cleared_agree [OF rels agree_refl agree_mono [OF keep]]) simp
  ultimately show "staged db shard' spare e s5"
    "edges_changed c t src {dst} False ?view (graph_view db s5)"
    "log_changed c t src {dst} False e ?view (graph_view db s5)"
    using staged_removed_view [OF v st _ sh top, of s5] eq by (simp_all add: removed_view_def Let_def)
qed

text \<open>The segment branch.\<close>

lemma staged_hide:
  fixes mutation
  defines "c \<equiv> mut_cell_id mutation" and "t \<equiv> mut_edge_type mutation"
    and "src \<equiv> mut_src mutation" and "dst \<equiv> mut_dst mutation"
  assumes v: "valid_component c" "valid_component t" and st: "staged db shard spare now s" and "now < e"
    and rv: "\<not> writes_reverse_index shard"
    and old: "seg_edge (graph_view db s) c t src dst" "graph_view db s (K_OutEdge c t src dst) = None"
    and ty: "store_typed db s3"
    and v3: "agree (- {KC_EdgeMeta, KC_Rel}) (graph_view db s3)
      ((logged (graph_view db s) c t e)(K_XlogEntry c t e src dst \<mapsto> xlog_value False))"
    and meta: "meta_cleared (c, t, src, dst) (graph_view db s) (graph_view db s3)"
    and rels: "rels_cleared (c, t, src, dst) (graph_view db s) (graph_view db s3)"
    and sh: "same_shard c t shard shard'"
  defines "s4 \<equiv> txn_put db (txn_put db s3 (K_OutSegmentTombstone c t src dst) (encode_u64 e)) (K_DegreeOut c t src)
      (encode_u64 (saturating_sub_u64 (counter (graph_view db s) (K_DegreeOut c t src)) 1))"
  shows "staged db shard' spare e s4" "kv_seqnum db s4 = kv_seqnum db s3"
    "edges_changed c t src {dst} False (graph_view db s) (graph_view db s4)"
    "log_changed c t src {dst} False e (graph_view db s) (graph_view db s4)"
proof -
  note sd = stagedD [OF st]
  let ?view = "graph_view db s" and ?new = "hidden_view c t src dst e (graph_view db s)"
  have inv: "topology_ok False spare now ?view" using sd(4) rv by simp
  note top = hide_topology [OF inv \<open>now < e\<close> old]
  have eq: "graph_view db s4 k = ?new k" if "class_of k \<notin> {KC_EdgeMeta, KC_Rel}" for k
    using agreeD [OF v3, of k] that v by (auto simp: s4_def hidden_view_def)
  have keep: "agree {KC_EdgeMeta, KC_Rel} (graph_view db s3) (graph_view db s4)"
    using v by (simp add: s4_def)
  show "kv_seqnum db s4 = kv_seqnum db s3" by (simp add: s4_def)
  have "store_typed db s4" using v ty by (auto simp: s4_def intro!: typed_put)
  moreover have "agree {KC_Vertex} ?view ?new"
    by (rule agree_sym) (simp add: hidden_view_def logged_agree)
  moreover have "meta_cleared (c, t, src, dst) ?view (graph_view db s4)"
    by (rule meta_cleared_agree [OF meta agree_refl agree_mono [OF keep]]) simp
  moreover have "rels_cleared (c, t, src, dst) ?view (graph_view db s4)"
    by (rule rels_cleared_agree [OF rels agree_refl agree_mono [OF keep]]) simp
  ultimately show "staged db shard' spare e s4"
    "edges_changed c t src {dst} False ?view (graph_view db s4)"
    "log_changed c t src {dst} False e ?view (graph_view db s4)"
    using staged_removed_view [OF v st _ sh _ top(2,3), of s4] top(1) rv eq by (simp_all add: hidden_view_def)
qed

end

context kv_store
begin

lemma delete_noop_ok:
  assumes ok: "graph_ok db shard spare s" and vi: "valid_key (K_Idempotency c w i)"
    and run: "delete_noop_txn db mutation (K_Idempotency c w i) s = Inr (r, s')"
  shows "\<not> dr_deleted r" "committed db spare c' t src {} flag shard s shard s'"
proof -
  note m = meta_step_idem [OF vi]
  note q = quiet_commit [OF ok m run [unfolded delete_noop_txn_def Let_def]]
  show "\<not> dr_deleted r" "committed db spare c' t src {} flag shard s shard s'"
    using q(1) by simp (rule q(2))
qed

lemma delete_segment_edge_ok:
  fixes mutation
  defines "c \<equiv> mut_cell_id mutation" and "t \<equiv> mut_edge_type mutation"
    and "src \<equiv> mut_src mutation" and "dst \<equiv> mut_dst mutation"
    and "idem \<equiv> K_Idempotency (mut_cell_id mutation) ''delete'' (mut_idempotency_key mutation)"
  assumes ok: "graph_ok db shard spare s" and vm: "valid_mutation mutation"
    and none: "graph_view db s (K_OutEdge c t src dst) = None"
    and run: "delete_segment_edge_txn db shard mutation idem s = (shard', Inr (r, s'))"
  shows "dr_deleted r \<longleftrightarrow> has_edge (graph_view db s) c t src dst"
    "committed db spare c t src (if has_edge (graph_view db s) c t src dst then {dst} else {}) False shard s shard' s'"
proof -
  note folds = c_def [symmetric] t_def [symmetric] src_def [symmetric] dst_def [symmetric]
  have v: "valid_component c" "valid_component t" and vi: "valid_key idem"
    using vm by (simp_all add: c_def t_def idem_def slash_free_def)
  note sd = graph_okD [OF ok]
  let ?view = "graph_view db s" and ?now = "kv_seqnum db s"
  let ?idem = "\<lambda>s r. txn_put db s idem (encode_delete_idempotency mutation r)"
  have fin: "meta_step db s (?idem s r)" for s r unfolding idem_def by (rule meta_step_idem) (use vi in \<open>simp add: idem_def\<close>)
  obtain latest where lt: "out_segment_edge_record_at db s c t src dst ?now = Inr latest"
    "latest \<noteq> None \<longleftrightarrow> seg_edge ?view c t src dst"
    "\<And>q e. latest = Some (q, e) \<Longrightarrow> segment_edge_visible q (tombstone_of ?view c t src dst)"
    by (rule edge_record_at_ok [OF sd(1,5) v, where src = src and dst = dst]) (rule that)
  have he: "has_edge ?view c t src dst \<longleftrightarrow> seg_edge ?view c t src dst" using none by (simp add: has_edge_def)
  have rev_none: "\<not> seg_edge ?view c t src dst" if "writes_reverse_index shard"
    using topology_ok_records(1) [OF sd(4)] that by (simp add: records_ok_def seg_edge_def segment_of_def)
  have "(dr_deleted r \<longleftrightarrow> seg_edge ?view c t src dst) \<and>
    committed db spare c t src (if seg_edge ?view c t src dst then {dst} else {}) False shard s shard' s'"
  proof (cases "seg_edge ?view c t src dst")
    case False
    then have "latest = None" using lt(2) by blast
    then have "(if writes_reverse_index shard then Inr None else out_segment_edge_record_at db s c t src dst ?now) =
        (Inr None :: (storage_sequence \<times> edge_record) option result)"
      using lt(1) by simp
    with run have "shard' = shard" "delete_noop_txn db mutation idem s = Inr (r, s')"
      by (simp_all add: delete_segment_edge_txn_def Let_def folds)
    with delete_noop_ok [OF ok vi [unfolded idem_def] this(2) [unfolded idem_def]] False show ?thesis by simp
  next
    case True
    then obtain q e0 where l: "latest = Some (q, e0)" using lt(2) by auto
    have rv: "\<not> writes_reverse_index shard" using True rev_none by blast
    note vis = lt(3) [OF l]
    have tomb: "(case read_txn_remote db s (K_OutSegmentTombstone c t src dst) of None \<Rightarrow> Inr None
        | Some v \<Rightarrow> map_ok Some (decode_u64 (render (K_OutSegmentTombstone c t src dst)) v)) =
        Inr (tombstone_of ?view c t src dst)"
      using v typed_value [OF sd(1), of "K_OutSegmentTombstone c t src dst"]
      by (auto simp: read_view tombstone_of_def decode_u64_def split: option.splits)
    note eq = run [unfolded delete_segment_edge_txn_def Let_def folds if_not_P [OF rv] lt(1) l try_with_simps
        option.case prod.case tomb, simplified vis, simplified]
    obtain e where ce: "checked_add_u64 ?now 1 = Some e"
      using eq by (cases "checked_add_u64 ?now 1") (simp_all add: ok_or_def)
    note e = checked_add_one [OF ce]
    obtain shard1 s1 s2 s3 n m where pro:
      "mark_topology_change_txn db shard c t e [(src, dst, False)] s = (shard1, s1)"
      "read_counter_txn db s1 (K_DegreeOut c t src) = Inr (counter ?view (K_DegreeOut c t src))"
      "read_edge_metadata_txn db s1 c t src dst = Inr m"
      "delete_relationships_for_structural_edge_txn db mutation s1 = Inr (s2, n)"
      "clear_edge_metadata_txn db mutation m s2 = Inr s3"
      "agree (- {KC_EdgeMeta, KC_Rel}) (graph_view db s3)
        ((logged ?view c t e)(K_XlogEntry c t e src dst \<mapsto> xlog_value False))"
      "meta_cleared (c, t, src, dst) ?view (graph_view db s3)"
      "rels_cleared (c, t, src, dst) ?view (graph_view db s3)"
      "kv_seqnum db s3 = kv_seqnum db s" "store_typed db s3" "same_shard c t shard shard1"
      by (rule remove_prologue [OF v [unfolded c_def t_def] sd(1,2), where e = e, unfolded folds]) (rule that)
    note hide = staged_hide [of mutation, unfolded folds, OF v graph_ok_staged [OF ok] _ rv True none pro(10,6-8,11)]
    let ?r = "\<lparr> dr_epoch = e, dr_deleted = True \<rparr>"
    from eq ce have "shard' = shard1" "commit_result_with db ?r (?idem (txn_put db (txn_put db s3
        (K_OutSegmentTombstone c t src dst) (encode_u64 e)) (K_DegreeOut c t src)
        (encode_u64 (saturating_sub_u64 (counter ?view (K_DegreeOut c t src)) 1))) ?r) = Inr (r, s')"
      by (simp_all add: ok_or_def pro(1-5))
    moreover note changed_commit [OF this(2) fin, of s shard1 spare c t shard src "{dst}" False]
    ultimately show ?thesis using hide e True pro(9,11) by simp
  qed
  with he show "dr_deleted r \<longleftrightarrow> has_edge (graph_view db s) c t src dst"
    "committed db spare c t src (if has_edge (graph_view db s) c t src dst then {dst} else {}) False shard s shard' s'"
    by simp_all
qed

end

context kv_store
begin

lemma delete_edge_ok:
  fixes mutation
  defines "c \<equiv> mut_cell_id mutation" and "t \<equiv> mut_edge_type mutation"
    and "src \<equiv> mut_src mutation" and "dst \<equiv> mut_dst mutation"
    and "idem \<equiv> K_Idempotency (mut_cell_id mutation) ''delete'' (mut_idempotency_key mutation)"
  assumes ok: "graph_ok db shard spare s" and vm: "valid_mutation mutation"
    and run: "delete_edge_txn_locked db shard mutation s = (shard', Inr (r, s'))"
    and fresh: "graph_view db s idem = None"
  shows "dr_deleted r \<longleftrightarrow> has_edge (graph_view db s) c t src dst"
    "committed db spare c t src (if has_edge (graph_view db s) c t src dst then {dst} else {}) False shard s shard' s'"
proof -
  have ik: "K_Idempotency c ''delete'' (mut_idempotency_key mutation) = idem" by (simp add: idem_def c_def)
  note folds = c_def [symmetric] t_def [symmetric] src_def [symmetric] dst_def [symmetric] ik
  have v: "valid_component c" "valid_component t" and vi: "valid_key idem"
    using vm by (simp_all add: c_def t_def idem_def slash_free_def)
  note sd = graph_okD [OF ok]
  let ?view = "graph_view db s" and ?now = "kv_seqnum db s" and ?k = "K_OutEdge c t src dst"
  let ?idem = "\<lambda>s r. txn_put db s idem (encode_delete_idempotency mutation r)"
  have fin: "meta_step db s (?idem s r)" for s r unfolding idem_def by (rule meta_step_idem) (use vi in \<open>simp add: idem_def\<close>)
  have rd: "read_txn_remote db s idem = None" "read_txn_remote db s ?k = ?view ?k"
    using vi v fresh by (simp_all add: read_view del: valid_key.simps(24))
  have fence: "begin_fenced db shard s c ''delete_edge'' = Inr ()"
    using run by (cases "begin_fenced db shard s c ''delete_edge''") (simp_all add: delete_edge_txn_locked_def Let_def folds)
  note eq = run [unfolded delete_edge_txn_locked_def Let_def folds fence rd try_with_simps option.case]
  have "(dr_deleted r \<longleftrightarrow> has_edge ?view c t src dst) \<and>
    committed db spare c t src (if has_edge ?view c t src dst then {dst} else {}) False shard s shard' s'"
  proof (cases "?view ?k")
    case None
    with eq have "delete_segment_edge_txn db shard mutation idem s = (shard', Inr (r, s'))" by simp
    from delete_segment_edge_ok [OF ok vm, unfolded folds idem_def [symmetric], OF None this] show ?thesis by simp
  next
    case (Some b)
    then have b: "b = edge_bytes" using typed_value [OF sd(1)] by force
    have dec: "decode_edge_record (render ?k) b = Inr \<lparr> er_cell_id = c, er_edge_type = t, er_src = src, er_dst = dst \<rparr>"
      unfolding b by (rule decode_edge_record_render [OF v])
    obtain e where ce: "checked_add_u64 ?now 1 = Some e"
      using eq Some dec by (cases "checked_add_u64 ?now 1") (simp_all add: ok_or_def next_epoch_txn_def)
    note e = checked_add_one [OF ce]
    obtain shard1 s1 s2 s3 n m where pro:
      "mark_topology_change_txn db shard c t e [(src, dst, False)] s = (shard1, s1)"
      "read_counter_txn db s1 (K_DegreeOut c t src) = Inr (counter ?view (K_DegreeOut c t src))"
      "read_counter_txn db s1 (K_DegreeIn c t dst) = Inr (counter ?view (K_DegreeIn c t dst))"
      "read_edge_metadata_txn db s1 c t src dst = Inr m"
      "delete_relationships_for_structural_edge_txn db mutation s1 = Inr (s2, n)"
      "clear_edge_metadata_txn db mutation m s2 = Inr s3"
      "agree (- {KC_EdgeMeta, KC_Rel}) (graph_view db s3)
        ((logged ?view c t e)(K_XlogEntry c t e src dst \<mapsto> xlog_value False))"
      "meta_cleared (c, t, src, dst) ?view (graph_view db s3)"
      "rels_cleared (c, t, src, dst) ?view (graph_view db s3)"
      "kv_seqnum db s3 = kv_seqnum db s" "store_typed db s3" "same_shard c t shard shard1"
      "writes_reverse_index shard1 = writes_reverse_index shard"
      by (rule remove_prologue [OF v [unfolded c_def t_def] sd(1,2), where e = e, unfolded folds]) (rule that)
    have old: "?view ?k \<noteq> None" using Some by simp
    note rm = staged_delete_record [of mutation, unfolded folds, OF v graph_ok_staged [OF ok] _ old pro(11,7-9,12)]
    define s5 where "s5 = (let s4 = txn_put db (txn_delete db (txn_delete db (txn_delete db s3 (K_Edge c t src dst))
        (K_OutEdge c t src dst)) (K_InEdge c t dst src)) (K_DegreeOut c t src)
        (encode_u64 (saturating_sub_u64 (counter ?view (K_DegreeOut c t src)) 1))
      in if writes_reverse_index shard then txn_put db s4 (K_DegreeIn c t dst)
        (encode_u64 (saturating_sub_u64 (counter ?view (K_DegreeIn c t dst)) 1)) else s4)"
    note rm = rm [folded s5_def [unfolded Let_def]]
    let ?r = "\<lparr> dr_epoch = e, dr_deleted = True \<rparr>"
    from eq ce Some dec have "shard' = shard1" "commit_result_with db ?r (?idem s5 ?r) = Inr (r, s')"
      by (cases "writes_reverse_index shard"; simp add: ok_or_def next_epoch_txn_def pro(1-6,13) s5_def Let_def)+
    moreover note changed_commit [OF this(2) fin, of s shard1 spare c t shard src "{dst}" False]
    ultimately show ?thesis using rm e old pro(10,12) by (simp add: has_edge_def)
  qed
  then show "dr_deleted r \<longleftrightarrow> has_edge (graph_view db s) c t src dst"
    "committed db spare c t src (if has_edge (graph_view db s) c t src dst then {dst} else {}) False shard s shard' s'"
    by simp_all
qed

end

subsection \<open>Appending a segment\<close>

context kv_store
begin

lemma staged_append:
  assumes v: "valid_component c" "valid_component t" "valid_component g"
    and st: "staged db shard spare now s" and "now < e" and rv: "\<not> writes_reverse_index shard"
    and new: "\<forall>d \<in> set dsts. \<not> has_edge (graph_view db s) c t src d"
    and dsts: "distinct dsts" "length dsts < 2 ^ 61" "dsts \<noteq> []" and spare: "src \<noteq> spare" "spare \<notin> set dsts"
    and ends: "\<forall>w \<in> insert src (set dsts). graph_view db s (K_Vertex c w) \<noteq> None"
    and mark: "mark_topology_change_txn db shard c t e (map (\<lambda>dst. (src, dst, True)) dsts) s = (shard', s1)"
  defines "s2 \<equiv> txn_put db (foldl (\<lambda>s dst. txn_delete db s (K_OutSegmentTombstone c t src dst)) s1 dsts)
      (K_OutSegment c t src e g) (encode_out_edge_segment_records dsts)"
  defines "s3 \<equiv> txn_put db s2 (K_DegreeOut c t src)
      (encode_u64 (counter (graph_view db s) (K_DegreeOut c t src) + of_nat (length dsts)))"
  shows "staged db shard' spare e s3" "kv_seqnum db s3 = kv_seqnum db s" "same_shard c t shard shard'"
    "read_counter_txn db s2 (K_DegreeOut c t src) = Inr (counter (graph_view db s) (K_DegreeOut c t src))"
    "edges_changed c t src (set dsts) True (graph_view db s) (graph_view db s3)"
    "log_changed c t src (set dsts) True e (graph_view db s) (graph_view db s3)"
proof -
  note sd = stagedD [OF st]
  let ?view = "graph_view db s" and ?new = "appended_view c t src dsts g e (graph_view db s)"
  have inv: "topology_ok False spare now ?view" using sd(4) rv by simp
  note top = append_topology [OF inv \<open>now < e\<close> v bspec [OF new] dsts(1,2) spare, simplified]
  have pairs: "map (\<lambda>dst. (src, dst, True)) dsts = map (\<lambda>(a, b). (a, b, True)) (map (Pair src) dsts)"
    by simp
  note m = mark_effect [OF v(1,2) sd(1,2) _ mark [unfolded pairs]]
  have m1: "graph_view db s1 = (\<lambda>k. if k \<in> K_XlogEntry c t e src ` set dsts then Some (xlog_value True)
      else logged ?view c t e k)" "kv_seqnum db s1 = kv_seqnum db s" "store_typed db s1"
    using m(1-3) dsts(3) by (simp_all add: image_image)
  show sh: "same_shard c t shard shard'" using m(4,5) dsts(3) by (simp add: same_shard_def)
  have del: "graph_view db (foldl (\<lambda>s dst. txn_delete db s (K_OutSegmentTombstone c t src dst)) s1 dsts) =
      (\<lambda>k. if k \<in> K_OutSegmentTombstone c t src ` set dsts then None else graph_view db s1 k)"
    by (rule view_deletes) (use v in auto)
  have v3: "graph_view db s3 = ?new"
    using v by (auto simp: s2_def s3_def del m1(1) appended_view_def fun_eq_iff logged_def Let_def)
  show "kv_seqnum db s3 = kv_seqnum db s" using m1(2) by (simp add: s2_def s3_def seqnum_foldl)
  have dec: "value_ok (K_OutSegment c t src e g) (encode_out_edge_segment_records dsts)"
    using decode_encode_segment [OF v dsts(2), of src e] by (simp add: render.simps)
  have ty2: "store_typed db s2"
    unfolding s2_def by (intro typed_put typed_foldl m1(3) dec typed_delete) (use v in simp_all)
  have ty3: "store_typed db s3" using ty2 v by (simp add: s3_def typed_put)
  show "read_counter_txn db s2 (K_DegreeOut c t src) = Inr (counter ?view (K_DegreeOut c t src))"
  proof -
    have "graph_view db s2 (K_DegreeOut c t src) = ?view (K_DegreeOut c t src)"
      using v by (auto simp: s2_def del m1(1) logged_def Let_def)
    from counter_eqI [of "graph_view db s2" "K_DegreeOut c t src" ?view, OF this] show ?thesis
      using read_counter_ok [OF ty2, of "K_DegreeOut c t src"] v by simp
  qed
  show ch: "edges_changed c t src (set dsts) True ?view (graph_view db s3)"
    "log_changed c t src (set dsts) True e ?view (graph_view db s3)"
    using top(2,3) by (simp_all add: v3)
  have "agree (- topology_classes) ?view (graph_view db s3)"
    by (auto simp: v3 agree_def appended_view_def logged_def Let_def)
  then have "contents_ok (graph_view db s3)"
    by (rule contents_added [OF sd(3) _ ch(1)]) (use ends in simp)
  moreover have "floor_cache_ok shard' (graph_view db s3)"
    by (rule logged_floor [OF v(1,2) sd(2) sh]) (auto simp: v3 appended_view_def)
  ultimately show "staged db shard' spare e s3"
    using ty3 top(1) same_shard_policy [OF sh] rv by (simp add: staged_def v3)
qed

end

context kv_store
begin

lemma append_segment_ok:
  assumes ok: "graph_ok db shard spare s" and v: "valid_component c" "valid_component t" "valid_component g"
    and rv: "\<not> writes_reverse_index shard" and dsts: "distinct dsts" "length dsts < 2 ^ 61"
    and spare: "src \<noteq> spare" "spare \<notin> set dsts"
    and run: "bulk_append_out_adjacency_segment_trusted_txn_locked db shard c t src dsts g fingerprint s =
      (shard', Inr (r, s'))"
    and fresh: "graph_view db s (K_Idempotency c ''segment-import'' g) = None"
  shows "unat (bir_inserted r) = card {d \<in> set dsts. \<not> has_edge (graph_view db s) c t src d}"
    "unat (bir_already_existed r) = card {d \<in> set dsts. has_edge (graph_view db s) c t src d}"
    "committed db spare c t src {d \<in> set dsts. \<not> has_edge (graph_view db s) c t src d} True shard s shard' s'"
proof -
  note sd = graph_okD [OF ok]
  let ?view = "graph_view db s" and ?now = "kv_seqnum db s"
  define idem where "idem = K_Idempotency c ''segment-import'' g"
  have vi: "valid_key idem" using v by (simp add: idem_def slash_free_def)
  have fin: "meta_step db s (txn_put db s idem b)" for s b
    unfolding idem_def by (rule meta_step_idem) (use vi in \<open>simp add: idem_def\<close>)
  have rd: "read_txn_remote db s idem = None" using vi fresh by (simp add: read_view idem_def del: valid_key.simps)
  obtain ns where ns: "out_neighbors_for_src_txn db s c t src ?now = Inr ns" "set ns = {d. has_edge ?view c t src d}"
    using out_neighbors_ok [OF sd(1,5) v(1,2)] by metis
  define xs where "xs = filter (\<lambda>dst. dst \<notin> set ns) dsts"
  have xs: "set xs = {d \<in> set dsts. \<not> has_edge ?view c t src d}" "distinct xs" "length xs < 2 ^ 61"
    using ns(2) dsts le_less_trans [OF length_filter_le dsts(2)] by (auto simp: xs_def)
  have fence: "begin_fenced db shard s c ''bulk_append_out_adjacency_segment_trusted'' = Inr ()"
    using run by (cases "begin_fenced db shard s c ''bulk_append_out_adjacency_segment_trusted''")
      (simp_all add: bulk_append_out_adjacency_segment_trusted_txn_locked_def Let_def)
  note eq = run [unfolded bulk_append_out_adjacency_segment_trusted_txn_locked_def Let_def idem_def [symmetric]
      fence rd try_with_simps option.case ns(1), folded xs_def]
  let ?r = "\<lambda>e. \<lparr> bir_start_epoch = e, bir_end_epoch = e, bir_inserted = of_nat (length xs),
      bir_already_existed = of_nat (length dsts - length xs) \<rparr>"
  let ?idem = "\<lambda>s r. txn_put db s idem (encode_bulk_import_idempotency g fingerprint r)"
  have main: "\<exists>e. r = ?r e" "committed db spare c t src (set xs) True shard s shard' s'"
  proof -
    have "(\<exists>e. r = ?r e) \<and> committed db spare c t src (set xs) True shard s shard' s'"
    proof (cases "xs = []")
      case True
      with eq have "shard' = shard" "commit_result_with db (?r ?now) (?idem s (?r ?now)) = Inr (r, s')" by simp_all
      with quiet_commit [OF ok fin this(2)] True show ?thesis by auto
    next
      case False
      obtain e where ce: "checked_add_u64 ?now 1 = Some e"
        using eq False by (cases "checked_add_u64 ?now 1") (simp_all add: ok_or_def)
      note e = checked_add_one [OF ce]
      define s1 where "s1 = fst (ensure_vertex_records_txn db c (src # xs) [] (?now = 0) s)"
      have m1: "meta_step db s s1" and ends: "\<forall>w \<in> insert src (set xs). graph_view db s1 (K_Vertex c w) \<noteq> None"
        using meta_step_ensure [OF v(1) _ s1_def] sd(6) by auto
      obtain shard2 s2 where mk: "mark_topology_change_txn db shard c t e (map (\<lambda>dst. (src, dst, True)) xs) s1 = (shard2, s2)"
        by force
      have st1: "staged db shard spare ?now s1" by (rule meta_step_staged [OF m1 graph_ok_staged [OF ok]])
      have new: "\<forall>d \<in> set xs. \<not> has_edge (graph_view db s1) c t src d"
        using xs(1) meta_step_has_edge [OF m1] by simp
      have zero: "counter (graph_view db s1) (K_DegreeOut c t src) = 0" if "?now = 0"
        using agreeD [OF meta_stepD(3) [OF m1], of "K_DegreeOut c t src"] sd(6) [OF that] by (simp add: counter_def)
      have sp: "spare \<notin> set xs" using spare(2) xs(1) by simp
      note app = staged_append [OF v st1 _ rv new xs(2,3) False spare(1) sp ends mk]
      let ?n = "counter (graph_view db s1) (K_DegreeOut c t src)"
      define sg where "sg = txn_put db (foldl (\<lambda>s dst. txn_delete db s (K_OutSegmentTombstone c t src dst)) s2 xs)
        (K_OutSegment c t src e g) (encode_out_edge_segment_records xs)"
      define sdeg where "sdeg = txn_put db sg (K_DegreeOut c t src) (encode_u64 (?n + of_nat (length xs)))"
      have "?now < e" using e by simp
      note app = app [OF this, folded sg_def, folded sdeg_def]
      have base: "(if ?now = 0 then Inr 0 else read_counter_txn db sg (K_DegreeOut c t src)) = Inr ?n"
        using zero app(4) by simp
      from eq ce False have "shard' = shard2" "commit_result_with db (?r e) (?idem sdeg (?r e)) = Inr (r, s')"
        by (simp_all add: ok_or_def s1_def [symmetric] mk base [unfolded sg_def] sdeg_def sg_def)
      moreover note changed_commit [OF this(2) fin, of s shard2 spare c t shard src "set xs" True]
      ultimately show ?thesis
        using app(1-3,5,6) e meta_stepD(2) [OF m1] changed_quiet [OF meta_step_quiet [OF m1] quiet_refl]
        by auto
    qed
    then show "\<exists>e. r = ?r e" "committed db spare c t src (set xs) True shard s shard' s'" by simp_all
  qed
  have len: "length xs = card {d \<in> set dsts. \<not> has_edge ?view c t src d}"
    using distinct_card [OF xs(2)] xs(1) by simp
  have "card {d \<in> set dsts. \<not> has_edge ?view c t src d} + card {d \<in> set dsts. has_edge ?view c t src d} = card (set dsts)"
    by (subst card_Un_disjoint [symmetric]) (auto intro!: arg_cong [where f = card])
  then have len': "length dsts - length xs = card {d \<in> set dsts. has_edge ?view c t src d}"
    using len distinct_card [OF dsts(1)] by simp
  have "length dsts < 2 ^ 64" "length dsts - length xs < 2 ^ 64" "length xs < 2 ^ 64"
    using dsts(2) xs(3) by simp_all
  then show "unat (bir_inserted r) = card {d \<in> set dsts. \<not> has_edge (graph_view db s) c t src d}"
    "unat (bir_already_existed r) = card {d \<in> set dsts. has_edge (graph_view db s) c t src d}"
    using main(1) len len' unat_of_nat_u64 by auto
  show "committed db spare c t src {d \<in> set dsts. \<not> has_edge (graph_view db s) c t src d} True shard s shard' s'"
    using main(2) xs(1) by simp
qed

end

end
