(* ===== verification/Relationship_Steps.thy ===== *)
theory Relationship_Steps
  imports Write_Steps
begin

text \<open>
  The relationship transactions and \<open>set_vertex_metadata\<close>: relationship rows, the id index, the
  per-edge counts and the property index move together, and the structural edge appears with the first
  relationship and goes with the last.
\<close>

subsection \<open>Steps on relationship rows\<close>

lemma rels_quiet_contents:
  assumes "contents_ok v" "agree (- {KC_Rel}) v w" "rels_ok w" "rel_index_ok w"
  shows "contents_ok w"
proof -
  have "has_edge w = has_edge v"
    using has_edge_agree [OF agree_mono [OF assms(2)]] by (simp add: fun_eq_iff)
  then have "endpoints_ok w"
    using assms(1) agreeD [OF assms(2)] by (simp add: contents_ok_def endpoints_ok_def)
  moreover have "vertex_index_ok w" "edge_index_ok w"
    using assms(1) vertex_index_agree [OF agree_mono [OF assms(2)]] edge_index_agree [OF agree_mono [OF assms(2)]]
    by (simp_all add: contents_ok_def)
  ultimately show ?thesis using assms(3,4) by (simp add: contents_ok_def)
qed

text \<open>What the store says about one relationship, for the three operations.\<close>

definition rel_written ::
    "rel_id \<Rightarrow> edge_metadata option \<Rightarrow> graph_contents \<Rightarrow> graph_contents \<Rightarrow> bool" where
  "rel_written ow new v w \<longleftrightarrow>
     (\<forall>ow'. rel_meta w ow' = (if ow' = ow then new else rel_meta v ow')) \<and>
     (\<forall>k. rel_owner k \<noteq> None \<longrightarrow> w k =
        (if k \<in> keys_opt rel_index_keys ow new then Some (encode_u64 (snd (snd (snd (snd ow)))))
         else if k \<in> keys_opt rel_index_keys ow (rel_meta v ow) then None else v k))"

lemma rel_written_index: "rel_written ow new v w \<Longrightarrow> rel_index_ok v \<Longrightarrow> rel_index_ok w"
  unfolding rel_index_ok_def rel_written_def
  by (rule rel_index.exact_update [where ow = ow and new = new]) auto

context kv_store
begin

lemma staged_rel:
  assumes t: "touches db {KC_Rel} s s'" and st: "staged db shard spare now s"
    and "rels_ok (graph_view db s')" "rel_index_ok (graph_view db s')"
  shows "staged db shard spare now s'" "quiet (graph_view db s) (graph_view db s')"
    "kv_seqnum db s' = kv_seqnum db s"
proof -
  note sd = stagedD [OF st]
  have a: "agree (- {KC_Rel}) (graph_view db s) (graph_view db s')" by (rule touchesD(3) [OF t]) simp
  show "quiet (graph_view db s) (graph_view db s')" by (rule quiet_agree [OF agree_mono [OF a]]) simp
  show "kv_seqnum db s' = kv_seqnum db s" by (rule touchesD(2) [OF t])
  show "staged db shard spare now s'"
    using touchesD(1) [OF t sd(1)] floor_cache_agree [OF sd(2) agree_mono [OF a]]
      topology_ok_agree [OF agree_mono [OF a] sd(4)] rels_quiet_contents [OF sd(3) a assms(3,4)]
    by (simp add: staged_def)
qed

lemma rel_row_None:
  "store_typed db s \<Longrightarrow> rel_meta (graph_view db s) (c, t, a, b, r) = None \<longleftrightarrow>
    graph_view db s (K_Relationship c t a b r) = None"
  using rel_meta_None [of s "(c, t, a, b, r)"] by simp

lemma rel_rows_meta:
  "store_typed db s \<Longrightarrow> rel_rows (graph_view db s) (c, t, a, b) = {r. rel_meta (graph_view db s) (c, t, a, b, r) \<noteq> None}"
  by (simp add: rel_rows_def rel_row_None del: rel_meta.simps)

lemma relationship_id_unique:
  assumes "store_typed db s" "rels_ok (graph_view db s)"
    and "graph_view db s (K_Relationship c t a b r) \<noteq> None" "graph_view db s (K_Relationship c t' a' b' r) \<noteq> None"
  shows "(t, a, b) = (t', a', b')"
proof -
  have "render (K_Relationship c t a b r) = render (K_Relationship c t' a' b' r)"
    using assms(2-4) unfolding rels_ok_def by (metis option.inject)
  moreover have "valid_key (K_Relationship c t a b r)" "valid_key (K_Relationship c t' a' b' r)"
    using assms(3,4) typed_value [OF assms(1)] by blast+
  ultimately show ?thesis by (simp add: render_inject del: valid_key.simps)
qed

end

context kv_store
begin

lemma rels_ok_added:
  assumes ty: "store_typed db s" "store_typed db s'" and ok: "rels_ok (graph_view db s)"
    and id: "graph_view db s (K_RelationshipId c r) = None" and r: "r \<noteq> 0"
    and he: "has_edge (graph_view db s) c t a b" "has_edge (graph_view db s') = has_edge (graph_view db s)"
    and meta: "\<And>ow. rel_meta (graph_view db s') ow =
      (if ow = (c, t, a, b, r) then Some m else rel_meta (graph_view db s) ow)"
    and ids: "\<And>c' r'. graph_view db s' (K_RelationshipId c' r') =
      (if c' = c \<and> r' = r then Some (render (K_Relationship c t a b r)) else graph_view db s (K_RelationshipId c' r'))"
    and cnt: "\<And>c' t' x y. counter (graph_view db s') (K_RelationshipCount c' t' x y) =
      (let n = counter (graph_view db s) (K_RelationshipCount c' t' x y)
       in if (c', t', x, y) = (c, t, a, b) then n + 1 else n)"
  shows "rels_ok (graph_view db s')"
proof -
  let ?v = "graph_view db s" and ?w = "graph_view db s'"
  have row: "?w (K_Relationship c' t' x y r') \<noteq> None \<longleftrightarrow>
      (c', t', x, y, r') = (c, t, a, b, r) \<or> ?v (K_Relationship c' t' x y r') \<noteq> None" for c' t' x y r'
    using rel_row_None [OF ty(1), of c' t' x y r'] rel_row_None [OF ty(2), of c' t' x y r'] meta [of "(c', t', x, y, r')"]
    by (auto simp del: rel_meta.simps split: if_splits)
  have free: "?v (K_Relationship c t' x y r) = None" for t' x y
    using ok id unfolding rels_ok_def by (metis option.distinct(1))
  have rows: "rel_rows ?w (c', t', x, y) =
      (if (c', t', x, y) = (c, t, a, b) then insert r (rel_rows ?v (c, t, a, b)) else rel_rows ?v (c', t', x, y))" for c' t' x y
    using row by (auto simp: rel_rows_def)
  have "r \<notin> rel_rows ?v (c, t, a, b)" using free by (simp add: rel_rows_def)
  then have "counter ?w (K_RelationshipCount c' t' x y) = of_nat (card (rel_rows ?w (c', t', x, y)))" for c' t' x y
    using ok unfolding cnt rows by (auto simp: rels_ok_def Let_def)
  moreover have "has_edge ?w c' t' x y \<and> r' \<noteq> 0 \<and> ?w (K_RelationshipId c' r') = Some (render (K_Relationship c' t' x y r'))"
    if "?w (K_Relationship c' t' x y r') \<noteq> None" for c' t' x y r'
  proof (cases "(c', t', x, y, r') = (c, t, a, b, r)")
    case True
    then show ?thesis using r he by (simp add: ids)
  next
    case False
    then have v: "?v (K_Relationship c' t' x y r') \<noteq> None" using that row by blast
    then have "\<not> (c' = c \<and> r' = r)" using free by auto
    then show ?thesis using ok v unfolding rels_ok_def ids he(2) by auto
  qed
  moreover have "\<exists>t' x y. z = render (K_Relationship c' t' x y r') \<and> ?w (K_Relationship c' t' x y r') \<noteq> None"
    if "?w (K_RelationshipId c' r') = Some z" for c' r' z
    using that ok unfolding ids row rels_ok_def by (auto split: if_splits)
  ultimately show ?thesis unfolding rels_ok_def by blast
qed

lemma rels_ok_dropped:
  assumes ty: "store_typed db s" "store_typed db s'" and ok: "rels_ok (graph_view db s)"
    and row0: "graph_view db s (K_Relationship c t a b r) \<noteq> None"
    and he: "has_edge (graph_view db s') = has_edge (graph_view db s)"
    and meta: "\<And>ow. rel_meta (graph_view db s') ow =
      (if ow = (c, t, a, b, r) then None else rel_meta (graph_view db s) ow)"
    and ids: "\<And>c' r'. graph_view db s' (K_RelationshipId c' r') =
      (if c' = c \<and> r' = r then None else graph_view db s (K_RelationshipId c' r'))"
    and cnt: "\<And>c' t' x y. counter (graph_view db s') (K_RelationshipCount c' t' x y) =
      (let n = counter (graph_view db s) (K_RelationshipCount c' t' x y)
       in if (c', t', x, y) = (c, t, a, b) then saturating_sub_u64 n 1 else n)"
  shows "rels_ok (graph_view db s')"
    "rel_rows (graph_view db s') (c, t, a, b) = rel_rows (graph_view db s) (c, t, a, b) - {r}"
proof -
  let ?v = "graph_view db s" and ?w = "graph_view db s'"
  have row: "?w (K_Relationship c' t' x y r') \<noteq> None \<longleftrightarrow>
      (c', t', x, y, r') \<noteq> (c, t, a, b, r) \<and> ?v (K_Relationship c' t' x y r') \<noteq> None" for c' t' x y r'
    using rel_row_None [OF ty(1), of c' t' x y r'] rel_row_None [OF ty(2), of c' t' x y r'] meta [of "(c', t', x, y, r')"]
    by (auto simp del: rel_meta.simps split: if_splits)
  have rows: "rel_rows ?w (c', t', x, y) =
      (if (c', t', x, y) = (c, t, a, b) then rel_rows ?v (c, t, a, b) - {r} else rel_rows ?v (c', t', x, y))" for c' t' x y
    using row by (auto simp: rel_rows_def)
  then show "rel_rows ?w (c, t, a, b) = rel_rows ?v (c, t, a, b) - {r}" by simp
  have "?v (K_Relationship c t a b 0) = None" using ok unfolding rels_ok_def by blast
  then have "0 \<notin> rel_rows ?v (c, t, a, b)" "r \<in> rel_rows ?v (c, t, a, b)"
    using row0 by (simp_all add: rel_rows_def)
  from saturating_sub_card [OF this]
  have "counter ?w (K_RelationshipCount c' t' x y) = of_nat (card (rel_rows ?w (c', t', x, y)))" for c' t' x y
    using ok unfolding cnt rows by (auto simp: rels_ok_def Let_def)
  moreover have "has_edge ?w c' t' x y \<and> r' \<noteq> 0 \<and> ?w (K_RelationshipId c' r') = Some (render (K_Relationship c' t' x y r'))"
    if "?w (K_Relationship c' t' x y r') \<noteq> None" for c' t' x y r'
  proof -
    have v: "?v (K_Relationship c' t' x y r') \<noteq> None" "(c', t', x, y, r') \<noteq> (c, t, a, b, r)"
      using that row by blast+
    have n: "\<not> (c' = c \<and> r' = r)"
    proof
      assume e: "c' = c \<and> r' = r"
      then have "?v (K_Relationship c t' x y r) \<noteq> None" using v(1) by blast
      from relationship_id_unique [OF ty(1) ok row0 this] e v(2) show False by simp
    qed
    have "has_edge ?v c' t' x y \<and> r' \<noteq> 0 \<and> ?v (K_RelationshipId c' r') = Some (render (K_Relationship c' t' x y r'))"
      using ok v(1) unfolding rels_ok_def by blast
    then show ?thesis using n by (simp add: ids he del: not_None_eq)
  qed
  moreover have "\<exists>t' x y. z = render (K_Relationship c' t' x y r') \<and> ?w (K_Relationship c' t' x y r') \<noteq> None"
    if "?w (K_RelationshipId c' r') = Some z" for c' r' z
  proof -
    have n: "\<not> (c' = c \<and> r' = r)" "?v (K_RelationshipId c' r') = Some z" using that unfolding ids by (auto split: if_splits)
    then obtain t' x y where z: "z = render (K_Relationship c' t' x y r')" "?v (K_Relationship c' t' x y r') \<noteq> None"
      using ok unfolding rels_ok_def by blast
    have "?w (K_Relationship c' t' x y r') \<noteq> None" unfolding row using n(1) z(2) by simp
    with z(1) show ?thesis by (intro exI conjI)
  qed
  ultimately show "rels_ok ?w" unfolding rels_ok_def by blast
qed

lemma rels_ok_updated:
  assumes ty: "store_typed db s" "store_typed db s'" and ok: "rels_ok (graph_view db s)"
    and row0: "graph_view db s (K_Relationship c t a b r) \<noteq> None"
    and he: "has_edge (graph_view db s') = has_edge (graph_view db s)"
    and meta: "\<And>ow. rel_meta (graph_view db s') ow =
      (if ow = (c, t, a, b, r) then Some m else rel_meta (graph_view db s) ow)"
    and ids: "\<And>c' r'. graph_view db s' (K_RelationshipId c' r') = graph_view db s (K_RelationshipId c' r')"
    and cnt: "\<And>c' t' x y. graph_view db s' (K_RelationshipCount c' t' x y) = graph_view db s (K_RelationshipCount c' t' x y)"
  shows "rels_ok (graph_view db s')"
proof -
  let ?v = "graph_view db s" and ?w = "graph_view db s'"
  have row: "?w (K_Relationship c' t' x y r') \<noteq> None \<longleftrightarrow> ?v (K_Relationship c' t' x y r') \<noteq> None" for c' t' x y r'
    using rel_row_None [OF ty(1), of c' t' x y r'] rel_row_None [OF ty(2), of c' t' x y r']
      meta [of "(c', t', x, y, r')"] row0
    by (auto simp del: rel_meta.simps split: if_splits)
  have "counter ?w (K_RelationshipCount c' t' x y) = counter ?v (K_RelationshipCount c' t' x y)" for c' t' x y
    by (rule counter_eqI) (rule cnt)
  moreover have "rel_rows ?w e = rel_rows ?v e" for e using row by (cases e) (simp add: rel_rows_def)
  ultimately show ?thesis using ok unfolding rels_ok_def row ids he by simp
qed

end

subsection \<open>The row writes of the transactions\<close>

lemma rel_index_keys_class:
  "k \<in> rel_index_keys ow m \<Longrightarrow> rel_owner k = Some ow"
  by (cases ow) auto

lemma rel_not_index [simp]:
  "K_Relationship c t a b r \<notin> rel_index_keys ow m" "K_RelationshipId c r \<notin> rel_index_keys ow m"
  "K_RelationshipCount c t a b \<notin> rel_index_keys ow m" "K_LastRelationshipId c \<notin> rel_index_keys ow m"
  using rel_index_keys_class [of _ ow m] by fastforce+

lemma rel_owner_not_merge: "rel_owner k \<noteq> None \<Longrightarrow> \<not> is_merge_key k"
  by (cases k) auto

context kv_store
begin

lemma staged_rel_create:
  assumes v: "valid_component c" "valid_component t" and m: "edge_metadata_ok m" and r: "r \<noteq> 0"
    and st: "staged db shard spare now s" and he: "has_edge (graph_view db s) c t a b"
    and id: "graph_view db s (K_RelationshipId c r) = None"
  defines "rec \<equiv> rel_record (c, t, a, b, r) m"
  defines "s1 \<equiv> txn_put db (txn_put db s (K_Relationship c t a b r) (encode_relationship_record rec))
      (K_RelationshipId c r) (render (K_Relationship c t a b r))"
  defines "s2 \<equiv> put_relationship_property_indexes_txn db rec
      (txn_put db s1 (K_RelationshipCount c t a b)
        (encode_u64 (counter (graph_view db s) (K_RelationshipCount c t a b) + 1)))"
  shows "read_counter_txn db s1 (K_RelationshipCount c t a b) =
      Inr (counter (graph_view db s) (K_RelationshipCount c t a b))"
    "staged db shard spare now s2" "quiet (graph_view db s) (graph_view db s2)" "kv_seqnum db s2 = kv_seqnum db s"
    "rel_meta (graph_view db s2) ow = (if ow = (c, t, a, b, r) then Some m else rel_meta (graph_view db s) ow)"
proof -
  let ?ow = "(c, t, a, b, r)" and ?v = "graph_view db s"
  let ?n = "counter ?v (K_RelationshipCount c t a b)"
  note sd = stagedD [OF st]
  have vr: "valid_rel ?ow" using v by simp
  have dec: "decode_relationship_record (render (K_Relationship c t a b r)) (encode_relationship_record rec) = Inr rec"
    using rel_value_ok [OF vr m] by (simp add: rec_def)
  have rm: "rr_metadata rec = m" "rr_relationship_id rec = r" by (simp_all add: rec_def rel_record_def)
  have t1: "touches db {KC_Rel} s s1"
    unfolding s1_def using v m dec
    by (intro touches_trans [OF touches_put touches_put]) (simp_all add: rec_def rel_record_def)
  let ?s = "txn_put db s1 (K_RelationshipCount c t a b) (encode_u64 (?n + 1))"
  note put = rel_put_indexes [OF vr m, where s = ?s, folded rec_def, folded s2_def]
  have t2: "touches db {KC_Rel} s s2"
    by (rule touches_trans [OF touches_trans [OF t1 touches_put] put(1)]) (use v in simp_all)
  have ty: "store_typed db s1" "store_typed db s2" using touchesD(1) [OF t1 sd(1)] touchesD(1) [OF t2 sd(1)] .
  have w: "graph_view db s2 k = (if k \<in> rel_index_keys ?ow m then Some (encode_u64 r)
      else if k = K_RelationshipCount c t a b then Some (encode_u64 (?n + 1))
      else if k = K_RelationshipId c r then Some (render (K_Relationship c t a b r))
      else if k = K_Relationship c t a b r then Some (encode_relationship_record rec) else ?v k)"
    if "\<not> is_merge_key k" for k
    using put(2) [OF that] v by (simp add: s1_def rm)
  show "read_counter_txn db s1 (K_RelationshipCount c t a b) = Inr ?n"
    using read_counter_ok [OF ty(1), of "K_RelationshipCount c t a b"] v by (simp add: s1_def counter_def)
  have meta: "rel_meta (graph_view db s2) ow = (if ow = ?ow then Some m else rel_meta ?v ow)" for ow
    using dec by (cases ow) (auto simp: w rm)
  then show "rel_meta (graph_view db s2) ow = (if ow = ?ow then Some m else rel_meta ?v ow)" .
  have free: "rel_meta ?v ?ow = None"
    using stagedD(3) [OF st] id rel_row_None [OF sd(1), of c t a b r]
    unfolding contents_ok_def rels_ok_def by (metis option.distinct(1))
  have he2: "has_edge (graph_view db s2) = has_edge ?v"
    using has_edge_agree [OF touchesD(3) [OF t2, of "{KC_Edge, KC_Segment}"]] by (simp add: fun_eq_iff)
  have rok: "rels_ok ?v" "rel_index_ok ?v" using sd(3) by (simp_all add: contents_ok_def)
  have "rels_ok (graph_view db s2)"
    by (rule rels_ok_added [OF sd(1) ty(2) rok(1) id r he he2 meta])
      (auto simp: w counter_def encode_u64_def Let_def)
  moreover have "rel_index_ok (graph_view db s2)"
    by (rule rel_written_index [OF _ rok(2), of ?ow "Some m"])
      (use meta free w rel_owner_not_merge in \<open>auto simp: rel_written_def simp del: rel_meta.simps rel_index_keys.simps\<close>)
  ultimately show "staged db shard spare now s2" "quiet (graph_view db s) (graph_view db s2)" "kv_seqnum db s2 = kv_seqnum db s"
    by (rule staged_rel [OF t2 st])+
qed

end

context kv_store
begin

lemma staged_rel_drop:
  assumes v: "valid_component c" "valid_component t" and st: "staged db shard spare now s"
    and row: "rel_meta (graph_view db s) (c, t, a, b, r) = Some m"
  defines "rec \<equiv> rel_record (c, t, a, b, r) m"
  defines "left \<equiv> saturating_sub_u64 (counter (graph_view db s) (K_RelationshipCount c t a b)) 1"
  defines "s1 \<equiv> txn_delete db (txn_delete db s (K_Relationship c t a b r)) (K_RelationshipId c r)"
  defines "s2 \<equiv> delete_relationship_property_indexes_txn db rec m
      (if left = 0 then txn_delete db s1 (K_RelationshipCount c t a b)
       else txn_put db s1 (K_RelationshipCount c t a b) (encode_u64 left))"
  shows "read_counter_txn db s1 (K_RelationshipCount c t a b) =
      Inr (counter (graph_view db s) (K_RelationshipCount c t a b))"
    "staged db shard spare now s2" "quiet (graph_view db s) (graph_view db s2)" "kv_seqnum db s2 = kv_seqnum db s"
    "rel_rows (graph_view db s2) (c, t, a, b) = rel_rows (graph_view db s) (c, t, a, b) - {r}"
    "graph_view db s2 (K_OutEdge c t a b) = graph_view db s (K_OutEdge c t a b)"
proof -
  let ?ow = "(c, t, a, b, r)" and ?v = "graph_view db s"
  note sd = stagedD [OF st]
  note mok = rel_meta_Some(2) [OF sd(1) row]
  have vr: "valid_rel ?ow" using v by simp
  have t1: "touches db {KC_Rel} s s1"
    unfolding s1_def using v by (intro touches_trans [OF touches_delete touches_delete]) simp_all
  let ?s = "if left = 0 then txn_delete db s1 (K_RelationshipCount c t a b)
       else txn_put db s1 (K_RelationshipCount c t a b) (encode_u64 left)"
  have "touches db {KC_Rel} s1 ?s" using v by (simp add: touches_delete touches_put)
  note t' = touches_trans [OF t1 this]
  note del = rel_delete_indexes [OF vr mok, where s = ?s and m' = m, folded rec_def, folded s2_def]
  note t2 = touches_trans [OF t' del(1)]
  have ty: "store_typed db s1" "store_typed db s2" using touchesD(1) [OF t1 sd(1)] touchesD(1) [OF t2 sd(1)] .
  have w: "graph_view db s2 k = (if k \<in> rel_index_keys ?ow m then None
      else if k = K_RelationshipCount c t a b then (if left = 0 then None else Some (encode_u64 left))
      else if k = K_RelationshipId c r \<or> k = K_Relationship c t a b r then None else ?v k)"
    if "\<not> is_merge_key k" for k
    using del(2) [OF that] v by (simp add: s1_def)
  show "read_counter_txn db s1 (K_RelationshipCount c t a b) = Inr (counter ?v (K_RelationshipCount c t a b))"
    using read_counter_ok [OF ty(1), of "K_RelationshipCount c t a b"] v by (simp add: s1_def counter_def)
  have meta: "rel_meta (graph_view db s2) ow = (if ow = ?ow then None else rel_meta ?v ow)" for ow
    by (cases ow) (auto simp: w)
  have row0: "?v (K_Relationship c t a b r) \<noteq> None"
    using rel_row_None [OF sd(1), of c t a b r] row by (auto simp del: rel_meta.simps)
  have he2: "has_edge (graph_view db s2) = has_edge ?v"
    using has_edge_agree [OF touchesD(3) [OF t2, of "{KC_Edge, KC_Segment}"]] by (simp add: fun_eq_iff)
  have rok: "rels_ok ?v" "rel_index_ok ?v" using sd(3) by (simp_all add: contents_ok_def)
  have cnt: "counter (graph_view db s2) (K_RelationshipCount c' t' x y) =
      (let n = counter ?v (K_RelationshipCount c' t' x y)
       in if (c', t', x, y) = (c, t, a, b) then saturating_sub_u64 n 1 else n)" for c' t' x y
    using left_def by (auto simp: w counter_def encode_u64_def Let_def)
  have ids: "graph_view db s2 (K_RelationshipId c' r') = (if c' = c \<and> r' = r then None else ?v (K_RelationshipId c' r'))" for c' r'
    by (simp add: w del: rel_index_keys.simps)
  note drop = rels_ok_dropped [OF sd(1) ty(2) rok(1) row0 he2 meta ids cnt]
  show "rel_rows (graph_view db s2) (c, t, a, b) = rel_rows ?v (c, t, a, b) - {r}" by (rule drop(2))
  have "rel_index_ok (graph_view db s2)"
    by (rule rel_written_index [OF _ rok(2), of ?ow None])
      (use meta row w rel_owner_not_merge in \<open>auto simp: rel_written_def simp del: rel_meta.simps rel_index_keys.simps\<close>)
  with drop(1) show "staged db shard spare now s2" "quiet (graph_view db s) (graph_view db s2)" "kv_seqnum db s2 = kv_seqnum db s"
    by (rule staged_rel [OF t2 st])+
  show "graph_view db s2 (K_OutEdge c t a b) = ?v (K_OutEdge c t a b)"
    using rel_index_keys_class [of "K_OutEdge c t a b" ?ow m] by (auto simp: w)
qed

lemma staged_rel_update:
  assumes v: "valid_component c" "valid_component t" and st: "staged db shard spare now s"
    and row: "rel_meta (graph_view db s) (c, t, a, b, r) = Some m" and new: "edge_metadata_ok m'"
  defines "rec \<equiv> rel_record (c, t, a, b, r) m'"
  defines "s1 \<equiv> put_relationship_property_indexes_txn db rec
      (delete_relationship_property_indexes_txn db rec m
        (txn_put db s (K_Relationship c t a b r) (encode_relationship_record rec)))"
  shows "staged db shard spare now s1" "quiet (graph_view db s) (graph_view db s1)" "kv_seqnum db s1 = kv_seqnum db s"
    "rel_meta (graph_view db s1) ow = (if ow = (c, t, a, b, r) then Some m' else rel_meta (graph_view db s) ow)"
proof -
  let ?ow = "(c, t, a, b, r)" and ?v = "graph_view db s"
  let ?s = "txn_put db s (K_Relationship c t a b r) (encode_relationship_record rec)"
  note sd = stagedD [OF st]
  note mok = rel_meta_Some(2) [OF sd(1) row]
  have vr: "valid_rel ?ow" using v by simp
  have dec: "decode_relationship_record (render (K_Relationship c t a b r)) (encode_relationship_record rec) = Inr rec"
    using rel_value_ok [OF vr new] by (simp add: rec_def)
  have rm: "rr_metadata rec = m'" "rr_relationship_id rec = r" by (simp_all add: rec_def rel_record_def)
  note del = rel_delete_indexes [OF vr mok, where s = ?s and m' = m', folded rec_def]
  note put = rel_put_indexes [OF vr new, where s = "delete_relationship_property_indexes_txn db rec m ?s",
      folded rec_def, folded s1_def]
  have "touches db {KC_Rel} s ?s"
    using v new dec by (intro touches_put) (simp_all add: rec_def rel_record_def)
  note t = touches_trans [OF touches_trans [OF this del(1)] put(1)]
  have ty: "store_typed db s1" by (rule touchesD(1) [OF t sd(1)])
  have w: "graph_view db s1 k = (if k \<in> rel_index_keys ?ow m' then Some (encode_u64 r)
      else if k \<in> rel_index_keys ?ow m then None
      else if k = K_Relationship c t a b r then Some (encode_relationship_record rec) else ?v k)"
    if "\<not> is_merge_key k" for k
    using put(2) [OF that] del(2) [OF that] v by (simp add: rm)
  have meta: "rel_meta (graph_view db s1) ow = (if ow = ?ow then Some m' else rel_meta ?v ow)" for ow
    using dec by (cases ow) (auto simp: w rm)
  then show "rel_meta (graph_view db s1) ow = (if ow = ?ow then Some m' else rel_meta ?v ow)" .
  have row0: "?v (K_Relationship c t a b r) \<noteq> None"
    using rel_row_None [OF sd(1), of c t a b r] row by (auto simp del: rel_meta.simps)
  have he2: "has_edge (graph_view db s1) = has_edge ?v"
    using has_edge_agree [OF touchesD(3) [OF t, of "{KC_Edge, KC_Segment}"]] by (simp add: fun_eq_iff)
  have rok: "rels_ok ?v" "rel_index_ok ?v" using sd(3) by (simp_all add: contents_ok_def)
  have "rels_ok (graph_view db s1)"
    by (rule rels_ok_updated [OF sd(1) ty rok(1) row0 he2 meta]) (simp_all add: w del: rel_index_keys.simps)
  moreover have "rel_index_ok (graph_view db s1)"
    by (rule rel_written_index [OF _ rok(2), of ?ow "Some m'"])
      (use meta row w rel_owner_not_merge in \<open>auto simp: rel_written_def simp del: rel_meta.simps rel_index_keys.simps\<close>)
  ultimately show "staged db shard spare now s1" "quiet (graph_view db s) (graph_view db s1)" "kv_seqnum db s1 = kv_seqnum db s"
    by (rule staged_rel [OF t st])+
qed

end

subsection \<open>\<open>create_relationship\<close>\<close>

lemma free_relationship_id_ok:
  assumes "free_relationship_id db s c r0 = Inr r"
  shows "read_txn_remote db s (K_RelationshipId c r) = None" "r0 \<le> r"
    "\<And>r'. r0 \<le> r' \<Longrightarrow> r' < r \<Longrightarrow> read_txn_remote db s (K_RelationshipId c r') \<noteq> None"
proof -
  have "read_txn_remote db s (K_RelationshipId c r) = None \<and> r0 \<le> r \<and>
      (\<forall>r'. r0 \<le> r' \<and> r' < r \<longrightarrow> read_txn_remote db s (K_RelationshipId c r') \<noteq> None)"
    using assms
  proof (induction db s c r0 rule: free_relationship_id.induct)
    case (1 db s c r0)
    show ?case
    proof (cases "read_txn_remote db s (K_RelationshipId c r0) = None")
      case True
      then show ?thesis using 1(2) by (auto simp: free_relationship_id.simps [of db s c r0])
    next
      case False
      then obtain n where n: "checked_add_u64 r0 1 = Some n" "free_relationship_id db s c n = Inr r"
        using 1(2) by (auto simp: free_relationship_id.simps [of db s c r0] split: option.splits)
      note ih = 1(1) [OF False n]
      have nat: "unat n = unat r0 + 1" using checked_add_u64_Some [OF n(1)] by simp
      have "r0 \<le> r" using ih nat by (simp add: word_le_nat_alt)
      moreover have "read_txn_remote db s (K_RelationshipId c r') \<noteq> None" if "r0 \<le> r'" "r' < r" for r'
      proof (cases "r' = r0")
        case f: False
        then have "unat r' \<noteq> unat r0" by (simp add: word_unat_eq_iff)
        then have "n \<le> r'" using that(1) nat by (simp add: word_le_nat_alt)
        then show ?thesis using ih that(2) by blast
      qed (use False in simp)
      ultimately show ?thesis using ih by blast
    qed
  qed
  then show "read_txn_remote db s (K_RelationshipId c r) = None" "r0 \<le> r"
    "\<And>r'. r0 \<le> r' \<Longrightarrow> r' < r \<Longrightarrow> read_txn_remote db s (K_RelationshipId c r') \<noteq> None"
    by blast+
qed

text \<open>The loop's only failure is the end of the id range: every id from \<open>r0\<close> on is taken.\<close>

lemma free_relationship_id_total:
  assumes "free_relationship_id db s c r0 = Inl err"
  shows "\<forall>r \<ge> r0. read_txn_remote db s (K_RelationshipId c r) \<noteq> None"
  using assms
proof (induction db s c r0 rule: free_relationship_id.induct)
  case (1 db s c r0)
  then have taken: "read_txn_remote db s (K_RelationshipId c r0) \<noteq> None"
    by (auto simp: free_relationship_id.simps [of db s c r0] split: if_splits)
  show ?case
  proof (cases "checked_add_u64 r0 1")
    case None
    then have "r = r0" if "r0 \<le> r" for r
      using that unat_u64_bound [of r] by (auto simp: checked_add_u64_def word_le_nat_alt word_unat_eq_iff split: if_splits)
    then show ?thesis using taken by blast
  next
    case (Some n)
    then have "free_relationship_id db s c n = Inl err"
      using 1(2) taken by (simp add: free_relationship_id.simps [of db s c r0])
    note ih = 1(1) [OF taken Some this]
    have nat: "unat n = unat r0 + 1" using checked_add_u64_Some [OF Some] by simp
    have "r = r0 \<or> n \<le> r" if "r0 \<le> r" for r
      using that nat by (auto simp: word_le_nat_alt word_unat_eq_iff)
    then show ?thesis using ih taken by blast
  qed
qed

context kv_store
begin

lemma staged_last_id:
  fixes r
  assumes c: "valid_component c" and st: "staged db shard spare now s"
  defines "s' \<equiv> txn_put db s (K_LastRelationshipId c) (encode_u64 r)"
  shows "staged db shard spare now s'" "quiet (graph_view db s) (graph_view db s')" "kv_seqnum db s' = kv_seqnum db s"
proof -
  have t: "touches db {KC_Rel} s s'" unfolding s'_def using c by (intro touches_put) simp_all
  note sd = stagedD [OF st]
  have v: "graph_view db s' k = graph_view db s k" if "k \<noteq> K_LastRelationshipId c" for k
    using c that by (simp add: s'_def)
  have he: "has_edge (graph_view db s') = has_edge (graph_view db s)"
    using has_edge_agree [OF touchesD(3) [OF t, of "{KC_Edge, KC_Segment}"]] by (simp add: fun_eq_iff)
  have m: "rel_meta (graph_view db s') ow = rel_meta (graph_view db s) ow" for ow by (cases ow) (simp add: v)
  have "rels_ok (graph_view db s')"
    using sd(3) by (simp add: contents_ok_def rels_ok_def he v counter_def rel_rows_def)
  moreover have "graph_view db s' k = graph_view db s k" if "rel_owner k \<noteq> None" for k
    using that by (intro v) auto
  then have "rel_index_ok (graph_view db s')"
    using sd(3) rel_index.exact_same [OF _ _ m] by (simp add: contents_ok_def rel_index_ok_def)
  ultimately show "staged db shard spare now s'" "quiet (graph_view db s) (graph_view db s')" "kv_seqnum db s' = kv_seqnum db s"
    by (rule staged_rel [OF t st])+
qed

text \<open>The part of \<open>create_relationship\<close> before the row: vertices, and the structural edge if it is new.\<close>

lemma staged_ensure_edge:
  fixes mutation
  defines "c \<equiv> mut_cell_id mutation" and "t \<equiv> mut_edge_type mutation"
    and "src \<equiv> mut_src mutation" and "dst \<equiv> mut_dst mutation"
  assumes v: "valid_component c" "valid_component t" and st: "staged db shard spare now s" and "now < e"
    and ends: "\<forall>w \<in> {src, dst}. graph_view db s (K_Vertex c w) \<noteq> None"
    and spare: "src \<noteq> spare" "dst \<noteq> spare" and new: "ep = None \<longleftrightarrow> \<not> has_edge (graph_view db s) c t src dst"
  obtains shard' s' where
    "(if ep = None then insert_structural_edge_txn db shard mutation e s else (shard, Inr s)) = (shard', Inr s')"
    "staged db shard' spare e s'" "kv_seqnum db s' = kv_seqnum db s" "same_shard c t shard shard'"
    "edges_changed c t src (if ep = None then {dst} else {}) True (graph_view db s) (graph_view db s')"
    "log_changed c t src (if ep = None then {dst} else {}) True e (graph_view db s) (graph_view db s')"
    "agree (- topology_classes) (graph_view db s) (graph_view db s')" "has_edge (graph_view db s') c t src dst"
proof (cases "ep = None")
  case True
  note folds = c_def [symmetric] t_def [symmetric] src_def [symmetric] dst_def [symmetric]
  have nh: "\<not> has_edge (graph_view db s) c t src dst" using new True by simp
  obtain shard' s' where "insert_structural_edge_txn db shard mutation e s = (shard', Inr s')"
    "staged db shard' spare e s'" "kv_seqnum db s' = kv_seqnum db s" "same_shard c t shard shard'"
    "edges_changed c t src {dst} True (graph_view db s) (graph_view db s')"
    "log_changed c t src {dst} True e (graph_view db s) (graph_view db s')"
    "agree (- topology_classes) (graph_view db s) (graph_view db s')"
    by (rule staged_insert [OF v [unfolded c_def t_def] st \<open>now < e\<close>, unfolded folds, OF nh ends spare]) (rule that)
  then show ?thesis using that [of shard' s'] True by (simp add: edges_changed_def)
next
  case False
  have "staged db shard spare e s" by (rule staged_mono [OF st]) (use \<open>now < e\<close> in simp)
  then show ?thesis
    using that [of shard s] False new by (simp add: quiet_changed)
qed

lemma create_relationship_ok:
  fixes mutation
  defines "c \<equiv> mut_cell_id mutation" and "t \<equiv> mut_edge_type mutation"
    and "src \<equiv> mut_src mutation" and "dst \<equiv> mut_dst mutation"
    and "idem \<equiv> K_Idempotency (mut_cell_id mutation) ''relationship-create'' (mut_idempotency_key mutation)"
  assumes ok: "graph_ok db shard spare s" and vm: "valid_mutation mutation"
    and up: "distinct (map fst updates)" "\<And>v m. (v, m) \<in> set updates \<Longrightarrow> vertex_metadata_ok m"
    and em: "edge_metadata_ok edge_metadata" and spare: "src \<noteq> spare" "dst \<noteq> spare"
    and run: "create_relationship_txn_locked db shard mutation updates edge_metadata fingerprint s = (shard', Inr (r, s'))"
    and fresh: "graph_view db s idem = None"
  shows "rcr_structural_edge_inserted r \<longleftrightarrow> \<not> has_edge (graph_view db s) c t src dst"
    "committed db spare c t src (if has_edge (graph_view db s) c t src dst then {} else {dst}) True shard s shard' s'"
    "graph_view db s (K_RelationshipId c (rcr_relationship_id r)) = None"
    "rel_meta (graph_view db s') ow =
      (if ow = (c, t, src, dst, rcr_relationship_id r) then Some edge_metadata else rel_meta (graph_view db s) ow)"
proof -
  have ik: "K_Idempotency c ''relationship-create'' (mut_idempotency_key mutation) = idem" by (simp add: idem_def c_def)
  note folds = c_def [symmetric] t_def [symmetric] src_def [symmetric] dst_def [symmetric] ik
  have v: "valid_component c" "valid_component t" and vi: "valid_key idem"
    using vm by (simp_all add: c_def t_def idem_def slash_free_def)
  note sd = graph_okD [OF ok]
  let ?view = "graph_view db s" and ?now = "kv_seqnum db s"
  let ?idem = "\<lambda>s r. txn_put db s idem (encode_relationship_create_idempotency mutation fingerprint r)"
  have fin: "meta_step db s (?idem s r)" for s r unfolding idem_def by (rule meta_step_idem) (use vi in \<open>simp add: idem_def\<close>)
  have rd: "read_txn_remote db s idem = None" using vi fresh by (simp add: read_view del: valid_key.simps)
  have fence: "begin_fenced db shard s c ''create_relationship'' = Inr ()"
    using run by (cases "begin_fenced db shard s c ''create_relationship''")
      (simp_all add: create_relationship_txn_locked_def Let_def folds)
  obtain ep where ep: "edge_epoch_at_txn db s c t src dst ?now = Inr ep" "ep \<noteq> None \<longleftrightarrow> has_edge ?view c t src dst"
    by (rule edge_epoch_ok [OF sd(1,5) v, where src = src and dst = dst]) (rule that)
  let ?changed = "concat (map (vertex_change ?view c) updates)"
  note reads = ep(1) changed_vertex_metadata_ok [OF sd(1) v(1), of updates]
  note eq = run [unfolded create_relationship_txn_locked_def Let_def folds fence rd try_with_simps option.case reads]
  obtain e where ce: "checked_add_u64 ?now 1 = Some e"
    using eq by (cases "checked_add_u64 ?now 1") (simp_all add: ok_or_def)
  note e = checked_add_one [OF ce]
  define n0 where "n0 = counter ?view (K_LastRelationshipId c)"
  have last: "read_counter_txn db s (K_LastRelationshipId c) = Inr n0"
    using read_counter_ok [OF sd(1), of "K_LastRelationshipId c"] v by (simp add: n0_def)
  note eq = eq [unfolded ce ok_or_def option.case try_with_simps last]
  obtain r0 where r0: "checked_add_u64 n0 1 = Some r0"
    using eq by (cases "checked_add_u64 n0 1") simp_all
  note eq = eq [unfolded r0 option.case try_with_simps]
  obtain rid where rid: "free_relationship_id db s c r0 = Inr rid"
    using eq by (cases "free_relationship_id db s c r0") simp_all
  note free = free_relationship_id_ok [OF rid]
  have id: "?view (K_RelationshipId c rid) = None" using free(1) v by (simp add: read_view)
  have "rid \<noteq> 0" using free(2) checked_add_u64_Some [OF r0] by (auto simp: word_le_nat_alt)
  define s0 where "s0 = txn_put db s (K_LastRelationshipId c) (encode_u64 rid)"
  note st0 = staged_last_id [OF v(1) graph_ok_staged [OF ok], of rid, folded s0_def]
  obtain s1 where s1: "apply_changed_vertex_metadata db c ?changed s0 = Inr s1" "meta_step db s0 s1"
    "\<And>v. v \<in> fst ` set updates \<Longrightarrow> graph_view db s1 (K_Vertex c v) \<noteq> None"
    by (rule vertex_updates_step [OF sd(1) v(1) up _ stagedD(1) [OF st0(1)]])
      (use v in \<open>auto simp: s0_def intro: that\<close>)
  define s2 where "s2 = fst (ensure_vertex_records_txn db c [src, dst] (bs_of_list (map fst updates)) False s1)"
  have m2: "meta_step db s0 s2" by (rule meta_step_trans [OF s1(2) meta_step_ensure(1) [OF v(1) _ s2_def]]) simp
  have ends: "\<forall>w \<in> {src, dst}. graph_view db s2 (K_Vertex c w) \<noteq> None"
    using meta_step_ensure(2) [OF v(1) _ s2_def] s1(3) by auto
  note eq = eq [unfolded rid try_with_simps, folded s0_def, unfolded s1(1) try_with_simps, folded s2_def]
  have st2: "staged db shard spare ?now s2" by (rule meta_step_staged [OF m2 st0(1)])
  have q2: "quiet ?view (graph_view db s2)" by (rule quiet_trans [OF st0(2) meta_step_quiet [OF m2]])
  have nw: "ep = None \<longleftrightarrow> \<not> has_edge (graph_view db s2) c t src dst" using ep(2) q2 by (auto simp: quiet_def)
  obtain shard3 s3 where s3:
    "(if ep = None then insert_structural_edge_txn db shard mutation e s2 else (shard, Inr s2)) = (shard3, Inr s3)"
    "staged db shard3 spare e s3" "kv_seqnum db s3 = kv_seqnum db s2" "same_shard c t shard shard3"
    "edges_changed c t src (if ep = None then {dst} else {}) True (graph_view db s2) (graph_view db s3)"
    "log_changed c t src (if ep = None then {dst} else {}) True e (graph_view db s2) (graph_view db s3)"
    "agree (- topology_classes) (graph_view db s2) (graph_view db s3)" "has_edge (graph_view db s3) c t src dst"
    by (rule staged_ensure_edge [of mutation, unfolded folds, OF v st2 conjunct2 [OF e, folded conjunct1 [OF e]] ends spare nw])
      (rule that)
  have rel3: "graph_view db s3 k = ?view k" if "class_of k = KC_Rel" "k \<noteq> K_LastRelationshipId c" for k
  proof -
    have "graph_view db s3 k = graph_view db s2 k" using agreeD [OF s3(7), of k] that(1) by simp
    also have "\<dots> = graph_view db s0 k" using agreeD [OF meta_stepD(3) [OF m2], of k] that(1) by simp
    also have "\<dots> = ?view k" using that(2) v by (simp add: s0_def)
    finally show ?thesis .
  qed
  have meta3: "rel_meta (graph_view db s3) ow = rel_meta ?view ow" for ow by (cases ow) (simp add: rel3)
  have id3: "graph_view db s3 (K_RelationshipId c rid) = None" using id by (simp add: rel3)
  note row = staged_rel_create [OF v em \<open>rid \<noteq> 0\<close> s3(2,8) id3]
  define rec where "rec = rel_record (c, t, src, dst, rid) edge_metadata"
  let ?n = "counter (graph_view db s3) (K_RelationshipCount c t src dst)"
  define s4 where "s4 = txn_put db (txn_put db s3 (K_Relationship c t src dst rid) (encode_relationship_record rec))
      (K_RelationshipId c rid) (render (K_Relationship c t src dst rid))"
  define s5 where "s5 = put_relationship_property_indexes_txn db rec
      (txn_put db s4 (K_RelationshipCount c t src dst) (encode_u64 (?n + 1)))"
  note row = row [folded rec_def, folded s4_def, folded s5_def]
  let ?r = "\<lparr> rcr_epoch = e, rcr_relationship_id = rid, rcr_structural_edge_inserted = (ep = None),
      rcr_already_created = False \<rparr>"
  have rec: "\<lparr> rr_cell_id = c, rr_edge_type = t, rr_src = src, rr_dst = dst, rr_relationship_id = rid,
      rr_metadata = edge_metadata \<rparr> = rec" by (simp add: rec_def rel_record_def)
  note eq = eq [unfolded s3(1) prod.case try_with_simps rec, folded s4_def, unfolded row(1) try_with_simps, folded s5_def]
  then have run': "shard' = shard3" "commit_result_with db ?r (?idem s5 ?r) = Inr (r, s')" by simp_all
  have seq: "kv_seqnum db s5 = kv_seqnum db s" using row(4) s3(3) meta_stepD(2) [OF m2] st0(3) by simp
  have st5: "staged db shard3 spare (?now + 1) s5" using row(2) e by simp
  have "edges_changed c t src (if ep = None then {dst} else {}) True ?view (graph_view db s5)"
    "log_changed c t src (if ep = None then {dst} else {}) True (?now + 1) ?view (graph_view db s5)"
    using changed_quiet [OF q2 row(3)] s3(5,6) e by simp_all
  note cm = changed_commit [OF run'(2) fin seq st5 s3(4) this]
  then show "rcr_structural_edge_inserted r \<longleftrightarrow> \<not> has_edge (graph_view db s) c t src dst"
    "committed db spare c t src (if has_edge (graph_view db s) c t src dst then {} else {dst}) True shard s shard' s'"
    "graph_view db s (K_RelationshipId c (rcr_relationship_id r)) = None"
    using run'(1) ep(2) id by auto
  have "graph_view db s' = graph_view db (?idem s5 ?r)" using commit_effect(2) [OF run'(2)] .
  then have "rel_meta (graph_view db s') ow = rel_meta (graph_view db s5) ow"
    using vi by (cases ow) (simp add: idem_def)
  then show "rel_meta (graph_view db s') ow =
      (if ow = (c, t, src, dst, rcr_relationship_id r) then Some edge_metadata else rel_meta (graph_view db s) ow)"
    using row(5) [of ow] cm(1) meta3 by simp
qed

end

subsection \<open>\<open>delete_relationship\<close>\<close>

text \<open>
  The structural edge goes with the last relationship, but only if it has a record of its own: an edge
  of an adjacency segment stays.
\<close>

definition last_relationship :: "graph_contents \<Rightarrow> edge_id \<Rightarrow> relationship_id \<Rightarrow> bool" where
  "last_relationship view = (\<lambda>(c, t, src, dst) r.
     rel_rows view (c, t, src, dst) = {r} \<and> view (K_OutEdge c t src dst) \<noteq> None)"

context kv_store
begin

lemma staged_last_relationship:
  fixes mutation
  defines "c \<equiv> mut_cell_id mutation" and "t \<equiv> mut_edge_type mutation"
    and "src \<equiv> mut_src mutation" and "dst \<equiv> mut_dst mutation"
  assumes v: "valid_component c" "valid_component t" and st: "staged db shard spare now s" and "now < e"
    and others: "others \<longleftrightarrow> rel_rows (graph_view db s) (c, t, src, dst) \<noteq> {}"
  obtains shard' b s' where
    "(if others then (shard, Inr (False, s)) else delete_structural_edge_txn db shard mutation e s) = (shard', Inr (b, s'))"
    "staged db shard' spare e s'" "kv_seqnum db s' = kv_seqnum db s" "same_shard c t shard shard'"
    "edges_changed c t src (if \<not> others \<and> graph_view db s (K_OutEdge c t src dst) \<noteq> None then {dst} else {}) False
       (graph_view db s) (graph_view db s')"
    "log_changed c t src (if \<not> others \<and> graph_view db s (K_OutEdge c t src dst) \<noteq> None then {dst} else {}) False e
       (graph_view db s) (graph_view db s')"
proof (cases "\<not> others \<and> graph_view db s (K_OutEdge c t src dst) \<noteq> None")
  case True
  note folds = c_def [symmetric] t_def [symmetric] src_def [symmetric] dst_def [symmetric]
  have "rel_rows (graph_view db s) (c, t, src, dst) = {}" "graph_view db s (K_OutEdge c t src dst) \<noteq> None"
    using True others by blast+
  then obtain shard' s' where "delete_structural_edge_txn db shard mutation e s = (shard', Inr (True, s'))"
    "staged db shard' spare e s'" "kv_seqnum db s' = kv_seqnum db s" "same_shard c t shard shard'"
    "edges_changed c t src {dst} False (graph_view db s) (graph_view db s')"
    "log_changed c t src {dst} False e (graph_view db s) (graph_view db s')"
    by (elim staged_delete_structural [OF v [unfolded c_def t_def] st \<open>now < e\<close>, unfolded folds, rotated])
  then show ?thesis using that [of shard' True s'] True by simp
next
  case False
  then have "(if others then (shard, Inr (False, s)) else delete_structural_edge_txn db shard mutation e s) =
      (shard, Inr (False, s))"
    using v by (auto simp: delete_structural_edge_txn_def read_view Let_def c_def t_def src_def dst_def)
  moreover have "staged db shard spare e s" by (rule staged_mono [OF st]) (use \<open>now < e\<close> in simp)
  ultimately show ?thesis using that [of shard False s] False by (simp only: if_False) (simp add: quiet_changed)
qed

end

context kv_store
begin

lemma delete_relationship_ok:
  fixes mutation
  defines "c \<equiv> mut_cell_id mutation" and "t \<equiv> mut_edge_type mutation"
    and "src \<equiv> mut_src mutation" and "dst \<equiv> mut_dst mutation"
    and "idem \<equiv> K_Idempotency (mut_cell_id mutation) ''relationship-delete'' (mut_idempotency_key mutation)"
  assumes ok: "graph_ok db shard spare s" and vm: "valid_mutation mutation"
    and run: "delete_relationship_txn_locked db shard mutation rid s = (shard', Inr (r, s'))"
    and fresh: "graph_view db s idem = None"
  shows "dr_deleted r \<longleftrightarrow> graph_view db s (K_Relationship c t src dst rid) \<noteq> None"
    "committed db spare c t src
       (if last_relationship (graph_view db s) (c, t, src, dst) rid then {dst} else {}) False shard s shard' s'"
proof -
  have ik: "K_Idempotency c ''relationship-delete'' (mut_idempotency_key mutation) = idem" by (simp add: idem_def c_def)
  note folds = c_def [symmetric] t_def [symmetric] src_def [symmetric] dst_def [symmetric] ik
  have v: "valid_component c" "valid_component t" and vi: "valid_key idem"
    using vm by (simp_all add: c_def t_def idem_def slash_free_def)
  note sd = graph_okD [OF ok]
  let ?view = "graph_view db s" and ?now = "kv_seqnum db s" and ?k = "K_Relationship c t src dst rid"
  let ?idem = "\<lambda>s r. txn_put db s idem (encode_relationship_delete_idempotency mutation rid r)"
  have fin: "meta_step db s (?idem s r)" for s r unfolding idem_def by (rule meta_step_idem) (use vi in \<open>simp add: idem_def\<close>)
  have rd: "read_txn_remote db s idem = None" "read_txn_remote db s ?k = ?view ?k"
    using vi v fresh by (simp_all add: read_view del: valid_key.simps(24))
  have fence: "begin_fenced db shard s c ''delete_relationship'' = Inr ()"
    using run by (cases "begin_fenced db shard s c ''delete_relationship''")
      (simp_all add: delete_relationship_txn_locked_def Let_def folds)
  note eq = run [unfolded delete_relationship_txn_locked_def Let_def folds fence rd try_with_simps option.case]
  have "(dr_deleted r \<longleftrightarrow> ?view ?k \<noteq> None) \<and> committed db spare c t src
      (if last_relationship ?view (c, t, src, dst) rid then {dst} else {}) False shard s shard' s'"
  proof (cases "?view ?k")
    case None
    then have "rid \<notin> rel_rows ?view (c, t, src, dst)" by (simp add: rel_rows_def)
    then have "\<not> last_relationship ?view (c, t, src, dst) rid" by (auto simp: last_relationship_def)
    moreover from None eq have "shard' = shard" "commit_result_with db \<lparr> dr_epoch = ?now, dr_deleted = False \<rparr>
        (?idem s \<lparr> dr_epoch = ?now, dr_deleted = False \<rparr>) = Inr (r, s')"
      by simp_all
    moreover note quiet_commit [OF ok fin this(2)]
    ultimately show ?thesis using None by simp
  next
    case (Some b)
    obtain m where row: "rel_meta ?view (c, t, src, dst, rid) = Some m"
      using rel_row_None [OF sd(1), of c t src dst rid] Some by (cases "rel_meta ?view (c, t, src, dst, rid)") auto
    define rec where "rec = rel_record (c, t, src, dst, rid) m"
    have dec: "decode_relationship_record (render ?k) b = Inr rec" and rm: "rr_metadata rec = m"
      using rel_meta_Some(3) [OF sd(1) row] Some by (simp_all add: rec_def rel_record_def)
    obtain rs ms where live: "live_relationships_for_edge_txn db s c t src dst =
        Inr (map (\<lambda>r. rel_record (c, t, src, dst, r) (ms r)) rs)" "set rs = rel_rows ?view (c, t, src, dst)"
      by (rule live_relationships_ok [OF sd(1) v, where src = src and dst = dst]) (rule that)
    have others: "(\<exists>other \<in> set (map (\<lambda>r. rel_record (c, t, src, dst, r) (ms r)) rs). rr_relationship_id other \<noteq> rid) \<longleftrightarrow>
        rel_rows ?view (c, t, src, dst) - {rid} \<noteq> {}"
      using live(2) by (auto simp: rel_record_def)
    note eq = eq [unfolded Some option.case dec try_with_simps live(1) others]
    obtain e where ce: "checked_add_u64 ?now 1 = Some e"
      using eq by (cases "checked_add_u64 ?now 1") (simp_all add: ok_or_def)
    note e = checked_add_one [OF ce]
    let ?left = "saturating_sub_u64 (counter ?view (K_RelationshipCount c t src dst)) 1"
    define s1 where "s1 = txn_delete db (txn_delete db s ?k) (K_RelationshipId c rid)"
    define s2 where "s2 = delete_relationship_property_indexes_txn db rec m
      (if ?left = 0 then txn_delete db s1 (K_RelationshipCount c t src dst)
       else txn_put db s1 (K_RelationshipCount c t src dst) (encode_u64 ?left))"
    note drop = staged_rel_drop [OF v graph_ok_staged [OF ok] row, folded rec_def, folded s1_def, folded s2_def]
    note eq = eq [unfolded ce ok_or_def option.case try_with_simps, folded s1_def,
        unfolded drop(1) try_with_simps rm, folded s2_def]
    have lt: "?now < e" using e by simp
    have oth: "rel_rows ?view (c, t, src, dst) - {rid} \<noteq> {} \<longleftrightarrow> rel_rows (graph_view db s2) (c, t, src, dst) \<noteq> {}"
      by (simp add: drop(5))
    obtain shard3 b' s3 where s3: "(if rel_rows ?view (c, t, src, dst) - {rid} \<noteq> {} then (shard, Inr (False, s2))
        else delete_structural_edge_txn db shard mutation e s2) = (shard3, Inr (b', s3))"
      "staged db shard3 spare e s3" "kv_seqnum db s3 = kv_seqnum db s2" "same_shard c t shard shard3"
      "edges_changed c t src (if \<not> rel_rows ?view (c, t, src, dst) - {rid} \<noteq> {} \<and> graph_view db s2 (K_OutEdge c t src dst) \<noteq> None
         then {dst} else {}) False (graph_view db s2) (graph_view db s3)"
      "log_changed c t src (if \<not> rel_rows ?view (c, t, src, dst) - {rid} \<noteq> {} \<and> graph_view db s2 (K_OutEdge c t src dst) \<noteq> None
         then {dst} else {}) False e (graph_view db s2) (graph_view db s3)"
      by (rule staged_last_relationship [of mutation, unfolded folds, OF v drop(2) lt oth]) (rule that)
    let ?r = "\<lparr> dr_epoch = e, dr_deleted = True \<rparr>"
    from eq s3(1) have run': "shard' = shard3" "commit_result_with db ?r (?idem s3 ?r) = Inr (r, s')"
      by (simp_all only: prod.case try_with_simps prod.inject)
    have "rid \<in> rel_rows ?view (c, t, src, dst)" using Some by (simp add: rel_rows_def)
    then have last: "\<not> rel_rows ?view (c, t, src, dst) - {rid} \<noteq> {} \<and> graph_view db s2 (K_OutEdge c t src dst) \<noteq> None \<longleftrightarrow>
        last_relationship ?view (c, t, src, dst) rid"
      unfolding drop(6) by (auto simp: last_relationship_def)
    have "kv_seqnum db s3 = ?now" using s3(3) drop(4) by simp
    note cm = changed_commit [OF run'(2) fin this, of shard3 spare c t shard src
        "if last_relationship ?view (c, t, src, dst) rid then {dst} else {}" False]
    show ?thesis
      using cm s3(2,4-6) [unfolded last] e changed_quiet [OF drop(3) quiet_refl] run'(1) Some by simp
  qed
  then show "dr_deleted r \<longleftrightarrow> graph_view db s (K_Relationship c t src dst rid) \<noteq> None"
    "committed db spare c t src
       (if last_relationship (graph_view db s) (c, t, src, dst) rid then {dst} else {}) False shard s shard' s'"
    by simp_all
qed

subsection \<open>Metadata transactions\<close>

lemma set_relationship_metadata_ok:
  assumes ok: "graph_ok db shard spare s" and v: "valid_component c" "valid_component t" and m: "edge_metadata_ok m"
    and run: "set_relationship_metadata_txn_locked db shard c t src dst rid m s = Inr (changed, s')"
  shows "if changed then committed db spare c t src {} False shard s shard s' else s' = s"
    "rel_meta (graph_view db s) (c, t, src, dst, rid) \<noteq> None"
    "rel_meta (graph_view db s') ow = (if ow = (c, t, src, dst, rid) then Some m else rel_meta (graph_view db s) ow)"
proof -
  note sd = graph_okD [OF ok]
  let ?view = "graph_view db s" and ?k = "K_Relationship c t src dst rid"
  have rd: "read_txn_remote db s ?k = ?view ?k" using v by (simp add: read_view)
  obtain b where b: "?view ?k = Some b"
    using run rd by (auto simp: set_relationship_metadata_txn_locked_def Let_def and_then_eq_Inr split: option.splits)
  then obtain m0 where row: "rel_meta ?view (c, t, src, dst, rid) = Some m0"
    using rel_row_None [OF sd(1), of c t src dst rid] by (cases "rel_meta ?view (c, t, src, dst, rid)") auto
  then show "rel_meta ?view (c, t, src, dst, rid) \<noteq> None" by simp
  have dec: "decode_relationship_record (render ?k) b = Inr (rel_record (c, t, src, dst, rid) m0)"
    using rel_meta_Some(3) [OF sd(1) row] b by simp
  have new: "(rel_record (c, t, src, dst, rid) m0)\<lparr>rr_metadata := m\<rparr> = rel_record (c, t, src, dst, rid) m"
    "rr_metadata (rel_record (c, t, src, dst, rid) m0) = m0" by (simp_all add: rel_record_def)
  show "if changed then committed db spare c t src {} False shard s shard s' else s' = s"
    "rel_meta (graph_view db s') ow = (if ow = (c, t, src, dst, rid) then Some m else rel_meta ?view ow)"
  proof (atomize (full), cases "m0 = m")
    case True
    then have "changed = False" "s' = s"
      using run rd b dec new by (auto simp: set_relationship_metadata_txn_locked_def Let_def and_then_eq_Inr)
    then show "(if changed then committed db spare c t src {} False shard s shard s' else s' = s) \<and>
      rel_meta (graph_view db s') ow = (if ow = (c, t, src, dst, rid) then Some m else rel_meta ?view ow)"
      using row True by simp
  next
    case False
    note up = staged_rel_update [OF v graph_ok_staged [OF ok] row m]
    from False have "commit_result_with db True (put_relationship_property_indexes_txn db (rel_record (c, t, src, dst, rid) m)
        (delete_relationship_property_indexes_txn db (rel_record (c, t, src, dst, rid) m) m0
          (txn_put db s ?k (encode_relationship_record (rel_record (c, t, src, dst, rid) m))))) = Inr (changed, s')"
      (is "commit_result_with db True ?s1 = _")
      using run rd b dec new by (auto simp: set_relationship_metadata_txn_locked_def Let_def and_then_eq_Inr)
    note run' = this
    have "staged db shard spare (kv_seqnum db s + 1) ?s1" if "kv_seqnum db s < kv_seqnum db s + 1"
      by (rule staged_mono [OF up(1)]) (use that in simp)
    note cm = staged_commit [OF run' up(3) this]
    show "(if changed then committed db spare c t src {} False shard s shard s' else s' = s) \<and>
      rel_meta (graph_view db s') ow = (if ow = (c, t, src, dst, rid) then Some m else rel_meta ?view ow)"
      using cm up(4) [of ow] quiet_changed [OF up(2)] by (simp add: committed_def stepped_def)
  qed
qed

lemma set_vertex_metadata_ok:
  assumes ok: "graph_ok db shard spare s" and c: "valid_component c" and m: "vertex_metadata_ok m"
    and run: "set_vertex_metadata_txn_locked db shard noop_fence changing_fence c x m s = Inr s'"
  shows "s' = s \<and> vertex_meta (graph_view db s) (c, x) = Some m \<or> committed db spare c t src {} False shard s shard s'"
    "vertex_meta (graph_view db s') ow = (if ow = (c, x) then Some m else vertex_meta (graph_view db s) ow)"
proof -
  note sd = graph_okD [OF ok]
  let ?view = "graph_view db s"
  let ?prev = "case vertex_meta ?view (c, x) of Some m \<Rightarrow> m | None \<Rightarrow> default_vertex_metadata"
  note dec = decode_vertex_record_ok [OF sd(1) c, of x]
  have "(s' = s \<and> vertex_meta ?view (c, x) = Some m \<or> committed db spare c t src {} False shard s shard s') \<and>
    vertex_meta (graph_view db s') ow = (if ow = (c, x) then Some m else vertex_meta ?view ow)"
  proof (cases "vertex_meta ?view (c, x) = Some m")
    case True
    then have "s' = s"
      using run dec by (auto simp: set_vertex_metadata_txn_locked_def Let_def and_then_eq_Inr map_ok_eq_Inr simp del: vertex_meta.simps)
    then show ?thesis using True by (simp del: vertex_meta.simps)
  next
    case False
    have pok: "vertex_metadata_ok ?prev" using stored_meta_ok [OF sd(1), of c x] by (simp add: stored_meta_def del: vertex_meta.simps)
    obtain s1 where s1: "apply_vertex_metadata_update_txn db c x ?prev m s = Inr s1" "touches db {KC_Vertex} s s1"
      "\<And>ow. vertex_meta (graph_view db s1) ow = (if ow = (c, x) then Some m else vertex_meta ?view ow)"
      "\<And>c' v'. graph_view db s1 (K_Vertex c' v') =
        (if (c', v') = (c, x) then Some (encode_vertex_metadata m) else ?view (K_Vertex c' v'))"
      "vertex_index_ok ?view \<Longrightarrow> vertex_index_ok (graph_view db s1)"
      by (rule apply_vertex_update [OF c pok m refl]) (rule that)
    have "meta_step db s s1" by (rule meta_step_vertex [OF s1(2)]) (use s1(4,5) in auto)
    moreover have "commit_result_with db () s1 = Inr ((), s')"
      using run dec False s1(1)
      by (auto simp: set_vertex_metadata_txn_locked_def Let_def and_then_eq_Inr commit_result_with_def
          simp del: vertex_meta.simps)
    ultimately show ?thesis
      using quiet_commit(2) [OF ok] commit_effect(2) s1(3) [of ow] by (fastforce simp del: vertex_meta.simps)
  qed
  then show "s' = s \<and> vertex_meta (graph_view db s) (c, x) = Some m \<or> committed db spare c t src {} False shard s shard s'"
    "vertex_meta (graph_view db s') ow = (if ow = (c, x) then Some m else vertex_meta (graph_view db s) ow)"
    by blast+
qed

end

end
