(* ===== verification/Graph_Runs.thy ===== *)
theory Graph_Runs
  imports Relationship_Steps
begin

text \<open>
  Sequences of transactions.  A request is one call of a transaction with arguments its public operation
  has validated; a run is a sequence of requests that returned a result.  Every store a run reaches from
  the empty one satisfies the invariant, so what a reader computes from it is what the requests wrote.
\<close>

subsection \<open>Requests\<close>

datatype graph_request =
    Write_Edge edge_mutation "(vertex_id \<times> vertex_metadata) list" edge_metadata string
  | Delete_Edge edge_mutation
  | Append_Segment string string vertex_id "vertex_id list" string u64
  | Create_Relationship edge_mutation "(vertex_id \<times> vertex_metadata) list" edge_metadata u64
  | Delete_Relationship edge_mutation relationship_id
  | Set_Relationship_Metadata string string vertex_id vertex_id relationship_id edge_metadata
  | Set_Vertex_Metadata string vertex_id vertex_metadata "unit result" "unit result"

fun run_request :: "'s kv_db \<Rightarrow> graph_request \<Rightarrow> graph_shard \<Rightarrow> 's \<Rightarrow> graph_shard \<times> 's result" where
  "run_request db (Write_Edge m updates metadata operation) shard s =
     map_prod id (map_ok snd) (write_edge_txn_locked_with_metadata db shard m updates metadata operation s)"
| "run_request db (Delete_Edge m) shard s = map_prod id (map_ok snd) (delete_edge_txn_locked db shard m s)"
| "run_request db (Append_Segment c t src dsts key fingerprint) shard s =
     map_prod id (map_ok snd)
       (bulk_append_out_adjacency_segment_trusted_txn_locked db shard c t src dsts key fingerprint s)"
| "run_request db (Create_Relationship m updates metadata fingerprint) shard s =
     map_prod id (map_ok snd) (create_relationship_txn_locked db shard m updates metadata fingerprint s)"
| "run_request db (Delete_Relationship m r) shard s =
     map_prod id (map_ok snd) (delete_relationship_txn_locked db shard m r s)"
| "run_request db (Set_Relationship_Metadata c t src dst r metadata) shard s =
     (shard, map_ok snd (set_relationship_metadata_txn_locked db shard c t src dst r metadata s))"
| "run_request db (Set_Vertex_Metadata c x metadata noop changing) shard s =
     (shard, set_vertex_metadata_txn_locked db shard noop changing c x metadata s)"

abbreviation valid_updates :: "(vertex_id \<times> vertex_metadata) list \<Rightarrow> bool" where
  "valid_updates updates \<equiv> distinct (map fst updates) \<and> (\<forall>u \<in> set updates. vertex_metadata_ok (snd u))"

text \<open>
  What the public operations check before they begin a transaction; \<open>spare\<close> is a vertex id that is
  never used as an endpoint.
\<close>

fun valid_request :: "graph_shard \<Rightarrow> vertex_id \<Rightarrow> graph_request \<Rightarrow> bool" where
  "valid_request shard spare (Write_Edge m updates metadata operation) \<longleftrightarrow>
     valid_mutation m \<and> valid_updates updates \<and> edge_metadata_ok metadata \<and> mut_src m \<noteq> spare \<and> mut_dst m \<noteq> spare"
| "valid_request shard spare (Delete_Edge m) \<longleftrightarrow> valid_mutation m"
| "valid_request shard spare (Append_Segment c t src dsts key fingerprint) \<longleftrightarrow>
     valid_component c \<and> valid_component t \<and> valid_component key \<and> \<not> writes_reverse_index shard \<and>
     distinct dsts \<and> length dsts < 2 ^ 61 \<and> src \<noteq> spare \<and> spare \<notin> set dsts"
| "valid_request shard spare (Create_Relationship m updates metadata fingerprint) \<longleftrightarrow>
     valid_mutation m \<and> valid_updates updates \<and> edge_metadata_ok metadata \<and> mut_src m \<noteq> spare \<and> mut_dst m \<noteq> spare"
| "valid_request shard spare (Delete_Relationship m r) \<longleftrightarrow> valid_mutation m"
| "valid_request shard spare (Set_Relationship_Metadata c t src dst r metadata) \<longleftrightarrow>
     valid_component c \<and> valid_component t \<and> edge_metadata_ok metadata"
| "valid_request shard spare (Set_Vertex_Metadata c x metadata noop changing) \<longleftrightarrow>
     valid_component c \<and> vertex_metadata_ok metadata"

inductive graph_run :: "'s kv_db \<Rightarrow> vertex_id \<Rightarrow> graph_shard \<Rightarrow> 's \<Rightarrow> graph_shard \<Rightarrow> 's \<Rightarrow> bool"
  for db :: "'s kv_db" and spare :: vertex_id where
  run_refl: "graph_run db spare shard s shard s"
| run_step: "graph_run db spare shard s shard1 s1 \<Longrightarrow> valid_request shard1 spare request \<Longrightarrow>
    run_request db request shard1 s1 = (shard2, Inr s2) \<Longrightarrow> graph_run db spare shard s shard2 s2"

lemma map_prod_Inr:
  "map_prod id (map_ok snd) x = (shard', Inr s') \<Longrightarrow> \<exists>r. x = (shard', Inr (r, s'))"
  by (cases x) (auto simp: map_ok_eq_Inr)

subsection \<open>One request\<close>

definition request_effect ::
    "'s kv_db \<Rightarrow> vertex_id \<Rightarrow> graph_shard \<Rightarrow> 's \<Rightarrow> graph_shard \<Rightarrow> 's \<Rightarrow> bool" where
  "request_effect db spare shard s shard' s' \<longleftrightarrow>
     (shard' = shard \<and> s' = s) \<or> (\<exists>c t src ds flag. committed db spare c t src ds flag shard s shard' s')"

context kv_store
begin

lemma replay_write_edge:
  assumes "valid_mutation m" "graph_view db s (K_Idempotency (mut_cell_id m) ''create'' (mut_idempotency_key m)) = Some v"
    and "write_edge_txn_locked_with_metadata db shard m updates metadata operation s = (shard', Inr (r, s'))"
  shows "shard' = shard" "s' = s"
    "decode_commit_idempotency (render (K_Idempotency (mut_cell_id m) ''create'' (mut_idempotency_key m))) m v = Inr r"
  using assms
  by (cases "begin_fenced db shard s (mut_cell_id m) operation";
      auto simp: write_edge_txn_locked_with_metadata_def Let_def read_view slash_free_def map_ok_eq_Inr)+

lemma replay_delete_edge:
  assumes "valid_mutation m" "graph_view db s (K_Idempotency (mut_cell_id m) ''delete'' (mut_idempotency_key m)) = Some v"
    and "delete_edge_txn_locked db shard m s = (shard', Inr (r, s'))"
  shows "shard' = shard" "s' = s"
    "decode_delete_idempotency (render (K_Idempotency (mut_cell_id m) ''delete'' (mut_idempotency_key m))) m v = Inr r"
  using assms
  by (cases "begin_fenced db shard s (mut_cell_id m) ''delete_edge''";
      auto simp: delete_edge_txn_locked_def Let_def read_view slash_free_def map_ok_eq_Inr)+

lemma replay_append_segment:
  assumes "valid_component c" "valid_component key" "graph_view db s (K_Idempotency c ''segment-import'' key) = Some v"
    and "bulk_append_out_adjacency_segment_trusted_txn_locked db shard c t src dsts key fp s = (shard', Inr (r, s'))"
  shows "shard' = shard" "s' = s"
  using assms
  by (cases "begin_fenced db shard s c ''bulk_append_out_adjacency_segment_trusted''";
      auto simp: bulk_append_out_adjacency_segment_trusted_txn_locked_def Let_def read_view slash_free_def map_ok_eq_Inr)+

lemma replay_create_relationship:
  assumes "valid_mutation m"
    "graph_view db s (K_Idempotency (mut_cell_id m) ''relationship-create'' (mut_idempotency_key m)) = Some v"
    and "create_relationship_txn_locked db shard m updates metadata fp s = (shard', Inr (r, s'))"
  shows "shard' = shard" "s' = s"
  using assms
  by (cases "begin_fenced db shard s (mut_cell_id m) ''create_relationship''";
      auto simp: create_relationship_txn_locked_def Let_def read_view slash_free_def map_ok_eq_Inr)+

lemma replay_delete_relationship:
  assumes "valid_mutation m"
    "graph_view db s (K_Idempotency (mut_cell_id m) ''relationship-delete'' (mut_idempotency_key m)) = Some v"
    and "delete_relationship_txn_locked db shard m rid s = (shard', Inr (r, s'))"
  shows "shard' = shard" "s' = s"
  using assms
  by (cases "begin_fenced db shard s (mut_cell_id m) ''delete_relationship''";
      auto simp: delete_relationship_txn_locked_def Let_def read_view slash_free_def map_ok_eq_Inr)+

end

context kv_store
begin

lemma valid_updatesD: "valid_updates updates \<Longrightarrow> (v, m) \<in> set updates \<Longrightarrow> vertex_metadata_ok m"
  by force

lemma request_effectI:
  assumes "x = None \<Longrightarrow> committed db spare c t src ds flag shard s shard' s'"
    "\<And>v. x = Some v \<Longrightarrow> shard' = shard" "\<And>v. x = Some v \<Longrightarrow> s' = s"
  shows "request_effect db spare shard s shard' s'"
  using assms unfolding request_effect_def by (cases x) blast+

lemma request_effect_ok:
  assumes ok: "graph_ok db shard spare s" and v: "valid_request shard spare request"
    and run: "run_request db request shard s = (shard', Inr s')"
  shows "request_effect db spare shard s shard' s'"
proof (cases request)
  case (Write_Edge m updates metadata operation)
  then obtain r where run': "write_edge_txn_locked_with_metadata db shard m updates metadata operation s = (shard', Inr (r, s'))"
    using run map_prod_Inr by fastforce
  have vm: "valid_mutation m" and up: "distinct (map fst updates)" "\<And>v m. (v, m) \<in> set updates \<Longrightarrow> vertex_metadata_ok m"
    and em: "edge_metadata_ok metadata" and sp: "mut_src m \<noteq> spare" "mut_dst m \<noteq> spare"
    using v Write_Edge valid_updatesD by auto
  show ?thesis
    by (rule request_effectI [OF write_edge_metadata_ok(2) [OF ok vm up em sp run'] replay_write_edge(1) [OF vm _ run'] replay_write_edge(2) [OF vm _ run']])
next
  case (Delete_Edge m)
  then obtain r where run': "delete_edge_txn_locked db shard m s = (shard', Inr (r, s'))"
    using run map_prod_Inr by fastforce
  have vm: "valid_mutation m" using v Delete_Edge by simp
  show ?thesis
    by (rule request_effectI [OF delete_edge_ok(2) [OF ok vm run'] replay_delete_edge(1) [OF vm _ run'] replay_delete_edge(2) [OF vm _ run']])
next
  case (Append_Segment c t src dsts key fp)
  then obtain r where run': "bulk_append_out_adjacency_segment_trusted_txn_locked db shard c t src dsts key fp s = (shard', Inr (r, s'))"
    using run map_prod_Inr by fastforce
  have a: "valid_component c" "valid_component t" "valid_component key" "\<not> writes_reverse_index shard"
    "distinct dsts" "length dsts < 2 ^ 61" "src \<noteq> spare" "spare \<notin> set dsts"
    using v Append_Segment by auto
  show ?thesis
    by (rule request_effectI [OF append_segment_ok(3) [OF ok a run'] replay_append_segment(1) [OF a(1,3) _ run'] replay_append_segment(2) [OF a(1,3) _ run']])
next
  case (Create_Relationship m updates metadata fp)
  then obtain r where run': "create_relationship_txn_locked db shard m updates metadata fp s = (shard', Inr (r, s'))"
    using run map_prod_Inr by fastforce
  have vm: "valid_mutation m" and up: "distinct (map fst updates)" "\<And>v m. (v, m) \<in> set updates \<Longrightarrow> vertex_metadata_ok m"
    and em: "edge_metadata_ok metadata" and sp: "mut_src m \<noteq> spare" "mut_dst m \<noteq> spare"
    using v Create_Relationship valid_updatesD by auto
  show ?thesis
    by (rule request_effectI [OF create_relationship_ok(2) [OF ok vm up em sp run'] replay_create_relationship(1) [OF vm _ run'] replay_create_relationship(2) [OF vm _ run']])
next
  case (Delete_Relationship m rid)
  then obtain r where run': "delete_relationship_txn_locked db shard m rid s = (shard', Inr (r, s'))"
    using run map_prod_Inr by fastforce
  have vm: "valid_mutation m" using v Delete_Relationship by simp
  show ?thesis
    by (rule request_effectI [OF delete_relationship_ok(2) [OF ok vm run'] replay_delete_relationship(1) [OF vm _ run'] replay_delete_relationship(2) [OF vm _ run']])
next
  case (Set_Relationship_Metadata c t src dst rid metadata)
  then obtain b where run': "shard' = shard" "set_relationship_metadata_txn_locked db shard c t src dst rid metadata s = Inr (b, s')"
    using run by (auto simp: map_ok_eq_Inr)
  have a: "valid_component c" "valid_component t" "edge_metadata_ok metadata" using v Set_Relationship_Metadata by auto
  show ?thesis
    using set_relationship_metadata_ok(1) [OF ok a run'(2)] run'(1) unfolding request_effect_def by (cases b) auto
next
  case (Set_Vertex_Metadata c x metadata noop changing)
  then have run': "shard' = shard" "set_vertex_metadata_txn_locked db shard noop changing c x metadata s = Inr s'"
    using run by auto
  have a: "valid_component c" "vertex_metadata_ok metadata" using v Set_Vertex_Metadata by auto
  show ?thesis
    using set_vertex_metadata_ok(1) [OF ok a run'(2)] run'(1) unfolding request_effect_def by blast
qed

lemma request_effect_keeps:
  "graph_ok db shard spare s \<Longrightarrow> request_effect db spare shard s shard' s' \<Longrightarrow> graph_ok db shard' spare s'"
  by (auto simp: request_effect_def committed_def)

lemma run_keeps:
  assumes "graph_run db spare shard s shard' s'" "graph_ok db shard spare s"
  shows "graph_ok db shard' spare s'"
  using assms by induction (blast intro: request_effect_keeps request_effect_ok)+

lemma graph_ok_empty:
  assumes "\<And>k. kv_get db s k = None" "sh_xlog_floor_ensured shard = []"
  shows "graph_ok db shard spare s"
proof -
  have v: "graph_view db s k = None" for k using assms(1) by (simp add: graph_view_def)
  have seg: "segment_of (graph_view db s) c t a q g = []" for c t a q g by (simp add: segment_of_def v)
  have he: "\<not> has_edge (graph_view db s) c t a b" for c t a b by (simp add: has_edge_def seg_edge_def seg v)
  have "topology_ok (writes_reverse_index shard) spare (kv_seqnum db s) (graph_view db s)"
    by (simp add: topology_ok_def sequences_ok_def tombstone_of_def records_ok_def degrees_ok_def log_ok_def floor_ok_def
        counter_def he v)
  moreover have "vertex_index_ok (graph_view db s)" "edge_index_ok (graph_view db s)" "rel_index_ok (graph_view db s)"
    by (auto simp: vertex_index_ok_def edge_index_ok_def rel_index_ok_def index_exact_def v keys_opt_def split: option.splits)
  ultimately show ?thesis
    using assms
    by (simp add: graph_ok_def store_typed_def floor_cache_ok_def contents_ok_def endpoints_ok_def rels_ok_def
        rel_rows_def counter_def he v)
qed

end

end
