(* ===== verification/Graph_Examples.thy ===== *)
theory Graph_Examples
  imports Graph_Runs
begin

text \<open>
  Concrete runs on the engine of \<open>mem_db\<close>, at which the properties of the write path are applied.
\<close>

definition example_shard :: graph_shard where
  "example_shard = \<lparr> sh_index_policy = OutboundOnly_Index, sh_write_authority = WA_Writer, sh_open_writer = True,
     sh_pipelined = False, sh_xlog_floor_ensured = [] \<rparr>"

definition example_mutation :: edge_mutation where
  "example_mutation = \<lparr> mut_cell_id = ''c1'', mut_edge_type = ''KNOWS'', mut_src = 1, mut_dst = 2,
     mut_idempotency_key = ''k1'' \<rparr>"

definition empty_store :: mem_store where
  "empty_store = (ob_empty, 0)"

lemma empty_store_reads [simp]:
  "graph_view mem_db empty_store k = None" "kv_get mem_db empty_store key = None"
  "read_txn_remote mem_db empty_store k = None" "txn_scan_prefix mem_db empty_store p = []"
  "kv_seqnum mem_db empty_store = 0"
  by (simp_all add: graph_view_def read_txn_remote_def txn_scan_prefix_def mem_db_def empty_store_def)

lemma mem_commit [simp]: "kv_commit mem_db s q = Inr (fst s, q)"
  by (simp add: mem_db_def split: prod.splits)

lemma valid_example [simp]: "valid_component ''c1''" "valid_component ''KNOWS''" "valid_component ''k1''"
  by code_simp+

lemma example_fields [simp]:
  "mut_cell_id example_mutation = ''c1''" "mut_edge_type example_mutation = ''KNOWS''"
  "mut_src example_mutation = 1" "mut_dst example_mutation = 2" "mut_idempotency_key example_mutation = ''k1''"
  by (simp_all add: example_mutation_def)

lemma valid_example_mutation [simp]: "valid_mutation example_mutation"
  by simp

lemma example_graph_ok: "graph_ok mem_db example_shard spare empty_store"
  by (rule mem.graph_ok_empty) (simp_all add: example_shard_def)

lemma example_fence: "begin_fenced mem_db example_shard empty_store c operation = Inr ()"
  by (simp add: begin_fenced_def db_writer_def validate_write_fence_txn_def ensure_write_authority_def example_shard_def)

lemma is_ok_run: "is_ok (snd x) \<Longrightarrow> \<exists>shard r s. x = (shard, Inr (r, s))"
  by (cases x; cases "snd x") auto

lemma example_write:
  obtains shard' r s' where
    "write_edge_txn_locked mem_db example_shard example_mutation empty_store = (shard', Inr (r, s'))"
proof -
  have "is_ok (snd (write_edge_txn_locked mem_db example_shard example_mutation empty_store))"
    unfolding write_edge_txn_locked_def
    by (rule mem.write_edge_progress [of _ 0, OF example_graph_ok valid_example_mutation, where e = 1])
      (simp_all add: example_fence checked_add_u64_def)
  with is_ok_run that show ?thesis by blast
qed

lemma example_shard_simps [simp]:
  "writes_reverse_index example_shard = False" "sh_xlog_floor_ensured example_shard = []"
  "sh_pipelined example_shard = False"
  by (simp_all add: example_shard_def writes_reverse_index_def write_reverse_index_def)

lemmas example_run = Let_def example_fence commit_result_with_def commit_txn_strict_def checked_add_u64_def ok_or_def

lemma example_delete:
  "\<exists>s'. delete_edge_txn_locked mem_db example_shard example_mutation empty_store = (example_shard, Inr (\<lparr> dr_epoch = 0, dr_deleted = False \<rparr>, s'))"
  by (simp add: example_run delete_edge_txn_locked_def delete_segment_edge_txn_def delete_noop_txn_def out_segment_edge_record_at_def
     out_segment_tombstone_epoch_at_def scan_out_segments_for_src_at_def)


lemma example_ensure:
  assumes "kv_seqnum mem_db s0 = 0" "\<forall>k. class_of k \<noteq> KC_Rel \<longrightarrow> graph_view mem_db s0 k = None"
    and "s3 = fst (ensure_vertex_records_txn mem_db ''c1'' vs skip fresh s0)"
  shows "kv_seqnum mem_db s3 = 0" "class_of k \<in> topology_classes \<Longrightarrow> graph_view mem_db s3 k = None"
    "class_of k = KC_Rel \<Longrightarrow> graph_view mem_db s3 k = graph_view mem_db s0 k"
proof -
  have m: "meta_step mem_db s0 s3" by (rule mem.meta_step_ensure(1) [OF _ _ assms(3)]) (use assms(2) in simp_all)
  show "kv_seqnum mem_db s3 = 0" using meta_stepD(2) [OF m] assms(1) by simp
  show "class_of k \<in> topology_classes \<Longrightarrow> graph_view mem_db s3 k = None"
    "class_of k = KC_Rel \<Longrightarrow> graph_view mem_db s3 k = graph_view mem_db s0 k"
    using agreeD [OF meta_stepD(3) [OF m], of k] assms(2) by auto
qed

lemma example_append:
  "\<exists>shard' r s'. bulk_append_out_adjacency_segment_trusted_txn_locked mem_db example_shard ''c1'' ''KNOWS'' 1 [2] ''k1'' 7 empty_store =
     (shard', Inr (r, s'))"
proof -
  define s3 where "s3 = fst (ensure_vertex_records_txn mem_db ''c1'' [1, 2] [] True empty_store)"
  note s3 = example_ensure [OF _ _ s3_def]
  have none: "out_neighbors_for_src_txn mem_db empty_store ''c1'' ''KNOWS'' 1 0 = Inr []"
    by (simp add: out_neighbors_for_src_txn_def out_segment_neighbors_for_src_txn_def out_segment_edges_for_src_txn_def bt_keys_def bs_extend_def)
  show ?thesis
  by (simp add: example_run bulk_append_out_adjacency_segment_trusted_txn_locked_def none next_epoch_txn_def s3_def [symmetric] s3
     mark_topology_change_txn_def ensure_xlog_floor_def mem.read_view)
qed

lemma example_create:
  "\<exists>shard' r s'. create_relationship_txn_locked mem_db example_shard example_mutation [] default_edge_metadata 7 empty_store =
     (shard', Inr (r, s'))"
proof -
  let ?s0 = "txn_put mem_db empty_store (K_LastRelationshipId ''c1'') (encode_u64 1)"
  define s3 where "s3 = fst (ensure_vertex_records_txn mem_db ''c1'' [1, 2] (bs_of_list []) False ?s0)"
  note s3 = example_ensure [OF _ _ s3_def]
  have free: "free_relationship_id mem_db empty_store ''c1'' 1 = Inr 1" by (simp add: free_relationship_id.simps)
  show ?thesis
  by (simp add: example_run create_relationship_txn_locked_def edge_epoch_at_txn_def out_segment_edges_for_src_txn_def
    read_counter_txn_def free changed_vertex_metadata_def apply_changed_vertex_metadata_def insert_structural_edge_txn_def mark_topology_change_txn_def
    ensure_xlog_floor_def s3_def [symmetric] mem.read_view s3 put_relationship_property_indexes_txn_def default_edge_metadata_def delete_merge_pointer_def)
qed
lemma example_delete_relationship:
  "\<exists>shard' r s'. delete_relationship_txn_locked mem_db example_shard example_mutation 7 empty_store = (shard', Inr (r, s'))"
  by (simp add: example_run delete_relationship_txn_locked_def next_epoch_txn_def)

end
