(* ===== verification/Graph_Properties.thy ===== *)
theory Graph_Properties
  imports Graph_Examples
begin

text \<open>
  The properties of the write path.  The storage engine is any engine with the laws of \<open>kv_store\<close>;
  the witnesses apply each property on the engine of \<open>mem_db\<close>.
\<close>

subsection \<open>The abstract topology\<close>

text \<open>
  What the edge operations promise: the edge set of every cell and edge type, and the two updates a
  client asks for.
\<close>

type_synonym topology = "string \<times> string \<Rightarrow> (vertex_id \<times> vertex_id) set"

definition topology_of :: "'s kv_db \<Rightarrow> 's \<Rightarrow> topology" where
  "topology_of db s = (\<lambda>(c, t). edges_of (graph_view db s) c t)"

definition add_edges :: "string \<Rightarrow> string \<Rightarrow> (vertex_id \<times> vertex_id) set \<Rightarrow> topology \<Rightarrow> topology" where
  "add_edges c t es T = T((c, t) := T (c, t) \<union> es)"

definition remove_edges :: "string \<Rightarrow> string \<Rightarrow> (vertex_id \<times> vertex_id) set \<Rightarrow> topology \<Rightarrow> topology" where
  "remove_edges c t es T = T((c, t) := T (c, t) - es)"

lemma committed_topology:
  assumes "committed db spare c t src ds flag shard s shard' s'"
  shows "topology_of db s' = (if flag then add_edges else remove_edges) c t (Pair src ` ds) (topology_of db s)"
  using assms
  by (auto simp: committed_def stepped_def edges_changed_def topology_of_def edges_of_def add_edges_def
      remove_edges_def fun_eq_iff)

lemma topology_edge: "(a, b) \<in> topology_of db s (c, t) \<longleftrightarrow> has_edge (graph_view db s) c t a b"
  by (simp add: topology_of_def edges_of_def)

lemma no_edges [simp]: "add_edges c t {} T = T" "remove_edges c t {} T = T"
  by (simp_all add: add_edges_def remove_edges_def)

lemma add_present: "es \<subseteq> T (c, t) \<Longrightarrow> add_edges c t es T = T"
  by (auto simp: add_edges_def fun_eq_iff)

lemma remove_absent: "es \<inter> T (c, t) = {} \<Longrightarrow> remove_edges c t es T = T"
  by (auto simp: remove_edges_def fun_eq_iff)

lemma add_missing: "add_edges c t es T = add_edges c t (es - T (c, t)) T"
  by (auto simp: add_edges_def)

lemma empty_topology: "topology_of mem_db empty_store = (\<lambda>_. {})"
  by (auto simp: topology_of_def edges_of_def has_edge_def seg_edge_def segment_of_def fun_eq_iff)

lemma example_topology:
  obtains shard' r s' where
    "write_edge_txn_locked mem_db example_shard example_mutation empty_store = (shard', Inr (r, s'))"
    "graph_ok mem_db shard' 0 s'" "kv_seqnum mem_db s' = 1" "topology_of mem_db s' (''c1'', ''KNOWS'') = {(1, 2)}"
proof -
  obtain shard' r s' where run: "write_edge_txn_locked mem_db example_shard example_mutation empty_store = (shard', Inr (r, s'))"
    by (rule example_write)
  have none: "\<not> has_edge (graph_view mem_db empty_store) c t a b" for c t a b
    using topology_edge [of a b mem_db empty_store c t] by (simp add: empty_topology)
  have c: "committed mem_db 0 ''c1'' ''KNOWS'' 1 {2} True example_shard empty_store shard' s'"
    using mem.write_edge_metadata_ok(2) [OF example_graph_ok [of 0] _ _ _ _ _ _ run [unfolded write_edge_txn_locked_def]] none
    by simp
  then have "kv_seqnum mem_db s' = 1" "graph_ok mem_db shard' 0 s'" by (simp_all add: committed_def)
  with that [OF run] committed_topology [OF c] show ?thesis by (simp add: empty_topology add_edges_def)
qed

lemma retry_loop_last:
  assumes "attempt + left = GRAPH_TXN_MAX_RETRIES" "0 < left"
  shows "\<exists>i. attempt \<le> i \<and> i < GRAPH_TXN_MAX_RETRIES \<and> retry_loop run attempt left = run i \<and>
    (\<forall>j. attempt \<le> j \<and> j < i \<longrightarrow> (\<exists>e. run j = Inl e \<and> is_retryable_write_conflict e)) \<and>
    (i + 1 < GRAPH_TXN_MAX_RETRIES \<longrightarrow> \<not> (\<exists>e. run i = Inl e \<and> is_retryable_write_conflict e))"
  using assms
proof (induction left arbitrary: attempt)
  case (Suc left)
  show ?case
  proof (cases "\<exists>e. run attempt = Inl e \<and> is_retryable_write_conflict e \<and> attempt + 1 < GRAPH_TXN_MAX_RETRIES")
    case True
    then obtain i where i: "attempt + 1 \<le> i" "i < GRAPH_TXN_MAX_RETRIES" "retry_loop run (attempt + 1) left = run i"
        "\<forall>j. attempt + 1 \<le> j \<and> j < i \<longrightarrow> (\<exists>e. run j = Inl e \<and> is_retryable_write_conflict e)"
        "i + 1 < GRAPH_TXN_MAX_RETRIES \<longrightarrow> \<not> (\<exists>e. run i = Inl e \<and> is_retryable_write_conflict e)"
      using Suc.IH [of "attempt + 1"] Suc.prems by auto
    have "\<exists>e. run j = Inl e \<and> is_retryable_write_conflict e" if "attempt \<le> j" "j < i" for j
      using i(4) True that by (cases "j = attempt") auto
    moreover have "retry_loop run attempt (Suc left) = run i" using True i(3) by auto
    ultimately show ?thesis using i(1,2,5) by (intro exI [of _ i]) (auto simp del: retry_loop.simps)
  next
    case False
    then show ?thesis
      using Suc.prems by (intro exI [of _ attempt]) (auto split: sum.splits)
  qed
qed simp

subsection \<open>The edge operations\<close>

text \<open>
  C2.  A first attempt of \<open>write_edge\<close> (or one of its metadata variants) that returns a result has added
  the edge to the edge set of its cell and type and left every other edge set alone, whether the edge
  was stored as a record, in a segment, or not at all; it reports whether the edge was there before, and
  the store satisfies the invariant again.
\<close>

theorem write_edge_refines:
  assumes db: "kv_store db" and ok: "graph_ok db shard spare s"
    and v: "valid_request shard spare (Write_Edge m updates metadata operation)"
    and fresh: "graph_view db s (K_Idempotency (mut_cell_id m) ''create'' (mut_idempotency_key m)) = None"
    and run: "write_edge_txn_locked_with_metadata db shard m updates metadata operation s = (shard', Inr (r, s'))"
  shows "topology_of db s' = add_edges (mut_cell_id m) (mut_edge_type m) {(mut_src m, mut_dst m)} (topology_of db s) \<and>
    (cr_already_existed r \<longleftrightarrow> (mut_src m, mut_dst m) \<in> topology_of db s (mut_cell_id m, mut_edge_type m)) \<and>
    graph_ok db shard' spare s'"
proof -
  have a: "valid_mutation m" "distinct (map fst updates)" "\<And>v md. (v, md) \<in> set updates \<Longrightarrow> vertex_metadata_ok md"
    "edge_metadata_ok metadata" "mut_src m \<noteq> spare" "mut_dst m \<noteq> spare"
    using v by force+
  have w: "cr_already_existed r \<longleftrightarrow> has_edge (graph_view db s) (mut_cell_id m) (mut_edge_type m) (mut_src m) (mut_dst m)"
    "committed db spare (mut_cell_id m) (mut_edge_type m) (mut_src m)
      (if has_edge (graph_view db s) (mut_cell_id m) (mut_edge_type m) (mut_src m) (mut_dst m) then {} else {mut_dst m})
      True shard s shard' s'"
    by (rule kv_store.write_edge_metadata_ok [OF db ok a(1,2) _ a(4-6) run fresh], erule a(3))+
  show ?thesis
    using w committed_topology [OF w(2)] add_present [of "{(mut_src m, mut_dst m)}" "topology_of db s"]
    by (auto simp: committed_def topology_edge)
qed

theorem write_edge_refines_witness:
  "\<exists>shard' r s'. write_edge_txn_locked mem_db example_shard example_mutation empty_store = (shard', Inr (r, s')) \<and>
    topology_of mem_db s' = add_edges ''c1'' ''KNOWS'' {(1, 2)} (\<lambda>_. {}) \<and> \<not> cr_already_existed r"
proof -
  obtain shard' r s' where run: "write_edge_txn_locked mem_db example_shard example_mutation empty_store = (shard', Inr (r, s'))"
    by (rule example_write)
  show ?thesis
    using write_edge_refines [OF mem.kv_store_axioms example_graph_ok [of 0] _ _ run [unfolded write_edge_txn_locked_def]] run
    by (simp add: empty_topology)
qed

text \<open>
  C5.  A first attempt of \<open>delete_edge\<close> that returns a result has removed exactly its edge from the edge
  set, whether it was a record or a segment edge, and reports whether there was one to remove.
\<close>

theorem delete_edge_refines:
  assumes db: "kv_store db" and ok: "graph_ok db shard spare s"
    and v: "valid_request shard spare (Delete_Edge m)"
    and fresh: "graph_view db s (K_Idempotency (mut_cell_id m) ''delete'' (mut_idempotency_key m)) = None"
    and run: "delete_edge_txn_locked db shard m s = (shard', Inr (r, s'))"
  shows "topology_of db s' = remove_edges (mut_cell_id m) (mut_edge_type m) {(mut_src m, mut_dst m)} (topology_of db s) \<and>
    (dr_deleted r \<longleftrightarrow> (mut_src m, mut_dst m) \<in> topology_of db s (mut_cell_id m, mut_edge_type m)) \<and>
    graph_ok db shard' spare s'"
proof -
  note w = kv_store.delete_edge_ok [OF db ok _ run fresh]
  show ?thesis
    using v w committed_topology [OF w(2)] remove_absent [of "{(mut_src m, mut_dst m)}" "topology_of db s"]
    by (auto simp: committed_def topology_edge)
qed

theorem delete_edge_refines_witness:
  "\<exists>shard' r s'. delete_edge_txn_locked mem_db example_shard example_mutation empty_store = (shard', Inr (r, s')) \<and>
    topology_of mem_db s' = remove_edges ''c1'' ''KNOWS'' {(1, 2)} (topology_of mem_db empty_store) \<and>
    graph_ok mem_db shard' 0 s'"
proof -
  obtain r s' where run: "delete_edge_txn_locked mem_db example_shard example_mutation empty_store = (example_shard, Inr (r, s'))"
    using example_delete by blast
  show ?thesis
    using delete_edge_refines [OF mem.kv_store_axioms example_graph_ok [of 0] _ _ run] run by simp
qed

text \<open>
  C6.  Appending an adjacency segment adds exactly its edges, and counts the new ones and the ones that
  were there before.
\<close>

theorem append_segment_refines:
  assumes db: "kv_store db" and ok: "graph_ok db shard spare s"
    and v: "valid_request shard spare (Append_Segment c t src dsts key fingerprint)"
    and fresh: "graph_view db s (K_Idempotency c ''segment-import'' key) = None"
    and run: "bulk_append_out_adjacency_segment_trusted_txn_locked db shard c t src dsts key fingerprint s = (shard', Inr (r, s'))"
  shows "topology_of db s' = add_edges c t (Pair src ` set dsts) (topology_of db s) \<and>
    unat (bir_inserted r) = card (Pair src ` set dsts - topology_of db s (c, t)) \<and>
    unat (bir_already_existed r) = card (Pair src ` set dsts \<inter> topology_of db s (c, t)) \<and>
    graph_ok db shard' spare s'"
proof -
  have a: "valid_component c" "valid_component t" "valid_component key" "\<not> writes_reverse_index shard"
    "distinct dsts" "length dsts < 2 ^ 61" "src \<noteq> spare" "spare \<notin> set dsts"
    using v by auto
  note w = kv_store.append_segment_ok [OF db ok a run fresh]
  have e: "Pair src ` {d \<in> set dsts. \<not> has_edge (graph_view db s) c t src d} = Pair src ` set dsts - topology_of db s (c, t)"
    "Pair src ` {d \<in> set dsts. has_edge (graph_view db s) c t src d} = Pair src ` set dsts \<inter> topology_of db s (c, t)"
    by (auto simp: topology_edge)
  have i: "inj_on (Pair src) X" for X by (simp add: inj_on_def)
  show ?thesis
    using w committed_topology [OF w(3)] add_missing [of c t "Pair src ` set dsts" "topology_of db s"]
    unfolding e [symmetric] card_image [OF i] by (simp add: committed_def)
qed

theorem append_segment_refines_witness:
  "\<exists>shard' r s'. bulk_append_out_adjacency_segment_trusted_txn_locked mem_db example_shard ''c1'' ''KNOWS'' 1 [2] ''k1'' 7 empty_store =
      (shard', Inr (r, s')) \<and>
    topology_of mem_db s' = add_edges ''c1'' ''KNOWS'' {(1, 2)} (topology_of mem_db empty_store)"
proof -
  obtain shard' r s' where run: "bulk_append_out_adjacency_segment_trusted_txn_locked mem_db example_shard ''c1'' ''KNOWS'' 1 [2] ''k1'' 7 empty_store =
      (shard', Inr (r, s'))"
    using example_append by blast
  show ?thesis
    using append_segment_refines [OF mem.kv_store_axioms example_graph_ok [of 0] _ _ run] run by simp
qed

text \<open>
  C11.  A request is applied at most once: after a first attempt of \<open>write_edge\<close> returned a result, every
  later attempt with the same mutation that finds its idempotency record returns that same result and
  leaves the store and the shard untouched, whatever was committed in between and whatever metadata the
  later attempt carries.
\<close>

theorem write_edge_exactly_once:
  assumes db: "kv_store db" and ok: "graph_ok db shard spare s"
    and v: "valid_request shard spare (Write_Edge m updates metadata operation)"
    and fresh: "graph_view db s (K_Idempotency (mut_cell_id m) ''create'' (mut_idempotency_key m)) = None"
    and run: "write_edge_txn_locked_with_metadata db shard m updates metadata operation s = (shard', Inr (r, s'))"
    and later: "graph_view db s2 (K_Idempotency (mut_cell_id m) ''create'' (mut_idempotency_key m)) =
      graph_view db s' (K_Idempotency (mut_cell_id m) ''create'' (mut_idempotency_key m))"
    and fence: "begin_fenced db shard2 s2 (mut_cell_id m) operation2 = Inr ()"
  shows "write_edge_txn_locked_with_metadata db shard2 m updates2 metadata2 operation2 s2 = (shard2, Inr (r, s2))"
proof -
  have a: "valid_mutation m" "distinct (map fst updates)" "\<And>v md. (v, md) \<in> set updates \<Longrightarrow> vertex_metadata_ok md"
    "edge_metadata_ok metadata" "mut_src m \<noteq> spare" "mut_dst m \<noteq> spare"
    using v by force+
  have "graph_view db s' (K_Idempotency (mut_cell_id m) ''create'' (mut_idempotency_key m)) =
      Some (encode_commit_idempotency m r)"
    by (rule kv_store.write_edge_metadata_ok(3) [OF db ok a(1,2) _ a(4-6) run fresh], erule a(3))
  moreover have "mutation_ok m" "valid_key (K_Idempotency (mut_cell_id m) ''create'' (mut_idempotency_key m))"
    using a(1) by (simp_all add: mutation_ok_def slash_free_def)
  ultimately show ?thesis
    using later fence
    by (simp add: write_edge_txn_locked_with_metadata_def Let_def kv_store.read_view [OF db] replay_commit same_edge_def
        del: valid_key.simps)
qed

theorem write_edge_exactly_once_witness:
  "\<exists>shard' r s'. write_edge_txn_locked mem_db example_shard example_mutation empty_store = (shard', Inr (r, s')) \<and>
    (\<exists>s2. write_edge_txn_locked mem_db example_shard example_mutation s2 = (example_shard, Inr (r, s2)))"
proof -
  obtain shard' r s' where run: "write_edge_txn_locked mem_db example_shard example_mutation empty_store = (shard', Inr (r, s'))"
    by (rule example_write)
  have stored: "graph_view mem_db s' (K_Idempotency ''c1'' ''create'' ''k1'') = Some (encode_commit_idempotency example_mutation r)"
    using mem.write_edge_metadata_ok(3) [OF example_graph_ok [of 0] _ _ _ _ _ _ run [unfolded write_edge_txn_locked_def]] by simp
  define s2 where "s2 = txn_put mem_db empty_store (K_Idempotency ''c1'' ''create'' ''k1'') (encode_commit_idempotency example_mutation r)"
  have "begin_fenced mem_db example_shard s2 ''c1'' ''write_edge'' = Inr ()"
    by (simp add: begin_fenced_def db_writer_def validate_write_fence_txn_def ensure_write_authority_def example_shard_def
        s2_def mem.read_view slash_free_def)
  then have "write_edge_txn_locked mem_db example_shard example_mutation s2 = (example_shard, Inr (r, s2))"
    using write_edge_exactly_once [OF mem.kv_store_axioms example_graph_ok [of 0] _ _ run [unfolded write_edge_txn_locked_def],
        of s2 example_shard "''write_edge''" "[]" default_edge_metadata] stored
    by (simp add: write_edge_txn_locked_def s2_def slash_free_def)
  then show ?thesis using run by blast
qed



subsection \<open>Runs\<close>



text \<open>
  C14.  The store is well typed in every run: each entry is the rendering of a key of the key space with a
  value its decoder accepts, so none of the reads a transaction makes -- edge lookup, adjacency scan,
  counter, edge metadata, vertex record -- can report a corrupt value.
\<close>

theorem run_reads_well_typed:
  assumes db: "kv_store db" and "\<forall>key. kv_get db s key = None" "sh_xlog_floor_ensured shard = []"
    and run: "graph_run db spare shard s shard' s'" and v: "valid_component c" "valid_component t"
  shows "store_typed db s' \<and>
    is_ok (edge_epoch_at_txn db s' c t src dst (kv_seqnum db s')) \<and>
    is_ok (out_neighbors_for_src_txn db s' c t src (kv_seqnum db s')) \<and>
    is_ok (read_counter_txn db s' (K_DegreeOut c t src)) \<and>
    is_ok (read_edge_metadata_txn db s' c t src dst) \<and>
    is_ok (decode_vertex_record (render (K_Vertex c src)) (read_txn_remote db s' (K_Vertex c src)))"
proof -
  have ok: "graph_ok db shard' spare s'"
    using kv_store.run_keeps [OF db run] kv_store.graph_ok_empty [OF db, of s shard spare] assms(2,3) by simp
  note sd = kv_store.graph_okD [OF db ok]
  obtain e where "edge_epoch_at_txn db s' c t src dst (kv_seqnum db s') = Inr e"
    by (rule kv_store.edge_epoch_ok [OF db sd(1,5) v]) (rule that)
  moreover obtain ns where "out_neighbors_for_src_txn db s' c t src (kv_seqnum db s') = Inr ns"
    by (rule kv_store.out_neighbors_ok [OF db sd(1,5) v]) (rule that)
  ultimately show ?thesis
    using sd(1) v kv_store.read_edge_metadata_ok(1) [OF db sd(1) v]
      kv_store.decode_vertex_record_ok [OF db sd(1) v(1)] kv_store.read_counter_ok [OF db sd(1), of "K_DegreeOut c t src"]
    by simp
qed

theorem run_reads_well_typed_witness:
  "\<exists>shard' s'. graph_run mem_db 0 example_shard empty_store shard' s' \<and> kv_seqnum mem_db s' = 1 \<and> store_typed mem_db s'"
proof -
  obtain r s' where run: "delete_edge_txn_locked mem_db example_shard example_mutation empty_store = (example_shard, Inr (r, s'))"
    using example_delete by blast
  have "graph_run mem_db 0 example_shard empty_store example_shard s'"
    by (rule run_step [OF run_refl, where request = "Delete_Edge example_mutation"]) (use run in simp_all)
  moreover have "kv_seqnum mem_db s' = 1"
    using mem.delete_edge_ok(2) [OF example_graph_ok [of 0] _ run] by (simp add: committed_def)
  ultimately show ?thesis
    using run_reads_well_typed [OF mem.kv_store_axioms, of empty_store example_shard 0 example_shard s' "''c1''" "''KNOWS''"]
    by (intro exI [of _ example_shard] exI [of _ s']) simp
qed

text \<open>
  C9.  Reading a vertex's neighbours gives exactly the destinations of its edges, in increasing order and
  without repetition, merged from records and visible segment entries, and the degree counter is their
  number.
\<close>

theorem neighbors_match_degree:
  assumes db: "kv_store db" and ok: "graph_ok db shard spare s" and v: "valid_component c" "valid_component t"
  shows "\<exists>ns. out_neighbors_for_src_txn db s c t src (kv_seqnum db s) = Inr ns \<and> bs_inv ns \<and>
    set ns = {dst. (src, dst) \<in> topology_of db s (c, t)} \<and>
    read_counter_txn db s (K_DegreeOut c t src) = Inr (of_nat (length ns))"
proof -
  note sd = kv_store.graph_okD [OF db ok]
  obtain ns where ns: "out_neighbors_for_src_txn db s c t src (kv_seqnum db s) = Inr ns" "bs_inv ns"
    "set ns = {dst. has_edge (graph_view db s) c t src dst}"
    by (rule kv_store.out_neighbors_ok [OF db sd(1,5) v]) (rule that)
  have "distinct ns" using ns(2) by (simp add: bs_inv_def strict_sorted_iff)
  then have "card {dst. has_edge (graph_view db s) c t src dst} = length ns"
    using ns(3) distinct_card by metis
  moreover have "counter (graph_view db s) (K_DegreeOut c t src) = of_nat (card {dst. has_edge (graph_view db s) c t src dst})"
    using sd(4) by (simp add: topology_ok_def degrees_ok_def)
  ultimately show ?thesis
    using ns v kv_store.read_counter_ok [OF db sd(1), of "K_DegreeOut c t src"] by (simp add: topology_edge)
qed

theorem neighbors_match_degree_witness:
  "\<exists>shard' r s'. write_edge_txn_locked mem_db example_shard example_mutation empty_store = (shard', Inr (r, s')) \<and>
    out_neighbors_for_src_txn mem_db s' ''c1'' ''KNOWS'' 1 1 = Inr [2] \<and>
    read_counter_txn mem_db s' (K_DegreeOut ''c1'' ''KNOWS'' 1) = Inr 1"
proof -
  obtain shard' r s' where run: "write_edge_txn_locked mem_db example_shard example_mutation empty_store = (shard', Inr (r, s'))"
    and ok: "graph_ok mem_db shard' 0 s'" and q: "kv_seqnum mem_db s' = 1"
    and t: "topology_of mem_db s' (''c1'', ''KNOWS'') = {(1, 2)}"
    by (rule example_topology)
  obtain ns where ns: "out_neighbors_for_src_txn mem_db s' ''c1'' ''KNOWS'' 1 1 = Inr ns" "bs_inv ns" "set ns = {2}"
    "read_counter_txn mem_db s' (K_DegreeOut ''c1'' ''KNOWS'' 1) = Inr (of_nat (length ns))"
    using neighbors_match_degree [OF mem.kv_store_axioms ok valid_example(1,2), of 1] t q by auto
  then have "ns = [2]" by (cases ns; cases "tl ns") (auto simp: bs_inv_def)
  then show ?thesis using run ns by auto
qed

subsection \<open>Relationships\<close>

text \<open>
  C24.  The search for a relationship id ends: it returns the first id from its start that no relationship
  of the cell uses, and fails only when every id from there on is taken.
\<close>

theorem free_relationship_id_search:
  "case free_relationship_id db s c start of
     Inr r \<Rightarrow> start \<le> r \<and> read_txn_remote db s (K_RelationshipId c r) = None \<and>
       (\<forall>r'. start \<le> r' \<and> r' < r \<longrightarrow> read_txn_remote db s (K_RelationshipId c r') \<noteq> None)
   | Inl _ \<Rightarrow> (\<forall>r. start \<le> r \<longrightarrow> read_txn_remote db s (K_RelationshipId c r) \<noteq> None)"
  using free_relationship_id_ok [of db s c start] free_relationship_id_total [of db s c start]
  by (auto split: sum.splits)

theorem free_relationship_id_search_witness:
  "free_relationship_id mem_db (txn_put mem_db empty_store (K_RelationshipId ''c1'' 1) ''x'') ''c1'' 1 = Inr 2"
proof -
  let ?s = "txn_put mem_db empty_store (K_RelationshipId ''c1'' 1) ''x''"
  have taken: "read_txn_remote mem_db ?s (K_RelationshipId ''c1'' r) = None \<longleftrightarrow> r \<noteq> 1" for r
    by (simp add: mem.read_view)
  note f = free_relationship_id_search [where db = mem_db and s = ?s and c = "''c1''" and start = 1, unfolded taken]
  then obtain r where r: "free_relationship_id mem_db ?s ''c1'' 1 = Inr r" "1 \<le> r" "r \<noteq> 1" "\<And>r'. 1 \<le> r' \<Longrightarrow> r' < r \<Longrightarrow> r' = 1"
    by (auto split: sum.splits)
  have "r = 2"
    using r(2,3) r(4) [of 2] by (simp add: word_le_nat_alt word_less_nat_alt) unat_arith
  with r(1) show ?thesis by simp
qed

text \<open>
  C7.  Creating a relationship gives it an id no relationship of the cell has, stores its metadata under
  that id and changes no other relationship; it inserts the structural edge exactly when there was none.
\<close>

theorem create_relationship_refines:
  assumes db: "kv_store db" and ok: "graph_ok db shard spare s"
    and v: "valid_request shard spare (Create_Relationship m updates metadata fingerprint)"
    and fresh: "graph_view db s (K_Idempotency (mut_cell_id m) ''relationship-create'' (mut_idempotency_key m)) = None"
    and run: "create_relationship_txn_locked db shard m updates metadata fingerprint s = (shard', Inr (r, s'))"
  shows "topology_of db s' = add_edges (mut_cell_id m) (mut_edge_type m) {(mut_src m, mut_dst m)} (topology_of db s) \<and>
    (rcr_structural_edge_inserted r \<longleftrightarrow> (mut_src m, mut_dst m) \<notin> topology_of db s (mut_cell_id m, mut_edge_type m)) \<and>
    graph_view db s (K_RelationshipId (mut_cell_id m) (rcr_relationship_id r)) = None \<and>
    rel_meta (graph_view db s') = (rel_meta (graph_view db s))
      ((mut_cell_id m, mut_edge_type m, mut_src m, mut_dst m, rcr_relationship_id r) \<mapsto> metadata) \<and>
    graph_ok db shard' spare s'"
proof -
  have a: "valid_mutation m" "distinct (map fst updates)" "\<And>v md. (v, md) \<in> set updates \<Longrightarrow> vertex_metadata_ok md"
    "edge_metadata_ok metadata" "mut_src m \<noteq> spare" "mut_dst m \<noteq> spare"
    using v by force+
  note c = kv_store.create_relationship_ok [OF db ok a(1,2) _ a(4-6) run fresh]
  have w: "rcr_structural_edge_inserted r \<longleftrightarrow> \<not> has_edge (graph_view db s) (mut_cell_id m) (mut_edge_type m) (mut_src m) (mut_dst m)"
    "committed db spare (mut_cell_id m) (mut_edge_type m) (mut_src m)
      (if has_edge (graph_view db s) (mut_cell_id m) (mut_edge_type m) (mut_src m) (mut_dst m) then {} else {mut_dst m})
      True shard s shard' s'"
    "graph_view db s (K_RelationshipId (mut_cell_id m) (rcr_relationship_id r)) = None"
    by (rule c, erule a(3))+
  have row: "rel_meta (graph_view db s') ow = (if ow = (mut_cell_id m, mut_edge_type m, mut_src m, mut_dst m, rcr_relationship_id r)
      then Some metadata else rel_meta (graph_view db s) ow)" for ow
    by (rule c(4), erule a(3))
  show ?thesis
    using w row committed_topology [OF w(2)] add_present [of "{(mut_src m, mut_dst m)}" "topology_of db s"]
    by (auto simp: committed_def topology_edge fun_eq_iff simp del: rel_meta.simps)
qed

theorem create_relationship_refines_witness:
  "\<exists>shard' r s'. create_relationship_txn_locked mem_db example_shard example_mutation [] default_edge_metadata 7 empty_store =
      (shard', Inr (r, s')) \<and> rcr_structural_edge_inserted r \<and>
    rel_meta (graph_view mem_db s') (''c1'', ''KNOWS'', 1, 2, rcr_relationship_id r) = Some default_edge_metadata"
proof -
  obtain shard' r s' where run: "create_relationship_txn_locked mem_db example_shard example_mutation [] default_edge_metadata 7 empty_store =
      (shard', Inr (r, s'))"
    using example_create by blast
  show ?thesis
    using create_relationship_refines [OF mem.kv_store_axioms example_graph_ok [of 0] _ _ run] run
    by (simp add: empty_topology del: rel_meta.simps)
qed

text \<open>
  C8.  Deleting a relationship reports whether it existed; deleting the last one of a pair also removes the
  structural edge when it is a record of its own, but leaves it in place when it is held by an adjacency
  segment.
\<close>

theorem delete_relationship_refines:
  assumes db: "kv_store db" and ok: "graph_ok db shard spare s" and v: "valid_mutation m"
    and fresh: "graph_view db s (K_Idempotency (mut_cell_id m) ''relationship-delete'' (mut_idempotency_key m)) = None"
    and run: "delete_relationship_txn_locked db shard m rid s = (shard', Inr (r, s'))"
  shows "(dr_deleted r \<longleftrightarrow> rid \<in> rel_rows (graph_view db s) (mut_cell_id m, mut_edge_type m, mut_src m, mut_dst m)) \<and>
    topology_of db s' =
      (if rel_rows (graph_view db s) (mut_cell_id m, mut_edge_type m, mut_src m, mut_dst m) = {rid} \<and>
          graph_view db s (K_OutEdge (mut_cell_id m) (mut_edge_type m) (mut_src m) (mut_dst m)) \<noteq> None
       then remove_edges (mut_cell_id m) (mut_edge_type m) {(mut_src m, mut_dst m)} (topology_of db s)
       else topology_of db s) \<and>
    graph_ok db shard' spare s'"
proof -
  note w = kv_store.delete_relationship_ok [OF db ok v run fresh]
  show ?thesis
    using w committed_topology [OF w(2)]
    by (auto simp: committed_def last_relationship_def rel_rows_def)
qed

theorem delete_relationship_refines_witness:
  "\<exists>shard' r s'. delete_relationship_txn_locked mem_db example_shard example_mutation 7 empty_store = (shard', Inr (r, s')) \<and>
    \<not> dr_deleted r \<and> topology_of mem_db s' = topology_of mem_db empty_store"
proof -
  obtain shard' r s' where run: "delete_relationship_txn_locked mem_db example_shard example_mutation 7 empty_store = (shard', Inr (r, s'))"
    using example_delete_relationship by blast
  show ?thesis
    using delete_relationship_refines [OF mem.kv_store_axioms example_graph_ok [of 0] _ _ run] run by (simp add: rel_rows_def)
qed

subsection \<open>Retries\<close>

text \<open>
  C25.  The retry loop of the write operations ends after at most 32 attempts and returns the result of the
  last attempt it made, which is the first that did not fail with a retryable conflict or else the
  32nd.  So a write that keeps conflicting returns the storage engine's conflict and never
  \<open>RetryExhausted\<close>.
\<close>

theorem retries_return_last_attempt:
  "\<exists>i < GRAPH_TXN_MAX_RETRIES. graph_txn_retries attempt = attempt i \<and>
     (\<forall>j < i. \<exists>e. attempt j = Inl e \<and> is_retryable_write_conflict e) \<and>
     (i + 1 < GRAPH_TXN_MAX_RETRIES \<longrightarrow> \<not> (\<exists>e. attempt i = Inl e \<and> is_retryable_write_conflict e))"
  using retry_loop_last [of 0 GRAPH_TXN_MAX_RETRIES attempt]
  by (auto simp: graph_txn_retries_def GRAPH_TXN_MAX_RETRIES_def)

theorem retries_return_last_attempt_witness:
  "graph_txn_retries (\<lambda>i. if i < 2 then Inl (Slate (Slate_Error SK_Transaction [])) else Inr i) = Inr 2"
proof -
  let ?run = "\<lambda>i. if i < 2 then Inl (Slate (Slate_Error SK_Transaction [])) else Inr i :: nat result"
  obtain i where i: "graph_txn_retries ?run = ?run i" "\<forall>j < i. \<exists>e. ?run j = Inl e \<and> is_retryable_write_conflict e"
    "i + 1 < GRAPH_TXN_MAX_RETRIES \<longrightarrow> \<not> (\<exists>e. ?run i = Inl e \<and> is_retryable_write_conflict e)" "i < GRAPH_TXN_MAX_RETRIES"
    using retries_return_last_attempt [of ?run] by auto
  have "\<not> i < 2" using i(3,4) by (auto simp: GRAPH_TXN_MAX_RETRIES_def is_retryable_write_conflict_def)
  moreover have "\<not> 2 < i" using i(2) by auto
  ultimately show ?thesis using i(1) by simp
qed

end
