(* ===== verification/Adjacency.thy ===== *)
theory Adjacency
  imports Model
begin

text \<open>
  Adjacency in memory: the map from a vertex to its destinations that the sparse kernels traverse
  (\<open>src/sparse_kernel/mod.rs\<close>), the overlay of edges changed since a generation was built
  (\<open>GraphTopologyOverlay\<close> in \<open>src/shard/topology_tail.rs\<close>), the patch the incremental index build
  applies to an adjacency (\<open>src/engine/index_store.rs\<close>), and the breadth-first kernel
  \<open>expand_rust\<close>.
\<close>

subsection \<open>Adjacency\<close>

type_synonym adjacency = "(vertex_id, vertex_id btree_set) btree_map"

definition adj_edges :: "adjacency \<Rightarrow> (vertex_id \<times> vertex_id) set" where
  "adj_edges adj = {(a, b). \<exists>ds. bt_get adj a = Some ds \<and> b \<in> set ds}"

text \<open>What every adjacency the builders make satisfies: ordered rows, none of them empty.\<close>

definition adj_canonical :: "adjacency \<Rightarrow> bool" where
  "adj_canonical adj \<longleftrightarrow> bt_inv adj \<and> (\<forall>(a, ds) \<in> set adj. bs_inv ds \<and> ds \<noteq> [])"

lemma adj_edges_iff: "(a, b) \<in> adj_edges adj \<longleftrightarrow> (\<exists>ds. bt_get adj a = Some ds \<and> b \<in> set ds)"
  by (simp add: adj_edges_def)

lemma adj_edges_Nil [simp]: "adj_edges [] = {}"
  by (simp add: adj_edges_def)

lemma adj_canonical_Nil [simp]: "adj_canonical []"
  by (simp add: adj_canonical_def)

lemma adj_canonicalD:
  assumes "adj_canonical adj"
  shows "bt_inv adj" "bt_get adj a = Some ds \<Longrightarrow> bs_inv ds \<and> ds \<noteq> []"
  using assms by (auto simp: adj_canonical_def bt_get_Some_set)

lemma adj_canonicalI:
  assumes "bt_inv adj" "\<And>a ds. bt_get adj a = Some ds \<Longrightarrow> bs_inv ds \<and> ds \<noteq> []"
  shows "adj_canonical adj"
  using assms by (auto simp: adj_canonical_def bt_get_Some_set)

text \<open>An adjacency is determined by its edges.\<close>

lemma adj_row:
  assumes "adj_canonical adj"
  shows "bt_get adj a = None \<longleftrightarrow> (\<forall>b. (a, b) \<notin> adj_edges adj)"
    "bt_get adj a = Some ds \<Longrightarrow> set ds = {b. (a, b) \<in> adj_edges adj}"
proof -
  show "bt_get adj a = Some ds \<Longrightarrow> set ds = {b. (a, b) \<in> adj_edges adj}"
    by (auto simp: adj_edges_iff)
  show "bt_get adj a = None \<longleftrightarrow> (\<forall>b. (a, b) \<notin> adj_edges adj)"
  proof (cases "bt_get adj a")
    case (Some ds)
    then obtain b where "b \<in> set ds" using adj_canonicalD(2) [OF assms Some] by (cases ds) auto
    with Some show ?thesis by (auto simp: adj_edges_iff)
  qed (simp add: adj_edges_iff)
qed

lemma adj_canonical_ext:
  assumes "adj_canonical x" "adj_canonical y" "adj_edges x = adj_edges y"
  shows "x = y"
proof (rule bt_ext)
  show "bt_inv x" "bt_inv y" using assms adj_canonicalD by auto
  fix a
  show "bt_get x a = bt_get y a"
  proof (cases "bt_get x a")
    case None
    then show ?thesis using adj_row(1) assms by metis
  next
    case (Some ds)
    then obtain ds' where ds': "bt_get y a = Some ds'"
      using adj_row(1) assms by (metis not_None_eq)
    then have "set ds = set ds'" using adj_row(2) assms Some by metis
    then have "ds = ds'"
      using adj_canonicalD(2) [OF assms(1) Some] adj_canonicalD(2) [OF assms(2) ds'] by (auto intro: bs_ext)
    with Some ds' show ?thesis by simp
  qed
qed

lemma bs_insert_ne [simp]: "bs_insert x s \<noteq> []"
  by (cases s) auto

definition adj_insert :: "vertex_id \<Rightarrow> vertex_id \<Rightarrow> adjacency \<Rightarrow> adjacency" where
  "adj_insert src dst adj =
     bt_insert src (bs_insert dst (case bt_get adj src of Some ds \<Rightarrow> ds | None \<Rightarrow> [])) adj"

lemma adj_insert_edges:
  assumes "adj_canonical adj"
  shows "adj_canonical (adj_insert src dst adj)" "adj_edges (adj_insert src dst adj) = insert (src, dst) (adj_edges adj)"
proof -
  let ?old = "case bt_get adj src of Some ds \<Rightarrow> ds | None \<Rightarrow> []"
  have inv: "bt_inv adj" using assms adj_canonicalD by blast
  show "adj_canonical (adj_insert src dst adj)"
  proof (rule adj_canonicalI)
    show "bt_inv (adj_insert src dst adj)" using inv by (simp add: adj_insert_def)
    fix a ds assume "bt_get (adj_insert src dst adj) a = Some ds"
    then have ds: "if a = src then ds = bs_insert dst ?old else bt_get adj a = Some ds"
      using inv by (simp add: adj_insert_def split: if_splits)
    have "bs_inv ?old" using adj_canonicalD(2) [OF assms] by (cases "bt_get adj src") auto
    then have "bs_inv (bs_insert dst ?old)" "bs_insert dst ?old \<noteq> []" by simp_all
    then show "bs_inv ds \<and> ds \<noteq> []"
      using ds adj_canonicalD(2) [OF assms, of a ds] by (cases "a = src") auto
  qed
  show "adj_edges (adj_insert src dst adj) = insert (src, dst) (adj_edges adj)"
    using inv by (auto simp: adj_edges_iff adj_insert_def split: if_splits option.splits)
qed

subsection \<open>The overlay\<close>

record graph_topology_overlay =
  gto_states :: "(vertex_id, (vertex_id, bool) btree_map) btree_map"

definition overlay_default :: graph_topology_overlay where
  "overlay_default = \<lparr> gto_states = [] \<rparr>"

definition overlay_set :: "graph_topology_overlay \<Rightarrow> vertex_id \<Rightarrow> vertex_id \<Rightarrow> bool \<Rightarrow> graph_topology_overlay" where
  "overlay_set ov src dst exists =
     ov\<lparr> gto_states := bt_insert src
           (bt_insert dst exists (case bt_get (gto_states ov) src of Some ds \<Rightarrow> ds | None \<Rightarrow> []))
           (gto_states ov) \<rparr>"

definition overlay_state :: "graph_topology_overlay \<Rightarrow> vertex_id \<Rightarrow> vertex_id \<Rightarrow> bool option" where
  "overlay_state ov src dst = Option.bind (bt_get (gto_states ov) src) (\<lambda>ds. bt_get ds dst)"

definition overlay_entries :: "graph_topology_overlay \<Rightarrow> (vertex_id \<times> vertex_id \<times> bool) list" where
  "overlay_entries ov =
     concat (map (\<lambda>(src, ds). map (\<lambda>(dst, exists). (src, dst, exists)) ds) (gto_states ov))"

definition try_from_usize :: "nat \<Rightarrow> u64" where
  "try_from_usize n = (if n < 2 ^ 64 then of_nat n else u64_max)"

definition in_neighbor_scan_work :: "graph_topology_overlay \<Rightarrow> u64" where
  "in_neighbor_scan_work ov = try_from_usize (length (gto_states ov))"

definition out_neighbor_scan_work :: "graph_topology_overlay \<Rightarrow> vertex_id \<Rightarrow> u64" where
  "out_neighbor_scan_work ov src =
     (case bt_get (gto_states ov) src of Some ds \<Rightarrow> try_from_usize (length ds) | None \<Rightarrow> 0)"

definition apply_in_neighbors ::
    "graph_topology_overlay \<Rightarrow> vertex_id \<Rightarrow> vertex_id btree_set \<Rightarrow> vertex_id btree_set \<times> u64" where
  "apply_in_neighbors ov dst neighbors =
     (foldl (\<lambda>neighbors (src, ds).
        case bt_get ds dst of
          None \<Rightarrow> neighbors
        | Some exists \<Rightarrow> if exists then bs_insert src neighbors else bs_remove src neighbors)
      neighbors (gto_states ov),
      in_neighbor_scan_work ov)"

definition apply_out_neighbors ::
    "graph_topology_overlay \<Rightarrow> vertex_id \<Rightarrow> vertex_id btree_set \<Rightarrow> vertex_id btree_set \<times> u64" where
  "apply_out_neighbors ov src neighbors =
     (case bt_get (gto_states ov) src of
        None \<Rightarrow> (neighbors, 0)
      | Some ds \<Rightarrow>
          (foldl (\<lambda>neighbors (dst, exists).
             if exists then bs_insert dst neighbors else bs_remove dst neighbors) neighbors ds,
           out_neighbor_scan_work ov src))"

definition overlay_inv :: "graph_topology_overlay \<Rightarrow> bool" where
  "overlay_inv ov \<longleftrightarrow> bt_inv (gto_states ov) \<and> (\<forall>(a, ds) \<in> set (gto_states ov). bt_inv ds)"

lemma overlay_invD:
  assumes "overlay_inv ov"
  shows "bt_inv (gto_states ov)" "bt_get (gto_states ov) a = Some ds \<Longrightarrow> bt_inv ds"
  using assms by (auto simp: overlay_inv_def bt_get_Some_set)

lemma overlay_inv_default [simp]: "overlay_inv overlay_default"
  by (simp add: overlay_inv_def overlay_default_def)

lemma overlay_state_default [simp]: "overlay_state overlay_default a b = None"
  by (simp add: overlay_state_def overlay_default_def)

lemma overlay_set_inv [simp]:
  assumes "overlay_inv ov" shows "overlay_inv (overlay_set ov src dst exists)"
proof -
  let ?ds = "case bt_get (gto_states ov) src of Some ds \<Rightarrow> ds | None \<Rightarrow> []"
  note inv = overlay_invD [OF assms]
  have ds: "bt_inv ?ds" using inv(2) by (cases "bt_get (gto_states ov) src") auto
  have "bt_inv ds" if "(a, ds) \<in> set (bt_insert src (bt_insert dst exists ?ds) (gto_states ov))" for a ds
    using set_bt_insert [OF that] assms ds by (auto simp: overlay_inv_def)
  then show ?thesis using inv(1) by (auto simp: overlay_inv_def overlay_set_def)
qed

lemma overlay_state_set [simp]:
  assumes "overlay_inv ov"
  shows "overlay_state (overlay_set ov src dst exists) a b = (if a = src \<and> b = dst then Some exists else overlay_state ov a b)"
proof -
  let ?ds = "case bt_get (gto_states ov) src of Some ds \<Rightarrow> ds | None \<Rightarrow> []"
  note inv = overlay_invD [OF assms]
  have ds: "bt_inv ?ds" using inv(2) by (cases "bt_get (gto_states ov) src") auto
  show ?thesis
    using inv(1) ds by (cases "bt_get (gto_states ov) src") (auto simp: overlay_state_def overlay_set_def)
qed

text \<open>Setting a list of changes keeps the last one of each pair.\<close>

lemma overlay_fold:
  assumes "overlay_inv ov"
  shows "overlay_inv (foldl (\<lambda>ov (src, dst, exists). overlay_set ov src dst exists) ov changes)"
    "overlay_state (foldl (\<lambda>ov (src, dst, exists). overlay_set ov src dst exists) ov changes) a b =
      (case map_of (rev (map (\<lambda>(src, dst, exists). ((src, dst), exists)) changes)) (a, b) of
         Some e \<Rightarrow> Some e | None \<Rightarrow> overlay_state ov a b)"
  using assms
  by (induction changes arbitrary: ov) (auto simp: map_add_def split: option.splits)

lemma overlay_entries_state:
  assumes "overlay_inv ov"
  shows "(a, b, e) \<in> set (overlay_entries ov) \<longleftrightarrow> overlay_state ov a b = Some e"
proof -
  note inv = overlay_invD [OF assms]
  have "(a, b, e) \<in> set (overlay_entries ov) \<longleftrightarrow> (\<exists>ds. (a, ds) \<in> set (gto_states ov) \<and> (b, e) \<in> set ds)"
    by (force simp: overlay_entries_def)
  also have "\<dots> \<longleftrightarrow> (\<exists>ds. bt_get (gto_states ov) a = Some ds \<and> bt_get ds b = Some e)"
    using bt_get_Some_set [OF inv(1)] bt_get_Some_set [OF inv(2)] by metis
  finally show ?thesis by (simp add: overlay_state_def Option.bind_eq_Some_conv)
qed

text \<open>The patch of the incremental build; a source that loses its last destination is dropped.\<close>

definition apply_overlay_entry :: "adjacency \<Rightarrow> vertex_id \<times> vertex_id \<times> bool \<Rightarrow> adjacency" where
  "apply_overlay_entry adj = (\<lambda>(src, dst, exists).
     if exists then adj_insert src dst adj
     else case bt_get adj src of
       Some ds \<Rightarrow>
         (let ds' = bs_remove dst ds in
          if ds' = [] then bt_remove src adj else bt_insert src ds' adj)
     | None \<Rightarrow> adj)"

definition apply_overlay :: "adjacency \<Rightarrow> graph_topology_overlay \<Rightarrow> adjacency" where
  "apply_overlay adj ov = foldl apply_overlay_entry adj (overlay_entries ov)"

lemma apply_entry_edges:
  assumes "adj_canonical adj"
  shows "adj_canonical (apply_overlay_entry adj (src, dst, exists))"
    "(a, b) \<in> adj_edges (apply_overlay_entry adj (src, dst, exists)) \<longleftrightarrow>
      (if a = src \<and> b = dst then exists else (a, b) \<in> adj_edges adj)"
proof -
  have inv: "bt_inv adj" using assms adj_canonicalD by blast
  have "adj_canonical (apply_overlay_entry adj (src, dst, exists)) \<and>
    ((a, b) \<in> adj_edges (apply_overlay_entry adj (src, dst, exists)) \<longleftrightarrow>
      (if a = src \<and> b = dst then exists else (a, b) \<in> adj_edges adj))"
  proof (cases "exists \<or> bt_get adj src = None")
    case True
    then show ?thesis
      using adj_insert_edges [OF assms, of src dst] assms
      by (cases exists) (auto simp: apply_overlay_entry_def, simp add: adj_edges_iff)
  next
    case False
    then obtain ds where ds: "bt_get adj src = Some ds" "\<not> exists" by auto
    let ?ds = "bs_remove dst ds"
    have sd: "bs_inv ds" using adj_canonicalD(2) [OF assms ds(1)] by simp
    have eq: "apply_overlay_entry adj (src, dst, exists) = (if ?ds = [] then bt_remove src adj else bt_insert src ?ds adj)"
      using ds by (simp add: apply_overlay_entry_def Let_def)
    have get: "bt_get (apply_overlay_entry adj (src, dst, exists)) x =
        (if x = src then if ?ds = [] then None else Some ?ds else bt_get adj x)" for x
      using inv by (simp add: eq)
    have "adj_canonical (apply_overlay_entry adj (src, dst, exists))"
    proof (rule adj_canonicalI)
      show "bt_inv (apply_overlay_entry adj (src, dst, exists))" using inv by (simp add: eq)
      fix x xs assume "bt_get (apply_overlay_entry adj (src, dst, exists)) x = Some xs"
      then show "bs_inv xs \<and> xs \<noteq> []"
        using sd adj_canonicalD(2) [OF assms, of x xs] by (auto simp: get split: if_splits)
    qed
    moreover have rm: "b \<in> set ?ds \<longleftrightarrow> b \<noteq> dst \<and> b \<in> set ds" "?ds = [] \<Longrightarrow> b \<in> set ds \<Longrightarrow> b = dst"
      using set_bs_remove [OF sd, of dst] by auto
    have "(a, b) \<in> adj_edges (apply_overlay_entry adj (src, dst, exists)) \<longleftrightarrow>
      (if a = src \<and> b = dst then exists else (a, b) \<in> adj_edges adj)"
      unfolding adj_edges_iff get using ds rm by auto
    ultimately show ?thesis by blast
  qed
  then show "adj_canonical (apply_overlay_entry adj (src, dst, exists))"
    "(a, b) \<in> adj_edges (apply_overlay_entry adj (src, dst, exists)) \<longleftrightarrow>
      (if a = src \<and> b = dst then exists else (a, b) \<in> adj_edges adj)"
    by auto
qed

lemma apply_entries_edges:
  assumes "adj_canonical adj"
    and "\<And>a b e e'. (a, b, e) \<in> set es \<Longrightarrow> (a, b, e') \<in> set es \<Longrightarrow> e = e'"
  shows "adj_canonical (foldl apply_overlay_entry adj es)"
    "(a, b) \<in> adj_edges (foldl apply_overlay_entry adj es) \<longleftrightarrow>
      (a, b, True) \<in> set es \<or> (a, b) \<in> adj_edges adj \<and> (a, b, False) \<notin> set es"
proof -
  have "adj_canonical (foldl apply_overlay_entry adj es) \<and>
    ((a, b) \<in> adj_edges (foldl apply_overlay_entry adj es) \<longleftrightarrow>
      (a, b, True) \<in> set es \<or> (a, b) \<in> adj_edges adj \<and> (a, b, False) \<notin> set es)"
    using assms
  proof (induction es arbitrary: adj)
    case (Cons x es)
    obtain src dst e where x: "x = (src, dst, e)" by (cases x)
    note step = apply_entry_edges [OF Cons.prems(1), where src = src and dst = dst and exists = e]
    have "(src, dst, \<not> e) \<notin> set es" using Cons.prems(2) [of src dst e "\<not> e"] x by auto
    moreover have "adj_canonical (foldl apply_overlay_entry (apply_overlay_entry adj x) es) \<and>
      ((a, b) \<in> adj_edges (foldl apply_overlay_entry (apply_overlay_entry adj x) es) \<longleftrightarrow>
        (a, b, True) \<in> set es \<or> (a, b) \<in> adj_edges (apply_overlay_entry adj x) \<and> (a, b, False) \<notin> set es)"
      by (rule Cons.IH) (use step(1) Cons.prems(2) x in auto)
    ultimately show ?case using step(2) x by (cases e) auto
  qed simp
  then show "adj_canonical (foldl apply_overlay_entry adj es)"
    "(a, b) \<in> adj_edges (foldl apply_overlay_entry adj es) \<longleftrightarrow>
      (a, b, True) \<in> set es \<or> (a, b) \<in> adj_edges adj \<and> (a, b, False) \<notin> set es"
    by auto
qed

lemma apply_overlay_edges:
  assumes "adj_canonical adj" "overlay_inv ov"
  shows "adj_canonical (apply_overlay adj ov)"
    "(a, b) \<in> adj_edges (apply_overlay adj ov) \<longleftrightarrow>
      (case overlay_state ov a b of Some e \<Rightarrow> e | None \<Rightarrow> (a, b) \<in> adj_edges adj)"
proof -
  have u: "e = e'" if "(a, b, e) \<in> set (overlay_entries ov)" "(a, b, e') \<in> set (overlay_entries ov)" for a b e e'
    using that by (simp add: overlay_entries_state [OF assms(2)])
  note f = apply_entries_edges [OF assms(1) u]
  show "adj_canonical (apply_overlay adj ov)" unfolding apply_overlay_def by (rule f(1)) assumption+
  have "(a, b) \<in> adj_edges (apply_overlay adj ov) \<longleftrightarrow>
      (a, b, True) \<in> set (overlay_entries ov) \<or> (a, b) \<in> adj_edges adj \<and> (a, b, False) \<notin> set (overlay_entries ov)"
    unfolding apply_overlay_def by (rule f(2)) assumption+
  then show "(a, b) \<in> adj_edges (apply_overlay adj ov) \<longleftrightarrow>
      (case overlay_state ov a b of Some e \<Rightarrow> e | None \<Rightarrow> (a, b) \<in> adj_edges adj)"
    by (auto simp: overlay_entries_state [OF assms(2)] split: option.splits)
qed

text \<open>The neighbour reads of a query patch a set of neighbours in place.\<close>

lemma toggle_fold:
  assumes "bs_inv (N :: 'a::linorder list)" "distinct (map fst xs)"
  shows "bs_inv (foldl (\<lambda>N (x, e). if e then bs_insert x N else bs_remove x N) N xs)"
    "b \<in> set (foldl (\<lambda>N (x, e). if e then bs_insert x N else bs_remove x N) N xs) \<longleftrightarrow>
      (case map_of xs b of Some e \<Rightarrow> e | None \<Rightarrow> b \<in> set N)"
proof -
  let ?f = "\<lambda>N (x, e). if e then bs_insert x N else bs_remove x N"
  have "bs_inv (foldl ?f N xs) \<and> (b \<in> set (foldl ?f N xs) \<longleftrightarrow> (case map_of xs b of Some e \<Rightarrow> e | None \<Rightarrow> b \<in> set N))"
    using assms
  proof (induction xs arbitrary: N)
    case (Cons y xs)
    obtain x e where y: "y = (x, e)" by (cases y)
    have "x \<notin> fst ` set xs" using Cons.prems(2) y by simp
    then have x: "map_of xs x = None" by (simp add: map_of_eq_None_iff)
    have inv: "bs_inv (?f N y)" "b \<in> set (?f N y) \<longleftrightarrow> (if b = x then e else b \<in> set N)"
      using Cons.prems(1) y by auto
    then show ?case
      using Cons.IH [OF inv(1)] Cons.prems(2) x y by (auto split: option.splits)
  qed simp
  then show "bs_inv (foldl ?f N xs)"
    "b \<in> set (foldl ?f N xs) \<longleftrightarrow> (case map_of xs b of Some e \<Rightarrow> e | None \<Rightarrow> b \<in> set N)"
    by auto
qed

lemma apply_out_neighbors_set:
  assumes "overlay_inv ov" "bs_inv N"
  shows "bs_inv (fst (apply_out_neighbors ov src N))"
    "b \<in> set (fst (apply_out_neighbors ov src N)) \<longleftrightarrow> (case overlay_state ov src b of Some e \<Rightarrow> e | None \<Rightarrow> b \<in> set N)"
proof -
  have "bs_inv (fst (apply_out_neighbors ov src N)) \<and>
    (b \<in> set (fst (apply_out_neighbors ov src N)) \<longleftrightarrow> (case overlay_state ov src b of Some e \<Rightarrow> e | None \<Rightarrow> b \<in> set N))"
  proof (cases "bt_get (gto_states ov) src")
    case (Some ds)
    have "distinct (map fst ds)" using bt_inv_distinct [OF overlay_invD(2) [OF assms(1) Some]] .
    from toggle_fold [OF assms(2) this] show ?thesis
      using Some by (simp add: apply_out_neighbors_def overlay_state_def bt_get_map_of)
  qed (use assms in \<open>simp add: apply_out_neighbors_def overlay_state_def\<close>)
  then show "bs_inv (fst (apply_out_neighbors ov src N))"
    "b \<in> set (fst (apply_out_neighbors ov src N)) \<longleftrightarrow> (case overlay_state ov src b of Some e \<Rightarrow> e | None \<Rightarrow> b \<in> set N)"
    by auto
qed

definition overlay_column :: "graph_topology_overlay \<Rightarrow> vertex_id \<Rightarrow> (vertex_id \<times> bool) list" where
  "overlay_column ov dst =
     concat (map (\<lambda>(src, ds). case bt_get ds dst of None \<Rightarrow> [] | Some e \<Rightarrow> [(src, e)]) (gto_states ov))"

lemma apply_in_column:
  "fst (apply_in_neighbors ov dst N) = foldl (\<lambda>N (x, e). if e then bs_insert x N else bs_remove x N) N (overlay_column ov dst)"
proof -
  have "foldl (\<lambda>neighbors (src, ds). case bt_get ds dst of None \<Rightarrow> neighbors
        | Some exists \<Rightarrow> if exists then bs_insert src neighbors else bs_remove src neighbors) N states =
      foldl (\<lambda>N (x, e). if e then bs_insert x N else bs_remove x N) N
        (concat (map (\<lambda>(src, ds). case bt_get ds dst of None \<Rightarrow> [] | Some e \<Rightarrow> [(src, e)]) states))"
    for states :: "(vertex_id \<times> (vertex_id \<times> bool) list) list"
    by (induction states arbitrary: N) (auto split: option.splits)
  then show ?thesis by (simp add: apply_in_neighbors_def overlay_column_def)
qed

lemma map_of_column:
  assumes "overlay_inv ov"
  shows "distinct (map fst (overlay_column ov dst))" "map_of (overlay_column ov dst) a = overlay_state ov a dst"
proof -
  let ?col = "\<lambda>states. concat (map (\<lambda>(src, ds). case bt_get ds dst of None \<Rightarrow> [] | Some e \<Rightarrow> [(src, e)]) states)"
  have keys: "fst ` set (?col states) \<subseteq> fst ` set states" for states :: "(vertex_id \<times> (vertex_id \<times> bool) list) list"
    by (force split: option.splits)
  have "distinct (map fst (?col states)) \<and> map_of (?col states) a = Option.bind (map_of states a) (\<lambda>ds. bt_get ds dst)"
    if "distinct (map fst states)" for states :: "(vertex_id \<times> (vertex_id \<times> bool) list) list"
    using that
  proof (induction states)
    case (Cons y states)
    obtain src ds where y: "y = (src, ds)" by (cases y)
    have src: "src \<notin> fst ` set states" using Cons.prems y by simp
    then have new: "src \<notin> fst ` set (?col states)" "map_of states src = None"
      using keys [of states] by (blast, simp add: map_of_eq_None_iff)
    then have "map_of (?col states) src = None" by (simp add: map_of_eq_None_iff)
    with Cons new y show ?case by (auto split: option.splits)
  qed simp
  from this [OF bt_inv_distinct [OF overlay_invD(1) [OF assms]]]
  show "distinct (map fst (overlay_column ov dst))" "map_of (overlay_column ov dst) a = overlay_state ov a dst"
    by (simp_all add: overlay_column_def overlay_state_def bt_get_map_of)
qed

lemma apply_in_neighbors_set:
  assumes "overlay_inv ov" "bs_inv N"
  shows "bs_inv (fst (apply_in_neighbors ov dst N))"
    "a \<in> set (fst (apply_in_neighbors ov dst N)) \<longleftrightarrow> (case overlay_state ov a dst of Some e \<Rightarrow> e | None \<Rightarrow> a \<in> set N)"
  unfolding apply_in_column using toggle_fold [OF assms(2) map_of_column(1) [OF assms(1)]] map_of_column(2) [OF assms(1)]
  by auto

subsection \<open>The breadth-first kernel\<close>

datatype sparse_kernel_backend = SK_Adjacency | SK_CompactCsc | SK_SuiteSparse

record sparse_traversal =
  st_vertices :: "vertex_id list"
  st_edge_visits :: u64
  st_backend :: sparse_kernel_backend

type_synonym expand_state = "vertex_id btree_set \<times> vertex_id btree_set \<times> u64"

definition expand_visit :: "vertex_id btree_set \<times> vertex_id btree_set \<Rightarrow> vertex_id \<Rightarrow> vertex_id btree_set \<times> vertex_id btree_set" where
  "expand_visit = (\<lambda>(seen, new) dst.
     if dst \<in> set seen then (seen, new) else (bs_insert dst seen, bs_insert dst new))"

definition expand_source :: "adjacency \<Rightarrow> expand_state \<Rightarrow> vertex_id \<Rightarrow> expand_state" where
  "expand_source adj = (\<lambda>(seen, new, visits) src.
     case bt_get adj src of
       None \<Rightarrow> (seen, new, visits)
     | Some neighbors \<Rightarrow>
         (case foldl expand_visit (seen, new) neighbors of
            (seen, new) \<Rightarrow> (seen, new, visits + of_nat (length neighbors))))"

fun expand_hops :: "adjacency \<Rightarrow> nat \<Rightarrow> vertex_id btree_set \<Rightarrow> vertex_id btree_set \<Rightarrow> u64 \<Rightarrow> vertex_id btree_set \<times> u64" where
  "expand_hops adj 0 frontier seen visits = (seen, visits)"
| "expand_hops adj (Suc hops) frontier seen visits =
     (case foldl (expand_source adj) (seen, [], visits) frontier of
        (seen, new, visits) \<Rightarrow> if new = [] then (seen, visits) else expand_hops adj hops new seen visits)"

definition expand_rust :: "adjacency \<Rightarrow> vertex_id list \<Rightarrow> 8 word \<Rightarrow> sparse_traversal" where
  "expand_rust adj starts hops =
     (let start_set = bs_of_list starts in
      case expand_hops adj (unat hops) start_set start_set 0 of
        (seen, edge_visits) \<Rightarrow>
          \<lparr> st_vertices = filter (\<lambda>vertex. vertex \<notin> set start_set) seen,
             st_edge_visits = edge_visits, st_backend = SK_Adjacency \<rparr>)"

lemma expand_visits:
  assumes "bs_inv seen" "bs_inv new"
  shows "case foldl expand_visit (seen, new) ds of (seen', new') \<Rightarrow>
    bs_inv seen' \<and> bs_inv new' \<and> set seen' = set seen \<union> set ds \<and> set new' = set new \<union> (set ds - set seen)"
  using assms
proof (induction ds arbitrary: seen new)
  case (Cons d ds)
  have "case foldl expand_visit (expand_visit (seen, new) d) ds of (seen', new') \<Rightarrow>
    bs_inv seen' \<and> bs_inv new' \<and> set seen' = set (fst (expand_visit (seen, new) d)) \<union> set ds \<and>
    set new' = set (snd (expand_visit (seen, new) d)) \<union> (set ds - set (fst (expand_visit (seen, new) d)))"
    using Cons.IH [of "fst (expand_visit (seen, new) d)" "snd (expand_visit (seen, new) d)"] Cons.prems
    by (auto simp: expand_visit_def split: prod.splits)
  then show ?case by (auto simp: expand_visit_def split: prod.splits if_splits)
qed simp

lemma expand_sources:
  assumes "bs_inv seen" "bs_inv new"
  shows "case foldl (expand_source adj) (seen, new, visits) frontier of (seen', new', visits') \<Rightarrow>
    bs_inv seen' \<and> bs_inv new' \<and> set seen' = set seen \<union> adj_edges adj `` set frontier \<and>
    set new' = set new \<union> (adj_edges adj `` set frontier - set seen)"
  using assms
proof (induction frontier arbitrary: seen new visits)
  case (Cons src frontier)
  obtain seen1 new1 visits1 where step: "expand_source adj (seen, new, visits) src = (seen1, new1, visits1)"
    by (cases "expand_source adj (seen, new, visits) src") auto
  have img: "adj_edges adj `` {src} = (case bt_get adj src of None \<Rightarrow> {} | Some ds \<Rightarrow> set ds)"
    by (auto simp: adj_edges_iff split: option.splits)
  have one: "bs_inv seen1 \<and> bs_inv new1 \<and> set seen1 = set seen \<union> adj_edges adj `` {src} \<and>
      set new1 = set new \<union> (adj_edges adj `` {src} - set seen)"
  proof (cases "bt_get adj src")
    case None
    then show ?thesis using step Cons.prems by (simp add: expand_source_def img)
  next
    case (Some ds)
    then show ?thesis
      using step expand_visits [OF Cons.prems, of ds] by (auto simp: expand_source_def img split: prod.splits)
  qed
  have im: "adj_edges adj `` set (src # frontier) = adj_edges adj `` {src} \<union> adj_edges adj `` set frontier"
    by auto
  show ?case
    using Cons.IH [of seen1 new1 visits1] one step unfolding im by (auto split: prod.splits)
qed simp

text \<open>The vertices within \<open>n\<close> hops of a set.\<close>

fun within_hops :: "(vertex_id \<times> vertex_id) set \<Rightarrow> nat \<Rightarrow> vertex_id set \<Rightarrow> vertex_id set" where
  "within_hops E 0 X = X"
| "within_hops E (Suc n) X = within_hops E n (X \<union> E `` X)"

lemma within_hops_closed: "E `` X \<subseteq> X \<Longrightarrow> within_hops E n X = X"
  by (induction n) (simp_all add: sup.absorb1)

lemma within_hops_path: "x \<in> within_hops E n X \<longleftrightarrow> (\<exists>i \<le> n. \<exists>y \<in> X. (y, x) \<in> E ^^ i)"
proof (induction n arbitrary: X)
  case (Suc n)
  show ?case
  proof
    assume "x \<in> within_hops E (Suc n) X"
    then obtain i y where i: "i \<le> n" "y \<in> X \<union> E `` X" "(y, x) \<in> E ^^ i" using Suc by auto
    show "\<exists>i \<le> Suc n. \<exists>y \<in> X. (y, x) \<in> E ^^ i"
    proof (cases "y \<in> X")
      case True
      then show ?thesis using i by (intro exI [of _ i]) auto
    next
      case False
      then obtain z where "z \<in> X" "(z, y) \<in> E" using i(2) by auto
      then show ?thesis using i relpow_Suc_I2 [of z y E x i] by (intro exI [of _ "Suc i"]) auto
    qed
  next
    assume "\<exists>i \<le> Suc n. \<exists>y \<in> X. (y, x) \<in> E ^^ i"
    then obtain i y where i: "i \<le> Suc n" "y \<in> X" "(y, x) \<in> E ^^ i" by auto
    have "\<exists>i \<le> n. \<exists>y \<in> X \<union> E `` X. (y, x) \<in> E ^^ i"
    proof (cases i)
      case 0
      then show ?thesis using i by (intro exI [of _ 0]) auto
    next
      case (Suc j)
      then obtain z where "(y, z) \<in> E" "(z, x) \<in> E ^^ j" using relpow_Suc_D2 [of y x j E] i(3) by auto
      then show ?thesis using i(1,2) Suc by (intro exI [of _ j]) auto
    qed
    then show "x \<in> within_hops E (Suc n) X" using Suc by simp
  qed
qed simp

lemma expand_hops_set:
  assumes "bs_inv seen" "set frontier \<subseteq> set seen" "adj_edges adj `` (set seen - set frontier) \<subseteq> set seen"
  shows "bs_inv (fst (expand_hops adj n frontier seen visits))"
    "set (fst (expand_hops adj n frontier seen visits)) = within_hops (adj_edges adj) n (set seen)"
proof -
  have "bs_inv (fst (expand_hops adj n frontier seen visits)) \<and>
    set (fst (expand_hops adj n frontier seen visits)) = within_hops (adj_edges adj) n (set seen)"
    using assms
  proof (induction n arbitrary: frontier seen visits)
    case (Suc n)
    let ?E = "adj_edges adj"
    obtain seen1 new1 visits1 where step: "foldl (expand_source adj) (seen, [], visits) frontier = (seen1, new1, visits1)"
      by (cases "foldl (expand_source adj) (seen, [], visits) frontier") auto
    have s: "bs_inv seen1" "bs_inv new1" "set seen1 = set seen \<union> ?E `` set frontier"
        "set new1 = ?E `` set frontier - set seen"
      using expand_sources [OF Suc.prems(1), where new = "[]" and adj = adj and visits = visits and frontier = frontier] step by auto
    have all: "set seen1 = set seen \<union> ?E `` set seen" using s(3) Suc.prems(2,3) by blast
    have rest: "?E `` (set seen1 - set new1) \<subseteq> set seen1" using s(3,4) Suc.prems(2,3) by blast
    show ?case
    proof (cases "new1 = []")
      case True
      then have "?E `` set seen1 \<subseteq> set seen1" using rest by simp
      then have "within_hops ?E n (set seen1) = set seen1" by (rule within_hops_closed)
      then show ?thesis using s(1) by (simp add: step True all [symmetric])
    next
      case False
      have "set new1 \<subseteq> set seen1" using s(3,4) by blast
      from Suc.IH [OF s(1) this rest, of visits1] show ?thesis by (simp add: step False all [symmetric])
    qed
  qed simp
  then show "bs_inv (fst (expand_hops adj n frontier seen visits))"
    "set (fst (expand_hops adj n frontier seen visits)) = within_hops (adj_edges adj) n (set seen)"
    by auto
qed

lemma expand_rust_vertices:
  "bs_inv (st_vertices (expand_rust adj starts hops))"
  "set (st_vertices (expand_rust adj starts hops)) = within_hops (adj_edges adj) (unat hops) (set starts) - set starts"
proof -
  let ?run = "expand_hops adj (unat hops) (bs_of_list starts) (bs_of_list starts) 0"
  have v: "st_vertices (expand_rust adj starts hops) = filter (\<lambda>x. x \<notin> set starts) (fst ?run)"
    by (simp add: expand_rust_def Let_def split_beta)
  have r: "bs_inv (fst ?run)" "set (fst ?run) = within_hops (adj_edges adj) (unat hops) (set starts)"
    using expand_hops_set [of "bs_of_list starts" "bs_of_list starts" adj "unat hops" 0] by simp_all
  show "bs_inv (st_vertices (expand_rust adj starts hops))" using r(1) by (simp add: v)
  show "set (st_vertices (expand_rust adj starts hops)) = within_hops (adj_edges adj) (unat hops) (set starts) - set starts"
    unfolding v r(2) [symmetric] by (simp add: set_diff_eq)
qed

end
