(* ===== verification/Csc_Matrix.thy ===== *)
theory Csc_Matrix
  imports Adjacency Rust_Text
begin

text \<open>
  The compressed sparse column form of an adjacency, as \<open>src/sparse_kernel/mod.rs\<close> builds it and as
  the index stores it: a sorted dictionary of vertices, one pointer per vertex into a flat array of
  destination ordinals, and the checks and checksum of \<open>src/engine.rs\<close>.
\<close>

subsection \<open>Slices\<close>

definition slice_get :: "'a list \<Rightarrow> nat \<Rightarrow> nat \<Rightarrow> 'a list option" where
  "slice_get xs start end =
     (if start \<le> end \<and> end \<le> length xs then Some (take (end - start) (drop start xs)) else None)"

definition nth_get :: "'a list \<Rightarrow> nat \<Rightarrow> 'a option" where
  "nth_get xs i = (if i < length xs then Some (xs ! i) else None)"

function binary_search :: "'a::linorder list \<Rightarrow> 'a \<Rightarrow> nat \<Rightarrow> nat \<Rightarrow> nat option" where
  "binary_search xs x lo hi =
     (if lo < hi
      then let mid = (lo + hi) div 2 in
        if xs ! mid = x then Some mid
        else if xs ! mid < x then binary_search xs x (mid + 1) hi
        else binary_search xs x lo mid
      else None)"
  by pat_completeness auto
termination
  by (relation "measure (\<lambda>(xs, x, lo, hi). hi - lo)") auto

declare binary_search.simps [simp del]

lemma binary_search_Some: "binary_search xs x lo hi = Some i \<Longrightarrow> hi \<le> length xs \<Longrightarrow> lo \<le> i \<and> i < hi \<and> xs ! i = x"
proof (induction xs x lo hi rule: binary_search.induct)
  case (1 xs x lo hi)
  from 1(3) have lt: "lo < hi" by (simp add: binary_search.simps [of xs x lo hi] split: if_splits)
  let ?mid = "(lo + hi) div 2"
  have mid: "lo \<le> ?mid" "?mid < hi" using lt by auto
  consider "xs ! ?mid = x" | "xs ! ?mid \<noteq> x" "xs ! ?mid < x" | "xs ! ?mid \<noteq> x" "\<not> xs ! ?mid < x" by blast
  then show ?case
  proof cases
    case 1
    then show ?thesis using \<open>binary_search xs x lo hi = Some i\<close> lt mid by (simp add: binary_search.simps [of xs x lo hi])
  next
    case 2
    then have "binary_search xs x (?mid + 1) hi = Some i"
      using 1(3) lt by (simp add: binary_search.simps [of xs x lo hi])
    from "1.IH"(1) [OF lt refl 2(1) 2(2) this \<open>hi \<le> length xs\<close>] mid show ?thesis by auto
  next
    case 3
    then have "binary_search xs x lo ?mid = Some i"
      using 1(3) lt by (simp add: binary_search.simps [of xs x lo hi])
    from "1.IH"(2) [OF lt refl 3(1) 3(2) this] mid \<open>hi \<le> length xs\<close> show ?thesis by auto
  qed
qed

lemma binary_search_finds:
  "sorted_wrt (<) xs \<Longrightarrow> lo \<le> i \<Longrightarrow> i < hi \<Longrightarrow> hi \<le> length xs \<Longrightarrow> x = xs ! i \<Longrightarrow> binary_search xs x lo hi = Some i"
proof (induction xs x lo hi rule: binary_search.induct)
  case (1 xs x lo hi)
  let ?mid = "(lo + hi) div 2"
  have lt: "lo < hi" using "1.prems" by simp
  have mid: "lo \<le> ?mid" "?mid < hi" using lt by auto
  have less: "xs ! a < xs ! b" if "a < b" "b < length xs" for a b
    using "1.prems"(1) that by (simp add: sorted_wrt_nth_less)
  consider "?mid = i" | "?mid < i" | "i < ?mid" by linarith
  then show ?case
  proof cases
    case 1
    then show ?thesis using lt "1.prems"(5) by (simp add: binary_search.simps [of xs "xs ! i" lo hi] Let_def)
  next
    case 2
    then have "xs ! ?mid < x" using less [of ?mid i] "1.prems" by simp
    then have "xs ! ?mid \<noteq> x" "xs ! ?mid < x" by simp_all
    then show ?thesis
      using "1.IH"(1) [OF lt refl] 2 lt "1.prems" by (simp add: binary_search.simps [of xs "xs ! i" lo hi] Let_def)
  next
    case 3
    then have "x < xs ! ?mid" using less [of i ?mid] mid "1.prems" by simp
    then have "xs ! ?mid \<noteq> x" "\<not> xs ! ?mid < x" by auto
    then show ?thesis
      using "1.IH"(2) [OF lt refl] 3 lt mid "1.prems" by (simp add: binary_search.simps [of xs "xs ! i" lo hi] Let_def)
  qed
qed

subsection \<open>The matrix\<close>

record graphblas_csc =
  csc_vertices :: "vertex_id list"
  csc_pointers :: "u64 list"
  csc_indices :: "u64 list"

definition GRAPHBLAS_INDEX_MAX :: nat where
  "GRAPHBLAS_INDEX_MAX = 2 ^ 60 - 1"

definition graphblas_vertices_from_adjacency :: "adjacency \<Rightarrow> vertex_id list result" where
  "graphblas_vertices_from_adjacency adj =
     (let vertices = foldl (\<lambda>vs (src, dsts). bs_extend (bs_insert src vs) dsts) [] adj in
      if GRAPHBLAS_INDEX_MAX < length vertices
      then Inl (SparseKernel ''SuiteSparseGraphBlas''
             (show_nat (length vertices) @ '' local vertices exceed GraphBLAS index limit''))
      else Inr vertices)"

definition csc_vertex_ordinal :: "vertex_id list \<Rightarrow> vertex_id \<Rightarrow> string \<Rightarrow> u64 result" where
  "csc_vertex_ordinal vertices vertex role =
     map_ok of_nat (ok_or (SparseKernel ''SuiteSparseGraphBlas''
       (''missing CSC ordinal for '' @ role @ '' vertex '' @ show_u64 vertex))
       (binary_search vertices vertex 0 (length vertices)))"

text \<open>
  \<open>graphblas_csc_from_adjacency\<close>: row lengths are counted one place to the right, summed up into
  pointers, and the destinations written at a running offset per source.
\<close>

definition csc_count_rows :: "vertex_id list \<Rightarrow> adjacency \<Rightarrow> u64 list result" where
  "csc_count_rows vertices adj =
     fold_res (\<lambda>pointers (src, dsts).
       and_then (csc_vertex_ordinal vertices src ''source'') (\<lambda>src_ordinal.
       let i = unat src_ordinal + 1 in
       Inr (pointers[i := pointers ! i + of_nat (length dsts)])))
     (replicate (length vertices + 1) 0) adj"

definition csc_sum_pointers :: "u64 list \<Rightarrow> u64 list" where
  "csc_sum_pointers pointers =
     foldl (\<lambda>ps idx. ps[idx := ps ! idx + ps ! (idx - 1)]) pointers [1..<length pointers]"

definition csc_fill_row :: "vertex_id list \<Rightarrow> u64 list \<times> u64 list \<Rightarrow> vertex_id \<times> vertex_id list \<Rightarrow> (u64 list \<times> u64 list) result" where
  "csc_fill_row vertices = (\<lambda>(indices, offsets) (src, dsts).
     and_then (csc_vertex_ordinal vertices src ''source'') (\<lambda>src_ordinal.
     let i = unat src_ordinal in
     fold_res (\<lambda>(indices, offsets) dst.
       and_then (csc_vertex_ordinal vertices dst ''destination'') (\<lambda>dst_ordinal.
       Inr (indices[unat (offsets ! i) := dst_ordinal], offsets[i := offsets ! i + 1])))
     (indices, offsets) dsts))"

definition graphblas_csc_from_adjacency :: "adjacency \<Rightarrow> graphblas_csc result" where
  "graphblas_csc_from_adjacency adj =
     and_then (graphblas_vertices_from_adjacency adj) (\<lambda>vertices.
     and_then (csc_count_rows vertices adj) (\<lambda>counts.
     let pointers = csc_sum_pointers counts;
         indices = replicate (unat (last pointers)) 0;
         offsets = take (length vertices) pointers
     in map_ok (\<lambda>(indices, offsets).
          \<lparr> csc_vertices = vertices, csc_pointers = pointers, csc_indices = indices \<rparr>)
        (fold_res (csc_fill_row vertices) (indices, offsets) adj)))"

definition canonical_adjacency_error :: "string \<Rightarrow> graph_error" where
  "canonical_adjacency_error reason = SparseKernel ''CanonicalAdjacency'' reason"

text \<open>\<open>usize\<close> has 64 bits, so the conversions of pointers and ordinals succeed.\<close>

definition csc_row :: "graphblas_csc \<Rightarrow> nat \<Rightarrow> u64 list result" where
  "csc_row csc i =
     ok_or (canonical_adjacency_error (''source row '' @ show_nat i @ '' exceeds the index array''))
       (slice_get (csc_indices csc) (unat (csc_pointers csc ! i)) (unat (csc_pointers csc ! (i + 1))))"

definition csc_neighbors :: "graphblas_csc \<Rightarrow> u64 list \<Rightarrow> vertex_id btree_set result" where
  "csc_neighbors csc row =
     fold_res (\<lambda>neighbors destination.
       map_ok (\<lambda>vertex. bs_insert vertex neighbors)
         (ok_or (canonical_adjacency_error
            (''destination ordinal '' @ show_u64 destination @ '' is out of bounds''))
            (nth_get (csc_vertices csc) (unat destination)))) [] row"

definition csc_to_adjacency :: "graphblas_csc \<Rightarrow> adjacency result" where
  "csc_to_adjacency csc =
     (if length (csc_pointers csc) \<noteq> length (csc_vertices csc) + 1
      then Inl (canonical_adjacency_error ''pointer count does not match the vertex dictionary'')
      else fold_res (\<lambda>adj (i, source).
             and_then (csc_row csc i) (\<lambda>row.
             if row = [] then Inr adj
             else map_ok (\<lambda>neighbors. bt_insert source neighbors adj) (csc_neighbors csc row)))
           [] (enumerate 0 (csc_vertices csc)))"

subsection \<open>Ordinals\<close>

definition csc_pos :: "vertex_id list \<Rightarrow> vertex_id \<Rightarrow> nat" where
  "csc_pos vs v = length (takeWhile (\<lambda>x. x \<noteq> v) vs)"

lemma csc_pos: "v \<in> set vs \<Longrightarrow> csc_pos vs v < length vs" "v \<in> set vs \<Longrightarrow> vs ! csc_pos vs v = v"
proof -
  assume v: "v \<in> set vs"
  then have "takeWhile (\<lambda>x. x \<noteq> v) vs \<noteq> vs" by (metis (mono_tags, lifting) set_takeWhileD)
  then show lt: "csc_pos vs v < length vs"
    unfolding csc_pos_def by (metis length_takeWhile_le nat_less_le takeWhile_eq_take take_all_iff)
  show "vs ! csc_pos vs v = v"
    using nth_length_takeWhile [of "\<lambda>x. x \<noteq> v" vs] lt by (simp add: csc_pos_def)
qed

lemma csc_pos_nth: "distinct vs \<Longrightarrow> i < length vs \<Longrightarrow> csc_pos vs (vs ! i) = i"
  using csc_pos [of "vs ! i" vs] by (simp add: nth_eq_iff_index_eq)

lemma csc_ordinal:
  assumes "bs_inv vs" "v \<in> set vs"
  shows "csc_vertex_ordinal vs v role = Inr (of_nat (csc_pos vs v))"
proof -
  have "binary_search vs v 0 (length vs) = Some (csc_pos vs v)"
    by (rule binary_search_finds) (use assms csc_pos [OF assms(2)] in \<open>simp_all add: bs_inv_def\<close>)
  then show ?thesis by (simp add: csc_vertex_ordinal_def)
qed

lemma csc_pos_less:
  assumes "bs_inv vs" "a \<in> set vs" "b \<in> set vs"
  shows "csc_pos vs a < csc_pos vs b \<longleftrightarrow> a < b"
proof -
  have "vs ! i < vs ! j" if "i < j" "j < length vs" for i j
    using assms(1) that by (simp add: bs_inv_def sorted_wrt_nth_less)
  then show ?thesis
    using csc_pos [OF assms(2)] csc_pos [OF assms(3)] by (metis linorder_neqE_nat not_less_iff_gr_or_eq)
qed

lemma csc_vertices_fold:
  "bs_inv vs \<Longrightarrow> bs_inv (foldl (\<lambda>vs (src, dsts). bs_extend (bs_insert src vs) dsts) vs adj) \<and>
    set (foldl (\<lambda>vs (src, dsts). bs_extend (bs_insert src vs) dsts) vs adj) =
      set vs \<union> (\<Union>(src, dsts) \<in> set adj. insert src (set dsts))"
  by (induction adj arbitrary: vs) (auto split: prod.splits)

subsection \<open>Counting and summing\<close>

lemma count_fold:
  fixes ps :: "'a::comm_monoid_add list"
  shows "length (foldl (\<lambda>ps (k, x). ps[k := ps ! k + x]) ps kxs) = length ps \<and>
    (j < length ps \<longrightarrow> foldl (\<lambda>ps (k, x). ps[k := ps ! k + x]) ps kxs ! j =
      ps ! j + sum_list (map snd (filter (\<lambda>(k, x). k = j) kxs)))"
  by (induction kxs arbitrary: ps) (auto simp: nth_list_update ac_simps)

lemma prefix_fold:
  fixes ps :: "'a::comm_monoid_add list"
  assumes "m \<le> length ps"
  shows "length (foldl (\<lambda>ps i. ps[i := ps ! i + ps ! (i - 1)]) ps [1..<m]) = length ps \<and>
    (\<forall>j < length ps. foldl (\<lambda>ps i. ps[i := ps ! i + ps ! (i - 1)]) ps [1..<m] ! j =
      (if j < m then sum_list (map ((!) ps) [0..<Suc j]) else ps ! j))"
  using assms
proof (induction m)
  case (Suc m)
  let ?f = "\<lambda>ps i. ps[i := ps ! i + ps ! (i - 1)]"
  show ?case
  proof (cases "m = 0")
    case False
    then have split: "[1..<Suc m] = [1..<m] @ [m]" by simp
    have IH: "length (foldl ?f ps [1..<m]) = length ps"
      "\<And>j. j < length ps \<Longrightarrow> foldl ?f ps [1..<m] ! j = (if j < m then sum_list (map ((!) ps) [0..<Suc j]) else ps ! j)"
      using Suc by auto
    have "m - 1 < m" "Suc (m - 1) = m" using False by auto
    then show ?thesis
      using IH Suc.prems unfolding split by (auto simp: nth_list_update ac_simps less_Suc_eq)
  qed simp
qed simp

lemma sum_filter_Suc:
  "sum_list (map snd (filter (\<lambda>(k, x). k \<le> Suc j) kxs)) =
    (sum_list (map snd (filter (\<lambda>(k, x). k \<le> j) kxs)) + sum_list (map snd (filter (\<lambda>(k, x). k = Suc j) kxs)) :: 'a::comm_monoid_add)"
  by (induction kxs) (auto simp: ac_simps le_Suc_eq)

lemma sum_by_key:
  "sum_list (map (\<lambda>m. sum_list (map snd (filter (\<lambda>(k, x). k = m) kxs))) [0..<Suc j]) =
    (sum_list (map snd (filter (\<lambda>(k, x). k \<le> j) kxs)) :: 'a::comm_monoid_add)"
proof (induction j)
  case (Suc j)
  have "[0..<Suc (Suc j)] = [0..<Suc j] @ [Suc j]" by simp
  then have "sum_list (map (\<lambda>m. sum_list (map snd (filter (\<lambda>(k, x). k = m) kxs))) [0..<Suc (Suc j)]) =
      sum_list (map (\<lambda>m. sum_list (map snd (filter (\<lambda>(k, x). k = m) kxs))) [0..<Suc j]) +
      sum_list (map snd (filter (\<lambda>(k, x). k = Suc j) kxs))"
    by (simp del: upt_Suc)
  then show ?case unfolding Suc sum_filter_Suc .
qed simp

text \<open>The number of edges of the sources before ordinal \<open>i\<close>.\<close>

definition csc_ptr :: "vertex_id list \<Rightarrow> adjacency \<Rightarrow> nat \<Rightarrow> nat" where
  "csc_ptr vs adj i = length (concat (map snd (filter (\<lambda>(k, ds). csc_pos vs k < i) adj)))"

abbreviation adj_size :: "adjacency \<Rightarrow> nat" where
  "adj_size adj \<equiv> length (concat (map snd adj))"

lemma csc_ptr_le: "csc_ptr vs adj i \<le> adj_size adj"
  by (induction adj) (auto simp: csc_ptr_def)

lemma csc_ptr_all: "\<forall>(k, ds) \<in> set adj. csc_pos vs k < i \<Longrightarrow> csc_ptr vs adj i = adj_size adj"
  by (induction adj) (auto simp: csc_ptr_def)

lemma csc_ptr_mono: "i \<le> j \<Longrightarrow> csc_ptr vs adj i \<le> csc_ptr vs adj j"
  by (induction adj) (auto simp: csc_ptr_def)

lemma csc_ptr_0 [simp]: "csc_ptr vs adj 0 = 0"
  by (simp add: csc_ptr_def)

lemma csc_pointers_spec:
  assumes vs: "bs_inv vs" "length vs < 2 ^ 64" and keys: "\<forall>(k, ds) \<in> set adj. k \<in> set vs"
  obtains counts where "csc_count_rows vs adj = Inr counts"
    "csc_sum_pointers counts = map (\<lambda>i. of_nat (csc_ptr vs adj i)) [0..<length vs + 1]"
proof -
  let ?kxs = "map (\<lambda>(k, ds). (csc_pos vs k + 1, of_nat (length ds) :: u64)) adj"
  let ?ps = "replicate (length vs + 1) (0 :: u64)"
  define counts where "counts = foldl (\<lambda>ps (k, x). ps[k := ps ! k + x]) ?ps ?kxs"
  have u: "unat (of_nat (csc_pos vs k) :: u64) = csc_pos vs k" if "k \<in> set vs" for k
    using csc_pos(1) [OF that] vs(2) by (intro unat_of_nat_u64) simp
  have "csc_count_rows vs adj = Inr (foldl (\<lambda>ps (k, ds). ps[csc_pos vs k + 1 := ps ! (csc_pos vs k + 1) + of_nat (length ds)]) ?ps adj)"
    unfolding csc_count_rows_def
    by (rule fold_res_all_ok) (use keys u csc_ordinal [OF vs(1)] in \<open>auto simp: Let_def\<close>)
  also have "\<dots> = Inr counts"
    unfolding counts_def foldl_map by (simp add: case_prod_unfold)
  finally have c: "csc_count_rows vs adj = Inr counts" .
  have len: "length counts = length vs + 1" and nth: "\<And>j. j < length vs + 1 \<Longrightarrow> counts ! j = sum_list (map snd (filter (\<lambda>(k, x). k = j) ?kxs))"
    unfolding counts_def using count_fold [of ?ps ?kxs] by (auto simp del: replicate_add replicate.simps)
  have ptr: "sum_list (map snd (filter (\<lambda>(k, x). k \<le> j) ?kxs)) = of_nat (csc_ptr vs adj j)" for j
    by (induction adj) (auto simp: csc_ptr_def)
  have sum: "sum_list (map ((!) counts) [0..<Suc j]) = of_nat (csc_ptr vs adj j)" if "j < length vs + 1" for j
  proof -
    have "sum_list (map ((!) counts) [0..<Suc j]) =
        sum_list (map (\<lambda>m. sum_list (map snd (filter (\<lambda>(k, x). k = m) ?kxs))) [0..<Suc j])"
      using nth that by (intro arg_cong [where f = sum_list] map_cong) auto
    then show ?thesis by (simp only: sum_by_key ptr)
  qed
  have "csc_sum_pointers counts = map (\<lambda>i. of_nat (csc_ptr vs adj i)) [0..<length vs + 1]"
    unfolding csc_sum_pointers_def using prefix_fold [of "length counts" counts] len sum
    by (intro nth_equalityI) (auto simp del: upt_Suc)
  with c show ?thesis by (rule that)
qed

subsection \<open>Filling the rows\<close>

abbreviation csc_ord :: "vertex_id list \<Rightarrow> vertex_id \<Rightarrow> u64" where
  "csc_ord vs v \<equiv> of_nat (csc_pos vs v)"

lemma csc_ptr_split:
  assumes vs: "bs_inv vs" and inv: "bt_inv (done @ (src, ds) # rest)"
    and keys: "\<forall>(k, ds) \<in> set (done @ (src, ds) # rest). k \<in> set vs"
  shows "csc_ptr vs (done @ (src, ds) # rest) (csc_pos vs src) = adj_size done"
    "csc_ptr vs (done @ (src, ds) # rest) (csc_pos vs src + 1) = adj_size done + length ds"
proof -
  have less: "csc_pos vs k < csc_pos vs src" if "(k, d) \<in> set done" for k d
    using csc_pos_less [OF vs, of k src] keys inv that by (force simp: bt_inv_def sorted_wrt_append)
  have more: "csc_pos vs src < csc_pos vs k" if "(k, d) \<in> set rest" for k d
    using csc_pos_less [OF vs, of src k] keys inv that by (force simp: bt_inv_def sorted_wrt_append)
  have "filter (\<lambda>(k, ds). csc_pos vs k < csc_pos vs src) done = done"
    "filter (\<lambda>(k, ds). csc_pos vs k < Suc (csc_pos vs src)) done = done"
    using less by (force simp: filter_id_conv)+
  moreover have "filter (\<lambda>(k, ds). csc_pos vs k < csc_pos vs src) rest = []"
    "filter (\<lambda>(k, ds). csc_pos vs k < Suc (csc_pos vs src)) rest = []"
    using more by (force simp: filter_empty_conv)+
  ultimately show "csc_ptr vs (done @ (src, ds) # rest) (csc_pos vs src) = adj_size done"
    "csc_ptr vs (done @ (src, ds) # rest) (csc_pos vs src + 1) = adj_size done + length ds"
    by (simp_all add: csc_ptr_def)
qed

lemma fill_inner:
  fixes offsets :: "u64 list"
  assumes vs: "bs_inv vs" and "set dsts \<subseteq> set vs" "i < length offsets"
    and "unat (offsets ! i) + length dsts \<le> length indices" "length indices < 2 ^ 64"
  shows "fold_res (\<lambda>(indices, offsets) dst.
       and_then (csc_vertex_ordinal vs dst ''destination'') (\<lambda>dst_ordinal.
       Inr (indices[unat (offsets ! i) := dst_ordinal], offsets[i := offsets ! i + 1]))) (indices, offsets) dsts =
    Inr (take (unat (offsets ! i)) indices @ map (csc_ord vs) dsts @ drop (unat (offsets ! i) + length dsts) indices,
      offsets[i := offsets ! i + of_nat (length dsts)])"
  using assms(2-5)
proof (induction dsts arbitrary: indices offsets)
  case (Cons d dsts)
  let ?s = "unat (offsets ! i)"
  have s: "?s < length indices" using Cons.prems by simp
  have "unat (offsets ! i + 1) = ?s + 1"
    using s Cons.prems(4) by (simp add: unat_plus_if_size word_size)
  then have o: "unat (offsets[i := offsets ! i + 1] ! i) = ?s + 1" using Cons.prems by simp
  have tk: "take (?s + 1) (indices[?s := csc_ord vs d]) = take ?s indices @ [csc_ord vs d]"
    using s by (simp add: take_Suc_conv_app_nth take_update_cancel)
  have dr: "drop (?s + 1 + length dsts) (indices[?s := csc_ord vs d]) = drop (?s + length (d # dsts)) indices"
    by (simp add: drop_update_cancel)
  note IH = Cons.IH [of "offsets[i := offsets ! i + 1]" "indices[?s := csc_ord vs d]", unfolded o tk dr]
  show ?case
    using IH Cons.prems csc_ordinal [OF vs, of d "''destination''"] by (simp add: algebra_simps)
qed simp

lemma fill_rows:
  assumes vs: "bs_inv vs" "length vs < 2 ^ 64" and inv: "bt_inv (done @ rest)"
    and keys: "\<forall>(k, ds) \<in> set (done @ rest). k \<in> set vs \<and> set ds \<subseteq> set vs"
    and size: "adj_size (done @ rest) < 2 ^ 64"
    and ind: "indices = map (csc_ord vs) (concat (map snd done)) @ replicate (adj_size rest) 0"
    and off: "length offsets = length vs" "\<forall>(k, ds) \<in> set rest. offsets ! csc_pos vs k = of_nat (csc_ptr vs (done @ rest) (csc_pos vs k))"
  shows "\<exists>offsets'. fold_res (csc_fill_row vs) (indices, offsets) rest = Inr (map (csc_ord vs) (concat (map snd (done @ rest))), offsets')"
  using inv keys size ind off
proof (induction rest arbitrary: "done" indices offsets)
  case (Cons r rest)
  obtain src ds where r: "r = (src, ds)" by (cases r)
  let ?i = "csc_pos vs src"
  have src: "src \<in> set vs" "set ds \<subseteq> set vs" using Cons.prems(2) r by auto
  have i: "?i < length offsets" using csc_pos(1) [OF src(1)] Cons.prems(5) by simp
  have kv: "\<forall>(k, ds) \<in> set (done @ (src, ds) # rest). k \<in> set vs" using Cons.prems(2) r by auto
  have ptr: "csc_ptr vs (done @ (src, ds) # rest) ?i = adj_size done"
    by (rule csc_ptr_split(1) [OF vs(1) _ kv]) (use Cons.prems(1) r in simp)
  have total: "adj_size done + length ds + adj_size rest < 2 ^ 64" using Cons.prems(3) r by simp
  have o: "offsets ! ?i = of_nat (adj_size done)" using Cons.prems(6) r ptr by simp
  then have uo: "unat (offsets ! ?i) = adj_size done" using total by (simp add: unat_of_nat_u64)
  have len: "length indices = adj_size done + length ds + adj_size rest" using Cons.prems(4) r by simp
  let ?indices = "map (csc_ord vs) (concat (map snd (done @ [(src, ds)]))) @ replicate (adj_size rest) 0"
  let ?offsets = "offsets[?i := of_nat (adj_size done + length ds)]"
  have u: "unat (csc_ord vs src) = ?i" using csc_pos(1) [OF src(1)] vs(2) by (intro unat_of_nat_u64) simp
  have step: "csc_fill_row vs (indices, offsets) r = Inr (?indices, ?offsets)"
  proof -
    have "csc_fill_row vs (indices, offsets) r =
        Inr (take (adj_size done) indices @ map (csc_ord vs) ds @ drop (adj_size done + length ds) indices,
          offsets[?i := offsets ! ?i + of_nat (length ds)])"
      using fill_inner [OF vs(1) src(2) i, of indices] csc_ordinal [OF vs(1) src(1)] uo len total r u
      by (simp add: csc_fill_row_def Let_def)
    then show ?thesis using Cons.prems(4) r o by simp
  qed
  have "\<exists>offsets'. fold_res (csc_fill_row vs) (?indices, ?offsets) rest =
      Inr (map (csc_ord vs) (concat (map snd ((done @ [(src, ds)]) @ rest))), offsets')"
  proof (rule Cons.IH)
    show "bt_inv ((done @ [(src, ds)]) @ rest)" using Cons.prems(1) r by simp
    show "\<forall>(k, ds) \<in> set ((done @ [(src, ds)]) @ rest). k \<in> set vs \<and> set ds \<subseteq> set vs" using Cons.prems(2) r by auto
    show "adj_size ((done @ [(src, ds)]) @ rest) < 2 ^ 64" using Cons.prems(3) r by simp
    show "length ?offsets = length vs" using Cons.prems(5) by simp
    have "?i \<noteq> csc_pos vs k" if "(k, d) \<in> set rest" for k d
    proof -
      have "src < k" using Cons.prems(1) r that by (force simp: bt_inv_def sorted_wrt_append)
      moreover have "k \<in> set vs" using kv that by force
      ultimately show ?thesis using csc_pos_less [OF vs(1) src(1), of k] by auto
    qed
    then show "\<forall>(k, d) \<in> set rest. ?offsets ! csc_pos vs k = of_nat (csc_ptr vs ((done @ [(src, ds)]) @ rest) (csc_pos vs k))"
      using Cons.prems(6) r by auto
  qed simp
  then show ?case using step r by simp
qed simp

subsection \<open>The matrix of an adjacency\<close>

definition adj_vertices :: "adjacency \<Rightarrow> vertex_id list" where
  "adj_vertices adj = foldl (\<lambda>vs (src, dsts). bs_extend (bs_insert src vs) dsts) [] adj"

lemma adj_vertices:
  "bs_inv (adj_vertices adj)"
  "\<forall>(k, ds) \<in> set adj. k \<in> set (adj_vertices adj) \<and> set ds \<subseteq> set (adj_vertices adj)"
  using csc_vertices_fold [of "[]" adj] by (auto simp: adj_vertices_def)

text \<open>The bounds every process satisfies: an index limit of the kernel, and what fits in memory.\<close>

definition adj_fits :: "adjacency \<Rightarrow> bool" where
  "adj_fits adj \<longleftrightarrow> length (adj_vertices adj) \<le> GRAPHBLAS_INDEX_MAX \<and> adj_size adj < 2 ^ 61"

definition csc_of :: "adjacency \<Rightarrow> graphblas_csc" where
  "csc_of adj = (let vs = adj_vertices adj in
     \<lparr> csc_vertices = vs, csc_pointers = map (\<lambda>i. of_nat (csc_ptr vs adj i)) [0..<length vs + 1],
        csc_indices = map (csc_ord vs) (concat (map snd adj)) \<rparr>)"

lemma csc_from_adjacency_eq:
  assumes inv: "bt_inv adj" and fits: "adj_fits adj"
  shows "graphblas_csc_from_adjacency adj = Inr (csc_of adj)"
proof -
  let ?vs = "adj_vertices adj"
  note vs = adj_vertices [of adj]
  have len: "length ?vs < 2 ^ 64" "adj_size adj < 2 ^ 64"
    using fits by (simp_all add: adj_fits_def GRAPHBLAS_INDEX_MAX_def)
  have keys: "\<forall>(k, ds) \<in> set adj. k \<in> set ?vs" using vs(2) by auto
  obtain counts where counts: "csc_count_rows ?vs adj = Inr counts"
    "csc_sum_pointers counts = map (\<lambda>i. of_nat (csc_ptr ?vs adj i)) [0..<length ?vs + 1]"
    by (rule csc_pointers_spec [OF vs(1) len(1) keys]) (rule that)
  have all: "csc_ptr ?vs adj (length ?vs) = adj_size adj"
    by (rule csc_ptr_all) (use keys csc_pos(1) in fastforce)
  have last: "unat (last (csc_sum_pointers counts)) = adj_size adj"
    using len(2) by (simp add: counts(2) all unat_of_nat_u64)
  have "\<exists>offsets'. fold_res (csc_fill_row ?vs)
      (replicate (adj_size adj) 0, take (length ?vs) (csc_sum_pointers counts)) adj =
      Inr (map (csc_ord ?vs) (concat (map snd ([] @ adj))), offsets')"
  proof (rule fill_rows [OF vs(1) len(1)])
    show "\<forall>(k, ds) \<in> set adj. take (length ?vs) (csc_sum_pointers counts) ! csc_pos ?vs k =
        of_nat (csc_ptr ?vs ([] @ adj) (csc_pos ?vs k))"
    proof clarify
      fix k ds assume "(k, ds) \<in> set adj"
      then have "csc_pos ?vs k < length ?vs" using keys csc_pos(1) by fastforce
      moreover from this have "csc_pos ?vs k < Suc (length ?vs)" by simp
      ultimately show "take (length ?vs) (csc_sum_pointers counts) ! csc_pos ?vs k = of_nat (csc_ptr ?vs ([] @ adj) (csc_pos ?vs k))"
        by (simp add: counts(2) del: upt_Suc)
    qed
  qed (use inv vs(2) len(2) in \<open>auto simp: counts(2)\<close>)
  then obtain offsets' where fill: "fold_res (csc_fill_row ?vs)
      (replicate (adj_size adj) 0, take (length ?vs) (csc_sum_pointers counts)) adj =
      Inr (map (csc_ord ?vs) (concat (map snd adj)), offsets')"
    by auto
  have "graphblas_vertices_from_adjacency adj = Inr ?vs"
    using fits by (simp add: graphblas_vertices_from_adjacency_def Let_def adj_fits_def adj_vertices_def)
  then show ?thesis
    by (simp add: graphblas_csc_from_adjacency_def counts(1) Let_def last fill csc_of_def del: upt_Suc)
       (simp add: counts(2) del: upt_Suc)
qed

text \<open>Reading the matrix back.\<close>

lemma csc_of_row:
  assumes inv: "bt_inv adj" and fits: "adj_fits adj" and i: "i < length (adj_vertices adj)"
  shows "csc_row (csc_of adj) i =
    Inr (map (csc_ord (adj_vertices adj)) (case bt_get adj (adj_vertices adj ! i) of Some ds \<Rightarrow> ds | None \<Rightarrow> []))"
proof -
  let ?vs = "adj_vertices adj" and ?v = "adj_vertices adj ! i"
  note vs = adj_vertices [of adj]
  have pos: "csc_pos ?vs ?v = i" by (rule csc_pos_nth) (use vs(1) i in \<open>simp_all add: bs_inv_sorted\<close>)
  have keys: "\<forall>(k, ds) \<in> set adj. k \<in> set ?vs" using vs(2) by auto
  have u: "unat (of_nat (csc_ptr ?vs adj j) :: u64) = csc_ptr ?vs adj j" for j
    using csc_ptr_le [of ?vs adj j] fits by (intro unat_of_nat_u64) (simp add: adj_fits_def)
  have p: "unat (csc_pointers (csc_of adj) ! i) = csc_ptr ?vs adj i" "unat (csc_pointers (csc_of adj) ! Suc i) = csc_ptr ?vs adj (i + 1)"
    using i u by (simp_all add: csc_of_def Let_def del: upt_Suc)
  have ind: "csc_indices (csc_of adj) = map (csc_ord ?vs) (concat (map snd adj))" by (simp add: csc_of_def Let_def)
  show ?thesis
  proof (cases "bt_get adj ?v")
    case (Some ds)
    then have "(?v, ds) \<in> set adj" using inv by (simp add: bt_get_Some_set)
    then obtain xs ys where adj: "adj = xs @ (?v, ds) # ys" by (meson split_list)
    have ptr: "csc_ptr ?vs adj i = adj_size xs" "csc_ptr ?vs adj (i + 1) = adj_size xs + length ds"
      using csc_ptr_split [OF vs(1), of xs ?v ds ys] inv keys pos adj by metis+
    have "concat (map snd adj) = concat (map snd xs) @ ds @ concat (map snd ys)" by (subst adj) simp
    then show ?thesis using Some by (simp add: csc_row_def p ptr [simplified] ind slice_get_def)
  next
    case None
    have "csc_pos ?vs k \<noteq> i" if "(k, ds) \<in> set adj" for k ds
    proof
      assume "csc_pos ?vs k = i"
      then have "?v = k" using csc_pos(2) [of k ?vs] keys that by auto
      then show False using None that by (force simp: bt_get_None)
    qed
    then have "filter (\<lambda>(k, ds). csc_pos ?vs k < i + 1) adj = filter (\<lambda>(k, ds). csc_pos ?vs k < i) adj"
      by (intro filter_cong) (auto simp: less_Suc_eq)
    then have "csc_ptr ?vs adj (i + 1) = csc_ptr ?vs adj i" by (simp add: csc_ptr_def)
    then show ?thesis using None csc_ptr_le [of ?vs adj i] by (simp add: csc_row_def p ind slice_get_def)
  qed
qed

lemma csc_of_neighbors:
  assumes fits: "adj_fits adj" and ds: "set ds \<subseteq> set (adj_vertices adj)"
  shows "csc_neighbors (csc_of adj) (map (csc_ord (adj_vertices adj)) ds) = Inr (bs_of_list ds)"
proof -
  let ?vs = "adj_vertices adj"
  have u: "unat (csc_ord ?vs v) = csc_pos ?vs v" "csc_pos ?vs v < length ?vs" "?vs ! csc_pos ?vs v = v" if "v \<in> set ?vs" for v
    using csc_pos [OF that] fits by (simp_all add: adj_fits_def GRAPHBLAS_INDEX_MAX_def unat_of_nat_u64)
  have "fold_res (\<lambda>neighbors destination.
       map_ok (\<lambda>vertex. bs_insert vertex neighbors)
         (ok_or (canonical_adjacency_error (''destination ordinal '' @ show_u64 destination @ '' is out of bounds''))
            (nth_get ?vs (unat destination)))) N (map (csc_ord ?vs) ds) = Inr (bs_extend N ds)" for N
    using ds by (induction ds arbitrary: N) (auto simp: u nth_get_def bs_extend_def)
  then show ?thesis by (simp add: csc_neighbors_def csc_of_def Let_def bs_of_list_def)
qed

lemma insert_rows:
  "bt_inv acc \<Longrightarrow> bt_inv (foldl (\<lambda>adj (i, v). if f v = [] then adj else bt_insert v (f v) adj) acc xs) \<and>
    bt_get (foldl (\<lambda>adj (i, v). if f v = [] then adj else bt_insert v (f v) adj) acc xs) v =
      (if v \<in> snd ` set xs \<and> f v \<noteq> [] then Some (f v) else bt_get acc v)"
proof (induction xs arbitrary: acc)
  case (Cons x xs)
  obtain i w where x: "x = (i, w)" by (cases x)
  let ?acc = "if f w = [] then acc else bt_insert w (f w) acc"
  have "bt_inv ?acc" using Cons.prems by simp
  from Cons.IH [OF this] show ?case using Cons.prems x by (cases "v = w") (simp_all add: image_Un)
qed simp

lemma csc_roundtrip:
  assumes can: "adj_canonical adj" and fits: "adj_fits adj"
  shows "csc_to_adjacency (csc_of adj) = Inr adj"
proof -
  let ?vs = "adj_vertices adj"
  note inv = adj_canonicalD(1) [OF can] and vs = adj_vertices [of adj]
  define row where "row v = (case bt_get adj v of Some ds \<Rightarrow> ds | None \<Rightarrow> [])" for v
  have row: "bs_inv (row v)" for v
    using adj_canonicalD(2) [OF can, of v] by (cases "bt_get adj v") (simp_all add: row_def)
  have row_vs: "set (row v) \<subseteq> set ?vs" for v
  proof (cases "bt_get adj v")
    case (Some ds)
    then have "(v, ds) \<in> set adj" using inv by (simp add: bt_get_Some_set)
    then show ?thesis using vs(2) Some by (auto simp: row_def)
  qed (simp add: row_def)
  have f: "csc_vertices (csc_of adj) = ?vs" "length (csc_pointers (csc_of adj)) = length ?vs + 1"
    by (simp_all add: csc_of_def Let_def)
  have "csc_to_adjacency (csc_of adj) =
      Inr (foldl (\<lambda>adj (i, v). if row v = [] then adj else bt_insert v (row v) adj) [] (enumerate 0 ?vs))"
    unfolding csc_to_adjacency_def f
  proof (simp, rule fold_res_all_ok)
    fix acc x assume "x \<in> set (enumerate 0 ?vs)"
    then have x': "?vs ! fst x = snd x" "fst x < length ?vs" by (auto simp: enumerate_eq_zip in_set_zip)
    define i where "i = fst x"
    have x: "x = (i, ?vs ! i)" "i < length ?vs" using x' by (simp_all add: i_def)
    have "csc_row (csc_of adj) i = Inr (map (csc_ord ?vs) (row (?vs ! i)))"
      using csc_of_row [OF inv fits x(2)] by (simp add: row_def)
    moreover have "csc_neighbors (csc_of adj) (map (csc_ord ?vs) (row (?vs ! i))) = Inr (row (?vs ! i))"
      using csc_of_neighbors [OF fits row_vs] bs_of_list_sorted [OF row] by simp
    ultimately show "(case x of (i, source) \<Rightarrow> and_then (csc_row (csc_of adj) i) (\<lambda>r.
          if r = [] then Inr acc else map_ok (\<lambda>neighbors. bt_insert source neighbors acc) (csc_neighbors (csc_of adj) r))) =
        Inr (case x of (i, v) \<Rightarrow> if row v = [] then acc else bt_insert v (row v) acc)"
      using x by simp
  qed
  also have "foldl (\<lambda>adj (i, v). if row v = [] then adj else bt_insert v (row v) adj) [] (enumerate 0 ?vs) = adj"
  proof (rule bt_ext)
    note ins = insert_rows [of "[]" row "enumerate 0 ?vs"]
    show "bt_inv (foldl (\<lambda>adj (i, v). if row v = [] then adj else bt_insert v (row v) adj) [] (enumerate 0 ?vs))"
      using ins by simp
    show "bt_inv adj" by (rule inv)
    fix v
    have "snd ` set (enumerate 0 ?vs) = set ?vs" by (metis list.set_map map_snd_enumerate)
    moreover have "bt_get adj v = (if v \<in> set ?vs \<and> row v \<noteq> [] then Some (row v) else None)"
    proof (cases "bt_get adj v")
      case (Some ds)
      then have "v \<in> set ?vs" using vs(2) inv by (force simp: bt_get_Some_set)
      then show ?thesis using Some adj_canonicalD(2) [OF can Some] by (simp add: row_def)
    qed (simp add: row_def)
    ultimately show "bt_get (foldl (\<lambda>adj (i, v). if row v = [] then adj else bt_insert v (row v) adj) [] (enumerate 0 ?vs)) v =
        bt_get adj v"
      using ins [of v] by simp
  qed
  finally show ?thesis .
qed

end
