(* ===== verification/Index_Codec.thy ===== *)
theory Index_Codec
  imports Csc_Matrix Codec_Idempotency
begin

text \<open>
  The two objects of a published graph index, from \<open>src/engine/index_store.rs\<close>: the CSC payload with
  its identity, checksum and structural checks, and the manifest that names the current generation.
  The theorems say that a payload the build writes is read back as the matrix it encodes, and a
  manifest as the generation it names.
\<close>

subsection \<open>Checks of a matrix\<close>

definition adjacent_pairs :: "'a list \<Rightarrow> ('a \<times> 'a) list" where
  "adjacent_pairs xs = zip xs (tl xs)"

definition validate_graphblas_csc_artifact :: "string \<Rightarrow> graphblas_csc \<Rightarrow> unit result" where
  "validate_graphblas_csc_artifact key csc =
     (if length (csc_pointers csc) \<noteq> length (csc_vertices csc) + 1
      then Inl (CorruptValue key ''CSC pointer count does not match vertex count'')
      else if nth_get (csc_pointers csc) 0 \<noteq> Some 0
      then Inl (CorruptValue key ''CSC first pointer must be zero'')
      else if \<exists>(a, b) \<in> set (adjacent_pairs (csc_pointers csc)). b < a
      then Inl (CorruptValue key ''CSC pointers must be monotonic'')
      else if unat (last (csc_pointers csc)) \<noteq> length (csc_indices csc)
      then Inl (CorruptValue key ''CSC edge count does not match index count'')
      else case find (\<lambda>index. of_nat (length (csc_vertices csc)) \<le> index) (csc_indices csc) of
        Some index \<Rightarrow> Inl (CorruptValue key (''CSC index '' @ show_u64 index @ '' exceeds vertex count''))
      | None \<Rightarrow>
          if \<exists>(a, b) \<in> set (adjacent_pairs (csc_vertices csc)). b \<le> a
          then Inl (CorruptValue key ''CSC vertices must be sorted and unique'')
          else Inr ())"

definition checksum_u64 :: "u64 \<Rightarrow> u64 \<Rightarrow> u64" where
  "checksum_u64 hash v =
     foldl (\<lambda>hash byte. (hash XOR of_nat (nat_of_byte byte)) * 0x100000001b3) hash (to_le_bytes v)"

definition graphblas_csc_checksum :: "graphblas_csc \<Rightarrow> u64" where
  "graphblas_csc_checksum csc =
     foldl checksum_u64
       (checksum_u64
         (foldl checksum_u64
           (checksum_u64
             (foldl checksum_u64 (checksum_u64 0xcbf29ce484222325 1) (csc_vertices csc)) 2)
           (csc_pointers csc)) 3)
       (csc_indices csc)"

lemma adjacent_pairs_nth: "(a, b) \<in> set (adjacent_pairs xs) \<longleftrightarrow> (\<exists>i. Suc i < length xs \<and> a = xs ! i \<and> b = xs ! Suc i)"
  by (cases xs) (auto simp: adjacent_pairs_def in_set_zip)

lemma csc_of_valid:
  assumes fits: "adj_fits adj"
  shows "validate_graphblas_csc_artifact key (csc_of adj) = Inr ()"
proof -
  let ?vs = "adj_vertices adj" and ?csc = "csc_of adj"
  note vs = adj_vertices [of adj]
  have u: "unat (of_nat (csc_ptr ?vs adj j) :: u64) = csc_ptr ?vs adj j" for j
    using csc_ptr_le [of ?vs adj j] fits by (intro unat_of_nat_u64) (simp add: adj_fits_def)
  have len: "length ?vs < 2 ^ 64" using fits by (simp add: adj_fits_def GRAPHBLAS_INDEX_MAX_def)
  have p: "csc_pointers ?csc = map (\<lambda>i. of_nat (csc_ptr ?vs adj i)) [0..<length ?vs + 1]"
    "csc_vertices ?csc = ?vs" "csc_indices ?csc = map (csc_ord ?vs) (concat (map snd adj))"
    by (simp_all add: csc_of_def Let_def)
  have all: "csc_ptr ?vs adj (length ?vs) = adj_size adj"
    by (rule csc_ptr_all) (use vs(2) csc_pos(1) in fastforce)
  have "\<not> csc_ptr ?vs adj (Suc i) < csc_ptr ?vs adj i" for i using csc_ptr_mono [of i "Suc i" ?vs adj] by simp
  then have mono: "\<not> (\<exists>(a, b) \<in> set (adjacent_pairs (csc_pointers ?csc)). b < a)"
    by (auto simp: adjacent_pairs_nth p(1) word_less_nat_alt u simp del: upt_Suc)
  have "?vs ! i < ?vs ! Suc i" if "Suc i < length ?vs" for i
    using vs(1) that by (simp add: bs_inv_def sorted_wrt_nth_less)
  then have sorted: "\<not> (\<exists>(a, b) \<in> set (adjacent_pairs ?vs). b \<le> a)"
    by (auto simp: adjacent_pairs_nth simp flip: not_less)
  have "d \<in> set ?vs" if "d \<in> set (concat (map snd adj))" for d using vs(2) that by fastforce
  then have ord: "\<not> of_nat (length ?vs) \<le> csc_ord ?vs d" if "d \<in> set (concat (map snd adj))" for d
    using csc_pos(1) [of d ?vs] that len by (simp add: word_le_nat_alt unat_of_nat_u64)
  have "find (\<lambda>index. of_nat (length ?vs) \<le> index) (csc_indices ?csc) = None"
    unfolding p(3) find_None_iff using ord by auto
  moreover have "unat (last (csc_pointers ?csc)) = length (csc_indices ?csc)"
    using u [of "length ?vs"] by (simp add: p all)
  moreover have "length (csc_pointers ?csc) = length ?vs + 1" "nth_get (csc_pointers ?csc) 0 = Some 0"
    by (simp_all add: p nth_get_def del: upt_Suc)
  ultimately show ?thesis
    using mono sorted by (simp add: validate_graphblas_csc_artifact_def p(2))
qed

subsection \<open>The CSC payload\<close>

definition INDEX_CSC_MAGIC :: bytes where
  "INDEX_CSC_MAGIC = ''turbolay-index-csc-v1'' @ [CHR 0x00]"

definition encode_index_u64s :: "u64 list \<Rightarrow> bytes" where
  "encode_index_u64s xs = to_le_bytes (of_nat (length xs)) @ concat (map to_le_bytes xs)"

definition encode_graph_index_csc :: "u64 \<Rightarrow> u64 \<Rightarrow> u64 \<Rightarrow> graphblas_csc \<Rightarrow> bytes" where
  "encode_graph_index_csc base_sequence last_wal_id checksum csc =
     INDEX_CSC_MAGIC @ to_le_bytes base_sequence @ to_le_bytes last_wal_id @ to_le_bytes checksum @
     encode_index_u64s (csc_vertices csc) @ encode_index_u64s (csc_pointers csc) @
     encode_index_u64s (csc_indices csc)"

text \<open>A decoder returns the cursor after what it read; \<open>usize\<close> sums saturate or are checked.\<close>

definition decode_index_u64 :: "string \<Rightarrow> bytes \<Rightarrow> nat \<Rightarrow> string \<Rightarrow> (u64 \<times> nat) result" where
  "decode_index_u64 key v cursor field =
     (let end = min (cursor + 8) (2 ^ 64 - 1) in
      map_ok (\<lambda>bytes. (from_le_bytes bytes, end))
        (ok_or (CorruptValue key (''truncated '' @ field)) (slice_get v cursor end)))"

definition decode_index_u64s :: "string \<Rightarrow> bytes \<Rightarrow> nat \<Rightarrow> string \<Rightarrow> (u64 list \<times> nat) result" where
  "decode_index_u64s key v cursor field =
     and_then (decode_index_u64 key v cursor field) (\<lambda>(len, cursor).
     let byte_len = unat len * 8 in
     if 2 ^ 64 \<le> byte_len then Inl (CorruptValue key (field @ '' byte length overflow''))
     else if 2 ^ 64 \<le> cursor + byte_len then Inl (CorruptValue key (field @ '' cursor overflow''))
     else let end = cursor + byte_len in
       map_ok (\<lambda>bytes. (map from_le_bytes (as_chunks 8 bytes), end))
         (ok_or (CorruptValue key (''truncated '' @ field)) (slice_get v cursor end)))"

definition decode_graph_index_csc :: "string \<Rightarrow> bytes \<Rightarrow> u64 \<Rightarrow> u64 \<Rightarrow> u64 \<Rightarrow> graphblas_csc result" where
  "decode_graph_index_csc key v expected_sequence expected_wal_id expected_checksum =
     (if \<not> prefix INDEX_CSC_MAGIC v
      then Inl (CorruptValue key ''expected hydradb index CSC v1 payload'')
      else
        and_then (decode_index_u64 key v (length INDEX_CSC_MAGIC) ''base_sequence'') (\<lambda>(base_sequence, cursor).
        and_then (decode_index_u64 key v cursor ''last_wal_id'') (\<lambda>(last_wal_id, cursor).
        and_then (decode_index_u64 key v cursor ''checksum'') (\<lambda>(checksum, cursor).
        if (base_sequence, last_wal_id, checksum) \<noteq> (expected_sequence, expected_wal_id, expected_checksum)
        then Inl (CorruptValue key ''index CSC identity does not match manifest'')
        else
          and_then (decode_index_u64s key v cursor ''vertices'') (\<lambda>(vertices, cursor).
          and_then (decode_index_u64s key v cursor ''pointers'') (\<lambda>(pointers, cursor).
          and_then (decode_index_u64s key v cursor ''indices'') (\<lambda>(indices, cursor).
          let csc = \<lparr> csc_vertices = vertices, csc_pointers = pointers, csc_indices = indices \<rparr> in
          if cursor \<noteq> length v then Inl (CorruptValue key ''trailing bytes in index CSC payload'')
          else
            and_then (validate_graphblas_csc_artifact key csc) (\<lambda>_.
            if graphblas_csc_checksum csc \<noteq> checksum
            then Inl (CorruptValue key ''index CSC checksum mismatch'')
            else Inr csc))))))))"

lemma decode_index_u64_at:
  assumes "v = pre @ to_le_bytes w @ rest" "length v < 2 ^ 64" "cursor = length pre"
  shows "decode_index_u64 key v cursor field = Inr (w, length pre + 8)"
  using assms by (simp add: decode_index_u64_def Let_def slice_get_def)

lemma concat_le_length [simp]: "length (concat (map to_le_bytes xs)) = 8 * length xs"
  by (induction xs) auto

lemma decode_index_u64s_at:
  assumes v: "v = pre @ encode_index_u64s xs @ rest" and len: "length v < 2 ^ 64" and cursor: "cursor = length pre"
  shows "decode_index_u64s key v cursor field = Inr (xs, length pre + length (encode_index_u64s xs))"
proof -
  have l: "8 * length xs + length pre + 8 \<le> length v" using v by (simp add: encode_index_u64s_def)
  then have u: "unat (of_nat (length xs) :: u64) = length xs" using len by (intro unat_of_nat_u64) simp
  have "decode_index_u64 key v cursor field = Inr (of_nat (length xs), length pre + 8)"
    by (rule decode_index_u64_at [where rest = "concat (map to_le_bytes xs) @ rest"])
      (use v len cursor in \<open>simp_all add: encode_index_u64s_def\<close>)
  moreover have "slice_get v (length pre + 8) (length pre + 8 + 8 * length xs) = Some (concat (map to_le_bytes xs))"
    using l by (simp add: slice_get_def v encode_index_u64s_def)
  moreover have "map from_le_bytes (as_chunks 8 (concat (map to_le_bytes xs))) = xs"
    by (subst as_chunks_concat) (simp_all add: comp_def)
  ultimately show ?thesis
    using l len u by (simp add: decode_index_u64s_def Let_def encode_index_u64s_def mult.commute)
qed

lemma decode_csc_payload:
  assumes len: "length (encode_graph_index_csc q w c csc) < 2 ^ 64" and c: "c = graphblas_csc_checksum csc"
    and valid: "validate_graphblas_csc_artifact key csc = Inr ()"
  shows "decode_graph_index_csc key (encode_graph_index_csc q w c csc) q w c = Inr csc"
proof -
  let ?v = "encode_graph_index_csc q w c csc" and ?m = "INDEX_CSC_MAGIC"
  let ?vs = "encode_index_u64s (csc_vertices csc)" and ?ps = "encode_index_u64s (csc_pointers csc)"
  let ?is = "encode_index_u64s (csc_indices csc)"
  let ?h = "?m @ to_le_bytes q @ to_le_bytes w @ to_le_bytes c"
  have v: "?v = ?m @ to_le_bytes q @ to_le_bytes w @ to_le_bytes c @ ?vs @ ?ps @ ?is"
    by (simp add: encode_graph_index_csc_def)
  have d: "decode_index_u64 key ?v (length ?m) ''base_sequence'' = Inr (q, length ?m + 8)"
    "decode_index_u64 key ?v (length ?m + 8) ''last_wal_id'' = Inr (w, length ?m + 16)"
    "decode_index_u64 key ?v (length ?m + 16) ''checksum'' = Inr (c, length ?m + 24)"
    using decode_index_u64_at [OF _ len, of ?m q "to_le_bytes w @ to_le_bytes c @ ?vs @ ?ps @ ?is" "length ?m" key]
      decode_index_u64_at [OF _ len, of "?m @ to_le_bytes q" w "to_le_bytes c @ ?vs @ ?ps @ ?is" "length ?m + 8" key]
      decode_index_u64_at [OF _ len, of "?m @ to_le_bytes q @ to_le_bytes w" c "?vs @ ?ps @ ?is" "length ?m + 16" key]
    by (simp_all add: v)
  have s: "decode_index_u64s key ?v (length ?m + 24) ''vertices'' = Inr (csc_vertices csc, length ?m + 24 + length ?vs)"
    "decode_index_u64s key ?v (length ?m + 24 + length ?vs) ''pointers'' =
      Inr (csc_pointers csc, length ?m + 24 + length ?vs + length ?ps)"
    "decode_index_u64s key ?v (length ?m + 24 + length ?vs + length ?ps) ''indices'' = Inr (csc_indices csc, length ?v)"
    using decode_index_u64s_at [OF _ len, of ?h "csc_vertices csc" "?ps @ ?is" "length ?m + 24" key]
      decode_index_u64s_at [OF _ len, of "?h @ ?vs" "csc_pointers csc" ?is "length ?m + 24 + length ?vs" key]
      decode_index_u64s_at [OF _ len, of "?h @ ?vs @ ?ps" "csc_indices csc" "[]" "length ?m + 24 + length ?vs + length ?ps" key]
    by (simp_all add: v)
  have eta: "\<lparr> csc_vertices = csc_vertices csc, csc_pointers = csc_pointers csc, csc_indices = csc_indices csc \<rparr> = csc" by simp
  have "prefix ?m ?v" by (simp add: v)
  then show ?thesis
    using valid by (simp add: decode_graph_index_csc_def d s Let_def eta c [symmetric] del: graphblas_csc.surjective)
qed

subsection \<open>The manifest\<close>

record graph_index_generation =
  gig_cell_id :: string
  gig_edge_type :: string
  gig_base_sequence :: storage_sequence
  gig_last_wal_id :: u64
  gig_edge_count :: u64
  gig_checksum :: u64
  gig_generation :: string

definition INDEX_MANIFEST_MAGIC :: string where
  "INDEX_MANIFEST_MAGIC = ''turbolay-index-current-v1''"

definition encode_graph_index_manifest :: "graph_index_generation \<Rightarrow> bytes" where
  "encode_graph_index_manifest manifest =
     encode_fields [INDEX_MANIFEST_MAGIC, gig_cell_id manifest, gig_edge_type manifest,
       show_u64 (gig_base_sequence manifest), show_u64 (gig_last_wal_id manifest),
       show_u64 (gig_edge_count manifest), show_u64 (gig_checksum manifest), gig_generation manifest]"

definition is_ascii_hexdigit :: "char \<Rightarrow> bool" where
  "is_ascii_hexdigit c \<longleftrightarrow>
     (let n = nat_of_byte c in (48 \<le> n \<and> n \<le> 57) \<or> (97 \<le> n \<and> n \<le> 102) \<or> (65 \<le> n \<and> n \<le> 70))"

definition decode_graph_index_manifest :: "string \<Rightarrow> bytes \<Rightarrow> graph_index_generation result" where
  "decode_graph_index_manifest key v =
     and_then (fields_of key v) (\<lambda>fields.
     if length fields \<noteq> 8 \<or> fields ! 0 \<noteq> INDEX_MANIFEST_MAGIC
     then Inl (CorruptValue key ''expected hydradb index current v1 manifest'')
     else
       and_then (validate_component ''cell_id'' (fields ! 1)) (\<lambda>_.
       and_then (validate_component ''edge_type'' (fields ! 2)) (\<lambda>_.
       if length (fields ! 7) \<noteq> 64 \<or> \<not> list_all is_ascii_hexdigit (fields ! 7)
       then Inl (CorruptValue key ''index generation must be a SHA-256 digest'')
       else
         and_then (parse_u64 key (fields ! 3) ''base_sequence'') (\<lambda>base_sequence.
         and_then (parse_u64 key (fields ! 4) ''last_wal_id'') (\<lambda>last_wal_id.
         and_then (parse_u64 key (fields ! 5) ''edge_count'') (\<lambda>edge_count.
         and_then (parse_u64 key (fields ! 6) ''checksum'') (\<lambda>checksum.
         Inr \<lparr> gig_cell_id = fields ! 1, gig_edge_type = fields ! 2, gig_base_sequence = base_sequence,
               gig_last_wal_id = last_wal_id, gig_edge_count = edge_count, gig_checksum = checksum,
               gig_generation = fields ! 7 \<rparr>)))))))"

definition generation_ok :: "graph_index_generation \<Rightarrow> bool" where
  "generation_ok g \<longleftrightarrow>
     valid_component (gig_cell_id g) \<and> valid_component (gig_edge_type g) \<and>
     length (gig_generation g) = 64 \<and> list_all is_ascii_hexdigit (gig_generation g)"

lemma hexdigit_text: "list_all is_ascii_hexdigit s \<Longrightarrow> field_text s"
proof (induction s)
  case (Cons c s)
  then have "c \<noteq> tab" "c \<noteq> newline" "nat_of_byte c < 128"
    by (auto simp: is_ascii_hexdigit_def Let_def nat_of_byte_def)
  with Cons show ?case by (simp add: field_text_def)
qed (simp add: field_text_def)

lemma decode_manifest_encode:
  assumes "generation_ok g"
  shows "decode_graph_index_manifest key (encode_graph_index_manifest g) = Inr g"
proof -
  have magic: "field_text INDEX_MANIFEST_MAGIC" by code_simp
  have "fields_of key (encode_graph_index_manifest g) = Inr [INDEX_MANIFEST_MAGIC, gig_cell_id g, gig_edge_type g,
       show_u64 (gig_base_sequence g), show_u64 (gig_last_wal_id g),
       show_u64 (gig_edge_count g), show_u64 (gig_checksum g), gig_generation g]"
    unfolding encode_graph_index_manifest_def
    by (rule fields_of_encode) (use assms magic in \<open>auto simp: generation_ok_def hexdigit_text\<close>)
  then show ?thesis
    using assms by (simp add: decode_graph_index_manifest_def generation_ok_def numeral_eq_Suc validate_component_def valid_component_def codec_defs)
qed

subsection \<open>Paths\<close>

definition graph_index_root :: "string \<Rightarrow> string" where
  "graph_index_root store_path = store_path @ ''/_graph_index''"

definition graph_index_manifest_path :: "string \<Rightarrow> string \<Rightarrow> string \<Rightarrow> string" where
  "graph_index_manifest_path store_path cell_id edge_type =
     graph_index_root store_path @ ''/'' @ cell_id @ ''/'' @ edge_type @ ''/current''"

definition graph_index_generation_path :: "string \<Rightarrow> string \<Rightarrow> string \<Rightarrow> storage_sequence \<Rightarrow> string \<Rightarrow> string" where
  "graph_index_generation_path store_path cell_id edge_type base_sequence generation =
     graph_index_root store_path @ ''/'' @ cell_id @ ''/'' @ edge_type @ ''/generations/'' @
     pad20 base_sequence @ ''-'' @ generation @ ''.csc''"

definition graph_index_generations_prefix :: "string \<Rightarrow> string \<Rightarrow> string \<Rightarrow> string" where
  "graph_index_generations_prefix store_path cell_id edge_type =
     graph_index_root store_path @ ''/'' @ cell_id @ ''/'' @ edge_type @ ''/generations''"

definition is_ascii_digit :: "char \<Rightarrow> bool" where
  "is_ascii_digit c \<longleftrightarrow> (let n = nat_of_byte c in 48 \<le> n \<and> n \<le> 57)"

definition graph_index_sequence_from_path :: "string \<Rightarrow> storage_sequence result" where
  "graph_index_sequence_from_path key =
     (let file_name = last (split_char slash key) in
      and_then (ok_or (CorruptValue key ''index generation key is missing its sequence prefix'')
        (map_option fst (split_once (CHR ''-'') file_name))) (\<lambda>sequence.
      if length sequence \<noteq> 20 \<or> \<not> list_all is_ascii_digit sequence
      then Inl (CorruptValue key ''index generation sequence must be a 20-digit decimal prefix'')
      else parse_u64 key sequence ''base_sequence''))"

lemma split_char_parts: "split_char c (xs @ c # ys) = split_char c xs @ split_char c ys"
  by (induction xs) (auto split: list.splits)

lemma last_split_char: "c \<notin> set ys \<Longrightarrow> last (split_char c (xs @ c # ys)) = ys"
  by (simp add: split_char_parts split_char_free)

lemma digit_text_digits: "digit_text 10 s \<Longrightarrow> list_all is_ascii_digit s"
proof -
  have "is_ascii_digit (digit_char d)" if "d < 10" for d
    using that by (simp add: is_ascii_digit_def digit_char_def)
  then show "digit_text 10 s \<Longrightarrow> list_all is_ascii_digit s"
    by (auto simp: digit_text_def list_all_iff)
qed

lemma sequence_from_generation_path:
  assumes "list_all is_ascii_hexdigit generation"
  shows "graph_index_sequence_from_path (graph_index_generation_path store cell_id edge_type q generation) = Inr q"
proof -
  let ?f = "pad20 q @ CHR ''-'' # generation @ ''.csc''"
  have t: "digit_text 10 (pad20 q)"
    unfolding pad20_def show_u64_def show_nat_def by (rule digit_text_pad) auto
  have g: "slash \<notin> set generation" using assms by (auto simp: list_all_iff is_ascii_hexdigit_def Let_def nat_of_byte_def)
  have path: "graph_index_generation_path store cell_id edge_type q generation =
      (graph_index_root store @ ''/'' @ cell_id @ ''/'' @ edge_type @ ''/generations'') @ slash # ?f"
    by (simp add: graph_index_generation_path_def)
  have "last (split_char slash (graph_index_generation_path store cell_id edge_type q generation)) = ?f"
    unfolding path by (rule last_split_char) (use g in simp)
  moreover have "split_once (CHR ''-'') ?f = Some (pad20 q, generation @ ''.csc'')"
    by (rule split_once_append) (use digit_text_notin [OF t] in simp)
  ultimately show ?thesis
    using digit_text_digits [OF t] by (simp add: graph_index_sequence_from_path_def Let_def codec_defs)
qed

end
