(* ===== verification/Changelog.thy ===== *)
theory Changelog
  imports Graph_Examples Index_Codec
begin

text \<open>
  The edge changelog of \<open>src/shard/xlog.rs\<close> and the delta a reader derives from it.  The range scan of
  the storage engine is a second operation of the engine, with its documented meaning as the law of
  the locale \<open>kv_range\<close>.  On a store that satisfies the invariant the delta holds exactly the pairs
  logged since its base, each with its present state.
\<close>

declare render.simps [simp del] and render_prefix.simps [simp del] and in_family.simps [simp del]

subsection \<open>Range scans\<close>

text \<open>
  \<open>scan_prefix(prefix, lo..hi)\<close>: the entries under the prefix whose rest lies between the bounds; the
  upper bound may be absent.
\<close>

type_synonym 's scan_range = "'s \<Rightarrow> string \<Rightarrow> string \<Rightarrow> string option \<Rightarrow> (string \<times> bytes) list"

definition in_range :: "string \<Rightarrow> string \<Rightarrow> string option \<Rightarrow> string \<Rightarrow> bool" where
  "in_range p lo hi key \<longleftrightarrow>
     lo \<le> drop (length p) key \<and> (case hi of None \<Rightarrow> True | Some h \<Rightarrow> drop (length p) key < h)"

locale kv_range = kv_store db for db :: "'s kv_db" +
  fixes scan :: "'s scan_range"
  assumes scan_range: "scan s p lo hi = filter (\<lambda>(key, v). in_range p lo hi key) (kv_scan_prefix db s p)"

definition mem_scan_range :: "mem_store scan_range" where
  "mem_scan_range = (\<lambda>(m, q) p lo hi. filter (\<lambda>(key, v). in_range p lo hi key) (ob_scan m p))"

interpretation mem_range: kv_range mem_db mem_scan_range
  by unfold_locales (simp add: mem_scan_range_def mem_db_def split: prod.splits)

subsection \<open>Reading the changelog\<close>

definition xlog_component :: "string \<Rightarrow> string list \<Rightarrow> nat \<Rightarrow> string \<Rightarrow> u64 result" where
  "xlog_component key parts i name =
     ok_or (CorruptValue key (''xlog key missing numeric '' @ name))
       (Option.bind (nth_get parts i) (\<lambda>v. case parse_str_u64 v of Inl _ \<Rightarrow> None | Inr n \<Rightarrow> Some n))"

definition parse_xlog_entry_key :: "string \<Rightarrow> string \<Rightarrow> (storage_sequence \<times> vertex_id \<times> vertex_id) result" where
  "parse_xlog_entry_key p key =
     and_then (ok_or (CorruptValue key ''xlog key does not match scan prefix'') (strip_prefix p key)) (\<lambda>suffix.
     let parts = split_char slash suffix in
     and_then (xlog_component key parts 0 ''sequence'') (\<lambda>sequence.
     and_then (xlog_component key parts 1 ''src'') (\<lambda>src.
     and_then (xlog_component key parts 2 ''dst'') (\<lambda>dst.
     if nth_get parts 3 \<noteq> None then Inl (CorruptValue key ''xlog key has trailing components'')
     else Inr (sequence, src, dst)))))"

definition decode_xlog_exists :: "string \<Rightarrow> bytes \<Rightarrow> bool result" where
  "decode_xlog_exists key v =
     (if v = [CHR 0x00] then Inr False
      else if v = [CHR 0x01] then Inr True
      else Inl (CorruptValue key ''xlog value must be a single 0/1 existence byte''))"

datatype xlog_delta =
    XD_Complete graph_topology_overlay
  | XD_Uninitialized
  | XD_CoverageGap storage_sequence

definition xlog_delta_step :: "string \<Rightarrow> graph_topology_overlay \<Rightarrow> string \<times> bytes \<Rightarrow> graph_topology_overlay result" where
  "xlog_delta_step p overlay = (\<lambda>(key, v).
     and_then (parse_xlog_entry_key p key) (\<lambda>(_, src, dst).
     and_then (decode_xlog_exists key v) (\<lambda>exists.
     Inr (overlay_set overlay src dst exists))))"

definition xlog_delta_since ::
    "'s kv_db \<Rightarrow> 's scan_range \<Rightarrow> 's \<Rightarrow> graph_index_generation \<Rightarrow> storage_sequence \<Rightarrow> string \<Rightarrow> string \<Rightarrow>
     xlog_delta result" where
  "xlog_delta_since db scan s previous base_sequence cell_id edge_type =
     (let low_key = K_XlogLowWater cell_id edge_type in
      case read_txn_remote db s low_key of
        None \<Rightarrow> Inr XD_Uninitialized
      | Some v \<Rightarrow>
          and_then (decode_u64 (render low_key) v) (\<lambda>low_water.
          let from = saturating_add_u64 (gig_base_sequence previous) 1 in
          if from < low_water then Inr (XD_CoverageGap low_water)
          else
            let p = keys_xlog_type_prefix cell_id edge_type;
                upper = saturating_add_u64 base_sequence 1
            in map_ok XD_Complete
                 (fold_res (xlog_delta_step p) overlay_default (scan s p (pad20 from) (Some (pad20 upper))))))"

subsection \<open>Its entries\<close>

lemma xlog_entry_split:
  "keys_xlog_entry c t q a b = keys_xlog_type_prefix c t @ pad20 q @ slash # pad20 a @ slash # pad20 b"
  by (simp add: keys_xlog_entry_def keys_xlog_type_prefix_def)

lemma parse_xlog_render [simp]:
  "parse_xlog_entry_key (keys_xlog_type_prefix c t) (keys_xlog_entry c t q a b) = Inr (q, a, b)"
proof -
  have parts: "split_char slash (pad20 q @ slash # pad20 a @ slash # pad20 b) = [pad20 q, pad20 a, pad20 b]"
    by (simp add: split_char_append split_char_free)
  show ?thesis
    unfolding parse_xlog_entry_key_def by (simp add: xlog_entry_split parts xlog_component_def nth_get_def Let_def)
qed

lemma in_range_xlog:
  "in_range (keys_xlog_type_prefix c t) (pad20 lo) None (keys_xlog_entry c t q a b) \<longleftrightarrow> lo \<le> q"
  "in_range (keys_xlog_type_prefix c t) (pad20 lo) (Some (pad20 hi)) (keys_xlog_entry c t q a b) \<longleftrightarrow> lo \<le> q \<and> q < hi"
proof -
  have k: "drop (length (keys_xlog_type_prefix c t)) (keys_xlog_entry c t q a b) = pad20 q @ slash # pad20 a @ slash # pad20 b"
    by (simp add: xlog_entry_split)
  have "pad20 q @ u < pad20 x \<longleftrightarrow> q < x" if "u \<noteq> []" for u x
    using pad20_append_less [of q u x "[]"] that by auto
  then have lt: "pad20 q @ slash # pad20 a @ slash # pad20 b < pad20 x \<longleftrightarrow> q < x" for x
    by blast
  then have "pad20 x \<le> pad20 q @ slash # pad20 a @ slash # pad20 b \<longleftrightarrow> x \<le> q" for x
    by (metis linorder_not_less)
  with lt show "in_range (keys_xlog_type_prefix c t) (pad20 lo) None (keys_xlog_entry c t q a b) \<longleftrightarrow> lo \<le> q"
    "in_range (keys_xlog_type_prefix c t) (pad20 lo) (Some (pad20 hi)) (keys_xlog_entry c t q a b) \<longleftrightarrow> lo \<le> q \<and> q < hi"
    by (simp_all add: in_range_def k)
qed

lemma xlog_family: "in_family (P_XlogTypePrefix c t) k \<longleftrightarrow> (\<exists>q a b. k = K_XlogEntry c t q a b)"
  unfolding in_family.simps by (cases k) auto

text \<open>The newest of the entries of a pair is the one a last-wins scan keeps.\<close>

lemma last_wins:
  fixes xs :: "'e list" and seq :: "'e \<Rightarrow> 'q::linorder"
  assumes "sorted_wrt (\<lambda>x y. pair x = pair y \<longrightarrow> seq x < seq y) xs"
  shows "map_of (rev (map (\<lambda>x. (pair x, val x)) xs)) p = Some v \<longleftrightarrow>
    (\<exists>x \<in> set xs. pair x = p \<and> val x = v \<and> (\<forall>y \<in> set xs. pair y = p \<longrightarrow> seq y \<le> seq x))"
  using assms
proof (induction xs rule: rev_induct)
  case (snoc x xs)
  have s: "sorted_wrt (\<lambda>x y. pair x = pair y \<longrightarrow> seq x < seq y) xs"
    "\<And>y. y \<in> set xs \<Longrightarrow> pair y = pair x \<Longrightarrow> seq y < seq x"
    using snoc.prems by (auto simp: sorted_wrt_append)
  show ?case
  proof (cases "pair x = p")
    case True
    then show ?thesis using s(2) by (auto intro: order.strict_implies_order) (meson leD)
  next
    case False
    then show ?thesis using snoc.IH [OF s(1)] by auto
  qed
qed simp

definition xlog_decoded :: "string \<Rightarrow> string \<times> bytes \<Rightarrow> storage_sequence \<times> vertex_id \<times> vertex_id \<times> bool" where
  "xlog_decoded p = (\<lambda>(key, v).
     case parse_xlog_entry_key p key of Inr (q, a, b) \<Rightarrow> (q, a, b, v = [CHR 0x01]) | Inl _ \<Rightarrow> (0, 0, 0, False))"

lemma xlog_decoded [simp]: "xlog_decoded (keys_xlog_type_prefix c t) (keys_xlog_entry c t q a b, v) = (q, a, b, v = [CHR 0x01])"
  by (simp add: xlog_decoded_def)

lemma xlog_value_inject [simp]: "xlog_value e = xlog_value e' \<longleftrightarrow> e = e'" "xlog_value e = [CHR 0x01] \<longleftrightarrow> e"
  by (auto simp: xlog_value_def)

context kv_range
begin

lemma xlog_scan:
  assumes "store_typed db s" "valid_component c" "valid_component t"
  shows "(key, v) \<in> set (scan s (keys_xlog_type_prefix c t) lo hi) \<longleftrightarrow>
    (\<exists>q a b. key = keys_xlog_entry c t q a b \<and> in_range (keys_xlog_type_prefix c t) lo hi key \<and>
       graph_view db s (K_XlogEntry c t q a b) = Some v)"
proof -
  have "(key, v) \<in> set (kv_scan_prefix db s (keys_xlog_type_prefix c t)) \<longleftrightarrow>
      (\<exists>k. key = render k \<and> (\<exists>q a b. k = K_XlogEntry c t q a b) \<and> graph_view db s k = Some v)"
    using scan_view [OF assms(1), of "P_XlogTypePrefix c t" key v] assms(2,3)
    by (simp add: xlog_family txn_scan_prefix_def render_prefix.simps)
  also have "\<dots> \<longleftrightarrow> (\<exists>q a b. key = render (K_XlogEntry c t q a b) \<and> graph_view db s (K_XlogEntry c t q a b) = Some v)"
    by blast
  finally show ?thesis by (auto simp: scan_range render.simps)
qed

lemma xlog_scan_value:
  assumes "store_typed db s" "graph_view db s (K_XlogEntry c t q a b) = Some v"
  shows "v = xlog_value (v = [CHR 0x01])" "decode_xlog_exists key v = Inr (v = [CHR 0x01])"
  using typed_value [OF assms] by (auto simp: xlog_value_def decode_xlog_exists_def)

lemma xlog_scan_sorted: "bt_inv (scan s p lo hi)"
  unfolding scan_range by (rule bt_inv_filter [OF scan_sorted])

lemma xlog_scan_decoded:
  assumes st: "store_typed db s" and v: "valid_component c" "valid_component t"
    and within: "\<And>q a b. in_range (keys_xlog_type_prefix c t) lo hi (keys_xlog_entry c t q a b) \<longleftrightarrow> within q"
  shows "(q, a, b, e) \<in> set (map (xlog_decoded (keys_xlog_type_prefix c t)) (scan s (keys_xlog_type_prefix c t) lo hi)) \<longleftrightarrow>
    within q \<and> graph_view db s (K_XlogEntry c t q a b) = Some (xlog_value e)"
proof
  assume "(q, a, b, e) \<in> set (map (xlog_decoded (keys_xlog_type_prefix c t)) (scan s (keys_xlog_type_prefix c t) lo hi))"
  then obtain key w where k: "(key, w) \<in> set (scan s (keys_xlog_type_prefix c t) lo hi)"
    "xlog_decoded (keys_xlog_type_prefix c t) (key, w) = (q, a, b, e)" by auto
  then obtain q' a' b' where e: "key = keys_xlog_entry c t q' a' b'" "within q'" "graph_view db s (K_XlogEntry c t q' a' b') = Some w"
    using xlog_scan [OF st v] within by auto
  then show "within q \<and> graph_view db s (K_XlogEntry c t q a b) = Some (xlog_value e)"
    using k(2) xlog_scan_value(1) [OF st e(3)] by simp
next
  assume "within q \<and> graph_view db s (K_XlogEntry c t q a b) = Some (xlog_value e)"
  then have "(keys_xlog_entry c t q a b, xlog_value e) \<in> set (scan s (keys_xlog_type_prefix c t) lo hi)"
    using xlog_scan [OF st v] within by auto
  then show "(q, a, b, e) \<in> set (map (xlog_decoded (keys_xlog_type_prefix c t)) (scan s (keys_xlog_type_prefix c t) lo hi))"
    using image_eqI [of "(q, a, b, e)" "xlog_decoded (keys_xlog_type_prefix c t)" "(keys_xlog_entry c t q a b, xlog_value e)"]
    by simp
qed

lemma xlog_scan_order:
  assumes st: "store_typed db s" and v: "valid_component c" "valid_component t"
  shows "sorted_wrt (\<lambda>x y. (fst x, fst (snd x), fst (snd (snd x))) < (fst y, fst (snd y), fst (snd (snd y))))
    (map (xlog_decoded (keys_xlog_type_prefix c t)) (scan s (keys_xlog_type_prefix c t) lo hi))"
  unfolding sorted_wrt_map
proof (rule sorted_wrt_mono_rel)
  let ?kvs = "scan s (keys_xlog_type_prefix c t) lo hi"
  show "sorted_wrt (\<lambda>x y. fst x < fst y) ?kvs"
    using xlog_scan_sorted [of s "keys_xlog_type_prefix c t" lo hi] by (simp add: bt_inv_def sorted_wrt_map)
  fix x y assume xy: "x \<in> set ?kvs" "y \<in> set ?kvs" "fst x < fst y"
  obtain k w k' w' where p: "x = (k, w)" "y = (k', w')" by (cases x, cases y)
  obtain q a b q' a' b' where "k = keys_xlog_entry c t q a b" "k' = keys_xlog_entry c t q' a' b'"
    using xlog_scan [OF st v, of k w lo hi] xlog_scan [OF st v, of k' w' lo hi] xy(1,2) p by auto
  then show "(fst (xlog_decoded (keys_xlog_type_prefix c t) x), fst (snd (xlog_decoded (keys_xlog_type_prefix c t) x)),
      fst (snd (snd (xlog_decoded (keys_xlog_type_prefix c t) x)))) <
    (fst (xlog_decoded (keys_xlog_type_prefix c t) y), fst (snd (xlog_decoded (keys_xlog_type_prefix c t) y)),
      fst (snd (snd (xlog_decoded (keys_xlog_type_prefix c t) y))))"
    using xy(3) p by (simp add: xlog_entry_less)
qed

end

text \<open>What a last-wins scan of a range of the changelog keeps.\<close>

definition newest_entry ::
    "graph_contents \<Rightarrow> string \<Rightarrow> string \<Rightarrow> (storage_sequence \<Rightarrow> bool) \<Rightarrow> vertex_id \<Rightarrow> vertex_id \<Rightarrow> bool \<Rightarrow> bool" where
  "newest_entry view c t within a b e \<longleftrightarrow>
     (\<exists>q. within q \<and> view (K_XlogEntry c t q a b) = Some (xlog_value e) \<and>
        (\<forall>q'. within q' \<and> q < q' \<longrightarrow> view (K_XlogEntry c t q' a b) = None))"

context kv_range
begin

lemma xlog_overlay:
  assumes st: "store_typed db s" and v: "valid_component c" "valid_component t"
    and within: "\<And>q a b. in_range (keys_xlog_type_prefix c t) lo hi (keys_xlog_entry c t q a b) \<longleftrightarrow> within q"
  obtains ov where
    "fold_res (xlog_delta_step (keys_xlog_type_prefix c t)) overlay_default (scan s (keys_xlog_type_prefix c t) lo hi) = Inr ov"
    "overlay_inv ov" "\<And>a b e. overlay_state ov a b = Some e \<longleftrightarrow> newest_entry (graph_view db s) c t within a b e"
proof -
  let ?p = "keys_xlog_type_prefix c t"
  let ?kvs = "scan s ?p lo hi"
  define ds where "ds = map (xlog_decoded ?p) ?kvs"
  note mem = xlog_scan_decoded [OF st v within, folded ds_def]
  define ov where "ov = foldl (\<lambda>ov (a, b, e). overlay_set ov a b e) overlay_default (map snd ds)"
  have step: "xlog_delta_step ?p ov kv = Inr ((\<lambda>ov (a, b, e). overlay_set ov a b e) ov (snd (xlog_decoded ?p kv)))"
    if "kv \<in> set ?kvs" for ov kv
  proof -
    obtain key w where kv: "kv = (key, w)" by (cases kv)
    then obtain q a b where k: "key = keys_xlog_entry c t q a b" "graph_view db s (K_XlogEntry c t q a b) = Some w"
      using xlog_scan [OF st v] \<open>kv \<in> set ?kvs\<close> by blast
    then show ?thesis using kv xlog_scan_value(2) [OF st k(2)] by (simp add: xlog_delta_step_def)
  qed
  have run: "fold_res (xlog_delta_step ?p) overlay_default ?kvs = Inr ov"
    unfolding ov_def ds_def foldl_map map_map comp_def by (rule fold_res_all_ok) (rule step)
  let ?pair = "\<lambda>x :: storage_sequence \<times> vertex_id \<times> vertex_id \<times> bool. (fst (snd x), fst (snd (snd x)))"
  let ?val = "\<lambda>x :: storage_sequence \<times> vertex_id \<times> vertex_id \<times> bool. snd (snd (snd x))"
  have sorted: "sorted_wrt (\<lambda>x y. ?pair x = ?pair y \<longrightarrow> fst x < fst y) ds"
    by (rule sorted_wrt_mono_rel [OF _ xlog_scan_order [OF st v, of lo hi, folded ds_def]]) auto
  have pairs: "map (\<lambda>(a, b, e). ((a, b), e)) (map snd ds) = map (\<lambda>x. (?pair x, ?val x)) ds"
    by (simp add: split_beta)
  have state: "overlay_state ov a b = map_of (rev (map (\<lambda>x. (?pair x, ?val x)) ds)) (a, b)" for a b
    unfolding ov_def overlay_fold(2) [OF overlay_inv_default] pairs by (simp split: option.splits)
  have "overlay_state ov a b = Some e \<longleftrightarrow> newest_entry (graph_view db s) c t within a b e" for a b e
  proof -
    have "overlay_state ov a b = Some e \<longleftrightarrow>
        (\<exists>x \<in> set ds. ?pair x = (a, b) \<and> ?val x = e \<and> (\<forall>y \<in> set ds. ?pair y = (a, b) \<longrightarrow> fst y \<le> fst x))"
      unfolding state by (rule last_wins [OF sorted])
    also have "\<dots> \<longleftrightarrow> (\<exists>q. (q, a, b, e) \<in> set ds \<and> (\<forall>q' e'. (q', a, b, e') \<in> set ds \<longrightarrow> q' \<le> q))"
      by (auto intro!: bexI) fastforce+
    also have "\<dots> \<longleftrightarrow> newest_entry (graph_view db s) c t within a b e"
    proof -
      have val: "graph_view db s (K_XlogEntry c t q a b) \<noteq> None \<longleftrightarrow> (\<exists>e. graph_view db s (K_XlogEntry c t q a b) = Some (xlog_value e))" for q
        using xlog_scan_value(1) [OF st] by (metis not_None_eq)
      show ?thesis
        unfolding mem newest_entry_def using val by (metis linorder_not_less option.distinct(1))
    qed
    finally show ?thesis .
  qed
  moreover have "overlay_inv ov" unfolding ov_def by (rule overlay_fold(1)) simp
  ultimately show ?thesis using that run by blast
qed

end

subsection \<open>The delta of a store that satisfies the invariant\<close>

lemma greatest_u64:
  fixes P :: "u64 \<Rightarrow> bool"
  assumes "P q"
  obtains m where "P m" "q \<le> m" "\<And>q'. m < q' \<Longrightarrow> \<not> P q'"
proof -
  have fin: "finite {q. P q}" by simp
  have "P (Max {q. P q})" using Max_in [OF fin] assms by blast
  moreover have "q' \<le> Max {q. P q}" if "P q'" for q' using Max_ge [OF fin] that by simp
  ultimately show ?thesis using that assms by (meson leD)
qed

lemma saturating_succ:
  assumes "a < u64_max"
  shows "saturating_add_u64 a 1 = a + 1" "a + 1 \<le> q \<longleftrightarrow> a < q" "q < a + 1 \<longleftrightarrow> q \<le> a"
proof -
  have "unat a + 1 < 2 ^ 64" using assms by (simp add: word_less_nat_alt)
  then show "saturating_add_u64 a 1 = a + 1" by (simp add: saturating_add_u64_def)
  then have "unat (a + 1) = unat a + 1"
    using unat_saturating_add_u64 [of a 1] \<open>unat a + 1 < 2 ^ 64\<close> by simp
  then show "a + 1 \<le> q \<longleftrightarrow> a < q" "q < a + 1 \<longleftrightarrow> q \<le> a"
    by (auto simp: word_le_nat_alt word_less_nat_alt)
qed

lemma log_okD:
  assumes "log_ok now view" "view (K_XlogEntry c t q a b) = Some v"
  shows "q \<le> now" "(\<And>q'. q < q' \<Longrightarrow> view (K_XlogEntry c t q' a b) = None) \<Longrightarrow> v = xlog_value (has_edge view c t a b)"
  using assms unfolding log_ok_def by simp_all

lemma logged_state:
  assumes "log_ok now view" and typed: "\<And>q v. view (K_XlogEntry c t q a b) = Some v \<Longrightarrow> \<exists>e. v = xlog_value e"
    and within: "\<And>q. view (K_XlogEntry c t q a b) \<noteq> None \<Longrightarrow> within q \<longleftrightarrow> base < q"
    "\<And>q q'. within q \<Longrightarrow> q < q' \<Longrightarrow> view (K_XlogEntry c t q' a b) \<noteq> None \<Longrightarrow> within q'"
  shows "newest_entry view c t within a b e \<longleftrightarrow>
    (\<exists>q > base. view (K_XlogEntry c t q a b) \<noteq> None) \<and> e = has_edge view c t a b"
proof
  assume "newest_entry view c t within a b e"
  then obtain q where q: "within q" "view (K_XlogEntry c t q a b) = Some (xlog_value e)"
    "\<And>q'. within q' \<Longrightarrow> q < q' \<Longrightarrow> view (K_XlogEntry c t q' a b) = None"
    unfolding newest_entry_def by blast
  have "view (K_XlogEntry c t q' a b) = None" if "q < q'" for q'
    using q(3) [OF _ that] within(2) [OF q(1) that] by blast
  from log_okD(2) [OF assms(1) q(2) this] have "e = has_edge view c t a b" by simp
  moreover have "base < q" using within(1) [of q] q(1,2) by simp
  ultimately show "(\<exists>q > base. view (K_XlogEntry c t q a b) \<noteq> None) \<and> e = has_edge view c t a b"
    using q(2) by auto
next
  assume e: "(\<exists>q > base. view (K_XlogEntry c t q a b) \<noteq> None) \<and> e = has_edge view c t a b"
  then obtain q where "base < q" "view (K_XlogEntry c t q a b) \<noteq> None" by blast
  from this(2) obtain m where m: "view (K_XlogEntry c t m a b) \<noteq> None" "q \<le> m"
    "\<And>q'. m < q' \<Longrightarrow> \<not> view (K_XlogEntry c t q' a b) \<noteq> None"
    by (rule greatest_u64 [of "\<lambda>q. view (K_XlogEntry c t q a b) \<noteq> None"]) (rule that)
  obtain v where v: "view (K_XlogEntry c t m a b) = Some v" using m(1) by blast
  have "v = xlog_value (has_edge view c t a b)"
    by (rule log_okD(2) [OF assms(1) v]) (use m(3) in simp)
  moreover have "within m" using within(1) [OF m(1)] m(2) \<open>base < q\<close> by simp
  ultimately show "newest_entry view c t within a b e"
    unfolding newest_entry_def using e m(3) v by (intro exI [of _ m]) simp
qed

context kv_range
begin

lemma xlog_delta_complete:
  fixes previous
  defines "base \<equiv> gig_base_sequence previous"
  assumes ok: "graph_ok db shard spare s" and v: "valid_component c" "valid_component t"
    and now: "kv_seqnum db s < u64_max" "base \<le> kv_seqnum db s"
    and low: "graph_view db s (K_XlogLowWater c t) = Some (encode_u64 low)" "low \<le> saturating_add_u64 base 1"
  obtains ov where
    "xlog_delta_since db scan s previous (kv_seqnum db s) c t = Inr (XD_Complete ov)" "overlay_inv ov"
    "\<And>a b e. overlay_state ov a b = Some e \<longleftrightarrow>
       (\<exists>q > base. graph_view db s (K_XlogEntry c t q a b) \<noteq> None) \<and> e = has_edge (graph_view db s) c t a b"
proof -
  let ?now = "kv_seqnum db s" and ?view = "graph_view db s" and ?p = "keys_xlog_type_prefix c t"
  let ?from = "saturating_add_u64 base 1" and ?upper = "saturating_add_u64 ?now 1"
  have st: "store_typed db s" and lg: "log_ok ?now ?view"
    using ok by (simp_all add: graph_ok_def topology_ok_def)
  note sat = saturating_succ [OF now(1)] saturating_succ [OF le_less_trans [OF now(2,1)]]
  obtain ov where ov: "fold_res (xlog_delta_step ?p) overlay_default (scan s ?p (pad20 ?from) (Some (pad20 ?upper))) = Inr ov"
    "overlay_inv ov" "\<And>a b e. overlay_state ov a b = Some e \<longleftrightarrow> newest_entry ?view c t (\<lambda>q. ?from \<le> q \<and> q < ?upper) a b e"
    by (rule xlog_overlay [OF st v in_range_xlog(2) [of c t ?from ?upper]]) (rule that)
  have "read_txn_remote db s (K_XlogLowWater c t) = Some (encode_u64 low)"
    using low(1) v by (simp add: read_view)
  then have run: "xlog_delta_since db scan s previous ?now c t = Inr (XD_Complete ov)"
    using ov(1) low(2) by (simp add: xlog_delta_since_def Let_def base_def)
  have le: "q \<le> ?now" if "?view (K_XlogEntry c t q a b) \<noteq> None" for q a b
    using log_okD(1) [OF lg] that by blast
  have "newest_entry ?view c t (\<lambda>q. ?from \<le> q \<and> q < ?upper) a b e \<longleftrightarrow>
      (\<exists>q > base. ?view (K_XlogEntry c t q a b) \<noteq> None) \<and> e = has_edge ?view c t a b" for a b e
  proof (rule logged_state [OF lg])
    show "\<exists>e. v = xlog_value e" if "?view (K_XlogEntry c t q a b) = Some v" for q v
      using xlog_scan_value(1) [OF st that] by blast
    show "?from \<le> q \<and> q < ?upper \<longleftrightarrow> base < q" if "?view (K_XlogEntry c t q a b) \<noteq> None" for q
      using le [OF that] by (simp add: sat)
    show "?from \<le> q' \<and> q' < ?upper"
      if "?from \<le> q \<and> q < ?upper" "q < q'" "?view (K_XlogEntry c t q' a b) \<noteq> None" for q q'
      using le [OF that(3)] that(1,2) by (auto simp: sat)
  qed
  with ov(3) show ?thesis using that [OF run ov(2)] by blast
qed

end

end
