(* ===== verification/Changelog_Gc.thy ===== *)
theory Changelog_Gc
  imports Changelog
begin

text \<open>
  Collecting the changelog (\<open>gc_topology_changelog\<close> of \<open>src/shard/xlog.rs\<close>) and runs in which
  requests and collections alternate.  A collection keeps the invariant and every entry above the base
  of the generation it collects against, so the delta a later build reads still turns the edges of
  that generation into the current ones.
\<close>

declare render.simps [simp del] and render_prefix.simps [simp del] and in_family.simps [simp del]

subsection \<open>Batches\<close>

datatype graph_write_op = GW_Put string bytes | GW_Delete string

fun apply_write_op :: "'s kv_db \<Rightarrow> 's \<Rightarrow> graph_write_op \<Rightarrow> 's" where
  "apply_write_op db s (GW_Put key v) = kv_put db s key v"
| "apply_write_op db s (GW_Delete key) = kv_delete db s key"

definition write_graph_batch_txn ::
    "'s kv_db \<Rightarrow> graph_shard \<Rightarrow> string \<Rightarrow> string \<Rightarrow> graph_write_op list \<Rightarrow> 's \<Rightarrow> 's result" where
  "write_graph_batch_txn db shard cell_id operation ops s =
     and_then (begin_fenced db shard s cell_id operation) (\<lambda>_.
     commit_txn_strict db (foldl (apply_write_op db) s ops))"

definition write_graph_batch_strict ::
    "'s kv_db \<Rightarrow> graph_shard \<Rightarrow> string \<Rightarrow> string \<Rightarrow> graph_write_op list \<Rightarrow> 's \<Rightarrow> 's result" where
  "write_graph_batch_strict db shard cell_id operation ops s =
     and_then (validate_component ''cell_id'' cell_id) (\<lambda>_.
     if ops = [] then Inr s
     else graph_txn_retries (\<lambda>_. write_graph_batch_txn db shard cell_id operation ops s))"

subsection \<open>The collection\<close>

definition XLOG_GC_MAX_DELETES :: nat where
  "XLOG_GC_MAX_DELETES = 100000"

text \<open>
  \<open>ensure_cell_readable\<close> outside a pinned query snapshot, which is how the collection calls it; the batch
  write begins on the store the collection read, as the writer lane of the cell is held throughout.
\<close>

definition ensure_cell_readable :: "'s kv_db \<Rightarrow> 's \<Rightarrow> string \<Rightarrow> string \<Rightarrow> unit result" where
  "ensure_cell_readable db s cell_id operation =
     and_then (validate_component ''cell_id'' cell_id) (\<lambda>_.
     if read_txn_remote db s (K_CellDropMarker cell_id) \<noteq> None \<or>
        read_txn_remote db s (K_CellDropPendingMarker cell_id) \<noteq> None
     then Inl (CellDropped operation cell_id) else Inr ())"

definition current_epoch :: "'s kv_db \<Rightarrow> 's \<Rightarrow> string \<Rightarrow> storage_sequence result" where
  "current_epoch db s cell_id =
     and_then (validate_component ''cell_id'' cell_id) (\<lambda>_.
     and_then (ensure_cell_readable db s cell_id ''current_epoch'') (\<lambda>_.
     Inr (kv_seqnum db s)))"

fun xlog_gc_scan ::
    "string \<Rightarrow> storage_sequence \<Rightarrow> (string \<times> bytes) list \<Rightarrow> string list \<Rightarrow> storage_sequence \<Rightarrow>
     (string list \<times> storage_sequence \<times> bool) result" where
  "xlog_gc_scan p gc_through [] dead_keys last_sequence = Inr (dead_keys, last_sequence, False)"
| "xlog_gc_scan p gc_through ((key, v) # kvs) dead_keys last_sequence =
     and_then (parse_xlog_entry_key p key) (\<lambda>(sequence, _, _).
     if gc_through < sequence then Inr (dead_keys, last_sequence, False)
     else
       let dead_keys = dead_keys @ [key] in
       if XLOG_GC_MAX_DELETES \<le> length dead_keys then Inr (dead_keys, sequence, True)
       else xlog_gc_scan p gc_through kvs dead_keys sequence)"

definition gc_topology_changelog_to ::
    "'s kv_db \<Rightarrow> 's scan_range \<Rightarrow> graph_shard \<Rightarrow> graph_index_generation \<Rightarrow> 's \<Rightarrow> (u64 \<times> 's) result" where
  "gc_topology_changelog_to db scan shard generation s =
     (let cell_id = gig_cell_id generation;
          edge_type = gig_edge_type generation;
          operation = ''gc_topology_changelog'';
          low_key = K_XlogLowWater cell_id edge_type
      in and_then (ensure_write_authority shard cell_id operation) (\<lambda>_.
      case read_txn_remote db s low_key of
        None \<Rightarrow>
          and_then (current_epoch db s cell_id) (\<lambda>repaired.
          map_ok (Pair 0)
            (write_graph_batch_strict db shard cell_id operation [GW_Put (render low_key) (encode_u64 repaired)] s))
      | Some v \<Rightarrow>
          and_then (decode_u64 (render low_key) v) (\<lambda>low_water.
          let gc_through = gig_base_sequence generation;
              p = keys_xlog_type_prefix cell_id edge_type
          in if gc_through < low_water then Inr (0, s)
          else
            and_then (xlog_gc_scan p gc_through (scan s p (pad20 low_water) None) [] low_water)
              (\<lambda>(dead_keys, last_sequence, capped).
            if dead_keys = [] then Inr (0, s)
            else
              let next_low = (if capped then last_sequence else saturating_add_u64 gc_through 1);
                  batch = map GW_Delete dead_keys @
                    (if low_water < next_low then [GW_Put (render low_key) (encode_u64 next_low)] else [])
              in map_ok (Pair (of_nat (length dead_keys)))
                   (write_graph_batch_strict db shard cell_id operation batch s)))))"

text \<open>\<open>current\<close> is what reading the published manifest returned.\<close>

definition gc_topology_changelog ::
    "'s kv_db \<Rightarrow> 's scan_range \<Rightarrow> graph_shard \<Rightarrow> graph_index_generation option result \<Rightarrow> string \<Rightarrow> string \<Rightarrow> 's \<Rightarrow>
     (u64 \<times> 's) result" where
  "gc_topology_changelog db scan shard current cell_id edge_type s =
     and_then (validate_component ''cell_id'' cell_id) (\<lambda>_.
     and_then (validate_component ''edge_type'' edge_type) (\<lambda>_.
     if \<not> is_ok (db_writer shard) then Inr (0, s)
     else and_then current (\<lambda>generation.
       case generation of
         None \<Rightarrow> Inr (0, s)
       | Some g \<Rightarrow> gc_topology_changelog_to db scan shard g s)))"

lemma floor_of:
  assumes "graph_ok db shard spare s" "graph_view db s (K_XlogLowWater c t) = Some v"
  obtains low where "v = encode_u64 low" "low \<le> kv_seqnum db s"
proof -
  have "floor_ok (kv_seqnum db s) (graph_view db s)" using assms(1) by (simp add: graph_ok_def topology_ok_def)
  with assms(2) that show ?thesis unfolding floor_ok_def by blast
qed

lemma le_saturating_succ: "(a :: u64) \<le> b \<Longrightarrow> a \<le> saturating_add_u64 b 1"
  using unat_u64_less [of a] unat_u64_less [of b] by (simp add: word_le_nat_alt unat_saturating_add_u64 min_def)

subsection \<open>What it deletes\<close>

text \<open>The scan takes a prefix of the entries, up to the first one the generation does not cover.\<close>

lemma gc_scan_prefix:
  assumes "\<And>kv. kv \<in> set kvs \<Longrightarrow> \<exists>a b. parse_xlog_entry_key p (fst kv) = Inr (sq kv, a, b)"
  shows "\<exists>n last capped. n \<le> length kvs \<and>
    xlog_gc_scan p through kvs dead last0 = Inr (dead @ map fst (take n kvs), last, capped) \<and>
    (\<forall>kv \<in> set (take n kvs). sq kv \<le> through) \<and>
    (if capped then 0 < n \<and> last = sq (kvs ! (n - 1)) else n < length kvs \<longrightarrow> through < sq (kvs ! n))"
  using assms
proof (induction kvs arbitrary: dead last0)
  case (Cons kv kvs)
  obtain key v where kv: "kv = (key, v)" by (cases kv)
  obtain a b where pa: "parse_xlog_entry_key p key = Inr (sq kv, a, b)"
    using Cons.prems [of kv] kv by auto
  consider "through < sq kv" | "sq kv \<le> through" "XLOG_GC_MAX_DELETES \<le> length (dead @ [key])"
    | "sq kv \<le> through" "\<not> XLOG_GC_MAX_DELETES \<le> length (dead @ [key])" by (meson linorder_not_less)
  then show ?case
  proof cases
    case 1
    then show ?thesis using kv pa by (intro exI [of _ 0] exI [of _ last0] exI [of _ False]) simp
  next
    case 2
    then show ?thesis
      using kv pa by (intro exI [of _ 1] exI [of _ "sq kv"] exI [of _ True]) (simp add: not_less Let_def)
  next
    case 3
    obtain n last capped where n: "n \<le> length kvs"
      "xlog_gc_scan p through kvs (dead @ [key]) (sq kv) = Inr ((dead @ [key]) @ map fst (take n kvs), last, capped)"
      "\<forall>kv \<in> set (take n kvs). sq kv \<le> through"
      "if capped then 0 < n \<and> last = sq (kvs ! (n - 1)) else n < length kvs \<longrightarrow> through < sq (kvs ! n)"
      using Cons.IH [of "dead @ [key]" "sq kv"] Cons.prems by force
    then show ?thesis
      using 3 kv pa
      by (intro exI [of _ "Suc n"] exI [of _ last] exI [of _ capped]) (auto simp: not_less Let_def nth_Cons' split: if_splits)
  qed
qed auto

lemma xlog_entry_inject: "keys_xlog_entry c t q a b = keys_xlog_entry c t q' a' b' \<longleftrightarrow> q = q' \<and> a = a' \<and> b = b'"
  by (metis parse_xlog_render Pair_inject sum.inject(2))

lemma take_downward:
  assumes "sorted_wrt (\<lambda>x y. f x < (f y :: 'b::linorder)) xs" "x \<in> set (take n xs)" "y \<in> set xs" "f y < f x"
  shows "y \<in> set (take n xs)"
proof (rule ccontr)
  assume "y \<notin> set (take n xs)"
  moreover have "y \<in> set (take n xs) \<or> y \<in> set (drop n xs)" using assms(3) by (metis Un_iff append_take_drop_id set_append)
  ultimately have "y \<in> set (drop n xs)" by blast
  moreover have "sorted_wrt (\<lambda>x y. f x < f y) (take n xs @ drop n xs)" using assms(1) by simp
  ultimately have "f x < f y" using assms(2) unfolding sorted_wrt_append by blast
  with assms(4) show False by simp
qed

lemma drop_above:
  assumes "sorted_wrt (\<lambda>x y. f x < (f y :: 'b::linorder)) xs" "y \<in> set xs" "y \<notin> set (take n xs)"
  shows "n < length xs \<and> f (xs ! n) \<le> f y"
proof -
  obtain i where i: "i < length xs" "xs ! i = y" using assms(2) by (auto simp: in_set_conv_nth)
  have "n \<le> i"
  proof (rule ccontr)
    assume "\<not> n \<le> i"
    then have "y \<in> set (take n xs)" using i by (auto simp: in_set_conv_nth intro!: exI [of _ i])
    with assms(3) show False by simp
  qed
  then show ?thesis using i sorted_wrt_nth_less [OF assms(1), of n i] by (cases "n = i") auto
qed

context kv_range
begin

lemma gc_scan_entries:
  fixes c t
  defines "entry \<equiv> \<lambda>(q, a, b). K_XlogEntry c t q a b"
  assumes st: "store_typed db s" and v: "valid_component c" "valid_component t"
  obtains dl last capped where
    "xlog_gc_scan (keys_xlog_type_prefix c t) through (scan s (keys_xlog_type_prefix c t) (pad20 low) None) [] low =
       Inr (map (\<lambda>x. render (entry x)) dl, last, capped)"
    "\<And>x. x \<in> set dl \<Longrightarrow> low \<le> fst x \<and> fst x \<le> through \<and> graph_view db s (entry x) \<noteq> None"
    "\<And>x y. x \<in> set dl \<Longrightarrow> low \<le> fst y \<Longrightarrow> fst y < fst x \<Longrightarrow> graph_view db s (entry y) \<noteq> None \<Longrightarrow> y \<in> set dl"
    "capped \<Longrightarrow> \<exists>x \<in> set dl. fst x = last"
    "\<And>x. \<not> capped \<Longrightarrow> low \<le> fst x \<Longrightarrow> fst x \<le> through \<Longrightarrow> graph_view db s (entry x) \<noteq> None \<Longrightarrow> x \<in> set dl"
proof -
  let ?p = "keys_xlog_type_prefix c t"
  define kvs where "kvs = scan s ?p (pad20 low) None"
  define tri where "tri = (\<lambda>kv. let (q, a, b, e) = xlog_decoded ?p kv in (q, a, b))"
  have key: "\<exists>q a b w. kv = (keys_xlog_entry c t q a b, w)" if "kv \<in> set kvs" for kv
    using xlog_scan [OF st v, of "fst kv" "snd kv"] that by (cases kv) (auto simp: kvs_def)
  have tri: "tri (keys_xlog_entry c t q a b, w) = (q, a, b)" for q a b w by (simp add: tri_def)
  have render_tri: "fst kv = render (entry (tri kv))" if "kv \<in> set kvs" for kv
    using key [OF that] by (auto simp: tri entry_def render.simps)
  have mem: "x \<in> tri ` set kvs \<longleftrightarrow> low \<le> fst x \<and> graph_view db s (entry x) \<noteq> None" for x
  proof -
    obtain q a b where x: "x = (q, a, b)" by (cases x)
    have "x \<in> tri ` set kvs \<longleftrightarrow> (\<exists>w. (keys_xlog_entry c t q a b, w) \<in> set kvs)"
    proof
      assume "x \<in> tri ` set kvs"
      then obtain kv where kv: "kv \<in> set kvs" "x = tri kv" by blast
      with key [OF kv(1)] tri x show "\<exists>w. (keys_xlog_entry c t q a b, w) \<in> set kvs" by auto
    next
      assume "\<exists>w. (keys_xlog_entry c t q a b, w) \<in> set kvs"
      then obtain w where "(keys_xlog_entry c t q a b, w) \<in> set kvs" ..
      from imageI [OF this, of tri] show "x \<in> tri ` set kvs" by (simp add: tri x)
    qed
    also have "\<dots> \<longleftrightarrow> low \<le> q \<and> graph_view db s (entry x) \<noteq> None"
      unfolding kvs_def xlog_scan [OF st v]
      by (auto simp: in_range_xlog x entry_def xlog_entry_inject)
    finally show ?thesis using x by simp
  qed
  have sorted: "sorted_wrt (\<lambda>x y. tri x < tri y) kvs"
    using xlog_scan_order [OF st v, of "pad20 low" None] unfolding kvs_def [symmetric] sorted_wrt_map
    by (simp add: tri_def split_beta Let_def)
  have "\<exists>a b. parse_xlog_entry_key ?p (fst kv) = Inr (fst (tri kv), a, b)" if "kv \<in> set kvs" for kv
    using key [OF that] by (auto simp: tri)
  from gc_scan_prefix [OF this, of kvs through "[]" low] obtain n last capped where n: "n \<le> length kvs"
    "xlog_gc_scan ?p through kvs [] low = Inr (map fst (take n kvs), last, capped)"
    "\<forall>kv \<in> set (take n kvs). fst (tri kv) \<le> through"
    "if capped then 0 < n \<and> last = fst (tri (kvs ! (n - 1))) else n < length kvs \<longrightarrow> through < fst (tri (kvs ! n))"
    by auto
  define dl where "dl = map tri (take n kvs)"
  have sub: "kv \<in> set kvs" if "kv \<in> set (take n kvs)" for kv using that by (rule in_set_takeD)
  show ?thesis
  proof (rule that [of dl last capped])
    show "xlog_gc_scan ?p through (scan s ?p (pad20 low) None) [] low = Inr (map (\<lambda>x. render (entry x)) dl, last, capped)"
      using n(2) render_tri sub by (simp add: dl_def kvs_def [symmetric])
    show "low \<le> fst x \<and> fst x \<le> through \<and> graph_view db s (entry x) \<noteq> None" if "x \<in> set dl" for x
      using that n(3) mem [of x] sub unfolding dl_def by auto
    show "y \<in> set dl" if xy: "x \<in> set dl" "low \<le> fst y" "fst y < fst x" "graph_view db s (entry y) \<noteq> None" for x y
    proof -
      obtain kx ky where k: "kx \<in> set (take n kvs)" "x = tri kx" "ky \<in> set kvs" "y = tri ky"
        using xy(1,2,4) mem [of y] unfolding dl_def by auto
      have "tri ky < tri kx" using xy(3) k(2,4) by (cases "tri kx"; cases "tri ky") auto
      then show ?thesis using take_downward [OF sorted k(1,3)] k(4) by (simp add: dl_def)
    qed
    show "\<exists>x \<in> set dl. fst x = last" if capped
    proof -
      have "0 < n" "last = fst (tri (kvs ! (n - 1)))" using that n(4) by simp_all
      moreover from this have "kvs ! (n - 1) \<in> set (take n kvs)"
        using n(1) nth_mem [of "n - 1" "take n kvs"] by simp
      ultimately show ?thesis unfolding dl_def by auto
    qed
    show "x \<in> set dl" if u: "\<not> capped" "low \<le> fst x" "fst x \<le> through" "graph_view db s (entry x) \<noteq> None" for x
    proof (rule ccontr)
      assume "x \<notin> set dl"
      moreover obtain kx where k: "kx \<in> set kvs" "x = tri kx" using mem [of x] u(2,4) by auto
      ultimately have "kx \<notin> set (take n kvs)" by (auto simp: dl_def)
      from drop_above [OF sorted k(1) this] have "through < fst x"
        using n(4) u(1) k(2) by (cases "tri (kvs ! n)"; cases "tri kx") auto
      with u(3) show False by simp
    qed
  qed
qed

end

subsection \<open>What a collection changes\<close>

lemma retry_const: "graph_txn_retries (\<lambda>_. x) = Inr r \<Longrightarrow> x = Inr r"
proof -
  have "retry_loop (\<lambda>_. x) i n = Inr r \<Longrightarrow> x = Inr r" for i n
    by (induction n arbitrary: i) (auto split: sum.splits if_splits)
  then show "graph_txn_retries (\<lambda>_. x) = Inr r \<Longrightarrow> x = Inr r" by (simp add: graph_txn_retries_def)
qed

lemma retry_at_once: "graph_txn_retries (\<lambda>_. Inr r) = Inr r"
proof -
  obtain n where n: "GRAPH_TXN_MAX_RETRIES = Suc n" by (cases GRAPH_TXN_MAX_RETRIES) (simp_all add: GRAPH_TXN_MAX_RETRIES_def)
  have "retry_loop (\<lambda>_. Inr r) 0 (Suc n) = Inr r" by simp
  then show ?thesis unfolding graph_txn_retries_def n .
qed

lemma batch_commit:
  assumes "write_graph_batch_strict db shard c operation ops s = Inr s'" "ops \<noteq> []"
  shows "commit_result_with db () (foldl (apply_write_op db) s ops) = Inr ((), s')"
proof -
  have "graph_txn_retries (\<lambda>_. write_graph_batch_txn db shard c operation ops s) = Inr s'"
    using assms by (simp add: write_graph_batch_strict_def and_then_eq_Inr)
  from retry_const [OF this] show ?thesis
    by (auto simp: write_graph_batch_txn_def and_then_eq_Inr commit_result_with_def map_ok_eq_Inr)
qed

lemma apply_txn_ops:
  "apply_write_op db s (GW_Put (render k) v) = txn_put db s k v" "apply_write_op db s (GW_Delete (render k)) = txn_delete db s k"
  by (simp_all add: txn_put_def txn_delete_def)

context kv_store
begin

lemma deletes_effect:
  assumes "\<forall>k \<in> set ks. valid_key k" "store_typed db s"
  defines "s' \<equiv> foldl (apply_write_op db) s (map (\<lambda>k. GW_Delete (render k)) ks)"
  shows "graph_view db s' = (\<lambda>k. if k \<in> set ks then None else graph_view db s k)"
    "store_typed db s'" "kv_seqnum db s' = kv_seqnum db s"
proof -
  have "graph_view db s' = (\<lambda>k. if k \<in> set ks then None else graph_view db s k) \<and>
      store_typed db s' \<and> kv_seqnum db s' = kv_seqnum db s"
    using assms(1,2) unfolding s'_def
  proof (induction ks arbitrary: s)
    case (Cons k ks)
    have "graph_view db (txn_delete db s k) = (graph_view db s)(k := None)" using Cons.prems by simp
    with Cons.IH [of "txn_delete db s k"] Cons.prems typed_delete [OF Cons.prems(2)] show ?case
      by (auto simp: apply_txn_ops fun_eq_iff txn_delete_def seqnum_delete simp del: apply_write_op.simps)
  qed simp
  then show "graph_view db s' = (\<lambda>k. if k \<in> set ks then None else graph_view db s k)"
    "store_typed db s'" "kv_seqnum db s' = kv_seqnum db s" by blast+
qed

text \<open>A step that changes changelog keys only keeps the invariant as far as the changelog allows.\<close>

lemma log_step:
  assumes ok: "graph_ok db shard spare s" and ag: "agree (- {KC_Log}) (graph_view db s) (graph_view db s1)"
    and ty: "store_typed db s1" and seq: "kv_seqnum db s1 = kv_seqnum db s"
    and low: "\<And>c t. graph_view db s (K_XlogLowWater c t) \<noteq> None \<Longrightarrow> graph_view db s1 (K_XlogLowWater c t) \<noteq> None"
    and lg: "kv_seqnum db s < kv_seqnum db s + 1 \<Longrightarrow>
      log_ok (kv_seqnum db s + 1) (graph_view db s1) \<and> floor_ok (kv_seqnum db s + 1) (graph_view db s1)"
    and commit: "commit_result_with db () s1 = Inr ((), s')"
  shows "graph_ok db shard spare s'" "has_edge (graph_view db s') = has_edge (graph_view db s)"
    "graph_view db s' = graph_view db s1" "kv_seqnum db s < kv_seqnum db s'"
proof -
  let ?v = "graph_view db s" and ?w = "graph_view db s1"
  have k: "?w k = ?v k" if "class_of k \<noteq> KC_Log" for k using agreeD [OF ag, of k] that by simp
  have c: "counter ?w k = counter ?v k" if "class_of k \<noteq> KC_Log" for k using k [OF that] by (simp add: counter_def)
  have he: "has_edge ?w = has_edge ?v"
    using has_edge_agree [OF agree_mono [OF ag, of "{KC_Edge, KC_Segment}"]] by (simp add: fun_eq_iff)
  have sg: "seg_edge ?w c t a b = seg_edge ?v c t a b" for c t a b
    using seg_edge_agree [OF agree_mono [OF ag, of "{KC_Segment}"]] by simp
  have st: "staged db shard spare (kv_seqnum db s + 1) s1" if less: "kv_seqnum db s < kv_seqnum db s + 1"
  proof -
    have t: "topology_ok (writes_reverse_index shard) spare (kv_seqnum db s) ?v" and con: "contents_ok ?v"
      and fl: "floor_cache_ok shard ?v" using ok by (simp_all add: graph_ok_def)
    have "sequences_ok ?w (kv_seqnum db s + 1)"
      by (rule sequences_ok_agree [OF agree_mono [OF ag] topology_ok_records(2) [OF t]]) (use less in simp_all)
    moreover have "records_ok (writes_reverse_index shard) ?w"
      using topology_ok_records(1) [OF t] by (simp add: records_ok_def k sg)
    moreover have "degrees_ok (writes_reverse_index shard) ?w"
      using t by (simp add: topology_ok_def degrees_ok_def he c)
    ultimately have "topology_ok (writes_reverse_index shard) spare (kv_seqnum db s + 1) ?w"
      using t lg [OF less] by (simp add: topology_ok_def he)
    moreover have "contents_ok ?w"
    proof -
      have "endpoints_ok ?w" using con by (simp add: contents_ok_def endpoints_ok_def he k)
      moreover have "rels_ok ?w"
        by (rule rels_ok_agree [OF agree_mono [OF ag]]) (use con in \<open>simp_all add: contents_ok_def he\<close>)
      ultimately show ?thesis
        using con vertex_index_agree [OF agree_mono [OF ag]] edge_index_agree [OF agree_mono [OF ag]]
          rel_index_agree [OF agree_mono [OF ag]] by (simp add: contents_ok_def)
    qed
    moreover have "floor_cache_ok shard ?w" using fl low unfolding floor_cache_ok_def by blast
    ultimately show ?thesis using ty by (simp add: staged_def)
  qed
  note cm = staged_commit [OF commit seq st]
  show "graph_ok db shard spare s'" "graph_view db s' = ?w" "kv_seqnum db s < kv_seqnum db s'"
    using cm(3-5) by simp_all
  show "has_edge (graph_view db s') = has_edge ?v" using cm(3) he by simp
qed

end

text \<open>Deleting the oldest entries and raising the floor to the first one kept.\<close>

lemma collected_log:
  assumes ok: "log_ok now view" "floor_ok now view" and le: "now \<le> now'" and he: "has_edge w = has_edge view"
    and low: "view (K_XlogLowWater c t) = Some (encode_u64 low)"
    and D: "\<And>q a b q'. D q a b \<Longrightarrow> q' < q \<Longrightarrow> view (K_XlogEntry c t q' a b) \<noteq> None \<Longrightarrow> D q' a b"
      "\<And>q a b. \<not> D q a b \<Longrightarrow> view (K_XlogEntry c t q a b) \<noteq> None \<Longrightarrow> next_low \<le> q" and "next_low \<le> now'"
    and w: "\<And>c' t' q a b. w (K_XlogEntry c' t' q a b) = (if c' = c \<and> t' = t \<and> D q a b then None else view (K_XlogEntry c' t' q a b))"
      "\<And>c' t'. w (K_XlogLowWater c' t') = (if c' = c \<and> t' = t then Some (encode_u64 next_low) else view (K_XlogLowWater c' t'))"
  shows "log_ok now' w" "floor_ok now' w"
proof -
  have "q \<le> now' \<and> ((\<forall>q' > q. w (K_XlogEntry c' t' q' a b) = None) \<longrightarrow> v = xlog_value (has_edge w c' t' a b))"
    if v: "w (K_XlogEntry c' t' q a b) = Some v" for c' t' q a b v
  proof -
    have kept: "\<not> (c' = c \<and> t' = t \<and> D q a b)" and old: "view (K_XlogEntry c' t' q a b) = Some v"
      using v by (simp_all add: w(1) split: if_splits)
    have "view (K_XlogEntry c' t' q' a b) = None"
      if "\<forall>q' > q. w (K_XlogEntry c' t' q' a b) = None" "q < q'" for q'
    proof (rule ccontr)
      assume "view (K_XlogEntry c' t' q' a b) \<noteq> None"
      moreover have "w (K_XlogEntry c' t' q' a b) = None" using that by blast
      ultimately have "c' = c \<and> t' = t \<and> D q' a b" by (simp add: w(1) split: if_splits)
      with D(1) [of q' a b q] \<open>q < q'\<close> old kept show False by simp
    qed
    then show ?thesis
      using log_okD [OF ok(1) old] le by (auto simp: he)
  qed
  then show "log_ok now' w" unfolding log_ok_def by blast
  have fl: "\<exists>l \<le> now. v = encode_u64 l \<and> (\<forall>q a b. view (K_XlogEntry c' t' q a b) \<noteq> None \<longrightarrow> l \<le> q)"
    if "view (K_XlogLowWater c' t') = Some v" for c' t' v
    using ok(2) that unfolding floor_ok_def by blast
  have "\<exists>l \<le> now'. v = encode_u64 l \<and> (\<forall>q a b. w (K_XlogEntry c' t' q a b) \<noteq> None \<longrightarrow> l \<le> q)"
    if v: "w (K_XlogLowWater c' t') = Some v" for c' t' v
  proof (cases "c' = c \<and> t' = t")
    case True
    then have "v = encode_u64 next_low" using v by (simp add: w(2))
    moreover have "next_low \<le> q" if "w (K_XlogEntry c' t' q a b) \<noteq> None" for q a b
      using D(2) [of q a b] that True by (simp add: w(1) split: if_splits)
    ultimately show ?thesis using assms(8) by blast
  next
    case False
    then have "view (K_XlogLowWater c' t') = Some v" using v by (simp add: w(2) split: if_splits)
    from fl [OF this] obtain l where l: "l \<le> now" "v = encode_u64 l" "\<And>q a b. view (K_XlogEntry c' t' q a b) \<noteq> None \<Longrightarrow> l \<le> q"
      by blast
    have "w (K_XlogEntry c' t' q a b) = view (K_XlogEntry c' t' q a b)" for q a b using False by (auto simp: w(1))
    then have "l \<le> q" if "w (K_XlogEntry c' t' q a b) \<noteq> None" for q a b using l(3) that by simp
    then show ?thesis using l(1,2) le order_trans by blast
  qed
  moreover have "w (K_XlogEntry c' t' q a b) = None" if "w (K_XlogLowWater c' t') = None" for c' t' q a b
    using that ok(2) unfolding floor_ok_def by (auto simp: w split: if_splits)
  ultimately show "floor_ok now' w" unfolding floor_ok_def by blast
qed

lemma encode_u64_inject [simp]: "encode_u64 a = encode_u64 b \<longleftrightarrow> a = b"
  by (metis decode_encode_u64 sum.inject(2))

lemma floor_okD:
  assumes "floor_ok now view" "view (K_XlogLowWater c t) = Some (encode_u64 low)" "view (K_XlogEntry c t q a b) \<noteq> None"
  shows "low \<le> q"
proof -
  obtain l where "encode_u64 low = encode_u64 l" "\<forall>q a b. view (K_XlogEntry c t q a b) \<noteq> None \<longrightarrow> l \<le> q"
    using assms(1,2) unfolding floor_ok_def by (metis (no_types))
  then show ?thesis using assms(3) unfolding encode_u64_inject by blast
qed

lemma saturating_succ_mono: "a \<le> b \<Longrightarrow> saturating_add_u64 a 1 \<le> saturating_add_u64 b 1"
  by (simp add: word_le_nat_alt unat_saturating_add_u64)

subsection \<open>A collection keeps the invariant\<close>

definition gc_effect :: "'s kv_db \<Rightarrow> vertex_id \<Rightarrow> storage_sequence \<Rightarrow> graph_shard \<Rightarrow> 's \<Rightarrow> 's \<Rightarrow> bool" where
  "gc_effect db spare base shard s s' \<longleftrightarrow>
     graph_ok db shard spare s' \<and> kv_seqnum db s \<le> kv_seqnum db s' \<and>
     has_edge (graph_view db s') = has_edge (graph_view db s) \<and>
     (\<forall>c t q a b. base < q \<longrightarrow> graph_view db s' (K_XlogEntry c t q a b) = graph_view db s (K_XlogEntry c t q a b)) \<and>
     (\<forall>c t low. graph_view db s (K_XlogLowWater c t) = Some (encode_u64 low) \<longrightarrow>
        (\<exists>low'. graph_view db s' (K_XlogLowWater c t) = Some (encode_u64 low') \<and>
           (low' = low \<or> low' \<le> saturating_add_u64 base 1)))"

context kv_range
begin

lemma gc_effect_refl: "graph_ok db shard spare s \<Longrightarrow> gc_effect db spare base shard s s"
  by (auto simp: gc_effect_def)

lemma gc_repair:
  assumes ok: "graph_ok db shard spare s" and v: "valid_component c" "valid_component t"
    and none: "graph_view db s (K_XlogLowWater c t) = None"
    and run: "write_graph_batch_strict db shard c operation [GW_Put (render (K_XlogLowWater c t)) (encode_u64 (kv_seqnum db s))] s = Inr s'"
  shows "gc_effect db spare base shard s s'"
proof -
  let ?now = "kv_seqnum db s" and ?view = "graph_view db s"
  define s1 where "s1 = txn_put db s (K_XlogLowWater c t) (encode_u64 ?now)"
  have commit: "commit_result_with db () s1 = Inr ((), s')"
    using batch_commit [OF run] by (simp add: s1_def apply_txn_ops del: apply_write_op.simps)
  have st: "store_typed db s" and lg: "log_ok ?now ?view" "floor_ok ?now ?view"
    using ok by (simp_all add: graph_ok_def topology_ok_def)
  have view: "graph_view db s1 = ?view(K_XlogLowWater c t \<mapsto> encode_u64 ?now)" using v by (simp add: s1_def)
  have gone: "?view (K_XlogEntry c t q a b) = None" for q a b using lg(2) none unfolding floor_ok_def by blast
  have he: "has_edge (graph_view db s1) = has_edge ?view"
    using has_edge_agree [of ?view "graph_view db s1"] by (simp add: view fun_eq_iff)
  have "log_ok (?now + 1) (graph_view db s1) \<and> floor_ok (?now + 1) (graph_view db s1)" if less: "?now < ?now + 1"
  proof
    show "log_ok (?now + 1) (graph_view db s1)"
      using lg(1) less_imp_le [OF less] unfolding log_ok_def he by (simp add: view) (meson order_trans)
    show "floor_ok (?now + 1) (graph_view db s1)"
      using floor_ok_mono [OF lg(2), of "?now + 1"] less gone unfolding floor_ok_def
      by (auto simp: view intro!: exI [of _ ?now])
  qed
  note step = log_step [OF ok _ _ _ _ this commit]
  have 1: "agree (- {KC_Log}) ?view (graph_view db s1)" by (simp add: view agree_def)
  have 2: "store_typed db s1" unfolding s1_def by (rule typed_put [OF st]) (use v in \<open>simp_all add: encode_u64_length\<close>)
  have 3: "kv_seqnum db s1 = ?now" by (simp add: s1_def txn_put_def seqnum_put)
  have 4: "?view (K_XlogLowWater c' t') \<noteq> None \<Longrightarrow> graph_view db s1 (K_XlogLowWater c' t') \<noteq> None" for c' t' by (simp add: view)
  note step = step [OF 1 2 3 4]
  show ?thesis
    using step none by (auto simp: gc_effect_def view)
qed

lemma gc_collect:
  fixes c t base
  defines "p \<equiv> keys_xlog_type_prefix c t" and "low_key \<equiv> K_XlogLowWater c t"
  assumes ok: "graph_ok db shard spare s" and v: "valid_component c" "valid_component t"
    and low: "graph_view db s low_key = Some (encode_u64 low)" "low \<le> base" and base: "base \<le> kv_seqnum db s"
    and dead: "xlog_gc_scan p base (scan s p (pad20 low) None) [] low = Inr (dead, last_sequence, capped)" "dead \<noteq> []"
    and nl: "next_low = (if capped then last_sequence else saturating_add_u64 base 1)"
    and run: "write_graph_batch_strict db shard c operation (map GW_Delete dead @
      (if low < next_low then [GW_Put (render low_key) (encode_u64 next_low)] else [])) s = Inr s'"
  shows "gc_effect db spare base shard s s'"
proof -
  let ?now = "kv_seqnum db s" and ?view = "graph_view db s"
  define entry where "entry = (\<lambda>(q, a, b). K_XlogEntry c t q a b)"
  have st: "store_typed db s" and lg: "log_ok ?now ?view" "floor_ok ?now ?view"
    using ok by (simp_all add: graph_ok_def topology_ok_def)
  obtain dl last' capped' where g: "xlog_gc_scan p base (scan s p (pad20 low) None) [] low = Inr (map (\<lambda>x. render (entry x)) dl, last', capped')"
    "\<And>x. x \<in> set dl \<Longrightarrow> low \<le> fst x \<and> fst x \<le> base \<and> ?view (entry x) \<noteq> None"
    "\<And>x y. x \<in> set dl \<Longrightarrow> low \<le> fst y \<Longrightarrow> fst y < fst x \<Longrightarrow> ?view (entry y) \<noteq> None \<Longrightarrow> y \<in> set dl"
    "capped' \<Longrightarrow> \<exists>x \<in> set dl. fst x = last'"
    "\<And>x. \<not> capped' \<Longrightarrow> low \<le> fst x \<Longrightarrow> fst x \<le> base \<Longrightarrow> ?view (entry x) \<noteq> None \<Longrightarrow> x \<in> set dl"
    by (rule gc_scan_entries [OF st v, of base low, folded entry_def p_def]) (rule that)
  have eq: "dead = map (\<lambda>x. render (entry x)) dl" "last' = last_sequence" "capped' = capped" using dead(1) g(1) by simp_all
  note dl = eq(1) g(2,3) g(4,5) [unfolded eq(2,3)]
  have above: "low \<le> q" if "?view (K_XlogEntry c t q a b) \<noteq> None" for q a b
    by (rule floor_okD [OF lg(2) low(1) [unfolded low_key_def] that])
  define s0 where "s0 = foldl (apply_write_op db) s (map (\<lambda>k. GW_Delete (render k)) (map entry dl))"
  define s1 where "s1 = (if low < next_low then txn_put db s0 low_key (encode_u64 next_low) else s0)"
  have vk: "\<forall>k \<in> set (map entry dl). valid_key k" using v by (auto simp: entry_def)
  note s0 = deletes_effect [OF vk st, folded s0_def]
  have del: "map GW_Delete dead = map (\<lambda>k. GW_Delete (render k)) (map entry dl)" by (simp add: dl(1))
  have commit: "commit_result_with db () s1 = Inr ((), s')"
    using batch_commit [OF run] dead(2) unfolding del foldl_append s0_def [symmetric]
    by (cases "low < next_low") (simp_all add: dl(1) s1_def apply_txn_ops del: apply_write_op.simps)
  have capped: "low \<le> last_sequence \<and> last_sequence \<le> base" if capped using dl(4) [OF that] dl(2) by blast
  have "low \<le> next_low" using nl capped le_saturating_succ [OF low(2)] by auto
  have "low_key \<notin> set (map entry dl)" by (auto simp: entry_def low_key_def)
  then have view: "graph_view db s1 k = (if k \<in> set (map entry dl) then None
      else if k = low_key then Some (encode_u64 next_low) else ?view k)" for k
    using v low(1) \<open>low \<le> next_low\<close> by (auto simp: s1_def s0(1) low_key_def)
  have other: "class_of k \<noteq> KC_Log \<Longrightarrow> graph_view db s1 k = ?view k" for k
    unfolding view by (auto simp: entry_def low_key_def)
  then have ag: "agree (- {KC_Log}) ?view (graph_view db s1)" by (simp add: agree_def)
  have he: "has_edge (graph_view db s1) = has_edge ?view"
    using has_edge_agree [OF agree_mono [OF ag, of "{KC_Edge, KC_Segment}"]] by (simp add: fun_eq_iff)
  have ent: "graph_view db s1 (K_XlogEntry c' t' q a b) =
      (if c' = c \<and> t' = t \<and> (q, a, b) \<in> set dl then None else ?view (K_XlogEntry c' t' q a b))" for c' t' q a b
    unfolding view by (auto simp: entry_def low_key_def image_iff)
  have lw: "graph_view db s1 (K_XlogLowWater c' t') =
      (if c' = c \<and> t' = t then Some (encode_u64 next_low) else ?view (K_XlogLowWater c' t'))" for c' t'
    unfolding view by (auto simp: entry_def low_key_def)
  have kept: "next_low \<le> q" if "?now < ?now + 1" "(q, a, b) \<notin> set dl" "?view (K_XlogEntry c t q a b) \<noteq> None" for q a b
  proof (cases capped)
    case True
    then obtain x where "x \<in> set dl" "fst x = last_sequence" using dl(4) by blast
    then have "\<not> q < last_sequence" using dl(3) [of x "(q, a, b)"] above [OF that(3)] that(2,3) by (auto simp: entry_def)
    then show ?thesis using nl True by simp
  next
    case False
    have "\<not> q \<le> base" using dl(5) [OF False, of "(q, a, b)"] above [OF that(3)] that(2,3) by (auto simp: entry_def)
    moreover have "base < u64_max" using base that(1) by (metis le_u64_max le_less_trans less_le_trans)
    ultimately show ?thesis using nl False by (simp add: saturating_succ)
  qed
  have "log_ok (?now + 1) (graph_view db s1) \<and> floor_ok (?now + 1) (graph_view db s1)" if less: "?now < ?now + 1"
  proof -
    have "?now < u64_max" using less le_u64_max less_le_trans by blast
    then have "next_low \<le> ?now + 1"
      using nl capped base less saturating_succ_mono [OF base] saturating_succ(1) [of ?now] by (auto split: if_splits)
    moreover have "(q', a, b) \<in> set dl"
      if "(q, a, b) \<in> set dl" "q' < q" "?view (K_XlogEntry c t q' a b) \<noteq> None" for q a b q'
      using dl(3) [OF that(1), of "(q', a, b)"] above [OF that(3)] that(2,3) by (simp add: entry_def)
    ultimately show ?thesis
      using collected_log [OF lg less_imp_le [OF less] he low(1) [unfolded low_key_def], of "\<lambda>q a b. (q, a, b) \<in> set dl" next_low]
        kept [OF less] ent lw by blast
  qed
  note step = log_step [OF ok ag _ _ _ this commit]
  have 1: "store_typed db s1"
    unfolding s1_def low_key_def using typed_put [OF s0(2), of "K_XlogLowWater c t"] s0(2) v by simp
  have 2: "kv_seqnum db s1 = ?now" using s0(3) by (simp add: s1_def txn_put_def seqnum_put)
  have 3: "?view (K_XlogLowWater c' t') \<noteq> None \<Longrightarrow> graph_view db s1 (K_XlogLowWater c' t') \<noteq> None" for c' t' by (simp add: lw)
  note step = step [OF 1 2 3]
  have "(q, a, b) \<notin> set dl" if "base < q" for q a b using dl(2) [of "(q, a, b)"] that by auto
  then have new: "base < q \<Longrightarrow> graph_view db s' (K_XlogEntry c' t' q a b) = ?view (K_XlogEntry c' t' q a b)" for c' t' q a b
    using step(3) ent [of c' t' q a b] by simp
  have "next_low \<le> saturating_add_u64 base 1" using nl capped le_saturating_succ by auto
  then have "\<exists>l. graph_view db s' (K_XlogLowWater c' t') = Some (encode_u64 l) \<and> (l = l' \<or> l \<le> saturating_add_u64 base 1)"
    if "?view (K_XlogLowWater c' t') = Some (encode_u64 l')" for c' t' l'
    using step(3) lw [of c' t'] that by auto
  then show ?thesis using step(1,2,4) new unfolding gc_effect_def by auto
qed

lemma gc_ok:
  assumes ok: "graph_ok db shard spare s" and v: "valid_component (gig_cell_id g)" "valid_component (gig_edge_type g)"
    and base: "gig_base_sequence g \<le> kv_seqnum db s" and run: "gc_topology_changelog_to db scan shard g s = Inr (n, s')"
  shows "gc_effect db spare (gig_base_sequence g) shard s s'"
proof (cases "graph_view db s (K_XlogLowWater (gig_cell_id g) (gig_edge_type g))")
  case None
  then obtain operation where "write_graph_batch_strict db shard (gig_cell_id g) operation
      [GW_Put (render (K_XlogLowWater (gig_cell_id g) (gig_edge_type g))) (encode_u64 (kv_seqnum db s))] s = Inr s'"
    using run v by (auto simp: gc_topology_changelog_to_def Let_def read_view and_then_eq_Inr map_ok_eq_Inr current_epoch_def)
  from gc_repair [OF ok v None this] show ?thesis .
next
  case (Some w)
  then obtain low where low: "w = encode_u64 low" by (rule floor_of [OF ok])
  let ?p = "keys_xlog_type_prefix (gig_cell_id g) (gig_edge_type g)" and ?base = "gig_base_sequence g"
  note low' = Some [unfolded low]
  show ?thesis
  proof (cases "s' = s")
    case True
    then show ?thesis using gc_effect_refl [OF ok] by simp
  next
    case False
    then obtain dead last_sequence capped operation where d: "\<not> ?base < low"
      "xlog_gc_scan ?p ?base (scan s ?p (pad20 low) None) [] low = Inr (dead, last_sequence, capped)" "dead \<noteq> []"
      "write_graph_batch_strict db shard (gig_cell_id g) operation (map GW_Delete dead @
        (if low < (if capped then last_sequence else saturating_add_u64 ?base 1)
         then [GW_Put (render (K_XlogLowWater (gig_cell_id g) (gig_edge_type g)))
           (encode_u64 (if capped then last_sequence else saturating_add_u64 ?base 1))] else [])) s = Inr s'"
      using run v low' unfolding gc_topology_changelog_to_def Let_def
      by (auto simp: read_view and_then_eq_Inr map_ok_eq_Inr split: if_splits)
    show ?thesis
      by (rule gc_collect [OF ok v low' _ base d(2,3) refl d(4)]) (use d(1) in simp)
  qed
qed

end

subsection \<open>Runs of requests and collections\<close>

text \<open>
  A run after a generation with base \<open>base\<close> was published: requests, and collections against generations
  no newer than it, in any order.
\<close>

inductive store_run ::
    "'s kv_db \<Rightarrow> 's scan_range \<Rightarrow> vertex_id \<Rightarrow> storage_sequence \<Rightarrow> graph_shard \<Rightarrow> 's \<Rightarrow> graph_shard \<Rightarrow> 's \<Rightarrow> bool"
  for db :: "'s kv_db" and scan :: "'s scan_range" and spare :: vertex_id and base :: storage_sequence where
  store_refl: "store_run db scan spare base shard s shard s"
| store_request: "store_run db scan spare base shard s shard1 s1 \<Longrightarrow> valid_request shard1 spare request \<Longrightarrow>
    run_request db request shard1 s1 = (shard2, Inr s2) \<Longrightarrow> store_run db scan spare base shard s shard2 s2"
| store_collect: "store_run db scan spare base shard s shard1 s1 \<Longrightarrow>
    valid_component (gig_cell_id g) \<Longrightarrow> valid_component (gig_edge_type g) \<Longrightarrow> gig_base_sequence g \<le> base \<Longrightarrow>
    gc_topology_changelog_to db scan shard1 g s1 = Inr (n, s2) \<Longrightarrow> store_run db scan spare base shard s shard1 s2"

text \<open>A pair with no entry above \<open>base\<close> has not changed since the contents \<open>old\<close>.\<close>

definition covers :: "graph_contents \<Rightarrow> storage_sequence \<Rightarrow> graph_contents \<Rightarrow> bool" where
  "covers old base view \<longleftrightarrow>
     (\<forall>c t a b. (\<forall>q > base. view (K_XlogEntry c t q a b) = None) \<longrightarrow> has_edge view c t a b = has_edge old c t a b)"

lemma covers_changed:
  assumes "covers old base view" "edges_changed c t src ds flag view view'" "log_changed c t src ds flag e view view'"
    and "base < e"
  shows "covers old base view'"
  unfolding covers_def
proof (intro allI impI)
  fix c' t' a b
  assume none: "\<forall>q > base. view' (K_XlogEntry c' t' q a b) = None"
  have entry: "view' (K_XlogEntry c' t' q a b) = (if c' = c \<and> t' = t \<and> q = e \<and> a = src \<and> b \<in> ds
      then Some (xlog_value flag) else view (K_XlogEntry c' t' q a b))" for q
    using assms(3) unfolding log_changed_def by blast
  have miss: "\<not> (c' = c \<and> t' = t \<and> a = src \<and> b \<in> ds)" using none entry [of e] assms(4) by auto
  then have "\<forall>q > base. view (K_XlogEntry c' t' q a b) = None" using none entry by auto
  with assms(1) have "has_edge view c' t' a b = has_edge old c' t' a b" unfolding covers_def by blast
  moreover have "has_edge view' c' t' a b = has_edge view c' t' a b"
    using assms(2) miss unfolding edges_changed_def by auto
  ultimately show "has_edge view' c' t' a b = has_edge old c' t' a b" by simp
qed

definition run_ok ::
    "'s kv_db \<Rightarrow> vertex_id \<Rightarrow> graph_contents \<Rightarrow> storage_sequence \<Rightarrow> graph_shard \<Rightarrow> 's \<Rightarrow> bool" where
  "run_ok db spare old base shard s \<longleftrightarrow>
     graph_ok db shard spare s \<and> base \<le> kv_seqnum db s \<and> covers old base (graph_view db s) \<and>
     (\<forall>c t. old (K_XlogLowWater c t) \<noteq> None \<longrightarrow>
        (\<exists>low. graph_view db s (K_XlogLowWater c t) = Some (encode_u64 low) \<and> low \<le> saturating_add_u64 base 1))"

context kv_range
begin

lemma run_ok_request:
  assumes r: "run_ok db spare old base shard s" and eff: "request_effect db spare shard s shard' s'"
  shows "run_ok db spare old base shard' s'"
proof -
  from eff consider "shard' = shard" "s' = s" | c t src ds flag where "committed db spare c t src ds flag shard s shard' s'"
    unfolding request_effect_def by blast
  then show ?thesis
  proof cases
    case 1
    then show ?thesis using r by simp
  next
    case 2
    then have ok: "graph_ok db shard' spare s'" and seq: "kv_seqnum db s < kv_seqnum db s'"
      and ch: "edges_changed c t src ds flag (graph_view db s) (graph_view db s')"
        "log_changed c t src ds flag (kv_seqnum db s') (graph_view db s) (graph_view db s')"
      unfolding committed_def stepped_def by blast+
    have base: "base \<le> kv_seqnum db s" and cov: "covers old base (graph_view db s)" using r by (simp_all add: run_ok_def)
    have "covers old base (graph_view db s')"
      by (rule covers_changed [OF cov ch le_less_trans [OF base seq]])
    moreover have "graph_view db s' (K_XlogLowWater c' t') = Some v"
      if "graph_view db s (K_XlogLowWater c' t') = Some v" for c' t' v
      using ch(2) that unfolding log_changed_def by (metis option.distinct(1))
    ultimately show ?thesis using r ok base seq unfolding run_ok_def by (meson less_imp_le order_trans)
  qed
qed

lemma run_ok_collect:
  assumes r: "run_ok db spare old base shard s" and eff: "gc_effect db spare base' shard s s'" and "base' \<le> base"
  shows "run_ok db spare old base shard s'"
proof -
  have same: "graph_view db s' (K_XlogEntry c t q a b) = graph_view db s (K_XlogEntry c t q a b)" if "base < q" for c t q a b
    using eff that assms(3) unfolding gc_effect_def by (meson le_less_trans)
  have "covers old base (graph_view db s')"
    using r eff by (simp add: run_ok_def gc_effect_def covers_def same)
  moreover have "\<exists>low'. graph_view db s' (K_XlogLowWater c t) = Some (encode_u64 low') \<and> low' \<le> saturating_add_u64 base 1"
    if low: "graph_view db s (K_XlogLowWater c t) = Some (encode_u64 low)" "low \<le> saturating_add_u64 base 1" for c t low
  proof -
    obtain l where l: "graph_view db s' (K_XlogLowWater c t) = Some (encode_u64 l)" "l = low \<or> l \<le> saturating_add_u64 base' 1"
      using eff low(1) unfolding gc_effect_def by (metis (no_types))
    then have "l \<le> saturating_add_u64 base 1" using low(2) saturating_succ_mono [OF assms(3)] by auto
    with l(1) show ?thesis by blast
  qed
  ultimately show ?thesis
    using r eff unfolding run_ok_def gc_effect_def by (meson order_trans)
qed

lemma run_covers:
  assumes "store_run db scan spare base shard s shard' s'" "base = kv_seqnum db s" "graph_ok db shard spare s"
  shows "run_ok db spare (graph_view db s) base shard' s'"
  using assms
proof induction
  case (store_refl shard s)
  note ok = store_refl(2)
  have "\<exists>low. graph_view db s (K_XlogLowWater c t) = Some (encode_u64 low) \<and> low \<le> saturating_add_u64 (kv_seqnum db s) 1"
    if some: "graph_view db s (K_XlogLowWater c t) \<noteq> None" for c t
  proof -
    obtain w where w: "graph_view db s (K_XlogLowWater c t) = Some w" using some by blast
    obtain low where "w = encode_u64 low" "low \<le> kv_seqnum db s" by (rule floor_of [OF ok w])
    then show ?thesis using w le_saturating_succ by auto
  qed
  then show ?case using store_refl by (simp add: run_ok_def covers_def)
next
  case (store_request shard s shard1 s1 request shard2 s2)
  note r = store_request.IH [OF store_request.prems]
  then have "graph_ok db shard1 spare s1" by (simp add: run_ok_def)
  from run_ok_request [OF r request_effect_ok [OF this store_request.hyps(2,3)]] show ?case .
next
  case (store_collect shard s shard1 s1 g n s2)
  note r = store_collect.IH [OF store_collect.prems]
  then have ok: "graph_ok db shard1 spare s1" "base \<le> kv_seqnum db s1" by (simp_all add: run_ok_def)
  from run_ok_collect [OF r gc_ok [OF ok(1) store_collect.hyps(2,3) order_trans [OF store_collect.hyps(4) ok(2)] store_collect.hyps(5)]
    store_collect.hyps(4)]
  show ?case .
qed

end

context kv_range
begin

lemma delta_cases:
  assumes "valid_component c" "valid_component t"
  shows "graph_view db s (K_XlogLowWater c t) = None \<Longrightarrow>
      xlog_delta_since db scan s previous base_sequence c t = Inr XD_Uninitialized"
    "graph_view db s (K_XlogLowWater c t) = Some (encode_u64 low) \<Longrightarrow>
      saturating_add_u64 (gig_base_sequence previous) 1 < low \<Longrightarrow>
      xlog_delta_since db scan s previous base_sequence c t = Inr (XD_CoverageGap low)"
  using assms by (simp_all add: xlog_delta_since_def Let_def read_view)

text \<open>The overlay of a run turns the edges before it into the edges after it.\<close>

lemma delta_patch:
  fixes previous
  assumes ok: "graph_ok db shard spare s" and run: "store_run db scan spare (kv_seqnum db s) shard s shard' s'"
    and v: "valid_component c" "valid_component t" and base: "gig_base_sequence previous = kv_seqnum db s"
    and now: "kv_seqnum db s' < u64_max"
    and low: "graph_view db s' (K_XlogLowWater c t) = Some (encode_u64 low)"
      "low \<le> saturating_add_u64 (kv_seqnum db s) 1"
  obtains ov where "xlog_delta_since db scan s' previous (kv_seqnum db s') c t = Inr (XD_Complete ov)" "overlay_inv ov"
    "\<And>a b. has_edge (graph_view db s') c t a b =
       (case overlay_state ov a b of Some e \<Rightarrow> e | None \<Rightarrow> has_edge (graph_view db s) c t a b)"
proof -
  have ok': "graph_ok db shard' spare s'" and cov: "kv_seqnum db s \<le> kv_seqnum db s'"
    "covers (graph_view db s) (kv_seqnum db s) (graph_view db s')"
    using run_covers [OF run refl ok] by (simp_all add: run_ok_def)
  obtain ov where ov: "xlog_delta_since db scan s' previous (kv_seqnum db s') c t = Inr (XD_Complete ov)" "overlay_inv ov"
    "\<And>a b e. overlay_state ov a b = Some e \<longleftrightarrow>
       (\<exists>q > kv_seqnum db s. graph_view db s' (K_XlogEntry c t q a b) \<noteq> None) \<and> e = has_edge (graph_view db s') c t a b"
    by (rule xlog_delta_complete [OF ok' v now, of previous low, unfolded base])
      (use cov low that in simp_all)
  have "has_edge (graph_view db s') c t a b =
       (case overlay_state ov a b of Some e \<Rightarrow> e | None \<Rightarrow> has_edge (graph_view db s) c t a b)" for a b
  proof (cases "overlay_state ov a b")
    case None
    then have "\<forall>q > kv_seqnum db s. graph_view db s' (K_XlogEntry c t q a b) = None"
      using ov(3) [of a b "has_edge (graph_view db s') c t a b"] by simp
    then show ?thesis using cov None unfolding covers_def by simp
  next
    case (Some e)
    then show ?thesis using ov(3) [of a b e] by simp
  qed
  with that [OF ov(1,2)] show ?thesis by blast
qed

end

end
