(* ===== verification/Index_Properties.thy ===== *)
theory Index_Properties
  imports Graph_Properties Changelog_Gc
begin

text \<open>
  The properties of the graph index: its kernel, its matrix form and files, the overlay of changes, and
  the changelog as the difference between two stores of a run.
\<close>

subsection \<open>The changelog\<close>

text \<open>
  C4.  Take a generation built at one store and any store reached from it by requests and by collections
  of the changelog against generations no newer than it.  Deriving the delta between them from the
  changelog never fails; when it reports a complete overlay, patching the
  adjacency of the generation with it gives exactly the edges of the later store, in canonical form; and
  it does report one whenever the pair of cell and edge type had a retention floor when the generation
  was built.
\<close>

theorem delta_patches_topology:
  assumes db: "kv_range db scan" and ok: "graph_ok db shard spare s" and run: "store_run db scan spare (kv_seqnum db s) shard s shard' s'"
    and v: "valid_component c" "valid_component t" and base: "gig_base_sequence previous = kv_seqnum db s"
    and now: "kv_seqnum db s' < u64_max"
    and adj: "adj_canonical adj" "adj_edges adj = topology_of db s (c, t)"
  shows "(\<exists>d. xlog_delta_since db scan s' previous (kv_seqnum db s') c t = Inr d \<and>
      (\<forall>ov. d = XD_Complete ov \<longrightarrow>
         adj_canonical (apply_overlay adj ov) \<and> adj_edges (apply_overlay adj ov) = topology_of db s' (c, t))) \<and>
    (graph_view db s (K_XlogLowWater c t) \<noteq> None \<longrightarrow>
      (\<exists>ov. xlog_delta_since db scan s' previous (kv_seqnum db s') c t = Inr (XD_Complete ov)))"
proof -
  have ok': "graph_ok db shard' spare s'"
    and cov: "\<And>c t. graph_view db s (K_XlogLowWater c t) \<noteq> None \<Longrightarrow>
      \<exists>low. graph_view db s' (K_XlogLowWater c t) = Some (encode_u64 low) \<and> low \<le> saturating_add_u64 (kv_seqnum db s) 1"
    using kv_range.run_covers [OF db run refl ok] unfolding run_ok_def by blast+
  have patch: "\<exists>ov. xlog_delta_since db scan s' previous (kv_seqnum db s') c t = Inr (XD_Complete ov) \<and>
      adj_canonical (apply_overlay adj ov) \<and> adj_edges (apply_overlay adj ov) = topology_of db s' (c, t)"
    if low: "graph_view db s' (K_XlogLowWater c t) = Some (encode_u64 low)" "low \<le> saturating_add_u64 (kv_seqnum db s) 1" for low
  proof -
    obtain ov where ov: "xlog_delta_since db scan s' previous (kv_seqnum db s') c t = Inr (XD_Complete ov)" "overlay_inv ov"
      "\<And>a b. has_edge (graph_view db s') c t a b =
         (case overlay_state ov a b of Some e \<Rightarrow> e | None \<Rightarrow> has_edge (graph_view db s) c t a b)"
      by (rule kv_range.delta_patch [OF db ok run v base now low]) (rule that)
    have "adj_edges (apply_overlay adj ov) = topology_of db s' (c, t)"
      unfolding set_eq_iff split_paired_All apply_overlay_edges(2) [OF adj(1) ov(2)] adj(2) topology_edge ov(3) by simp
    with ov(1) apply_overlay_edges(1) [OF adj(1) ov(2)] show ?thesis by blast
  qed
  show ?thesis
  proof (cases "graph_view db s' (K_XlogLowWater c t)")
    case None
    then have "graph_view db s (K_XlogLowWater c t) = None" using cov by force
    with kv_range.delta_cases(1) [OF db v None] show ?thesis by simp
  next
    case (Some w)
    then obtain low where low: "w = encode_u64 low" by (rule floor_of [OF ok'])
    show ?thesis
    proof (cases "low \<le> saturating_add_u64 (kv_seqnum db s) 1")
      case True
      then obtain ov where "xlog_delta_since db scan s' previous (kv_seqnum db s') c t = Inr (XD_Complete ov)"
        "adj_canonical (apply_overlay adj ov)" "adj_edges (apply_overlay adj ov) = topology_of db s' (c, t)"
        using patch Some low by blast
      then show ?thesis by simp
    next
      case False
      then have "graph_view db s (K_XlogLowWater c t) = None" using cov Some low by force
      with kv_range.delta_cases(2) [OF db v, of s' low previous] Some low False base show ?thesis by simp
    qed
  qed
qed

lemma example_logged_run:
  obtains shard' r s' where
    "write_edge_txn_locked mem_db example_shard example_mutation empty_store = (shard', Inr (r, s'))"
    "store_run mem_db mem_scan_range 0 0 example_shard empty_store shard' s'" "kv_seqnum mem_db s' = 1"
    "graph_view mem_db s' (K_XlogLowWater ''c1'' ''KNOWS'') = Some (encode_u64 1)"
    "topology_of mem_db s' (''c1'', ''KNOWS'') = {(1, 2)}"
proof -
  obtain shard' r s' where run: "write_edge_txn_locked mem_db example_shard example_mutation empty_store = (shard', Inr (r, s'))"
    by (rule example_write)
  have none: "\<not> has_edge (graph_view mem_db empty_store) c t a b" for c t a b
    using topology_edge [of a b mem_db empty_store c t] by (simp add: empty_topology)
  have c: "committed mem_db 0 ''c1'' ''KNOWS'' 1 {2} True example_shard empty_store shard' s'"
    using mem.write_edge_metadata_ok(2) [OF example_graph_ok [of 0] _ _ _ _ _ _ run [unfolded write_edge_txn_locked_def]] none
    by simp
  then have q: "kv_seqnum mem_db s' = 1" by (simp add: committed_def)
  have "log_changed ''c1'' ''KNOWS'' 1 {2} True 1 (graph_view mem_db empty_store) (graph_view mem_db s')"
    using c q by (simp add: committed_def stepped_def)
  then have "graph_view mem_db s' (K_XlogLowWater ''c1'' ''KNOWS'') = Some (encode_u64 1)"
    unfolding log_changed_def by (metis empty_not_insert empty_store_reads(1))
  moreover have "store_run mem_db mem_scan_range 0 0 example_shard empty_store shard' s'"
    by (rule store_request [OF store_refl, of _ _ "Write_Edge example_mutation [] default_edge_metadata ''write_edge''"])
      (use run in \<open>simp_all add: write_edge_txn_locked_def\<close>)
  moreover have "topology_of mem_db s' (''c1'', ''KNOWS'') = {(1, 2)}"
    using committed_topology [OF c] by (simp add: empty_topology add_edges_def)
  ultimately show ?thesis using that [OF run] q by blast
qed

definition example_generation :: graph_index_generation where
  "example_generation = \<lparr> gig_cell_id = ''c1'', gig_edge_type = ''KNOWS'', gig_base_sequence = 0, gig_last_wal_id = 0,
     gig_edge_count = 0, gig_checksum = 0, gig_generation = replicate 64 (CHR ''a'') \<rparr>"

theorem delta_patches_topology_witness:
  "\<exists>s' ov. xlog_delta_since mem_db mem_scan_range s' example_generation 1 ''c1'' ''KNOWS'' = Inr (XD_Complete ov) \<and>
    adj_edges (apply_overlay [] ov) = {(1, 2)}"
proof -
  obtain shard' r s' where r: "write_edge_txn_locked mem_db example_shard example_mutation empty_store = (shard', Inr (r, s'))"
    "store_run mem_db mem_scan_range 0 0 example_shard empty_store shard' s'" "kv_seqnum mem_db s' = 1"
    "graph_view mem_db s' (K_XlogLowWater ''c1'' ''KNOWS'') = Some (encode_u64 1)"
    "topology_of mem_db s' (''c1'', ''KNOWS'') = {(1, 2)}"
    by (rule example_logged_run)
  have base: "gig_base_sequence example_generation = kv_seqnum mem_db empty_store" by (simp add: example_generation_def)
  have now: "kv_seqnum mem_db s' < u64_max" using r(3) by (simp add: u64_max_def)
  have run: "store_run mem_db mem_scan_range 0 (kv_seqnum mem_db empty_store) example_shard empty_store shard' s'"
    using r(2) by simp
  obtain ov where "xlog_delta_since mem_db mem_scan_range s' example_generation (kv_seqnum mem_db s') ''c1'' ''KNOWS'' = Inr (XD_Complete ov)"
    by (rule mem_range.delta_patch [OF example_graph_ok run _ _ base now r(4)]) (simp_all add: saturating_add_u64_def)
  with delta_patches_topology [OF mem_range.kv_range_axioms example_graph_ok run _ _ base now, of "''c1''" "''KNOWS''" "[]"] r(3,5)
  show ?thesis by (intro exI [of _ s'] exI [of _ ov]) (simp add: empty_topology)
qed

text \<open>
  C10.  Collecting the changelog against a generation of the past changes no edge set and keeps the
  invariant; every entry above the base of the generation stays, so that a build that starts from it
  still finds all later changes.
\<close>

theorem collection_keeps_graph:
  assumes db: "kv_range db scan" and ok: "graph_ok db shard spare s"
    and v: "valid_component (gig_cell_id g)" "valid_component (gig_edge_type g)"
    and base: "gig_base_sequence g \<le> kv_seqnum db s" and run: "gc_topology_changelog_to db scan shard g s = Inr (n, s')"
  shows "graph_ok db shard spare s' \<and> topology_of db s' = topology_of db s \<and>
    (\<forall>c t q a b. gig_base_sequence g < q \<longrightarrow>
       graph_view db s' (K_XlogEntry c t q a b) = graph_view db s (K_XlogEntry c t q a b))"
  using kv_range.gc_ok [OF db ok v base run]
  by (simp add: gc_effect_def topology_of_def edges_of_def fun_eq_iff)

theorem collection_keeps_graph_witness:
  "\<exists>s'. gc_topology_changelog_to mem_db mem_scan_range example_shard example_generation empty_store = Inr (0, s') \<and>
    graph_ok mem_db example_shard 0 s' \<and> topology_of mem_db s' = (\<lambda>_. {})"
proof -
  have g: "valid_component (gig_cell_id example_generation)" "valid_component (gig_edge_type example_generation)"
    "gig_base_sequence example_generation \<le> kv_seqnum mem_db empty_store"
    by (simp_all add: example_generation_def)
  have "ensure_write_authority example_shard ''c1'' ''gc_topology_changelog'' = Inr ()"
    by (simp add: ensure_write_authority_def db_writer_def example_shard_def)
  then obtain s' where run: "gc_topology_changelog_to mem_db mem_scan_range example_shard example_generation empty_store = Inr (0, s')"
    by (simp add: gc_topology_changelog_to_def Let_def example_generation_def current_epoch_def ensure_cell_readable_def
        write_graph_batch_strict_def write_graph_batch_txn_def retry_at_once
        example_fence commit_txn_strict_def mem.seqnum_put checked_add_u64_def ok_or_def)
  from collection_keeps_graph [OF mem_range.kv_range_axioms example_graph_ok g run] run show ?thesis
    by (intro exI [of _ s']) (simp add: empty_topology)
qed

subsection \<open>The overlay\<close>

definition adj_out :: "adjacency \<Rightarrow> vertex_id \<Rightarrow> vertex_id btree_set" where
  "adj_out adj src = (case bt_get adj src of Some ds \<Rightarrow> ds | None \<Rightarrow> [])"

lemma adj_out:
  assumes "adj_canonical adj"
  shows "bs_inv (adj_out adj src)" "b \<in> set (adj_out adj src) \<longleftrightarrow> (src, b) \<in> adj_edges adj"
  using adj_canonicalD(2) [OF assms, of src] by (cases "bt_get adj src"; simp add: adj_out_def adj_edges_iff)+

text \<open>
  C17.  Reading neighbours through the overlay is reading them in the patched adjacency: for every overlay
  made by \<open>set\<close>, the out-neighbours of a vertex corrected by \<open>apply_out_neighbors\<close> are its row after the
  changes are applied, and its in-neighbours corrected by \<open>apply_in_neighbors\<close> are the sources of its
  edges then.
\<close>

theorem overlay_reads_patched:
  assumes "adj_canonical adj" "bs_inv sources" "set sources = {a. (a, dst) \<in> adj_edges adj}"
    and ov: "ov = foldl (\<lambda>ov (src, dst, exists). overlay_set ov src dst exists) overlay_default changes"
  shows "fst (apply_out_neighbors ov src (adj_out adj src)) = adj_out (apply_overlay adj ov) src \<and>
    set (fst (apply_in_neighbors ov dst sources)) = {a. (a, dst) \<in> adj_edges (apply_overlay adj ov)}"
proof -
  have inv: "overlay_inv ov" unfolding ov by (rule overlay_fold(1) [OF overlay_inv_default])
  note p = apply_overlay_edges [OF assms(1) inv]
  have "fst (apply_out_neighbors ov src (adj_out adj src)) = adj_out (apply_overlay adj ov) src"
    by (rule bs_ext [OF apply_out_neighbors_set(1) [OF inv adj_out(1) [OF assms(1)]] adj_out(1) [OF p(1)]])
      (simp add: set_eq_iff apply_out_neighbors_set(2) [OF inv adj_out(1) [OF assms(1)]] adj_out(2) [OF p(1)] adj_out(2) [OF assms(1)] p(2)
        cong: option.case_cong)
  moreover have "set (fst (apply_in_neighbors ov dst sources)) = {a. (a, dst) \<in> adj_edges (apply_overlay adj ov)}"
    using assms(3) by (simp add: set_eq_iff apply_in_neighbors_set(2) [OF inv assms(2)] p(2) split: option.splits)
  ultimately show ?thesis ..
qed

theorem overlay_reads_patched_witness:
  "fst (apply_out_neighbors (overlay_set overlay_default 1 3 True) 1 [2]) = [2, 3] \<and>
    adj_out (apply_overlay [(1, [2])] (overlay_set overlay_default 1 3 True)) 1 = [2, 3]"
proof -
  have can: "adj_canonical [(1, [2])]" by (simp add: adj_canonical_def)
  have s: "set [1 :: u64] = {a. (a, 2) \<in> adj_edges [(1, [2])]}" by (auto simp: adj_edges_iff)
  have "fst (apply_out_neighbors (overlay_set overlay_default 1 3 True) 1 [2]) = [2, 3]"
    by (simp add: apply_out_neighbors_def overlay_set_def overlay_default_def)
  with overlay_reads_patched [OF can _ s refl, of "[(1, 3, True)]" 1] show ?thesis
    by (simp add: adj_out_def)
qed

subsection \<open>The kernel\<close>

text \<open>
  C16.  The adjacency kernel returns, in increasing order and without duplicates, exactly the vertices
  other than the starts that a path of at most \<open>hops\<close> edges reaches from a start.
\<close>

theorem expand_rust_reachable:
  "sorted_wrt (<) (st_vertices (expand_rust adj starts hops)) \<and>
    (v \<in> set (st_vertices (expand_rust adj starts hops)) \<longleftrightarrow>
      v \<notin> set starts \<and> (\<exists>i y. i \<le> unat hops \<and> y \<in> set starts \<and> (y, v) \<in> adj_edges adj ^^ i))"
  using expand_rust_vertices [of adj starts hops] by (auto simp: bs_inv_def within_hops_path)

subsection \<open>The index files\<close>

text \<open>
  C15.  Compiling a canonical adjacency to its matrix always succeeds within the bounds of the kernel, and
  writing the matrix as an index payload, reading it back and unpacking it gives the adjacency again:
  every check of the reader (identity, checksum, shape) accepts what the builder wrote.
\<close>

theorem index_payload_roundtrip:
  assumes "adj_canonical adj" "adj_fits adj"
    and "length (encode_graph_index_csc q w (graphblas_csc_checksum (csc_of adj)) (csc_of adj)) < 2 ^ 64"
  shows "\<exists>csc. graphblas_csc_from_adjacency adj = Inr csc \<and>
    and_then (decode_graph_index_csc key (encode_graph_index_csc q w (graphblas_csc_checksum csc) csc) q w
      (graphblas_csc_checksum csc)) csc_to_adjacency = Inr adj"
  using csc_from_adjacency_eq [OF adj_canonicalD(1) [OF assms(1)] assms(2)] csc_roundtrip [OF assms(1,2)]
    decode_csc_payload [OF assms(3) refl csc_of_valid [OF assms(2)]]
  by simp

theorem index_payload_roundtrip_witness:
  "\<exists>csc. graphblas_csc_from_adjacency [(1, [2]), (2, [1, 3])] = Inr csc \<and>
    and_then (decode_graph_index_csc ''k'' (encode_graph_index_csc 7 4 (graphblas_csc_checksum csc) csc) 7 4
      (graphblas_csc_checksum csc)) csc_to_adjacency = Inr [(1, [2]), (2, [1, 3])]"
proof -
  let ?adj = "[(1, [2]), (2, [1, 3])] :: adjacency"
  have "adj_canonical ?adj" by (simp add: adj_canonical_def)
  moreover have vs: "adj_vertices ?adj = [1, 2, 3]" by code_simp
  then have "adj_fits ?adj" by (simp add: adj_fits_def GRAPHBLAS_INDEX_MAX_def)
  moreover have "length (encode_graph_index_csc 7 4 (graphblas_csc_checksum (csc_of ?adj)) (csc_of ?adj)) < 2 ^ 64"
    by (simp add: encode_graph_index_csc_def encode_index_u64s_def csc_of_def vs INDEX_CSC_MAGIC_def length_concat Let_def)
  ultimately show ?thesis by (rule index_payload_roundtrip)
qed

text \<open>
  C37.  A published manifest is read back as the generation it was written for, and the base sequence of a
  generation can be read off the path of its payload, as the collection of old generations does.
\<close>

theorem index_manifest_roundtrip:
  assumes "generation_ok g"
  shows "decode_graph_index_manifest key (encode_graph_index_manifest g) = Inr g \<and>
    graph_index_sequence_from_path
      (graph_index_generation_path store (gig_cell_id g) (gig_edge_type g) (gig_base_sequence g) (gig_generation g)) =
    Inr (gig_base_sequence g)"
  using decode_manifest_encode [OF assms] sequence_from_generation_path assms by (simp add: generation_ok_def)

theorem index_manifest_roundtrip_witness:
  "decode_graph_index_manifest ''k'' (encode_graph_index_manifest example_generation) = Inr example_generation"
proof -
  have "generation_ok example_generation" by (simp add: generation_ok_def example_generation_def) code_simp
  from index_manifest_roundtrip [OF this] show ?thesis by blast
qed

end
