(* ===== verification/Spec2Isabelle.thy ===== *)
theory Spec2Isabelle
  imports Query_Stats Namespace Placement_View Lease_Protocol Index_Properties
begin

text \<open>
  A verification development of the HydraDB kernel, a graph database over an ordered key-value store
  (SlateDB) and an object store.  File names below are relative to the repository.

  \<^bold>\<open>The program.\<close>  A shard stores the graphs of its cells as key-value records.  Key builders
  (\<open>src/keys.rs\<close>) and record codecs (\<open>src/codec.rs\<close>) fix the format.  Write transactions
  (\<open>src/shard/write.rs\<close>) keep edge records, adjacency segments with tombstones, degree counters,
  relationships, property indexes, idempotency records and an edge changelog in step.  The changelog
  (\<open>src/shard/xlog.rs\<close>) and the sparse kernels (\<open>src/sparse_kernel/mod.rs\<close>) feed the published graph
  index (\<open>src/engine/index_store.rs\<close>).  Which node may write a cell is decided by rendezvous placement
  over heartbeats (\<open>crates/placement\<close>, \<open>src/engine/placement.rs\<close>) and enforced by writer leases
  (\<open>src/engine/writer_lease.rs\<close>).

  \<^bold>\<open>Foundations.\<close>  \<open>Prelude\<close>, \<open>Rust_Std\<close>, \<open>Rust_Text\<close> and \<open>BTree\<close> model what the code uses of the
  Rust standard library: results with \<open>?\<close>, 64-bit words with checked, saturating and wrapping
  arithmetic, number formatting and parsing, UTF-8 text, ordered maps and sets.  \<open>Errors\<close> is
  \<open>GraphError\<close> with its failure classes; every error return of the modelled code is a value of it.
  \<open>Model\<close> is \<open>src/core/model.rs\<close>.

  \<^bold>\<open>Formats.\<close>  \<open>Keys\<close> has one definition per key builder and \<open>Key_Space\<close> shows that rendering is
  injective, that a prefix scan returns exactly one family and that padded numbers sort as numbers.
  \<open>Codec_Values\<close>, \<open>Codec_Records\<close>, \<open>Codec_Idempotency\<close> and \<open>Query_Stats\<close> are the codecs with their
  round trips, the order of the property-index encoding, the exactness of idempotent replay (the
  locale \<open>idempotency_codec\<close>, interpreted for nine record kinds) and the Bloom filter.  \<open>Namespace\<close>
  shows that graph scopes never share a store path.

  \<^bold>\<open>Write path.\<close>  \<open>Graph_Txn\<close> and \<open>Edge_Writes\<close> translate the transactions in full: \<open>write_edge\<close> with
  its metadata variants, \<open>delete_edge\<close>, segment append, creating, updating and deleting relationships,
  \<open>set_vertex_metadata\<close>, and the retry loop.  SlateDB is the record \<open>kv_db\<close> passed to every definition;
  the locale \<open>kv_store\<close> states its documented laws, and an engine over one ordered map interprets it.
  \<open>Graph_State\<close> gives a store its meaning (\<open>has_edge\<close>), \<open>Txn_Effects\<close>, \<open>Index_Effects\<close> (locale
  \<open>secondary_index\<close>), \<open>Edge_Effects\<close> and \<open>Edge_Removal\<close> the effect of each helper, \<open>Topology\<close> and
  \<open>Graph_Invariant\<close> the invariant \<open>graph_ok\<close>, and \<open>Write_Steps\<close>, \<open>Removal_Steps\<close> and
  \<open>Relationship_Steps\<close> show that every transaction keeps it.  \<open>Graph_Runs\<close> closes this under sequences
  of requests.  \<open>Graph_Properties\<close> states the results: each operation refines an update of the abstract
  edge set, replays change nothing, accepted writes make progress, reads of a reachable store never
  fail, neighbours agree with degree counters, and the search and retry loops end.

  \<^bold>\<open>Index.\<close>  \<open>Adjacency\<close> holds adjacency maps, the topology overlay and the breadth-first kernel,
  \<open>Csc_Matrix\<close> the compressed column form, \<open>Index_Codec\<close> the payload, manifest and paths of a
  generation, \<open>Changelog\<close> the delta read from the changelog (the range scan of the engine is the locale
  \<open>kv_range\<close>), and \<open>Changelog_Gc\<close> its collection, as one step on the store it reads, with the runs
  that mix requests and collections.  \<open>Index_Properties\<close> shows that the kernel computes bounded
  reachability, that payloads and manifests are read back, that reading through the overlay is reading
  the patched adjacency, that a collection changes no edge set, and that the delta between two stores of
  such a run turns the edges of the first into those of the second.

  \<^bold>\<open>Placement and leases.\<close>  \<open>Rendezvous\<close> (locale \<open>best_choice\<close>), \<open>Liveness\<close> and \<open>Placement_View\<close>
  show agreement, minimal disruption, the live set of a listing, that of two nodes which installed the
  same listing at most one may promote itself for a cell, and that a partitioned node sheds its view.  \<open>Writer_Lease\<close> models every operation on the lease directory, and \<open>Lease_Protocol\<close> interleaves
  the pieces between awaits of any number of processes and proves mutual exclusion.

  \<^bold>\<open>Hypotheses and bounds.\<close>  Storage-engine, object-store and clock behaviour are parameters with
  named laws.  \<open>spare\<close> is a vertex id no edge uses, so that no degree counter reaches \<open>2 ^ 64\<close>; without
  such an id a counter could wrap.  A segment append carries fewer than \<open>2 ^ 61\<close> destinations, and
  \<open>adj_fits\<close> bounds a matrix by the kernel's index limit and by \<open>2 ^ 61\<close> edges, more than an address
  space holds.  The delta of the changelog is stated below the last storage sequence.  The retry loop
  is bounded by \<open>GRAPH_TXN_MAX_RETRIES\<close> as in the code, and the search for a free relationship id ends
  by a measure; no definition needs fuel.  A transaction is atomic: it sees one store and its commit
  either publishes the whole of its writes or fails.

  \<^bold>\<open>Not modelled.\<close>  Batch importers, vertex deletion and cell drop (loops over single transactions
  with their own admission); the write pipeline, permits and lanes (concurrency control around the
  atomic transactions); building, publishing and collecting index generations
  (object-store requests around the modelled functions); collecting the overlay from
  write-ahead-log files, which belong to the storage engine; the Cypher front end, planner and
  executors, whose parser is generated at build time; the SuiteSparse bindings; network protocols,
  programs, configuration, caches, metrics, telemetry and importers, which are I/O.
\<close>

end
